(* ===== verification/Prelude.thy ===== *)
theory Prelude
  imports Main "HOL-Library.Word" "HOL-Library.AList"
begin

text \<open>
  Shared vocabulary of the development: the machine integers and byte strings of the Go
  program, the big-endian accessors of \<open>encoding/binary\<close>, the string helpers of
  \<open>strings\<close> that the source calls, association lists standing for Go maps, and the
  generic lemmas the component theories use. Theorem collections:
  \<open>go_bytes\<close> (byte order round trips) and \<open>go_maps\<close> (map updates).
\<close>

unbundle bit_operations_syntax

named_theorems go_bytes "round trips of the big-endian accessors"
named_theorems go_maps "lookups in updated Go maps"

section \<open>Machine integers and byte strings\<close>

type_synonym byte = "8 word"
type_synonym u16 = "16 word"
type_synonym u32 = "32 word"
type_synonym i32 = "32 word"
type_synonym i64 = "64 word"
type_synonym bytes = "byte list"

text \<open>A Go call returns a value, returns an error, or panics.\<close>

datatype ('e, 'a) go = Ret 'a | Err 'e | Panic

fun go_bind :: "('e, 'a) go \<Rightarrow> ('a \<Rightarrow> ('e, 'b) go) \<Rightarrow> ('e, 'b) go" where
  "go_bind (Ret x) f = f x"
| "go_bind (Err e) f = Err e"
| "go_bind Panic f = Panic"

lemma go_bind_no_panic:
  assumes "m \<noteq> Panic" and "\<And>x. m = Ret x \<Longrightarrow> f x \<noteq> Panic"
  shows "go_bind m f \<noteq> Panic"
  using assms by (cases m) auto

section \<open>Big-endian accessors\<close>

text \<open>\<open>binary.BigEndian.PutUint16\<close> and \<open>PutUint32\<close>: the bytes they store.\<close>

definition put_u16 :: "u16 \<Rightarrow> bytes" where
  "put_u16 w = [ucast (drop_bit 8 w), ucast w]"

definition put_u32 :: "u32 \<Rightarrow> bytes" where
  "put_u32 w = [ucast (drop_bit 24 w), ucast (drop_bit 16 w), ucast (drop_bit 8 w), ucast w]"

text \<open>
  \<open>binary.BigEndian.Uint16\<close> and \<open>Uint32\<close>: a slice that is too short is an index out of
  range (None: the call panics); a longer one is read at its first bytes.
\<close>

fun get_u16 :: "bytes \<Rightarrow> u16 option" where
  "get_u16 (a # b # _) = Some (push_bit 8 (ucast a) OR ucast b)"
| "get_u16 _ = None"

fun get_u32 :: "bytes \<Rightarrow> u32 option" where
  "get_u32 (a # b # c # d # _) =
     Some (push_bit 24 (ucast a) OR push_bit 16 (ucast b) OR push_bit 8 (ucast c) OR ucast d)"
| "get_u32 _ = None"

lemma length_put_u16 [simp]: "length (put_u16 w) = 2"
  by (simp add: put_u16_def)

lemma length_put_u32 [simp]: "length (put_u32 w) = 4"
  by (simp add: put_u32_def)

lemma get_put_u16 [simp, go_bytes]: "get_u16 (put_u16 w @ xs) = Some w"
proof -
  have "push_bit 8 (ucast (ucast (drop_bit 8 w) :: byte)) OR ucast (ucast w :: byte) = w"
    by (rule bit_word_eqI) (auto simp: bit_simps)
  then show ?thesis by (simp add: put_u16_def)
qed

lemma u32_of_bytes:
  fixes w :: u32
  shows "push_bit 24 (ucast (ucast (drop_bit 24 w) :: byte)) OR push_bit 16 (ucast (ucast (drop_bit 16 w) :: byte))
      OR push_bit 8 (ucast (ucast (drop_bit 8 w) :: byte)) OR ucast (ucast w :: byte) = w"
proof (rule bit_word_eqI)
  fix n
  assume "n < LENGTH(32)"
  then consider "n < 8" | "8 \<le> n" "n < 16" | "16 \<le> n" "n < 24" | "24 \<le> n" "n < 32"
    by force
  then show "bit (push_bit 24 (ucast (ucast (drop_bit 24 w) :: byte)) OR push_bit 16 (ucast (ucast (drop_bit 16 w) :: byte))
      OR push_bit 8 (ucast (ucast (drop_bit 8 w) :: byte)) OR ucast (ucast w :: byte) :: u32) n = bit w n"
    by cases (auto simp: bit_simps)
qed

lemma get_put_u32 [simp, go_bytes]: "get_u32 (put_u32 w @ xs) = Some w"
  by (simp add: put_u32_def u32_of_bytes)

lemma get_put_u16_nil [simp, go_bytes]: "get_u16 (put_u16 w) = Some w"
  using get_put_u16 [of w "[]"] by simp

lemma get_put_u32_nil [simp, go_bytes]: "get_u32 (put_u32 w) = Some w"
  using get_put_u32 [of w "[]"] by simp

lemma get_u16_defined: "2 \<le> length xs \<Longrightarrow> \<exists>w. get_u16 xs = Some w"
  by (cases xs rule: get_u16.cases) auto

lemma get_u32_defined: "4 \<le> length xs \<Longrightarrow> \<exists>w. get_u32 xs = Some w"
  by (cases xs rule: get_u32.cases) auto

lemma put_get_u32 [go_bytes]:
  fixes a b c d :: byte
  shows "put_u32 (push_bit 24 (ucast a) OR push_bit 16 (ucast b) OR push_bit 8 (ucast c) OR ucast d) = [a, b, c, d]"
  unfolding put_u32_def
  by (intro arg_cong2 [where f = Cons] bit_word_eqI refl)
    (auto simp: bit_simps dest: bit_imp_le_length)

lemma get_u32_Some:
  assumes "get_u32 xs = Some w" and "length xs = 4"
  shows "put_u32 w = xs"
proof -
  from assms(2) obtain a b c d where xs: "xs = [a, b, c, d]"
    by (auto simp: length_Suc_conv numeral_eq_Suc)
  from assms(1) have "w = push_bit 24 (ucast a) OR push_bit 16 (ucast b) OR push_bit 8 (ucast c) OR ucast d"
    by (simp add: xs)
  then show ?thesis by (simp only: xs put_get_u32)
qed

lemma replicate_numeral: "replicate (numeral k) x = x # replicate (pred_numeral k) x"
  by (simp add: numeral_eq_Suc)

lemma update_new [go_maps]: "k \<notin> fst ` set l \<Longrightarrow> AList.update k x l = l @ [(k, x)]"
  by (induction l) auto

lemma set_delete [go_maps]: "set (AList.delete n l) = {x \<in> set l. fst x \<noteq> n}"
  by (auto simp: AList.delete_eq)

end
