(* ===== verification/Frames.thy ===== *)
theory Frames
  imports Prelude GoStrings
begin

text \<open>
  The framing of the relay control connection: \<open>writeFrame\<close> and \<open>readFrame\<close> of the server
  (\<open>signal-server/main.go\<close>) and of the client (\<open>relay/relay.go\<close>), over a model of the two
  directions of a \<open>net.Conn\<close>. Both sides carry their own copy of the code, so both are
  modelled; the locale \<open>frame_link\<close> is the contract between a writer and a reader, and it is
  interpreted for the two directions of the link.
\<close>

section \<open>Connections\<close>

text \<open>
  The read side of a connection is the sequence of what the peer's bytes and the clock do:
  a byte arrives, a read deadline expires, or the connection fails for good. The end of the
  list is the end of the stream.
\<close>

datatype rd = RByte byte | RTimeout | RFail string

datatype io_err =
    EOF
  | UnexpectedEOF
  | Timeout
  | ConnErr string
  | FrameTooLarge u32
  | NotControl byte
  | BadJSON

text \<open>
  \<open>io.ReadFull\<close> on a buffer of \<open>n\<close> bytes: it keeps reading until the buffer is full. An
  error in the middle loses the bytes read so far, and the end of the stream after at least
  one byte is \<open>ErrUnexpectedEOF\<close>.
\<close>

fun read_full :: "nat \<Rightarrow> bytes \<Rightarrow> rd list \<Rightarrow> (io_err + bytes) \<times> rd list" where
  "read_full 0 acc s = (Inr acc, s)"
| "read_full (Suc n) acc [] = (Inl (if acc = [] then EOF else UnexpectedEOF), [])"
| "read_full (Suc n) acc (RByte b # s) = read_full n (acc @ [b]) s"
| "read_full (Suc n) acc (RTimeout # s) = (Inl Timeout, s)"
| "read_full (Suc n) acc (RFail e # s) = (Inl (ConnErr e), RFail e # s)"

text \<open>
  The write side: the bytes handed to the peer so far and, when the connection is going to
  break, how many more bytes it takes before \<open>Write\<close> fails (None: it never does).
\<close>

record wconn =
  w_sent :: bytes
  w_room :: "nat option"

definition conn_write :: "bytes \<Rightarrow> wconn \<Rightarrow> io_err option \<times> wconn" where
  "conn_write bs w = (case w_room w of
       None \<Rightarrow> (None, w\<lparr>w_sent := w_sent w @ bs\<rparr>)
     | Some r \<Rightarrow>
         if length bs \<le> r
         then (None, w\<lparr>w_sent := w_sent w @ bs, w_room := Some (r - length bs)\<rparr>)
         else (Some (ConnErr ''broken pipe''), w\<lparr>w_sent := w_sent w @ take r bs, w_room := Some 0\<rparr>))"

section \<open>Frames\<close>

definition frameControl :: byte where "frameControl = 0"
definition frameData :: byte where "frameData = 1"
definition frameClose :: byte where "frameClose = 2"
definition frameDataCompressed :: byte where "frameDataCompressed = 3"
definition frameHeaderSize :: nat where "frameHeaderSize = 1 + 4 + 4"
definition maxFrameSize :: u32 where "maxFrameSize = 65536"

text \<open>\<open>frameTypeName\<close> of the server and of the client, for the logs.\<close>

definition srv_frameTypeName :: "byte \<Rightarrow> string" where
  "srv_frameTypeName t =
     (if t = frameControl then ''control''
      else if t = frameData then ''data''
      else if t = frameClose then ''close''
      else if t = frameDataCompressed then ''data-compressed''
      else ''unknown('' @ itoa (uint t) @ '')'')"

definition cli_frameTypeName :: "byte \<Rightarrow> string" where
  "cli_frameTypeName t =
     (if t = frameControl then ''control''
      else if t = frameData then ''data''
      else if t = frameClose then ''close''
      else if t = frameDataCompressed then ''data-compressed''
      else ''unknown('' @ itoa (uint t) @ '')'')"

lemmas frame_consts = frameControl_def frameData_def frameClose_def frameDataCompressed_def
  frameHeaderSize_def maxFrameSize_def

record frame =
  f_type :: byte
  f_chan :: u32
  f_payload :: bytes

subsection \<open>The server's copy\<close>

definition srv_writeFrame :: "byte \<Rightarrow> u32 \<Rightarrow> bytes \<Rightarrow> wconn \<Rightarrow> io_err option \<times> wconn" where
  "srv_writeFrame frameType channelID payload conn =
     (let header = [frameType] @ put_u32 channelID @ put_u32 (of_nat (length payload))
      in case conn_write header conn of
           (Some e, conn1) \<Rightarrow> (Some e, conn1)
         | (None, conn1) \<Rightarrow>
             if 0 < length payload then conn_write payload conn1 else (None, conn1))"

definition srv_readFrame :: "rd list \<Rightarrow> (io_err, frame) go \<times> rd list" where
  "srv_readFrame s =
     (case read_full frameHeaderSize [] s of
        (Inl e, s1) \<Rightarrow> (Err e, s1)
      | (Inr header, s1) \<Rightarrow>
          (case (get_u32 (take 4 (drop 1 header)), get_u32 (take 4 (drop 5 header))) of
             (Some channelID, Some payloadLen) \<Rightarrow>
               if payloadLen > maxFrameSize then (Err (FrameTooLarge payloadLen), s1)
               else (case (if payloadLen > 0 then read_full (unat payloadLen) [] s1 else (Inr [], s1)) of
                       (Inl e, s2) \<Rightarrow> (Err e, s2)
                     | (Inr payload, s2) \<Rightarrow>
                         (Ret \<lparr>f_type = hd header, f_chan = channelID, f_payload = payload\<rparr>, s2))
           | _ \<Rightarrow> (Panic, s1)))"

subsection \<open>The client's copy\<close>

definition cli_writeFrame :: "byte \<Rightarrow> u32 \<Rightarrow> bytes \<Rightarrow> wconn \<Rightarrow> io_err option \<times> wconn" where
  "cli_writeFrame frameType channelID payload conn =
     (let header = [frameType] @ put_u32 channelID @ put_u32 (of_nat (length payload))
      in case conn_write header conn of
           (Some e, conn1) \<Rightarrow> (Some e, conn1)
         | (None, conn1) \<Rightarrow>
             if 0 < length payload then conn_write payload conn1 else (None, conn1))"

definition cli_readFrame :: "rd list \<Rightarrow> (io_err, frame) go \<times> rd list" where
  "cli_readFrame s =
     (case read_full frameHeaderSize [] s of
        (Inl e, s1) \<Rightarrow> (Err e, s1)
      | (Inr header, s1) \<Rightarrow>
          (case (get_u32 (take 4 (drop 1 header)), get_u32 (take 4 (drop 5 header))) of
             (Some channelID, Some payloadLen) \<Rightarrow>
               if payloadLen > maxFrameSize then (Err (FrameTooLarge payloadLen), s1)
               else (case (if payloadLen > 0 then read_full (unat payloadLen) [] s1 else (Inr [], s1)) of
                       (Inl e, s2) \<Rightarrow> (Err e, s2)
                     | (Inr payload, s2) \<Rightarrow>
                         (Ret \<lparr>f_type = hd header, f_chan = channelID, f_payload = payload\<rparr>, s2))
           | _ \<Rightarrow> (Panic, s1)))"

section \<open>The wire format\<close>

text \<open>What a frame looks like on the wire, the specification both copies are compared with.\<close>

definition enc_frame :: "frame \<Rightarrow> bytes" where
  "enc_frame f = [f_type f] @ put_u32 (f_chan f) @ put_u32 (of_nat (length (f_payload f))) @ f_payload f"

lemma frame_eta [simp]: "\<lparr>f_type = f_type f, f_chan = f_chan f, f_payload = f_payload f\<rparr> = f"
  by (cases f) simp

definition frame_ok :: "frame \<Rightarrow> bool" where
  "frame_ok f \<longleftrightarrow> length (f_payload f) \<le> unat maxFrameSize"

lemma length_enc_frame [simp]: "length (enc_frame f) = frameHeaderSize + length (f_payload f)"
  by (simp add: enc_frame_def frameHeaderSize_def)

lemma read_full_bytes [simp]:
  "read_full (length bs) acc (map RByte bs @ s) = (Inr (acc @ bs), s)"
  by (induction bs arbitrary: acc) auto

lemma read_full_Inr:
  "read_full n acc s = (Inr bs, s') \<Longrightarrow> \<exists>cs. bs = acc @ cs \<and> length cs = n \<and> s = map RByte cs @ s'"
proof (induction n acc s rule: read_full.induct)
  case (3 n acc b s)
  then obtain cs where "bs = (acc @ [b]) @ cs" "length cs = n" "s = map RByte cs @ s'"
    by auto
  then show ?case by (intro exI [of _ "b # cs"]) simp
qed auto

lemma read_full_short:
  "length bs < n \<Longrightarrow>
    read_full n acc (map RByte bs) = (Inl (if acc @ bs = [] then EOF else UnexpectedEOF), [])"
  by (induction bs arbitrary: n acc) (auto simp: less_Suc_eq_0_disj gr0_conv_Suc Suc_less_eq2)

lemma read_full_timeout:
  "length bs < n \<Longrightarrow> read_full n acc (map RByte bs @ RTimeout # s) = (Inl Timeout, s)"
  by (induction bs arbitrary: n acc) (auto simp: less_Suc_eq_0_disj gr0_conv_Suc Suc_less_eq2)

definition enc_header :: "byte \<Rightarrow> u32 \<Rightarrow> u32 \<Rightarrow> bytes" where
  "enc_header t c l = [t] @ put_u32 c @ put_u32 l"

lemma length_enc_header [simp]: "length (enc_header t c l) = frameHeaderSize"
  by (simp add: enc_header_def frameHeaderSize_def)

lemma enc_header_fields [simp]:
  "hd (enc_header t c l) = t"
  "take 4 (drop (Suc 0) (enc_header t c l)) = put_u32 c"
  "take 4 (drop 5 (enc_header t c l)) = put_u32 l"
  by (simp_all add: enc_header_def put_u32_def)

lemma enc_frame_header: "enc_frame f = enc_header (f_type f) (f_chan f) (of_nat (length (f_payload f))) @ f_payload f"
  by (simp add: enc_frame_def enc_header_def)

text \<open>Any nine bytes are a header.\<close>

lemma header_cases:
  assumes "length h = frameHeaderSize"
  obtains t c l where "h = enc_header t c l"
proof -
  from assms obtain t bs where h: "h = t # bs" and "length bs = 4 + 4"
    by (cases h) (auto simp: frameHeaderSize_def)
  then have l: "length (take 4 bs) = 4" "length (drop 4 bs) = 4" by auto
  then obtain c d where "get_u32 (take 4 bs) = Some c" "get_u32 (drop 4 bs) = Some d"
    using get_u32_defined by (metis order_refl)
  with l have "put_u32 c = take 4 bs" "put_u32 d = drop 4 bs"
    by (auto dest: get_u32_Some)
  then have "h = enc_header t c d" by (simp add: h enc_header_def)
  then show ?thesis by (rule that)
qed

text \<open>What \<open>readFrame\<close> does once it has the header.\<close>

definition read_payload :: "byte \<Rightarrow> u32 \<Rightarrow> u32 \<Rightarrow> rd list \<Rightarrow> (io_err, frame) go \<times> rd list" where
  "read_payload t c l s =
     (if l > maxFrameSize then (Err (FrameTooLarge l), s)
      else case read_full (unat l) [] s of
             (Inl e, s2) \<Rightarrow> (Err e, s2)
           | (Inr payload, s2) \<Rightarrow> (Ret \<lparr>f_type = t, f_chan = c, f_payload = payload\<rparr>, s2))"

lemma srv_readFrame_header:
  "srv_readFrame (map RByte (enc_header t c l) @ s) = read_payload t c l s"
proof -
  have "read_full frameHeaderSize [] (map RByte (enc_header t c l) @ s) = (Inr (enc_header t c l), s)"
    using read_full_bytes [of "enc_header t c l" "[]" s] by simp
  then show ?thesis
    by (cases "l = 0") (auto simp: srv_readFrame_def read_payload_def word_gt_0 split: sum.splits prod.splits)
qed

lemma srv_readFrame_cases:
  obtains (no_header) e s1 where "read_full frameHeaderSize [] s = (Inl e, s1)" "srv_readFrame s = (Err e, s1)"
  | (header) t c l s1 where "s = map RByte (enc_header t c l) @ s1" "srv_readFrame s = read_payload t c l s1"
proof (cases "read_full frameHeaderSize [] s")
  case (Pair r s1)
  show ?thesis
  proof (cases r)
    case (Inl e)
    with Pair show ?thesis by (intro no_header [of e s1]) (auto simp: srv_readFrame_def)
  next
    case (Inr h)
    with Pair have "length h = frameHeaderSize" "s = map RByte h @ s1"
      by (auto dest: read_full_Inr)
    then show ?thesis
      by (metis header header_cases srv_readFrame_header)
  qed
qed

lemma read_payload_Ret:
  "read_payload t c l s = (Ret f, s') \<Longrightarrow>
     f_type f = t \<and> f_chan f = c \<and> length (f_payload f) = unat l \<and> l \<le> maxFrameSize
       \<and> s = map RByte (f_payload f) @ s'"
  by (auto simp: read_payload_def split: if_splits sum.splits prod.splits dest!: read_full_Inr)

lemma read_payload_no_panic: "fst (read_payload t c l s) \<noteq> Panic"
  by (auto simp: read_payload_def split: sum.splits prod.splits)

lemma unat_frame_len:
  "frame_ok f \<Longrightarrow> unat (of_nat (length (f_payload f)) :: u32) = length (f_payload f)"
  by (simp add: frame_ok_def maxFrameSize_def unat_of_nat)

lemma frame_ok_len: "frame_ok f \<Longrightarrow> \<not> (of_nat (length (f_payload f)) :: u32) > maxFrameSize"
  using unat_frame_len [of f] by (simp add: word_less_nat_alt frame_ok_def)

lemma srv_readFrame_enc:
  assumes "frame_ok f"
  shows "srv_readFrame (map RByte (enc_frame f) @ s) = (Ret f, s)"
proof -
  have "srv_readFrame (map RByte (enc_frame f) @ s)
      = read_payload (f_type f) (f_chan f) (of_nat (length (f_payload f))) (map RByte (f_payload f) @ s)"
    by (simp add: enc_frame_header srv_readFrame_header)
  also have "\<dots> = (Ret f, s)"
    using frame_ok_len [OF assms] unat_frame_len [OF assms]
      read_full_bytes [of "f_payload f" "[]" s]
    by (simp add: read_payload_def)
  finally show ?thesis .
qed

lemma srv_readFrame_Ret:
  assumes "srv_readFrame s = (Ret f, s')"
  shows "frame_ok f \<and> s = map RByte (enc_frame f) @ s'"
proof (rule srv_readFrame_cases [of s])
  fix t c l s1
  assume s: "s = map RByte (enc_header t c l) @ s1" and "srv_readFrame s = read_payload t c l s1"
  with assms have "read_payload t c l s1 = (Ret f, s')" by simp
  then have f: "f_type f = t" "f_chan f = c" "length (f_payload f) = unat l" "l \<le> maxFrameSize"
      "s1 = map RByte (f_payload f) @ s'"
    by (auto dest: read_payload_Ret)
  then have "frame_ok f" by (simp add: frame_ok_def word_le_nat_alt)
  moreover have "enc_frame f = enc_header t c l @ f_payload f"
    using f by (simp add: enc_frame_header)
  ultimately show ?thesis using s f by simp
qed (use assms in auto)

lemma srv_readFrame_no_panic: "fst (srv_readFrame s) \<noteq> Panic"
  by (rule srv_readFrame_cases [of s]) (auto simp: read_payload_no_panic)

text \<open>
  A stream that ends inside a frame: an error, and the clean end of stream \<open>EOF\<close> not only at
  a frame boundary but also right after a header.
\<close>

definition cut_err :: "nat \<Rightarrow> io_err" where
  "cut_err k = (if k = 0 \<or> k = frameHeaderSize then EOF else UnexpectedEOF)"

lemma srv_readFrame_cut:
  assumes "frame_ok f" and "k < length (enc_frame f)"
  shows "srv_readFrame (map RByte (take k (enc_frame f))) = (Err (cut_err k), [])"
proof (cases "k < frameHeaderSize")
  case True
  moreover have "take k (enc_frame f) = [] \<longleftrightarrow> k = 0" by (simp add: enc_frame_def)
  ultimately have "read_full frameHeaderSize [] (map RByte (take k (enc_frame f))) = (Inl (cut_err k), [])"
    using assms(2) by (subst read_full_short) (auto simp: cut_err_def)
  then show ?thesis by (simp add: srv_readFrame_def)
next
  case False
  let ?p = "take (k - frameHeaderSize) (f_payload f)"
  have "take k (enc_frame f) = enc_header (f_type f) (f_chan f) (of_nat (length (f_payload f))) @ ?p"
    using False by (simp add: enc_frame_header)
  then have "srv_readFrame (map RByte (take k (enc_frame f)))
      = read_payload (f_type f) (f_chan f) (of_nat (length (f_payload f))) (map RByte ?p)"
    by (simp add: srv_readFrame_header)
  also have "\<dots> = (Err (cut_err k), [])"
  proof -
    have len: "length ?p < length (f_payload f)" using assms(2) False by simp
    then have ne: "?p = [] \<longleftrightarrow> k \<le> frameHeaderSize" by auto
    show ?thesis
      using read_full_short [of ?p "length (f_payload f)" "[]"] len ne False
        frame_ok_len [OF assms(1)] unat_frame_len [OF assms(1)]
      by (auto simp: read_payload_def cut_err_def frameHeaderSize_def)
  qed
  finally show ?thesis .
qed

text \<open>The write side: everything, or a strict prefix and an error.\<close>

lemma conn_write_None: "conn_write bs w = (None, w') \<Longrightarrow> w_sent w' = w_sent w @ bs"
  by (auto simp: conn_write_def split: option.splits if_splits)

lemma conn_write_Some:
  "conn_write bs w = (Some e, w') \<Longrightarrow> \<exists>k < length bs. w_sent w' = w_sent w @ take k bs"
  by (cases "w_room w") (auto simp: conn_write_def not_le split: if_splits)

lemma srv_writeFrame_None:
  assumes "srv_writeFrame t c p w = (None, w')"
  shows "w_sent w' = w_sent w @ enc_frame \<lparr>f_type = t, f_chan = c, f_payload = p\<rparr>"
proof -
  from assms obtain w1 where h: "conn_write ([t] @ put_u32 c @ put_u32 (of_nat (length p))) w = (None, w1)"
    and p: "(if 0 < length p then conn_write p w1 else (None, w1)) = (None, w')"
    by (auto simp: srv_writeFrame_def Let_def split: prod.splits option.splits)
  from p have "w_sent w' = w_sent w1 @ p"
    by (auto dest: conn_write_None split: if_splits)
  with conn_write_None [OF h] show ?thesis by (simp add: enc_frame_def)
qed

lemma srv_writeFrame_Some:
  assumes "srv_writeFrame t c p w = (Some e, w')"
  shows "\<exists>k < length (enc_frame \<lparr>f_type = t, f_chan = c, f_payload = p\<rparr>).
    w_sent w' = w_sent w @ take k (enc_frame \<lparr>f_type = t, f_chan = c, f_payload = p\<rparr>)"
proof -
  let ?h = "enc_header t c (of_nat (length p))"
  have enc: "enc_frame \<lparr>f_type = t, f_chan = c, f_payload = p\<rparr> = ?h @ p"
    by (simp add: enc_frame_header)
  show ?thesis
  proof (cases "conn_write ?h w")
    case (Pair r w1)
    show ?thesis
    proof (cases r)
      case None
      with Pair assms have "conn_write p w1 = (Some e, w')"
        by (simp add: srv_writeFrame_def enc_header_def split: if_splits)
      then obtain k where "k < length p" "w_sent w' = w_sent w1 @ take k p"
        by (auto dest: conn_write_Some)
      moreover have "w_sent w1 = w_sent w @ ?h" using Pair None by (simp add: conn_write_None)
      ultimately show ?thesis by (intro exI [of _ "frameHeaderSize + k"]) (simp add: enc)
    next
      case (Some e')
      with Pair assms have "w' = w1" by (simp add: srv_writeFrame_def enc_header_def)
      with Pair Some obtain k where "k < length ?h" "w_sent w' = w_sent w @ take k ?h"
        by (auto dest: conn_write_Some)
      then show ?thesis by (intro exI [of _ k]) (simp add: enc)
    qed
  qed
qed

section \<open>The two copies agree\<close>

lemma cli_writeFrame_eq: "cli_writeFrame = srv_writeFrame"
  by (intro ext) (simp add: cli_writeFrame_def srv_writeFrame_def)

lemma cli_readFrame_eq: "cli_readFrame = srv_readFrame"
  by (intro ext) (simp add: cli_readFrame_def srv_readFrame_def)

section \<open>The link between a writer and a reader\<close>

text \<open>
  A sender writes a sequence of frames until a write fails; the reader reads frames until
  an error. \<open>recv_all\<close> takes fuel: one unit per frame read, so one more than the number of
  frames sent is always enough.
\<close>

fun send_all :: "(byte \<Rightarrow> u32 \<Rightarrow> bytes \<Rightarrow> wconn \<Rightarrow> io_err option \<times> wconn) \<Rightarrow> frame list \<Rightarrow> wconn
    \<Rightarrow> io_err option \<times> wconn" where
  "send_all wr [] w = (None, w)"
| "send_all wr (f # fs) w =
     (case wr (f_type f) (f_chan f) (f_payload f) w of
        (Some e, w1) \<Rightarrow> (Some e, w1)
      | (None, w1) \<Rightarrow> send_all wr fs w1)"

fun recv_all :: "(rd list \<Rightarrow> (io_err, frame) go \<times> rd list) \<Rightarrow> nat \<Rightarrow> rd list
    \<Rightarrow> frame list \<times> io_err option" where
  "recv_all rd 0 s = ([], None)"
| "recv_all rd (Suc n) s =
     (case rd s of
        (Ret f, s1) \<Rightarrow> (case recv_all rd n s1 of (fs, e) \<Rightarrow> (f # fs, e))
      | (Err e, s1) \<Rightarrow> ([], Some e)
      | (Panic, s1) \<Rightarrow> ([], None))"

locale frame_link =
  fixes wr :: "byte \<Rightarrow> u32 \<Rightarrow> bytes \<Rightarrow> wconn \<Rightarrow> io_err option \<times> wconn"
    and rd :: "rd list \<Rightarrow> (io_err, frame) go \<times> rd list"
  assumes wr_sent: "wr t c p w = (None, w') \<Longrightarrow>
      w_sent w' = w_sent w @ enc_frame \<lparr>f_type = t, f_chan = c, f_payload = p\<rparr>"
    and wr_broken: "wr t c p w = (Some e, w') \<Longrightarrow>
      \<exists>k < length (enc_frame \<lparr>f_type = t, f_chan = c, f_payload = p\<rparr>).
        w_sent w' = w_sent w @ take k (enc_frame \<lparr>f_type = t, f_chan = c, f_payload = p\<rparr>)"
    and rd_frame: "frame_ok f \<Longrightarrow> rd (map RByte (enc_frame f) @ s) = (Ret f, s)"
    and rd_cut: "frame_ok f \<Longrightarrow> k < length (enc_frame f) \<Longrightarrow>
      rd (map RByte (take k (enc_frame f))) = (Err (cut_err k), [])"
begin

lemma wr_sent_frame:
  "wr (f_type f) (f_chan f) (f_payload f) w = (None, w') \<Longrightarrow> w_sent w' = w_sent w @ enc_frame f"
  using wr_sent [of "f_type f" "f_chan f" "f_payload f"] by simp

lemma wr_broken_frame:
  "wr (f_type f) (f_chan f) (f_payload f) w = (Some e, w') \<Longrightarrow>
    \<exists>k < length (enc_frame f). w_sent w' = w_sent w @ take k (enc_frame f)"
  using wr_broken [of "f_type f" "f_chan f" "f_payload f"] by (simp del: length_enc_frame)

text \<open>Without a write error the wire holds the encodings; with one, a prefix of them.\<close>

lemma send_all_None:
  "send_all wr fs w = (None, w') \<Longrightarrow> w_sent w' = w_sent w @ concat (map enc_frame fs)"
proof (induction fs arbitrary: w)
  case (Cons f fs)
  then obtain w1 where "wr (f_type f) (f_chan f) (f_payload f) w = (None, w1)" "send_all wr fs w1 = (None, w')"
    by (auto split: prod.splits option.splits)
  with Cons.IH wr_sent_frame show ?case by fastforce
qed simp

lemma send_all_Some:
  "send_all wr fs w = (Some e, w') \<Longrightarrow> \<exists>n k. n < length fs \<and> k < length (enc_frame (fs ! n)) \<and>
     w_sent w' = w_sent w @ concat (map enc_frame (take n fs)) @ take k (enc_frame (fs ! n))"
proof (induction fs arbitrary: w)
  case (Cons f fs)
  show ?case
  proof (cases "wr (f_type f) (f_chan f) (f_payload f) w")
    case (Pair r w1)
    show ?thesis
    proof (cases r)
      case None
      with Pair Cons.prems have "send_all wr fs w1 = (Some e, w')" by simp
      then obtain n k where "n < length fs" "k < length (enc_frame (fs ! n))"
        "w_sent w' = w_sent w1 @ concat (map enc_frame (take n fs)) @ take k (enc_frame (fs ! n))"
        using Cons.IH by blast
      moreover have "w_sent w1 = w_sent w @ enc_frame f"
        using Pair None wr_sent_frame by simp
      ultimately show ?thesis by (intro exI [of _ "Suc n"] exI [of _ k]) simp
    next
      case (Some e')
      with Pair Cons.prems have "w' = w1" by simp
      with Pair Some wr_broken_frame obtain k where "k < length (enc_frame f)" "w_sent w' = w_sent w @ take k (enc_frame f)"
        by fastforce
      then show ?thesis by (intro exI [of _ 0] exI [of _ k]) simp
    qed
  qed
qed simp

lemma recv_encoded:
  assumes "list_all frame_ok fs"
  shows "recv_all rd (length fs + n) (map RByte (concat (map enc_frame fs)) @ s)
    = (fs @ fst (recv_all rd n s), snd (recv_all rd n s))"
  using assms by (induction fs) (auto simp: rd_frame split: prod.splits)

text \<open>Everything is delivered when no write fails.\<close>

lemma delivers_all:
  assumes "list_all frame_ok fs" and "rd [] = (Err EOF, [])"
    and "send_all wr fs \<lparr>w_sent = [], w_room = room\<rparr> = (None, w')"
  shows "recv_all rd (Suc (length fs)) (map RByte (w_sent w')) = (fs, Some EOF)"
  using recv_encoded [OF assms(1), of 1 "[]"] send_all_None [OF assms(3)] assms(2) by simp

text \<open>Otherwise exactly the frames written in full, in order, and an end of stream.\<close>

lemma delivers_prefix:
  assumes "list_all frame_ok fs"
    and "send_all wr fs \<lparr>w_sent = [], w_room = room\<rparr> = (Some e, w')"
  shows "\<exists>n < length fs. \<exists>e'. e' \<in> {EOF, UnexpectedEOF} \<and>
    recv_all rd (Suc (length fs)) (map RByte (w_sent w')) = (take n fs, Some e')"
proof -
  obtain n k where n: "n < length fs" and k: "k < length (enc_frame (fs ! n))"
    and sent: "w_sent w' = concat (map enc_frame (take n fs)) @ take k (enc_frame (fs ! n))"
    using send_all_Some [OF assms(2)] by auto
  have ok: "frame_ok (fs ! n)" "list_all frame_ok (take n fs)"
    using assms(1) n by (auto simp: list_all_iff dest: in_set_takeD)
  obtain m where m: "Suc (length fs) = length (take n fs) + Suc m"
    using n by (metis add_Suc_right le_add_diff_inverse length_take less_imp_le min.absorb2)
  have "recv_all rd (Suc (length fs)) (map RByte (w_sent w')) = (take n fs, Some (cut_err k))"
    unfolding sent m map_append recv_encoded [OF ok(2)]
    by (simp add: rd_cut [OF ok(1) k])
  then show ?thesis using n by (auto simp: cut_err_def)
qed

end

text \<open>The two directions of the relay link.\<close>

interpretation up: frame_link cli_writeFrame srv_readFrame
  by unfold_locales
    (auto simp: cli_writeFrame_eq srv_readFrame_enc srv_readFrame_cut
      dest: srv_writeFrame_None srv_writeFrame_Some simp del: length_enc_frame)

interpretation down: frame_link srv_writeFrame cli_readFrame
  by unfold_locales
    (auto simp: cli_readFrame_eq srv_readFrame_enc srv_readFrame_cut
      dest: srv_writeFrame_None srv_writeFrame_Some simp del: length_enc_frame)

text \<open>Both outcomes of a sequence of writes, as one statement.\<close>

context frame_link
begin

lemma delivers:
  assumes "list_all frame_ok fs" and "rd [] = (Err EOF, [])"
    and "send_all wr fs \<lparr>w_sent = [], w_room = room\<rparr> = (r, w')"
  shows "\<exists>n e. recv_all rd (Suc (length fs)) (map RByte (w_sent w')) = (take n fs, Some e)
    \<and> (if r = None then n = length fs \<and> e = EOF else n < length fs \<and> e \<in> {EOF, UnexpectedEOF})"
proof (cases r)
  case None
  with delivers_all [OF assms(1,2)] assms(3) show ?thesis
    by (intro exI [of _ "length fs"] exI [of _ EOF]) auto
next
  case (Some e)
  with delivers_prefix [OF assms(1)] assms(3) show ?thesis by fastforce
qed

end

lemma srv_readFrame_nil: "srv_readFrame [] = (Err EOF, [])"
  by (simp add: srv_readFrame_def frameHeaderSize_def numeral_eq_Suc)

section \<open>Properties\<close>

text \<open>
  The frames a client writes, at most 64 KiB each, reach the
  server's reader unchanged and in order, whatever their payloads: all of them if no write
  failed, otherwise exactly those written in full, and then an end of stream; never a
  partial or an invented frame.
\<close>

theorem frames_delivered_up:
  assumes "list_all frame_ok fs" and "send_all cli_writeFrame fs \<lparr>w_sent = [], w_room = room\<rparr> = (r, w')"
  shows "\<exists>n e. recv_all srv_readFrame (Suc (length fs)) (map RByte (w_sent w')) = (take n fs, Some e)
    \<and> (if r = None then n = length fs \<and> e = EOF else n < length fs \<and> e \<in> {EOF, UnexpectedEOF})"
  by (rule up.delivers [OF assms(1) srv_readFrame_nil assms(2)])

definition demo_frames :: "frame list" where
  "demo_frames = [\<lparr>f_type = 1, f_chan = 7, f_payload = [1, 2]\<rparr>, \<lparr>f_type = 2, f_chan = 7, f_payload = []\<rparr>]"

theorem frames_delivered_up_witness:
  "\<exists>n e. recv_all srv_readFrame (Suc (length demo_frames)) (map RByte (w_sent (snd (send_all cli_writeFrame demo_frames
      \<lparr>w_sent = [], w_room = Some 15\<rparr>)))) = (take n demo_frames, Some e) \<and> n < length demo_frames \<and> e \<in> {EOF, UnexpectedEOF}"
proof -
  have ok: "list_all frame_ok demo_frames" by (simp add: demo_frames_def frame_ok_def maxFrameSize_def)
  obtain r w' where w: "send_all cli_writeFrame demo_frames \<lparr>w_sent = [], w_room = Some 15\<rparr> = (r, w')" by force
  then have "r \<noteq> None"
    by (auto simp: demo_frames_def cli_writeFrame_def conn_write_def)
  with frames_delivered_up [OF ok w] w show ?thesis by auto
qed

text \<open>
  The same from the server's writer to the client's reader.
\<close>

theorem frames_delivered_down:
  assumes "list_all frame_ok fs" and "send_all srv_writeFrame fs \<lparr>w_sent = [], w_room = room\<rparr> = (r, w')"
  shows "\<exists>n e. recv_all cli_readFrame (Suc (length fs)) (map RByte (w_sent w')) = (take n fs, Some e)
    \<and> (if r = None then n = length fs \<and> e = EOF else n < length fs \<and> e \<in> {EOF, UnexpectedEOF})"
  by (rule down.delivers [OF assms(1) _ assms(2)]) (simp add: cli_readFrame_eq srv_readFrame_nil)

theorem frames_delivered_down_witness:
  "\<exists>n e. recv_all cli_readFrame (Suc (length demo_frames)) (map RByte (w_sent (snd (send_all srv_writeFrame demo_frames
      \<lparr>w_sent = [], w_room = None\<rparr>)))) = (take n demo_frames, Some e) \<and> n = length demo_frames \<and> e = EOF"
proof -
  have ok: "list_all frame_ok demo_frames" by (simp add: demo_frames_def frame_ok_def maxFrameSize_def)
  obtain r w' where w: "send_all srv_writeFrame demo_frames \<lparr>w_sent = [], w_room = None\<rparr> = (r, w')" by force
  then have "r = None"
    by (auto simp: demo_frames_def srv_writeFrame_def conn_write_def)
  with frames_delivered_down [OF ok w] w show ?thesis by auto
qed

text \<open>
  Claim C27 (readFrame_exact): on any input, however malformed, the server's reader does not
  index out of range, and it returns a frame exactly when the input starts with that
  frame's encoding (and the payload is at most 64 KiB), consuming just that encoding.
\<close>

theorem readFrame_exact:
  "fst (srv_readFrame s) \<noteq> Panic
    \<and> (srv_readFrame s = (Ret f, s') \<longleftrightarrow> frame_ok f \<and> s = map RByte (enc_frame f) @ s')"
  using srv_readFrame_no_panic [of s] srv_readFrame_Ret [of s f s'] srv_readFrame_enc [of f s'] by auto

text \<open>
  The writer does not check the limit the reader
  enforces. A payload of more than 64 KiB (a \<open>register\<close> message with a long service list)
  is written without error; the reader rejects it after the header and leaves the payload
  bytes in the stream, to be read as the next header.
\<close>

theorem oversized_frame_poisons:
  assumes "unat maxFrameSize < length p" and "length p < 2 ^ 32"
  shows "\<exists>w'. cli_writeFrame t c p \<lparr>w_sent = [], w_room = None\<rparr> = (None, w')
    \<and> srv_readFrame (map RByte (w_sent w')) = (Err (FrameTooLarge (of_nat (length p))), map RByte p)"
proof -
  let ?w = "\<lparr>w_sent = enc_header t c (of_nat (length p)) @ p, w_room = None\<rparr>"
  have "0 < length p" using assms(1) by (rule le_less_trans [OF le0])
  then have "cli_writeFrame t c p \<lparr>w_sent = [], w_room = None\<rparr> = (None, ?w)"
    by (simp add: cli_writeFrame_def conn_write_def enc_header_def)
  moreover have "unat (of_nat (length p) :: u32) = length p"
    using assms(2) by (simp add: unat_of_nat)
  then have "(of_nat (length p) :: u32) > maxFrameSize"
    using assms(1) by (simp add: word_less_nat_alt)
  then have "srv_readFrame (map RByte (w_sent ?w)) = (Err (FrameTooLarge (of_nat (length p))), map RByte p)"
    by (simp add: srv_readFrame_header read_payload_def)
  ultimately show ?thesis by blast
qed

theorem oversized_frame_poisons_witness:
  "\<exists>w'. cli_writeFrame 0 0 (replicate 70000 120) \<lparr>w_sent = [], w_room = None\<rparr> = (None, w')
    \<and> srv_readFrame (map RByte (w_sent w'))
      = (Err (FrameTooLarge (of_nat (length (replicate 70000 (120 :: byte))))), map RByte (replicate 70000 120))"
  by (rule oversized_frame_poisons) (simp_all only: length_replicate, simp_all add: maxFrameSize_def)

end
