(* ===== verification/Json.thy ===== *)
theory Json
  imports GoStrings
begin

text \<open>
  The part of Go's \<open>encoding/json\<close> the program uses: values, the compact text
  \<open>json.Marshal\<close> writes and the text \<open>json.Unmarshal\<close> reads. Numbers keep their literal,
  as the decoder does until it knows the field's type. Strings are byte strings; the
  encoder escapes what Go escapes for ASCII text (bytes from 0x80 on are copied, which is
  Go's behaviour for valid UTF-8), and a \<open>\u\<close> escape of a surrogate half decodes to U+FFFD.
\<close>

section \<open>Values and text\<close>

datatype json =
    JNull
  | JBool bool
  | JNum string
  | JStr string
  | JArr "json list"
  | JObj "(string \<times> json) list"

definition hex_digit :: "nat \<Rightarrow> char" where
  "hex_digit n = (if n < 10 then char_of (48 + n) else char_of (87 + n))"

definition u_escape :: "nat \<Rightarrow> string" where
  "u_escape n = [CHR 0x5C, CHR ''u'', hex_digit (n div 4096 mod 16), hex_digit (n div 256 mod 16),
     hex_digit (n div 16 mod 16), hex_digit (n mod 16)]"

definition esc_char :: "char \<Rightarrow> string" where
  "esc_char c =
     (if c = CHR 0x22 then [CHR 0x5C, CHR 0x22]
      else if c = CHR 0x5C then [CHR 0x5C, CHR 0x5C]
      else if c = CHR 0x08 then [CHR 0x5C, CHR ''b'']
      else if c = CHR 0x0C then [CHR 0x5C, CHR ''f'']
      else if c = CHR 0x0A then [CHR 0x5C, CHR ''n'']
      else if c = CHR 0x0D then [CHR 0x5C, CHR ''r'']
      else if c = CHR 0x09 then [CHR 0x5C, CHR ''t'']
      else if (of_char c :: nat) < 32 \<or> c = CHR ''<'' \<or> c = CHR ''>'' \<or> c = CHR ''&''
      then u_escape (of_char c) else [c])"

definition print_string :: "string \<Rightarrow> string" where
  "print_string s = [CHR 0x22] @ concat (map esc_char s) @ [CHR 0x22]"

fun print_json :: "json \<Rightarrow> string" where
  "print_json JNull = ''null''"
| "print_json (JBool b) = (if b then ''true'' else ''false'')"
| "print_json (JNum n) = n"
| "print_json (JStr s) = print_string s"
| "print_json (JArr xs) = ''['' @ join_str (map print_json xs) '','' @ '']''"
| "print_json (JObj kvs) =
     ''{'' @ join_str (map (\<lambda>(k, v). print_string k @ '':'' @ print_json v) kvs) '','' @ ''}''"

section \<open>Reading text\<close>

definition json_ws :: "char \<Rightarrow> bool" where
  "json_ws c \<longleftrightarrow> c \<in> {CHR '' '', CHR 0x09, CHR 0x0A, CHR 0x0D}"

definition skip_ws :: "string \<Rightarrow> string" where
  "skip_ws s = dropWhile json_ws s"

text \<open>UTF-8 of one code unit; a surrogate half becomes the replacement character.\<close>

definition utf8 :: "nat \<Rightarrow> string" where
  "utf8 n =
     (if n < 128 then [char_of n]
      else if n < 2048 then [char_of (192 + n div 64), char_of (128 + n mod 64)]
      else if 55296 \<le> n \<and> n < 57344 then [CHR 0xEF, CHR 0xBF, CHR 0xBD]
      else [char_of (224 + n div 4096), char_of (128 + n div 64 mod 64), char_of (128 + n mod 64)])"

definition simple_escape :: "char \<Rightarrow> char option" where
  "simple_escape c =
     (if c = CHR 0x22 \<or> c = CHR 0x5C \<or> c = CHR ''/'' then Some c
      else if c = CHR ''b'' then Some (CHR 0x08)
      else if c = CHR ''f'' then Some (CHR 0x0C)
      else if c = CHR ''n'' then Some (CHR 0x0A)
      else if c = CHR ''r'' then Some (CHR 0x0D)
      else if c = CHR ''t'' then Some (CHR 0x09)
      else None)"

definition hex4 :: "char \<Rightarrow> char \<Rightarrow> char \<Rightarrow> char \<Rightarrow> nat option" where
  "hex4 a b c d = (case (hex_val a, hex_val b, hex_val c, hex_val d) of
       (Some w, Some x, Some y, Some z) \<Rightarrow> Some (((w * 16 + x) * 16 + y) * 16 + z)
     | _ \<Rightarrow> None)"

text \<open>The body of a string literal up to its closing quote.\<close>

function (sequential) read_string :: "string \<Rightarrow> (string \<times> string) option" where
  "read_string [] = None"
| "read_string (c # s) =
     (if c = CHR 0x22 then Some ([], s)
      else if c = CHR 0x5C then
        (case s of
           [] \<Rightarrow> None
         | e # s1 \<Rightarrow>
             if e = CHR ''u'' then
               (case s1 of
                  h1 # h2 # h3 # h4 # s2 \<Rightarrow>
                    (case hex4 h1 h2 h3 h4 of
                       None \<Rightarrow> None
                     | Some n \<Rightarrow> map_option (\<lambda>(t, r). (utf8 n @ t, r)) (read_string s2))
                | _ \<Rightarrow> None)
             else (case simple_escape e of
                     None \<Rightarrow> None
                   | Some d \<Rightarrow> map_option (\<lambda>(t, r). (d # t, r)) (read_string s1)))
      else if (of_char c :: nat) < 32 then None
      else map_option (\<lambda>(t, r). (c # t, r)) (read_string s))"
  by pat_completeness auto
termination by (relation "measure length") auto

definition num_char :: "char \<Rightarrow> bool" where
  "num_char c \<longleftrightarrow> is_digit c \<or> c \<in> {CHR ''+'', CHR ''-'', CHR ''.'', CHR ''e'', CHR ''E''}"

text \<open>The grammar of a number literal.\<close>

definition digits1 :: "string \<Rightarrow> string option" where
  "digits1 s = (if s \<noteq> [] \<and> is_digit (hd s) then Some (dropWhile is_digit s) else None)"

definition valid_number :: "string \<Rightarrow> bool" where
  "valid_number s =
     (let s1 = (case s of c # r \<Rightarrow> if c = CHR ''-'' then r else s | [] \<Rightarrow> s)
      in case digits1 s1 of
           None \<Rightarrow> False
         | Some s2 \<Rightarrow>
             if hd s1 = CHR ''0'' \<and> length s1 > Suc (length s2) then False
             else
               (case (case s2 of c # r \<Rightarrow> if c = CHR ''.'' then digits1 r else Some s2 | [] \<Rightarrow> Some s2) of
                  None \<Rightarrow> False
                | Some s3 \<Rightarrow>
                    (case s3 of
                       [] \<Rightarrow> True
                     | c # r \<Rightarrow>
                         (c = CHR ''e'' \<or> c = CHR ''E'') \<and>
                         digits1 (case r of d # r1 \<Rightarrow> if d = CHR ''+'' \<or> d = CHR ''-'' then r1 else r | [] \<Rightarrow> r)
                           = Some [])))"

definition strip_prefix :: "string \<Rightarrow> string \<Rightarrow> string option" where
  "strip_prefix p s = (if prefix p s then Some (drop (length p) s) else None)"

text \<open>
  The recursive descent of the decoder. Fuel bounds the recursion: every call consumes at
  least one character of a valid text, so \<open>Suc (length s)\<close> units are enough.
\<close>

fun read_value :: "nat \<Rightarrow> string \<Rightarrow> (json \<times> string) option"
  and read_elems :: "nat \<Rightarrow> string \<Rightarrow> (json list \<times> string) option"
  and read_members :: "nat \<Rightarrow> string \<Rightarrow> ((string \<times> json) list \<times> string) option" where
  "read_value 0 s = None"
| "read_value (Suc n) s =
     (case skip_ws s of
        [] \<Rightarrow> None
      | c # r \<Rightarrow>
          if c = CHR ''n'' then map_option (Pair JNull) (strip_prefix ''ull'' r)
          else if c = CHR ''t'' then map_option (Pair (JBool True)) (strip_prefix ''rue'' r)
          else if c = CHR ''f'' then map_option (Pair (JBool False)) (strip_prefix ''alse'' r)
          else if c = CHR 0x22 then map_option (\<lambda>(t, q). (JStr t, q)) (read_string r)
          else if c = CHR ''['' then
            (case skip_ws r of
               d # q \<Rightarrow> if d = CHR '']'' then Some (JArr [], q)
                        else map_option (\<lambda>(vs, q). (JArr vs, q)) (read_elems n r)
             | [] \<Rightarrow> None)
          else if c = CHR ''{'' then
            (case skip_ws r of
               d # q \<Rightarrow> if d = CHR ''}'' then Some (JObj [], q)
                        else map_option (\<lambda>(kvs, q). (JObj kvs, q)) (read_members n r)
             | [] \<Rightarrow> None)
          else let lit = takeWhile num_char (c # r)
               in if valid_number lit then Some (JNum lit, dropWhile num_char (c # r)) else None)"
| "read_elems 0 s = None"
| "read_elems (Suc n) s =
     (case read_value n s of
        None \<Rightarrow> None
      | Some (v, r) \<Rightarrow>
          (case skip_ws r of
             [] \<Rightarrow> None
           | d # q \<Rightarrow>
               if d = CHR '']'' then Some ([v], q)
               else if d = CHR '','' then map_option (\<lambda>(vs, q). (v # vs, q)) (read_elems n q)
               else None))"
| "read_members 0 s = None"
| "read_members (Suc n) s =
     (case skip_ws s of
        [] \<Rightarrow> None
      | c # r \<Rightarrow>
          if c \<noteq> CHR 0x22 then None
          else
            (case read_string r of
               None \<Rightarrow> None
             | Some (k, r1) \<Rightarrow>
                 (case skip_ws r1 of
                    [] \<Rightarrow> None
                  | e # r2 \<Rightarrow>
                      if e \<noteq> CHR '':'' then None
                      else
                        (case read_value n r2 of
                           None \<Rightarrow> None
                         | Some (v, r3) \<Rightarrow>
                             (case skip_ws r3 of
                                [] \<Rightarrow> None
                              | d # q \<Rightarrow>
                                  if d = CHR ''}'' then Some ([(k, v)], q)
                                  else if d = CHR '','' then
                                    map_option (\<lambda>(kvs, q). ((k, v) # kvs, q)) (read_members n q)
                                  else None)))))"

text \<open>A whole text is one value and trailing white space.\<close>

definition parse_json :: "string \<Rightarrow> json option" where
  "parse_json s = (case read_value (Suc (length s)) s of
       Some (v, r) \<Rightarrow> if skip_ws r = [] then Some v else None
     | None \<Rightarrow> None)"

section \<open>Printing and reading back\<close>

definition ascii :: "string \<Rightarrow> bool" where
  "ascii s \<longleftrightarrow> (\<forall>c \<in> set s. (of_char c :: nat) < 128)"

fun json_ok :: "json \<Rightarrow> bool" where
  "json_ok (JNum n) = (valid_number n \<and> list_all num_char n)"
| "json_ok (JStr s) = ascii s"
| "json_ok (JArr vs) = list_all json_ok vs"
| "json_ok (JObj kvs) = list_all (\<lambda>(k, v). ascii k \<and> json_ok v) kvs"
| "json_ok v = True"

text \<open>What may follow a value: nothing that could extend a number.\<close>

definition delim :: "string \<Rightarrow> bool" where
  "delim r \<longleftrightarrow> (case r of [] \<Rightarrow> True | c # _ \<Rightarrow> \<not> num_char c)"

lemma delim_simps [simp]:
  "delim []" "delim (CHR '','' # r)" "delim (CHR '']'' # r)" "delim (CHR ''}'' # r)"
  by (simp_all add: delim_def num_char_def is_digit_def)

lemma hex_val_digit [simp]: "n < 16 \<Longrightarrow> hex_val (hex_digit n) = Some n"
  by (auto simp: hex_val_def hex_digit_def Let_def)

lemma read_string_u_escape:
  assumes "n < 128"
  shows "read_string (u_escape n @ t) = map_option (\<lambda>(u, r). (char_of n # u, r)) (read_string t)"
proof -
  have "n div 16 mod 16 = n div 16" "n div 4096 mod 16 = 0" "n div 256 mod 16 = 0"
    using assms by auto
  then have "hex4 (hex_digit (n div 4096 mod 16)) (hex_digit (n div 256 mod 16))
      (hex_digit (n div 16 mod 16)) (hex_digit (n mod 16)) = Some n"
    using assms by (simp add: hex4_def)
  then show ?thesis using assms by (simp add: u_escape_def utf8_def)
qed

lemma read_string_esc:
  assumes "(of_char c :: nat) < 128"
  shows "read_string (esc_char c @ t) = map_option (\<lambda>(u, r). (c # u, r)) (read_string t)"
  using assms read_string_u_escape [of "of_char c" t]
  by (auto simp: esc_char_def simple_escape_def)

lemma read_string_print:
  "ascii s \<Longrightarrow> read_string (concat (map esc_char s) @ CHR 0x22 # r) = Some (s, r)"
  by (induction s) (auto simp: ascii_def read_string_esc)

lemma skip_ws_simp [simp]: "\<not> json_ws c \<Longrightarrow> skip_ws (c # s) = c # s"
  by (simp add: skip_ws_def)

lemma skip_ws_nil [simp]: "skip_ws [] = []"
  by (simp add: skip_ws_def)

lemma json_ws_simps [simp]:
  "\<not> json_ws CHR 0x22" "\<not> json_ws (CHR '','')" "\<not> json_ws (CHR '':'')" "\<not> json_ws (CHR '']'')"
  "\<not> json_ws (CHR ''}'')" "\<not> json_ws (CHR ''['')" "\<not> json_ws (CHR ''{'')"
  "\<not> json_ws (CHR ''n'')" "\<not> json_ws (CHR ''t'')" "\<not> json_ws (CHR ''f'')"
  by (simp_all add: json_ws_def)

lemma num_char_facts:
  assumes "num_char c"
  shows "\<not> json_ws c" "c \<noteq> CHR ''n''" "c \<noteq> CHR ''t''" "c \<noteq> CHR ''f''" "c \<noteq> CHR 0x22"
    "c \<noteq> CHR ''[''" "c \<noteq> CHR ''{''" "c \<noteq> CHR '']''" "c \<noteq> CHR ''}''"
  using assms by (auto simp: num_char_def is_digit_def json_ws_def)

lemma takeWhile_delim:
  "list_all num_char n \<Longrightarrow> delim r \<Longrightarrow> takeWhile num_char (n @ r) = n \<and> dropWhile num_char (n @ r) = r"
  by (induction n) (auto simp: delim_def split: list.splits)

lemma valid_number_ne: "valid_number n \<Longrightarrow> n \<noteq> []"
  by (auto simp: valid_number_def digits1_def)

text \<open>The first character of a printed value.\<close>

lemma print_json_first:
  assumes "json_ok v"
  obtains c t where "print_json v = c # t" "\<not> json_ws c" "c \<noteq> CHR '']''" "c \<noteq> CHR ''}''"
proof (cases v)
  case (JNum n)
  with assms have "num_char (hd n)" "n \<noteq> []"
    using valid_number_ne by (auto simp: list_all_iff)
  with JNum that [of "hd n" "tl n"] show ?thesis
    using num_char_facts [of "hd n"] by simp
next
  case (JBool b)
  with that [of "hd (print_json v)" "tl (print_json v)"] show ?thesis
    by (simp split: if_splits)
qed (auto simp: print_string_def json_ws_def intro: that split: if_splits)

lemma skip_ws_print [simp]: "json_ok v \<Longrightarrow> skip_ws (print_json v @ r) = print_json v @ r"
  using print_json_first [of v] by (metis append_Cons skip_ws_simp)

lemma join_str_Cons:
  "join_str (x # xs) sep = (if xs = [] then x else x @ sep @ join_str xs sep)"
  by (cases xs) auto

definition reads :: "json \<Rightarrow> bool" where
  "reads v \<longleftrightarrow> (\<forall>n r. length (print_json v) < n \<longrightarrow> delim r \<longrightarrow> read_value n (print_json v @ r) = Some (v, r))"

lemma readsD:
  "reads v \<Longrightarrow> length (print_json v) < n \<Longrightarrow> delim r \<Longrightarrow> read_value n (print_json v @ r) = Some (v, r)"
  by (simp add: reads_def)

lemma read_elems_print:
  assumes "vs \<noteq> []" and "list_all reads vs"
    and "length (join_str (map print_json vs) '','') + 1 < n"
  shows "read_elems n (join_str (map print_json vs) '','' @ CHR '']'' # r) = Some (vs, r)"
  using assms
proof (induction vs arbitrary: n)
  case (Cons v vs)
  then obtain m where n: "n = Suc m" by (cases n) auto
  show ?case
  proof (cases "vs = []")
    case True
    with Cons.prems n show ?thesis by (simp add: readsD)
  next
    case False
    with Cons.prems n have len: "length (print_json v) < m" "length (join_str (map print_json vs) '','') + 1 < m"
      by (auto simp: join_str_Cons)
    then have "read_elems m (join_str (map print_json vs) '','' @ CHR '']'' # r) = Some (vs, r)"
      using Cons.IH Cons.prems False by simp
    with len Cons.prems False n show ?thesis
      by (simp add: join_str_Cons readsD)
  qed
qed simp

abbreviation print_member :: "string \<times> json \<Rightarrow> string" where
  "print_member \<equiv> \<lambda>(k, v). print_string k @ '':'' @ print_json v"

lemma read_members_print:
  assumes "kvs \<noteq> []" and "list_all (\<lambda>(k, v). ascii k \<and> reads v \<and> json_ok v) kvs"
    and "length (join_str (map print_member kvs) '','') + 1 < n"
  shows "read_members n (join_str (map print_member kvs) '','' @ CHR ''}'' # r) = Some (kvs, r)"
  using assms
proof (induction kvs arbitrary: n)
  case (Cons kv kvs)
  obtain k v where kv: "kv = (k, v)" by force
  from Cons.prems obtain m where n: "n = Suc m" by (cases n) auto
  from Cons.prems kv have ok: "ascii k" "reads v" by auto
  show ?case
  proof (cases "kvs = []")
    case True
    with Cons.prems n kv ok show ?thesis
      by (simp add: print_string_def read_string_print readsD)
  next
    case False
    with Cons.prems n kv have len: "length (print_json v) < m"
        "length (join_str (map print_member kvs) '','') + 1 < m"
      by (auto simp: join_str_Cons)
    then have "read_members m (join_str (map print_member kvs) '','' @ CHR ''}'' # r) = Some (kvs, r)"
      using Cons.IH Cons.prems False by simp
    with len ok False n kv show ?thesis
      by (simp add: join_str_Cons print_string_def read_string_print readsD)
  qed
qed simp

lemma reads_json: "json_ok v \<Longrightarrow> reads v"
proof (induction v)
  case (JNum n)
  then have ne: "n \<noteq> []" "num_char (hd n)" and v: "valid_number n"
    using valid_number_ne by (auto simp: list_all_iff)
  then obtain c t where n: "n = c # t" by (cases n) auto
  show ?case unfolding reads_def
  proof (intro allI impI)
    fix m r
    assume "length (print_json (JNum n)) < m" and r: "delim r"
    then obtain m' where "m = Suc m'" by (cases m) auto
    with takeWhile_delim [of n r] r JNum ne v n num_char_facts [of c]
    show "read_value m (print_json (JNum n) @ r) = Some (JNum n, r)"
      by simp
  qed
next
  case (JArr vs)
  then have all: "list_all reads vs" by (auto simp: list_all_iff)
  show ?case unfolding reads_def
  proof (intro allI impI)
    fix m r
    assume m: "length (print_json (JArr vs)) < m" and "delim r"
    then obtain m' where m': "m = Suc m'" by (cases m) auto
    show "read_value m (print_json (JArr vs) @ r) = Some (JArr vs, r)"
    proof (cases vs)
      case Nil
      with m' show ?thesis by simp
    next
      case (Cons v ws)
      with JArr.prems obtain c t where "print_json v = c # t" and c: "\<not> json_ws c" "c \<noteq> CHR '']''"
        by (auto elim: print_json_first)
      then obtain u where "join_str (map print_json vs) '','' = c # u"
        using Cons by (cases ws) (auto simp: join_str_Cons)
      moreover have "read_elems m' (join_str (map print_json vs) '','' @ CHR '']'' # r) = Some (vs, r)"
        using m m' Cons all by (intro read_elems_print) auto
      ultimately show ?thesis using m' c by simp
    qed
  qed
next
  case (JObj kvs)
  then have all: "list_all (\<lambda>(k, v). ascii k \<and> reads v \<and> json_ok v) kvs"
    by (fastforce simp: list_all_iff)
  show ?case unfolding reads_def
  proof (intro allI impI)
    fix m r
    assume m: "length (print_json (JObj kvs)) < m" and "delim r"
    then obtain m' where m': "m = Suc m'" by (cases m) auto
    show "read_value m (print_json (JObj kvs) @ r) = Some (JObj kvs, r)"
    proof (cases kvs)
      case Nil
      with m' show ?thesis by simp
    next
      case (Cons kv kvs')
      obtain k v where kv: "kv = (k, v)" by force
      have "read_members m' (join_str (map print_member kvs) '','' @ CHR ''}'' # r) = Some (kvs, r)"
        using m m' Cons all by (intro read_members_print) auto
      moreover obtain u where "join_str (map print_member kvs) '','' = CHR 0x22 # u"
        using Cons kv by (cases kvs') (auto simp: join_str_Cons print_string_def)
      ultimately show ?thesis using m' by simp
    qed
  qed
qed (auto simp: reads_def strip_prefix_def print_string_def read_string_print gr0_conv_Suc
       dest!: less_imp_Suc_add)

theorem parse_print_json: "json_ok v \<Longrightarrow> parse_json (print_json v) = Some v"
  using readsD [OF reads_json, of v "Suc (length (print_json v))" "[]"]
  by (simp add: parse_json_def)

end
