(* ===== verification/Control.thy ===== *)
theory Control
  imports Json Frames
begin

text \<open>
  The control messages both sides exchange in control frames: the struct \<open>controlMsg\<close> with
  its JSON tags (the same in \<open>signal-server/main.go\<close> and \<open>relay/relay.go\<close>), what
  \<open>json.Marshal\<close> makes of it (\<open>omitempty\<close> fields included) and what \<open>json.Unmarshal\<close> reads.
  Member names match without regard to case and unknown members are skipped, as Go does; a
  member of the wrong type makes the whole message an error. A duplicated member overwrites
  the earlier one.
\<close>

section \<open>Data\<close>

record serviceMapping =
  sm_LocalPort :: int
  sm_RemotePort :: int
  sm_Proto :: string

record controlMsg =
  c_Type :: string
  c_ChannelID :: u32
  c_LocalPort :: int
  c_RemotePort :: int
  c_Proto :: string
  c_PublicAddr :: string
  c_RemoteAddr :: string
  c_Services :: "serviceMapping list"
  c_AuthKey :: string
  c_FailedServices :: "serviceMapping list"
  c_Features :: "string list"
  c_IPAllow :: string
  c_IPDeny :: string
  c_MaxConns :: int
  c_RateLimit :: int

text \<open>The client package declares the same two structs.\<close>

type_synonym ServiceMap = serviceMapping
type_synonym cli_controlMsg = controlMsg

text \<open>The zero value, from which the code's composite literals set a few fields.\<close>

definition zero_msg :: controlMsg where
  "zero_msg = \<lparr>c_Type = [], c_ChannelID = 0, c_LocalPort = 0, c_RemotePort = 0, c_Proto = [],
     c_PublicAddr = [], c_RemoteAddr = [], c_Services = [], c_AuthKey = [], c_FailedServices = [],
     c_Features = [], c_IPAllow = [], c_IPDeny = [], c_MaxConns = 0, c_RateLimit = 0\<rparr>"

definition zero_service :: serviceMapping where
  "zero_service = \<lparr>sm_LocalPort = 0, sm_RemotePort = 0, sm_Proto = []\<rparr>"

section \<open>Marshalling\<close>

definition j_int :: "int \<Rightarrow> json" where
  "j_int i = JNum (itoa i)"

definition omit :: "bool \<Rightarrow> string \<Rightarrow> json \<Rightarrow> (string \<times> json) list" where
  "omit z k v = (if z then [] else [(k, v)])"

definition service_json :: "serviceMapping \<Rightarrow> json" where
  "service_json s = JObj [(''local_port'', j_int (sm_LocalPort s)),
     (''remote_port'', j_int (sm_RemotePort s)), (''proto'', JStr (sm_Proto s))]"

definition controlMsg_json :: "controlMsg \<Rightarrow> json" where
  "controlMsg_json m = JObj
    ([(''type'', JStr (c_Type m))] @
     omit (c_ChannelID m = 0) ''channel_id'' (j_int (uint (c_ChannelID m))) @
     omit (c_LocalPort m = 0) ''local_port'' (j_int (c_LocalPort m)) @
     omit (c_RemotePort m = 0) ''remote_port'' (j_int (c_RemotePort m)) @
     omit (c_Proto m = []) ''proto'' (JStr (c_Proto m)) @
     omit (c_PublicAddr m = []) ''public_addr'' (JStr (c_PublicAddr m)) @
     omit (c_RemoteAddr m = []) ''remote_addr'' (JStr (c_RemoteAddr m)) @
     omit (c_Services m = []) ''services'' (JArr (map service_json (c_Services m))) @
     omit (c_AuthKey m = []) ''auth_key'' (JStr (c_AuthKey m)) @
     omit (c_FailedServices m = []) ''failed_services'' (JArr (map service_json (c_FailedServices m))) @
     omit (c_Features m = []) ''features'' (JArr (map JStr (c_Features m))) @
     omit (c_IPAllow m = []) ''ip_allow'' (JStr (c_IPAllow m)) @
     omit (c_IPDeny m = []) ''ip_deny'' (JStr (c_IPDeny m)) @
     omit (c_MaxConns m = 0) ''max_conns'' (j_int (c_MaxConns m)) @
     omit (c_RateLimit m = 0) ''rate_limit'' (j_int (c_RateLimit m)))"

section \<open>Unmarshalling\<close>

text \<open>A JSON null leaves a string or number field as it is and sets a slice to nil.\<close>

fun d_str :: "string \<Rightarrow> json \<Rightarrow> string option" where
  "d_str old (JStr s) = Some s"
| "d_str old JNull = Some old"
| "d_str old _ = None"

fun d_int :: "int \<Rightarrow> json \<Rightarrow> int option" where
  "d_int old (JNum n) = atoi n"
| "d_int old JNull = Some old"
| "d_int old _ = None"

fun d_u32 :: "u32 \<Rightarrow> json \<Rightarrow> u32 option" where
  "d_u32 old (JNum n) =
     (if list_all is_digit n then
        (case atoi n of Some i \<Rightarrow> if i < 2 ^ 32 then Some (word_of_int i) else None | None \<Rightarrow> None)
      else None)"
| "d_u32 old JNull = Some old"
| "d_u32 old _ = None"

fun d_list :: "(json \<Rightarrow> 'a option) \<Rightarrow> json \<Rightarrow> 'a list option" where
  "d_list d (JArr vs) = those (map d vs)"
| "d_list d JNull = Some []"
| "d_list d _ = None"

definition fold_name :: "string \<Rightarrow> string" where
  "fold_name k = map to_lower_char k"

fun d_members :: "('m \<Rightarrow> string \<Rightarrow> json \<Rightarrow> 'm option) \<Rightarrow> 'm \<Rightarrow> (string \<times> json) list \<Rightarrow> 'm option" where
  "d_members d m [] = Some m"
| "d_members d m ((k, v) # kvs) =
     (case d m (fold_name k) v of None \<Rightarrow> None | Some m1 \<Rightarrow> d_members d m1 kvs)"

definition service_field :: "serviceMapping \<Rightarrow> string \<Rightarrow> json \<Rightarrow> serviceMapping option" where
  "service_field s k v =
     (if k = ''local_port'' then map_option (\<lambda>x. s\<lparr>sm_LocalPort := x\<rparr>) (d_int (sm_LocalPort s) v)
      else if k = ''remote_port'' then map_option (\<lambda>x. s\<lparr>sm_RemotePort := x\<rparr>) (d_int (sm_RemotePort s) v)
      else if k = ''proto'' then map_option (\<lambda>x. s\<lparr>sm_Proto := x\<rparr>) (d_str (sm_Proto s) v)
      else Some s)"

fun d_service :: "json \<Rightarrow> serviceMapping option" where
  "d_service (JObj kvs) = d_members service_field zero_service kvs"
| "d_service JNull = Some zero_service"
| "d_service _ = None"

definition control_field :: "controlMsg \<Rightarrow> string \<Rightarrow> json \<Rightarrow> controlMsg option" where
  "control_field m k v =
     (if k = ''type'' then map_option (\<lambda>x. m\<lparr>c_Type := x\<rparr>) (d_str (c_Type m) v)
      else if k = ''channel_id'' then map_option (\<lambda>x. m\<lparr>c_ChannelID := x\<rparr>) (d_u32 (c_ChannelID m) v)
      else if k = ''local_port'' then map_option (\<lambda>x. m\<lparr>c_LocalPort := x\<rparr>) (d_int (c_LocalPort m) v)
      else if k = ''remote_port'' then map_option (\<lambda>x. m\<lparr>c_RemotePort := x\<rparr>) (d_int (c_RemotePort m) v)
      else if k = ''proto'' then map_option (\<lambda>x. m\<lparr>c_Proto := x\<rparr>) (d_str (c_Proto m) v)
      else if k = ''public_addr'' then map_option (\<lambda>x. m\<lparr>c_PublicAddr := x\<rparr>) (d_str (c_PublicAddr m) v)
      else if k = ''remote_addr'' then map_option (\<lambda>x. m\<lparr>c_RemoteAddr := x\<rparr>) (d_str (c_RemoteAddr m) v)
      else if k = ''services'' then map_option (\<lambda>x. m\<lparr>c_Services := x\<rparr>) (d_list d_service v)
      else if k = ''auth_key'' then map_option (\<lambda>x. m\<lparr>c_AuthKey := x\<rparr>) (d_str (c_AuthKey m) v)
      else if k = ''failed_services'' then map_option (\<lambda>x. m\<lparr>c_FailedServices := x\<rparr>) (d_list d_service v)
      else if k = ''features'' then map_option (\<lambda>x. m\<lparr>c_Features := x\<rparr>) (d_list (d_str []) v)
      else if k = ''ip_allow'' then map_option (\<lambda>x. m\<lparr>c_IPAllow := x\<rparr>) (d_str (c_IPAllow m) v)
      else if k = ''ip_deny'' then map_option (\<lambda>x. m\<lparr>c_IPDeny := x\<rparr>) (d_str (c_IPDeny m) v)
      else if k = ''max_conns'' then map_option (\<lambda>x. m\<lparr>c_MaxConns := x\<rparr>) (d_int (c_MaxConns m) v)
      else if k = ''rate_limit'' then map_option (\<lambda>x. m\<lparr>c_RateLimit := x\<rparr>) (d_int (c_RateLimit m) v)
      else Some m)"

fun d_control :: "json \<Rightarrow> controlMsg option" where
  "d_control (JObj kvs) = d_members control_field zero_msg kvs"
| "d_control JNull = Some zero_msg"
| "d_control _ = None"

definition text_bytes :: "string \<Rightarrow> bytes" where
  "text_bytes s = map of_char s"

definition bytes_text :: "bytes \<Rightarrow> string" where
  "bytes_text bs = map (\<lambda>b. char_of (unat b)) bs"

definition marshal_msg :: "controlMsg \<Rightarrow> bytes" where
  "marshal_msg m = text_bytes (print_json (controlMsg_json m))"

definition unmarshal_msg :: "bytes \<Rightarrow> controlMsg option" where
  "unmarshal_msg bs = Option.bind (parse_json (bytes_text bs)) d_control"

section \<open>Sending and receiving control messages\<close>

definition srv_sendControl :: "controlMsg \<Rightarrow> wconn \<Rightarrow> io_err option \<times> wconn" where
  "srv_sendControl msg conn = srv_writeFrame frameControl 0 (marshal_msg msg) conn"

definition cli_sendControl :: "cli_controlMsg \<Rightarrow> wconn \<Rightarrow> io_err option \<times> wconn" where
  "cli_sendControl msg conn = cli_writeFrame frameControl 0 (marshal_msg msg) conn"

definition readControl :: "rd list \<Rightarrow> (io_err, cli_controlMsg) go \<times> rd list" where
  "readControl s = (case cli_readFrame s of
       (Ret f, s1) \<Rightarrow>
         (if f_type f \<noteq> frameControl then (Err (NotControl (f_type f)), s1)
          else case unmarshal_msg (f_payload f) of
                 None \<Rightarrow> (Err BadJSON, s1)
               | Some msg \<Rightarrow> (Ret msg, s1))
     | (Err e, s1) \<Rightarrow> (Err e, s1)
     | (Panic, s1) \<Rightarrow> (Panic, s1))"

section \<open>The message round trip\<close>

definition service_ok :: "serviceMapping \<Rightarrow> bool" where
  "service_ok s \<longleftrightarrow> int64 (sm_LocalPort s) \<and> int64 (sm_RemotePort s) \<and> ascii (sm_Proto s)"

definition control_ok :: "controlMsg \<Rightarrow> bool" where
  "control_ok m \<longleftrightarrow> ascii (c_Type m) \<and> int64 (c_LocalPort m) \<and> int64 (c_RemotePort m) \<and> ascii (c_Proto m)
     \<and> ascii (c_PublicAddr m) \<and> ascii (c_RemoteAddr m) \<and> list_all service_ok (c_Services m)
     \<and> ascii (c_AuthKey m) \<and> list_all service_ok (c_FailedServices m) \<and> list_all ascii (c_Features m)
     \<and> ascii (c_IPAllow m) \<and> ascii (c_IPDeny m) \<and> int64 (c_MaxConns m) \<and> int64 (c_RateLimit m)"

lemma dec_digits_number: "valid_number (dec_digits n) \<and> valid_number (CHR ''-'' # dec_digits n)"
proof -
  obtain c cs where ds: "dec_digits n = c # cs" by (cases "dec_digits n") auto
  then have all: "is_digit c" "list_all is_digit cs" using dec_digits_all [of n] by simp_all
  then have dw: "dropWhile is_digit cs = []" by (simp add: list_all_iff)
  have "c = CHR ''0'' \<Longrightarrow> cs = []"
  proof -
    assume "c = CHR ''0''"
    then have "n = 0" using dec_digits_hd0 [of n] ds by simp
    then show "cs = []" using ds by (simp add: dec_digits.simps)
  qed
  then show ?thesis
    using all ds is_digit_not_sign [of c] by (auto simp: valid_number_def digits1_def Let_def dw simp del: dropWhile_eq_Nil_conv)
qed

lemma num_chars_digits: "list_all num_char (dec_digits n)"
  using dec_digits_all [of n] by (auto simp: list_all_iff num_char_def)

lemma json_ok_j_int [simp]: "json_ok (j_int i)"
  using dec_digits_number num_chars_digits
  by (auto simp: j_int_def itoa_def) (simp add: num_char_def)

lemma d_int_j_int [simp]: "int64 i \<Longrightarrow> d_int old (j_int i) = Some i"
  by (simp add: j_int_def atoi_itoa)

lemma d_u32_j_int [simp]: "d_u32 old (j_int (uint w)) = Some w"
proof -
  have lt: "uint w < 2 ^ 32" using uint_lt2p [of w] by simp
  moreover have "- (2 ^ 63) \<le> uint w" by (rule order_trans [OF _ uint_nonnegative]) simp
  ultimately have "int64 (uint w)" by (simp add: int64_def)
  then have "atoi (itoa (uint w)) = Some (uint w)" by (rule atoi_itoa)
  moreover have "list_all is_digit (itoa (uint w))" by (simp add: itoa_def dec_digits_all)
  ultimately show ?thesis using lt by (simp add: j_int_def)
qed

lemma ascii_literal [simp]: "ascii []" "ascii (c # s) \<longleftrightarrow> (of_char c :: nat) < 128 \<and> ascii s"
  by (auto simp: ascii_def)

lemma list_all_omit: "list_all P (omit z k v) \<longleftrightarrow> z \<or> P (k, v)"
  by (simp add: omit_def)

lemma json_ok_service: "service_ok s \<Longrightarrow> json_ok (service_json s)"
  by (simp add: service_ok_def service_json_def)

lemma services_json_ok: "list_all service_ok ss \<Longrightarrow> list_all (\<lambda>x. json_ok (service_json x)) ss"
  by (simp add: list_all_iff json_ok_service)

lemma json_ok_control: "control_ok m \<Longrightarrow> json_ok (controlMsg_json m)"
  by (simp add: control_ok_def controlMsg_json_def list_all_omit list.pred_map o_def
      services_json_ok)

lemma d_service_json: "service_ok s \<Longrightarrow> d_service (service_json s) = Some s"
  by (cases s) (simp add: service_json_def service_ok_def service_field_def fold_name_def
      to_lower_char_def zero_service_def)

lemma those_map_Some: "list_all (\<lambda>x. d (e x) = Some x) xs \<Longrightarrow> those (map d (map e xs)) = Some xs"
  by (induction xs) auto

lemma d_list_services: "list_all service_ok xs \<Longrightarrow> d_list d_service (JArr (map service_json xs)) = Some xs"
  using those_map_Some [of d_service service_json xs] by (simp add: list_all_iff d_service_json)

lemma d_list_features: "d_list (d_str []) (JArr (map JStr xs)) = Some xs"
  using those_map_Some [of "d_str []" JStr xs] by (simp add: list_all_iff)

text \<open>
  One step of the decoder per field: an omitted field leaves the zero value, a present one
  is stored, so in both cases the field ends as it was.
\<close>

lemma d_members_omit:
  assumes "control_field m (fold_name k) v = Some m1" and "z \<Longrightarrow> m1 = m"
  shows "d_members control_field m (omit z k v @ r) = d_members control_field m1 r"
  using assms by (auto simp: omit_def)

lemma fold_names [simp]:
  "fold_name ''type'' = ''type''" "fold_name ''channel_id'' = ''channel_id''"
  "fold_name ''local_port'' = ''local_port''" "fold_name ''remote_port'' = ''remote_port''"
  "fold_name ''proto'' = ''proto''" "fold_name ''public_addr'' = ''public_addr''"
  "fold_name ''remote_addr'' = ''remote_addr''" "fold_name ''services'' = ''services''"
  "fold_name ''auth_key'' = ''auth_key''" "fold_name ''failed_services'' = ''failed_services''"
  "fold_name ''features'' = ''features''" "fold_name ''ip_allow'' = ''ip_allow''"
  "fold_name ''ip_deny'' = ''ip_deny''" "fold_name ''max_conns'' = ''max_conns''"
  "fold_name ''rate_limit'' = ''rate_limit''"
  by (simp_all add: fold_name_def to_lower_char_def)

lemma d_members_fields:
  "c_ChannelID m = 0 \<Longrightarrow> d_members control_field m (omit (ch = 0) ''channel_id'' (j_int (uint ch)) @ r)
     = d_members control_field (m\<lparr>c_ChannelID := ch\<rparr>) r"
  "c_LocalPort m = 0 \<Longrightarrow> int64 i \<Longrightarrow> d_members control_field m (omit (i = 0) ''local_port'' (j_int i) @ r)
     = d_members control_field (m\<lparr>c_LocalPort := i\<rparr>) r"
  "c_RemotePort m = 0 \<Longrightarrow> int64 i \<Longrightarrow> d_members control_field m (omit (i = 0) ''remote_port'' (j_int i) @ r)
     = d_members control_field (m\<lparr>c_RemotePort := i\<rparr>) r"
  "c_Proto m = [] \<Longrightarrow> d_members control_field m (omit (t = []) ''proto'' (JStr t) @ r)
     = d_members control_field (m\<lparr>c_Proto := t\<rparr>) r"
  "c_PublicAddr m = [] \<Longrightarrow> d_members control_field m (omit (t = []) ''public_addr'' (JStr t) @ r)
     = d_members control_field (m\<lparr>c_PublicAddr := t\<rparr>) r"
  "c_RemoteAddr m = [] \<Longrightarrow> d_members control_field m (omit (t = []) ''remote_addr'' (JStr t) @ r)
     = d_members control_field (m\<lparr>c_RemoteAddr := t\<rparr>) r"
  "c_Services m = [] \<Longrightarrow> list_all service_ok ss \<Longrightarrow>
     d_members control_field m (omit (ss = []) ''services'' (JArr (map service_json ss)) @ r)
     = d_members control_field (m\<lparr>c_Services := ss\<rparr>) r"
  "c_AuthKey m = [] \<Longrightarrow> d_members control_field m (omit (t = []) ''auth_key'' (JStr t) @ r)
     = d_members control_field (m\<lparr>c_AuthKey := t\<rparr>) r"
  "c_FailedServices m = [] \<Longrightarrow> list_all service_ok ss \<Longrightarrow>
     d_members control_field m (omit (ss = []) ''failed_services'' (JArr (map service_json ss)) @ r)
     = d_members control_field (m\<lparr>c_FailedServices := ss\<rparr>) r"
  "c_Features m = [] \<Longrightarrow> d_members control_field m (omit (fe = []) ''features'' (JArr (map JStr fe)) @ r)
     = d_members control_field (m\<lparr>c_Features := fe\<rparr>) r"
  "c_IPAllow m = [] \<Longrightarrow> d_members control_field m (omit (t = []) ''ip_allow'' (JStr t) @ r)
     = d_members control_field (m\<lparr>c_IPAllow := t\<rparr>) r"
  "c_IPDeny m = [] \<Longrightarrow> d_members control_field m (omit (t = []) ''ip_deny'' (JStr t) @ r)
     = d_members control_field (m\<lparr>c_IPDeny := t\<rparr>) r"
  "c_MaxConns m = 0 \<Longrightarrow> int64 i \<Longrightarrow> d_members control_field m (omit (i = 0) ''max_conns'' (j_int i) @ r)
     = d_members control_field (m\<lparr>c_MaxConns := i\<rparr>) r"
  "c_RateLimit m = 0 \<Longrightarrow> int64 i \<Longrightarrow> d_members control_field m (omit (i = 0) ''rate_limit'' (j_int i) @ r)
     = d_members control_field (m\<lparr>c_RateLimit := i\<rparr>) r"
  by (cases m; rule d_members_omit; simp add: control_field_def d_list_services d_list_features del: d_list.simps)+

lemma d_control_json:
  assumes "control_ok m"
  shows "d_control (controlMsg_json m) = Some m"
proof (cases m)
  case (fields ty ch lp rp pr pa ra ss au fs fe ia id mc rl)
  note ok = assms [unfolded control_ok_def fields, simplified]
  note field = control_field_def d_list_services d_list_features zero_msg_def
  have "d_control (controlMsg_json m) = d_members control_field (zero_msg\<lparr>c_Type := ty\<rparr>)
     (omit (ch = 0) ''channel_id'' (j_int (uint ch)) @ omit (lp = 0) ''local_port'' (j_int lp) @
      omit (rp = 0) ''remote_port'' (j_int rp) @ omit (pr = []) ''proto'' (JStr pr) @
      omit (pa = []) ''public_addr'' (JStr pa) @ omit (ra = []) ''remote_addr'' (JStr ra) @
      omit (ss = []) ''services'' (JArr (map service_json ss)) @ omit (au = []) ''auth_key'' (JStr au) @
      omit (fs = []) ''failed_services'' (JArr (map service_json fs)) @
      omit (fe = []) ''features'' (JArr (map JStr fe)) @ omit (ia = []) ''ip_allow'' (JStr ia) @
      omit (id = []) ''ip_deny'' (JStr id) @ omit (mc = 0) ''max_conns'' (j_int mc) @
      omit (rl = 0) ''rate_limit'' (j_int rl) @ [])"
    by (simp add: fields controlMsg_json_def control_field_def)
  also have "\<dots> = Some m"
    using ok by (simp add: d_members_fields zero_msg_def fields del: append_Nil2)
  finally show ?thesis .
qed

lemma bytes_text_text_bytes [simp]: "bytes_text (text_bytes s) = s"
proof -
  have "char_of (unat (of_char c :: byte)) = c" for c
  proof -
    have "(of_char c :: byte) = of_nat (of_char c)" by (simp only: of_nat_of_char)
    then have "unat (of_char c :: byte) = of_char c mod 256" by (simp add: unat_of_nat)
    then show ?thesis by simp
  qed
  then show ?thesis by (simp add: bytes_text_def text_bytes_def o_def)
qed

lemma unmarshal_marshal: "control_ok m \<Longrightarrow> unmarshal_msg (marshal_msg m) = Some m"
  by (simp add: unmarshal_msg_def marshal_msg_def parse_print_json json_ok_control d_control_json)

text \<open>
  Claim C28 (control_roundtrip): every control message whose texts are ASCII and whose
  integers fit in 64 bits comes back as it was from \<open>json.Marshal\<close> followed by
  \<open>json.Unmarshal\<close>, whichever fields \<open>omitempty\<close> leaves out.
\<close>

theorem control_roundtrip: "control_ok m \<Longrightarrow> unmarshal_msg (marshal_msg m) = Some m"
  by (rule unmarshal_marshal)

theorem control_roundtrip_witness:
  "unmarshal_msg (marshal_msg (zero_msg\<lparr>c_Type := ''new_conn'', c_ChannelID := 7, c_LocalPort := 8080,
      c_Services := [\<lparr>sm_LocalPort = 80, sm_RemotePort = 0, sm_Proto = ''tcp''\<rparr>]\<rparr>))
    = Some (zero_msg\<lparr>c_Type := ''new_conn'', c_ChannelID := 7, c_LocalPort := 8080,
      c_Services := [\<lparr>sm_LocalPort = 80, sm_RemotePort = 0, sm_Proto = ''tcp''\<rparr>]\<rparr>)"
  by (rule control_roundtrip) (simp add: control_ok_def zero_msg_def service_ok_def int64_def)

text \<open>
  What one side sends with \<open>sendControl\<close> the other side's
  \<open>readControl\<close> returns, when the connection takes the bytes and the message fits a frame.
\<close>

lemma readControl_sent:
  assumes "control_ok m" and "length (marshal_msg m) \<le> unat maxFrameSize"
    and "srv_sendControl m \<lparr>w_sent = [], w_room = room\<rparr> = (None, w')"
  shows "readControl (map RByte (w_sent w') @ s) = (Ret m, s)"
proof -
  let ?f = "\<lparr>f_type = frameControl, f_chan = 0, f_payload = marshal_msg m\<rparr>"
  have ok: "frame_ok ?f" using assms(2) by (simp add: frame_ok_def)
  have "w_sent w' = enc_frame ?f"
    using srv_writeFrame_None assms(3) by (fastforce simp: srv_sendControl_def)
  then have "cli_readFrame (map RByte (w_sent w') @ s) = (Ret ?f, s)"
    using down.rd_frame [OF ok] by simp
  then show ?thesis
    by (simp add: readControl_def unmarshal_marshal [OF assms(1)])
qed

end
