(* ===== verification/GoNet.thy ===== *)
theory GoNet
  imports GoStrings
begin

text \<open>
  The parts of Go's \<open>net\<close> and \<open>net/netip\<close> packages the program's address handling rests on:
  parsing of IPv4 and IPv6 addresses and of CIDR blocks, splitting of \<open>host:port\<close>,
  membership of an address in a block, and comparison of addresses. An address is its
  byte list, 4 or 16 bytes long, as in a \<open>net.IP\<close>.
\<close>

section \<open>Addresses\<close>

definition v4_prefix :: bytes where
  "v4_prefix = replicate 10 0 @ [255, 255]"

text \<open>\<open>IP.To4\<close>: the four bytes of an IPv4 address in either form, else nil.\<close>

definition to4 :: "bytes \<Rightarrow> bytes option" where
  "to4 ip = (if length ip = 4 then Some ip
     else if length ip = 16 \<and> take 12 ip = v4_prefix then Some (drop 12 ip) else None)"

text \<open>\<open>net.IPv4\<close> builds the 16-byte form.\<close>

definition ipv4 :: "byte \<Rightarrow> byte \<Rightarrow> byte \<Rightarrow> byte \<Rightarrow> bytes" where
  "ipv4 a b c d = v4_prefix @ [a, b, c, d]"

text \<open>\<open>IP.Equal\<close>: an IPv4 address and its 16-byte form are equal.\<close>

definition ip_equal :: "bytes \<Rightarrow> bytes \<Rightarrow> bool" where
  "ip_equal a b =
     (if length a = length b then a = b
      else if length a = 4 \<and> length b = 16 then take 12 b = v4_prefix \<and> a = drop 12 b
      else if length a = 16 \<and> length b = 4 then take 12 a = v4_prefix \<and> drop 12 a = b
      else False)"

section \<open>Parsing\<close>

text \<open>
  \<open>parseIPv4Fields\<close>: four decimal fields without leading zeros, each at most 255. The
  arguments after the text are the current value, the digits seen in it and the fields done.
\<close>

fun parse_v4 :: "string \<Rightarrow> nat \<Rightarrow> nat \<Rightarrow> bytes \<Rightarrow> bytes option" where
  "parse_v4 [] val digLen fields =
     (if length fields = 3 \<and> digLen > 0 then Some (fields @ [of_nat val]) else None)"
| "parse_v4 (c # s) val digLen fields =
     (if is_digit c then
        (if digLen = 1 \<and> val = 0 then None
         else let v = val * 10 + digit_val c
              in if v > 255 then None else parse_v4 s v (Suc digLen) fields)
      else if c = CHR ''.'' then
        (if digLen = 0 \<or> length fields = 3 then None
         else parse_v4 s 0 0 (fields @ [of_nat val]))
      else None)"

text \<open>One hexadecimal group of at most four digits: its value and the rest.\<close>

fun hex_group :: "string \<Rightarrow> nat \<Rightarrow> nat \<Rightarrow> (nat \<times> nat \<times> string) option" where
  "hex_group [] acc n = Some (acc, n, [])"
| "hex_group (c # s) acc n =
     (case hex_val c of
        None \<Rightarrow> Some (acc, n, c # s)
      | Some d \<Rightarrow> if n > 3 then None else hex_group s (acc * 16 + d) (Suc n))"

text \<open>
  The loop of \<open>parseIPv6\<close>: the bytes so far, the position of the ellipsis and the rest of
  the text. It runs at most eight times (\<open>i < 16\<close>, two bytes a turn).
\<close>

fun v6_loop :: "nat \<Rightarrow> string \<Rightarrow> bytes \<Rightarrow> nat option \<Rightarrow> (bytes \<times> nat option \<times> string) option" where
  "v6_loop 0 s ip ell = Some (ip, ell, s)"
| "v6_loop (Suc n) s ip ell =
     (case hex_group s 0 0 of
        None \<Rightarrow> None
      | Some (acc, off, r) \<Rightarrow>
          if off = 0 then None
          else if r \<noteq> [] \<and> hd r = CHR ''.'' then
            (if (ell = None \<and> length ip \<noteq> 12) \<or> length ip + 4 > 16 then None
             else map_option (\<lambda>f. (ip @ f, ell, [])) (parse_v4 s 0 0 []))
          else let ip1 = ip @ [of_nat (acc div 256), of_nat (acc mod 256)] in
            (case r of
               [] \<Rightarrow> Some (ip1, ell, [])
             | c # r1 \<Rightarrow>
                 if c \<noteq> CHR '':'' \<or> r1 = [] then None
                 else if hd r1 = CHR '':'' then
                   (if ell \<noteq> None then None
                    else if tl r1 = [] then Some (ip1, Some (length ip1), [])
                    else v6_loop n (tl r1) ip1 (Some (length ip1)))
                 else v6_loop n r1 ip1 ell))"

definition v6_finish :: "bytes \<times> nat option \<times> string \<Rightarrow> bytes option" where
  "v6_finish = (\<lambda>(ip, ell, s).
     if s \<noteq> [] then None
     else if length ip < 16 then
       (case ell of
          None \<Rightarrow> None
        | Some e \<Rightarrow> Some (take e ip @ replicate (16 - length ip) 0 @ drop e ip))
     else if ell \<noteq> None then None else Some ip)"

text \<open>An address without zone; the zone of \<open>addr%zone\<close> is returned beside it.\<close>

definition parse_v6 :: "string \<Rightarrow> (bytes \<times> string) option" where
  "parse_v6 s =
     (let (a, zone) = (case index_byte s (CHR ''%'') of
          None \<Rightarrow> (s, None) | Some i \<Rightarrow> (take i s, Some (drop (Suc i) s)))
      in if zone = Some [] then None
         else map_option (\<lambda>ip. (ip, case zone of None \<Rightarrow> [] | Some z \<Rightarrow> z))
           (if take 2 a = ''::'' then
              (if length a = 2 then Some (replicate 16 0)
               else Option.bind (v6_loop 8 (drop 2 a) [] (Some 0)) v6_finish)
            else Option.bind (v6_loop 8 a [] None) v6_finish))"

datatype addr_form = V4 bytes | V6 bytes

text \<open>\<open>netip.ParseAddr\<close> decides the form by the first of the three marks it finds.\<close>

definition parse_addr :: "string \<Rightarrow> (addr_form \<times> string) option" where
  "parse_addr s =
     (case find (\<lambda>c. c = CHR ''.'' \<or> c = CHR '':'' \<or> c = CHR ''%'') s of
        None \<Rightarrow> None
      | Some c \<Rightarrow>
          if c = CHR ''.'' then map_option (\<lambda>ip. (V4 ip, [])) (parse_v4 s 0 0 [])
          else if c = CHR '':'' then map_option (\<lambda>(ip, z). (V6 ip, z)) (parse_v6 s)
          else None)"

text \<open>\<open>net.ParseIP\<close>: 16 bytes, or nil; an address with a zone is not an IP.\<close>

definition ParseIP :: "string \<Rightarrow> bytes option" where
  "ParseIP s = (case parse_addr s of
       Some (V4 ip, z) \<Rightarrow> if z = [] then Some (v4_prefix @ ip) else None
     | Some (V6 ip, z) \<Rightarrow> if z = [] then Some ip else None
     | None \<Rightarrow> None)"

section \<open>Blocks\<close>

record IPNet =
  net_ip :: bytes
  net_mask :: bytes

text \<open>\<open>CIDRMask\<close>: the given number of ones, then zeros, over the given number of bytes.\<close>

definition cidr_mask :: "nat \<Rightarrow> nat \<Rightarrow> bytes" where
  "cidr_mask ones n = map (\<lambda>i. let k = ones - 8 * i in
     if k \<ge> 8 then 255 else 255 XOR drop_bit k 255) [0..<n]"

definition mask_bytes :: "bytes \<Rightarrow> bytes \<Rightarrow> bytes" where
  "mask_bytes ip m = map (\<lambda>(a, b). a AND b) (zip ip m)"

text \<open>\<open>dtoi\<close> on the whole mask text.\<close>

definition dtoi :: "string \<Rightarrow> nat option" where
  "dtoi s = (if s \<noteq> [] \<and> list_all is_digit s \<and> dec_val s < 0xFFFFFF then Some (dec_val s) else None)"

definition ParseCIDR :: "string \<Rightarrow> IPNet option" where
  "ParseCIDR s = (case index_byte s (CHR ''/'') of
       None \<Rightarrow> None
     | Some i \<Rightarrow>
         (case (parse_addr (take i s), dtoi (drop (Suc i) s)) of
            (Some (V4 ip, z), Some n) \<Rightarrow>
              if z \<noteq> [] \<or> n > 32 then None
              else Some \<lparr>net_ip = mask_bytes ip (cidr_mask n 4), net_mask = cidr_mask n 4\<rparr>
          | (Some (V6 ip, z), Some n) \<Rightarrow>
              if z \<noteq> [] \<or> n > 128 then None
              else Some \<lparr>net_ip = mask_bytes ip (cidr_mask n 16), net_mask = cidr_mask n 16\<rparr>
          | _ \<Rightarrow> None))"

text \<open>\<open>networkNumberAndMask\<close> and \<open>IPNet.Contains\<close>.\<close>

definition network_number :: "IPNet \<Rightarrow> (bytes \<times> bytes) option" where
  "network_number n =
     (let ip = (case to4 (net_ip n) of Some ip4 \<Rightarrow> ip4 | None \<Rightarrow> net_ip n); m = net_mask n
      in if length ip \<noteq> 4 \<and> length ip \<noteq> 16 then None
         else if length m = 4 then (if length ip = 4 then Some (ip, m) else None)
         else if length m = 16 then (if length ip = 4 then Some (ip, drop 12 m) else Some (ip, m))
         else None)"

definition net_contains :: "IPNet \<Rightarrow> bytes \<Rightarrow> bool" where
  "net_contains n ip = (case network_number n of
       None \<Rightarrow> False
     | Some (nn, m) \<Rightarrow>
         (let x = (case to4 ip of Some ip4 \<Rightarrow> ip4 | None \<Rightarrow> ip)
          in length x = length nn \<and> mask_bytes nn m = mask_bytes x m))"

section \<open>host:port\<close>

text \<open>\<open>net.SplitHostPort\<close>.\<close>

definition SplitHostPort :: "string \<Rightarrow> (string \<times> string) option" where
  "SplitHostPort s = (case last_index_byte s (CHR '':'') of
       None \<Rightarrow> None
     | Some i \<Rightarrow>
         (case (if hd s = CHR ''['' then
                  (case index_byte s (CHR '']'') of
                     None \<Rightarrow> None
                   | Some e \<Rightarrow> if Suc e = i then Some (take (e - 1) (drop 1 s), 1, Suc e) else None)
                else if CHR '':'' \<in> set (take i s) then None
                else Some (take i s, 0, 0)) of
            None \<Rightarrow> None
          | Some (host, j, k) \<Rightarrow>
              if CHR ''['' \<in> set (drop j s) \<or> CHR '']'' \<in> set (drop k s) then None
              else Some (host, drop (Suc i) s)))"

section \<open>Evaluating the parsers\<close>

text \<open>The IPv6 loop has a constant bound; unrolled, it evaluates by rewriting.\<close>

lemma v6_loop_8: "v6_loop 8 = v6_loop (Suc (Suc (Suc (Suc (Suc (Suc (Suc (Suc 0))))))))"
  by (simp add: numeral_eq_Suc)

lemmas v6_eval = parse_v6_def v6_loop_8 v6_finish_def hex_val_def
lemmas cidr_eval = ParseCIDR_def parse_addr_def is_digit_def digit_val_def dtoi_def dec_val_def
  cidr_mask_def upt_rec mask_bytes_def
lemmas hostport_eval = SplitHostPort_def last_index_byte_def

end
