(* ===== verification/IPFilter.thy ===== *)
theory IPFilter
  imports GoNet
begin

text \<open>
  The IP filter plugin (\<open>plugin/ipfilter.go\<close>): the parsing of the two comma-separated CIDR
  lists and the decision for a remote address. The source writes the list loop twice; the
  model does too. The specification is set membership: \<open>allowed_by\<close> reads the decision off
  the two lists of blocks.
\<close>

record IPFilter =
  allowNets :: "IPNet list"
  denyNets :: "IPNet list"

text \<open>Which list held the entry that could not be parsed, and the entry.\<close>

datatype filter_err = InvalidAllow string | InvalidDeny string

text \<open>One entry: trimmed, skipped if empty, \<open>/32\<close> appended if it has no slash.\<close>

definition cidr_entry :: "string \<Rightarrow> string option" where
  "cidr_entry part =
     (let cidr = trim_space part
      in if cidr = [] then None
         else if \<not> contains_str cidr ''/'' then Some (cidr @ ''/32'') else Some cidr)"

fun add_allow :: "string list \<Rightarrow> IPFilter \<Rightarrow> filter_err + IPFilter" where
  "add_allow [] f = Inr f"
| "add_allow (p # ps) f = (case cidr_entry p of
       None \<Rightarrow> add_allow ps f
     | Some cidr \<Rightarrow> (case ParseCIDR cidr of
           None \<Rightarrow> Inl (InvalidAllow cidr)
         | Some n \<Rightarrow> add_allow ps (f\<lparr>allowNets := allowNets f @ [n]\<rparr>)))"

fun add_deny :: "string list \<Rightarrow> IPFilter \<Rightarrow> filter_err + IPFilter" where
  "add_deny [] f = Inr f"
| "add_deny (p # ps) f = (case cidr_entry p of
       None \<Rightarrow> add_deny ps f
     | Some cidr \<Rightarrow> (case ParseCIDR cidr of
           None \<Rightarrow> Inl (InvalidDeny cidr)
         | Some n \<Rightarrow> add_deny ps (f\<lparr>denyNets := denyNets f @ [n]\<rparr>)))"

definition NewIPFilter :: "string \<Rightarrow> string \<Rightarrow> filter_err + IPFilter" where
  "NewIPFilter allow deny =
     (let f = \<lparr>allowNets = [], denyNets = []\<rparr>
      in case (if allow \<noteq> [] then add_allow (split_on (CHR '','') allow) f else Inr f) of
           Inl e \<Rightarrow> Inl e
         | Inr f1 \<Rightarrow> if deny \<noteq> [] then add_deny (split_on (CHR '','') deny) f1 else Inr f1)"

text \<open>\<open>for _, n := range nets { if n.Contains(ip) ... break }\<close>.\<close>

fun any_contains :: "IPNet list \<Rightarrow> bytes \<Rightarrow> bool" where
  "any_contains [] ip = False"
| "any_contains (n # ns) ip = (if net_contains n ip then True else any_contains ns ip)"

text \<open>The remote address is the text \<open>addr.String()\<close> returns.\<close>

definition remote_ip :: "string \<Rightarrow> bytes option" where
  "remote_ip addr = ParseIP (case SplitHostPort addr of Some (h, _) \<Rightarrow> h | None \<Rightarrow> addr)"

definition ipf_OnAccept :: "IPFilter \<Rightarrow> string \<Rightarrow> string \<Rightarrow> bool" where
  "ipf_OnAccept f proto addr =
     (case remote_ip addr of
        None \<Rightarrow> True
      | Some ip \<Rightarrow>
          if length (allowNets f) > 0 \<and> \<not> any_contains (allowNets f) ip then False
          else if any_contains (denyNets f) ip then False
          else True)"

section \<open>Specification\<close>

lemma any_contains_iff: "any_contains ns ip \<longleftrightarrow> (\<exists>n \<in> set ns. net_contains n ip)"
  by (induction ns) auto

text \<open>An address passes if some allow block holds it (or there are none) and no deny block does.\<close>

definition allowed_by :: "IPNet list \<Rightarrow> IPNet list \<Rightarrow> bytes \<Rightarrow> bool" where
  "allowed_by allow deny ip \<longleftrightarrow>
     (allow = [] \<or> (\<exists>n \<in> set allow. net_contains n ip)) \<and> \<not> (\<exists>n \<in> set deny. net_contains n ip)"

lemma ipf_OnAccept_iff:
  "ipf_OnAccept f proto addr \<longleftrightarrow> (case remote_ip addr of None \<Rightarrow> True
     | Some ip \<Rightarrow> allowed_by (allowNets f) (denyNets f) ip)"
  by (auto simp: ipf_OnAccept_def allowed_by_def any_contains_iff split: option.splits)

text \<open>The blocks a list denotes, if all its entries parse.\<close>

definition list_entries :: "string \<Rightarrow> string list" where
  "list_entries s = (if s = [] then [] else List.map_filter cidr_entry (split_on (CHR '','') s))"

definition list_nets :: "string \<Rightarrow> IPNet list option" where
  "list_nets s = those (map ParseCIDR (list_entries s))"

lemma add_allow_eq:
  "add_allow ps f = (case find (\<lambda>c. ParseCIDR c = None) (List.map_filter cidr_entry ps) of
     Some c \<Rightarrow> Inl (InvalidAllow c)
   | None \<Rightarrow> Inr (f\<lparr>allowNets := allowNets f @ map (the \<circ> ParseCIDR) (List.map_filter cidr_entry ps)\<rparr>))"
  by (induction ps f rule: add_allow.induct)
    (auto simp: List.map_filter_simps split: option.splits)

lemma add_deny_eq:
  "add_deny ps f = (case find (\<lambda>c. ParseCIDR c = None) (List.map_filter cidr_entry ps) of
     Some c \<Rightarrow> Inl (InvalidDeny c)
   | None \<Rightarrow> Inr (f\<lparr>denyNets := denyNets f @ map (the \<circ> ParseCIDR) (List.map_filter cidr_entry ps)\<rparr>))"
  by (induction ps f rule: add_deny.induct)
    (auto simp: List.map_filter_simps split: option.splits)

lemma those_map_find:
  "those (map f xs) = (case find (\<lambda>x. f x = None) xs of Some _ \<Rightarrow> None | None \<Rightarrow> Some (map (the \<circ> f) xs))"
  by (induction xs) (auto split: option.splits)

lemma find_None_nets: "find (\<lambda>c. ParseCIDR c = None) xs = None \<longleftrightarrow> those (map ParseCIDR xs) \<noteq> None"
  by (auto simp: those_map_find split: option.splits)

lemma find_Some_member: "find P xs = Some x \<Longrightarrow> x \<in> set xs \<and> P x"
  by (auto simp: find_Some_iff)

lemma NewIPFilter_eq:
  "NewIPFilter allow deny =
     (case find (\<lambda>c. ParseCIDR c = None) (list_entries allow) of
        Some c \<Rightarrow> Inl (InvalidAllow c)
      | None \<Rightarrow> (case find (\<lambda>c. ParseCIDR c = None) (list_entries deny) of
           Some c \<Rightarrow> Inl (InvalidDeny c)
         | None \<Rightarrow> Inr \<lparr>allowNets = the (list_nets allow), denyNets = the (list_nets deny)\<rparr>))"
  by (auto simp: NewIPFilter_def list_entries_def list_nets_def add_allow_eq add_deny_eq Let_def
      those_map_find split: option.splits)

text \<open>
  Claim C31 (ip_filter_decision): the constructor fails exactly when some entry of the
  allow list, or else of the deny list, is not a CIDR block after trimming and completing,
  and it names that entry; otherwise the filter admits exactly the addresses that lie in
  some allow block (all of them when the list is empty) and in no deny block, and an
  address that is not an IP passes.
\<close>

theorem ip_filter_decision:
  "case NewIPFilter allow deny of
     Inl (InvalidAllow c) \<Rightarrow> c \<in> set (list_entries allow) \<and> ParseCIDR c = None
   | Inl (InvalidDeny c) \<Rightarrow> list_nets allow \<noteq> None \<and> c \<in> set (list_entries deny) \<and> ParseCIDR c = None
   | Inr f \<Rightarrow> (\<exists>as ds. list_nets allow = Some as \<and> list_nets deny = Some ds \<and>
       (\<forall>proto addr. ipf_OnAccept f proto addr =
          (case remote_ip addr of None \<Rightarrow> True | Some ip \<Rightarrow> allowed_by as ds ip)))"
proof (cases "find (\<lambda>c. ParseCIDR c = None) (list_entries allow)")
  case (Some c)
  with find_Some_member [OF Some] show ?thesis by (simp add: NewIPFilter_eq)
next
  case allow: None
  then obtain as where as: "list_nets allow = Some as" by (auto simp: find_None_nets list_nets_def)
  show ?thesis
  proof (cases "find (\<lambda>c. ParseCIDR c = None) (list_entries deny)")
    case (Some c)
    with allow as find_Some_member [OF Some] show ?thesis by (simp add: NewIPFilter_eq)
  next
    case None
    then obtain ds where "list_nets deny = Some ds" by (auto simp: find_None_nets list_nets_def)
    with allow as None show ?thesis
      by (simp add: NewIPFilter_eq ipf_OnAccept_iff cong: option.case_cong)
  qed
qed


section \<open>Where the decision is not what the lists say\<close>

lemma parse_v6_examples:
  "parse_v6 ''2001:db8::1'' = Some ([32, 1, 13, 184, 0, 0, 0, 0, 0, 0, 0, 0, 0, 0, 0, 1], [])"
  "parse_v6 ''2001:db8:ffff::9'' = Some ([32, 1, 13, 184, 255, 255, 0, 0, 0, 0, 0, 0, 0, 0, 0, 9], [])"
  "parse_v6 ''fe80::1'' = Some ([254, 128, 0, 0, 0, 0, 0, 0, 0, 0, 0, 0, 0, 0, 0, 1], [])"
  "parse_v6 ''fe80::1%eth0'' = Some ([254, 128, 0, 0, 0, 0, 0, 0, 0, 0, 0, 0, 0, 0, 0, 1], ''eth0'')"
  by (simp_all add: v6_eval replicate_numeral)

lemma cidr_examples:
  "ParseCIDR ''2001:db8::1/32'' = Some \<lparr>net_ip = [32, 1, 13, 184, 0, 0, 0, 0, 0, 0, 0, 0, 0, 0, 0, 0], net_mask = [255, 255, 255, 255, 0, 0, 0, 0, 0, 0, 0, 0, 0, 0, 0, 0]\<rparr>"
  "ParseCIDR ''2001:db8::1/128'' = Some \<lparr>net_ip = [32, 1, 13, 184, 0, 0, 0, 0, 0, 0, 0, 0, 0, 0, 0, 1], net_mask = [255, 255, 255, 255, 255, 255, 255, 255, 255, 255, 255, 255, 255, 255, 255, 255]\<rparr>"
  "ParseCIDR ''10.0.0.0/8'' = Some \<lparr>net_ip = [10, 0, 0, 0], net_mask = [255, 0, 0, 0]\<rparr>"
  by (simp_all add: cidr_eval parse_v6_examples)

lemma remote_ip_examples:
  "remote_ip ''[2001:db8:ffff::9]:443'' = Some [32, 1, 13, 184, 255, 255, 0, 0, 0, 0, 0, 0, 0, 0, 0, 9]"
  "remote_ip ''[2001:db8::1]:443'' = Some [32, 1, 13, 184, 0, 0, 0, 0, 0, 0, 0, 0, 0, 0, 0, 1]"
  "remote_ip ''[fe80::1]:5000'' = Some [254, 128, 0, 0, 0, 0, 0, 0, 0, 0, 0, 0, 0, 0, 0, 1]"
  "remote_ip ''[fe80::1%eth0]:5000'' = None"
  by (simp_all add: remote_ip_def hostport_eval ParseIP_def parse_addr_def parse_v6_examples)

lemma filter_examples:
  "NewIPFilter [] ''2001:db8::1'' = Inr \<lparr>allowNets = [], denyNets =
     [\<lparr>net_ip = [32, 1, 13, 184, 0, 0, 0, 0, 0, 0, 0, 0, 0, 0, 0, 0], net_mask = [255, 255, 255, 255, 0, 0, 0, 0, 0, 0, 0, 0, 0, 0, 0, 0]\<rparr>]\<rparr>"
  "NewIPFilter [] ''2001:db8::1/128'' = Inr \<lparr>allowNets = [], denyNets =
     [\<lparr>net_ip = [32, 1, 13, 184, 0, 0, 0, 0, 0, 0, 0, 0, 0, 0, 0, 1], net_mask = [255, 255, 255, 255, 255, 255, 255, 255, 255, 255, 255, 255, 255, 255, 255, 255]\<rparr>]\<rparr>"
  "NewIPFilter ''10.0.0.0/8'' [] = Inr \<lparr>allowNets =
     [\<lparr>net_ip = [10, 0, 0, 0], net_mask = [255, 0, 0, 0]\<rparr>], denyNets = []\<rparr>"
  by (simp_all add: NewIPFilter_def cidr_entry_def trim_space_def is_space_def contains_str_def cidr_examples)

lemmas contains_eval = ipf_OnAccept_def net_contains_def network_number_def to4_def v4_prefix_def
  mask_bytes_def

text \<open>
  The completion with \<open>/32\<close> turns a bare IPv6 deny entry into
  its whole /32: denying the host 2001:db8::1 refuses any other host of 2001:db8::/32, while
  the same entry written with /128 refuses that host alone.
\<close>

theorem bare_ipv6_widened:
  "\<exists>f g. NewIPFilter [] ''2001:db8::1'' = Inr f \<and> NewIPFilter [] ''2001:db8::1/128'' = Inr g \<and>
     \<not> ipf_OnAccept f ''tcp'' ''[2001:db8:ffff::9]:443'' \<and> ipf_OnAccept g ''tcp'' ''[2001:db8:ffff::9]:443'' \<and>
     \<not> ipf_OnAccept g ''tcp'' ''[2001:db8::1]:443''"
  by (simp add: filter_examples contains_eval remote_ip_examples)

text \<open>
  A remote address with an IPv6 zone is not an IP for
  \<open>net.ParseIP\<close>, so the filter admits it even when the allow list excludes every link-local
  address.
\<close>

theorem zoned_address_passes:
  "\<exists>f. NewIPFilter ''10.0.0.0/8'' [] = Inr f \<and> \<not> ipf_OnAccept f ''tcp'' ''[fe80::1]:5000''
     \<and> ipf_OnAccept f ''tcp'' ''[fe80::1%eth0]:5000''"
  by (simp add: filter_examples contains_eval remote_ip_examples)

end
