(* ===== verification/ConnLimit.thy ===== *)
theory ConnLimit
  imports Prelude
begin

text \<open>
  The connection limiter (\<open>plugin/connlimit.go\<close>): an atomic 32-bit counter of the open
  connections and its maximum. First the operations as one caller sees them, then the
  compare-and-swap loop of \<open>OnAccept\<close> as a step relation for any number of callers. The
  locale \<open>slot_pool\<close> is the contract the accept loops rely on.
\<close>

section \<open>Operations\<close>

record ConnLimit =
  maxConns :: i32
  current :: i32

text \<open>\<open>int32(maxConns)\<close> keeps the low 32 bits of the 64-bit argument.\<close>

definition NewConnLimit :: "int \<Rightarrow> ConnLimit" where
  "NewConnLimit n = \<lparr>maxConns = word_of_int n, current = 0\<rparr>"

text \<open>
  With a single caller the compare-and-swap sees the value just loaded, so the loop runs once.
\<close>

definition limit_OnAccept :: "ConnLimit \<Rightarrow> bool \<times> ConnLimit" where
  "limit_OnAccept l =
     (if sint (maxConns l) \<le> 0 then (True, l)
      else let cur = current l
           in if sint cur \<ge> sint (maxConns l) then (False, l)
              else (True, l\<lparr>current := cur + 1\<rparr>))"

definition limit_OnOpen :: "ConnLimit \<Rightarrow> ConnLimit" where
  "limit_OnOpen l = l"

definition limit_OnClose :: "ConnLimit \<Rightarrow> ConnLimit" where
  "limit_OnClose l = l\<lparr>current := current l - 1\<rparr>"

definition limit_Current :: "ConnLimit \<Rightarrow> int" where
  "limit_Current l = sint (current l)"

definition limit_Max :: "ConnLimit \<Rightarrow> int" where
  "limit_Max l = sint (maxConns l)"

section \<open>The counter as an integer\<close>

lemma sint_succ_less:
  fixes c m :: i32
  assumes "sint c < sint m"
  shows "sint (c + 1) = sint c + 1"
proof -
  have "sint m < 2 ^ 31" "- (2 ^ 31) \<le> sint c"
    using sint_lt [of m] sint_ge [of c] by simp_all
  with assms have "signed_take_bit 31 (sint c + 1) = sint c + 1"
    by (simp add: signed_take_bit_int_eq_self)
  then show ?thesis by (simp add: sint_word_ariths)
qed

lemma sint_pred_greater:
  fixes c :: i32
  assumes "- (2 ^ 31) < sint c"
  shows "sint (c - 1) = sint c - 1"
proof -
  have "sint c < 2 ^ 31" using sint_lt [of c] by simp
  with assms have "signed_take_bit 31 (sint c - 1) = sint c - 1"
    by (simp add: signed_take_bit_int_eq_self)
  then show ?thesis by (simp add: sint_word_ariths)
qed

definition limit_ok :: "ConnLimit \<Rightarrow> bool" where
  "limit_ok l \<longleftrightarrow> 0 < limit_Max l \<and> 0 \<le> limit_Current l \<and> limit_Current l \<le> limit_Max l"

lemma limit_OnAccept_True:
  assumes "limit_ok l" and "limit_OnAccept l = (True, l')"
  shows "limit_ok l' \<and> limit_Current l' = limit_Current l + 1 \<and> limit_Max l' = limit_Max l"
proof -
  from assms have lt: "sint (current l) < sint (maxConns l)" and l': "l' = l\<lparr>current := current l + 1\<rparr>"
    by (auto simp: limit_OnAccept_def limit_ok_def limit_Current_def limit_Max_def Let_def split: if_splits)
  with sint_succ_less [OF lt] assms(1) show ?thesis
    by (simp add: limit_ok_def limit_Current_def limit_Max_def)
qed

lemma limit_OnAccept_False:
  "limit_OnAccept l = (False, l') \<Longrightarrow> l' = l \<and> limit_Current l \<ge> limit_Max l"
  by (auto simp: limit_OnAccept_def limit_Current_def limit_Max_def Let_def split: if_splits)

lemma limit_OnAccept_full:
  "limit_ok l \<Longrightarrow> fst (limit_OnAccept l) \<longleftrightarrow> limit_Current l < limit_Max l"
  by (auto simp: limit_OnAccept_def limit_ok_def limit_Current_def limit_Max_def Let_def)

lemma limit_OnClose_Current:
  "limit_ok l \<Longrightarrow> limit_Current (limit_OnClose l) = limit_Current l - 1"
  by (simp add: limit_OnClose_def limit_ok_def limit_Current_def sint_pred_greater)

lemma limit_OnClose_Max [simp]: "limit_Max (limit_OnClose l) = limit_Max l"
  by (simp add: limit_OnClose_def limit_Max_def)

section \<open>The contract\<close>

text \<open>
  A pool of slots: a successful acquire takes one, a failed one changes nothing and happens
  exactly when the pool is full, a release gives one back.
\<close>

locale slot_pool =
  fixes acquire :: "'s \<Rightarrow> bool \<times> 's"
    and release :: "'s \<Rightarrow> 's"
    and used :: "'s \<Rightarrow> int"
    and cap :: "'s \<Rightarrow> int"
    and ok :: "'s \<Rightarrow> bool"
  assumes ok_used: "ok s \<Longrightarrow> 0 \<le> used s \<and> used s \<le> cap s"
    and acquire_taken: "ok s \<Longrightarrow> acquire s = (True, t) \<Longrightarrow> ok t \<and> used t = used s + 1 \<and> cap t = cap s"
    and acquire_refused: "ok s \<Longrightarrow> acquire s = (False, t) \<Longrightarrow> t = s"
    and acquire_iff: "ok s \<Longrightarrow> fst (acquire s) \<longleftrightarrow> used s < cap s"
    and release_ok: "ok s \<Longrightarrow> 0 < used s \<Longrightarrow> ok (release s) \<and> used (release s) = used s - 1 \<and> cap (release s) = cap s"

text \<open>
  A history of arrivals and departures; \<open>pool_run\<close> counts the connections that are in.
\<close>

datatype slot_event = Arrive | Depart

fun pool_run :: "('s \<Rightarrow> bool \<times> 's) \<Rightarrow> ('s \<Rightarrow> 's) \<Rightarrow> slot_event list \<Rightarrow> nat \<times> 's \<Rightarrow> nat \<times> 's" where
  "pool_run acq rel [] (n, s) = (n, s)"
| "pool_run acq rel (Arrive # es) (n, s) =
     (case acq s of (True, t) \<Rightarrow> pool_run acq rel es (Suc n, t) | (False, t) \<Rightarrow> pool_run acq rel es (n, t))"
| "pool_run acq rel (Depart # es) (n, s) = pool_run acq rel es (n - 1, rel s)"

text \<open>Only a connection that is in can depart.\<close>

fun departs_ok :: "('s \<Rightarrow> bool \<times> 's) \<Rightarrow> ('s \<Rightarrow> 's) \<Rightarrow> slot_event list \<Rightarrow> nat \<times> 's \<Rightarrow> bool" where
  "departs_ok acq rel [] (n, s) = True"
| "departs_ok acq rel (Arrive # es) (n, s) =
     (case acq s of (True, t) \<Rightarrow> departs_ok acq rel es (Suc n, t) | (False, t) \<Rightarrow> departs_ok acq rel es (n, t))"
| "departs_ok acq rel (Depart # es) (n, s) = (0 < n \<and> departs_ok acq rel es (n - 1, rel s))"

context slot_pool
begin

lemma run_counts:
  assumes "ok s" and "used s = int n" and "departs_ok acquire release es (n, s)"
    and "pool_run acquire release es (n, s) = (m, t)"
  shows "ok t \<and> used t = int m \<and> cap t = cap s"
  using assms
proof (induction es arbitrary: n s)
  case (Cons e es)
  show ?case
  proof (cases e)
    case Arrive
    obtain b u where acq: "acquire s = (b, u)" by force
    show ?thesis
    proof (cases b)
      case True
      with acq acquire_taken Cons.prems(1) have "ok u" "used u = used s + 1" "cap u = cap s" by auto
      with Cons.IH [of u "Suc n"] Cons.prems Arrive True acq show ?thesis by simp
    next
      case False
      with acq acquire_refused Cons.prems(1) have "u = s" by auto
      with Cons.IH [of s n] Cons.prems Arrive False acq show ?thesis by simp
    qed
  next
    case Depart
    with Cons.prems have n: "0 < n" by simp
    with release_ok Cons.prems have "ok (release s)" "used (release s) = int (n - 1)" "cap (release s) = cap s"
      by auto
    with Cons.IH [of "release s" "n - 1"] Cons.prems Depart show ?thesis by simp
  qed
qed simp

lemma run_bounded:
  assumes "ok s" and "used s = 0" and "departs_ok acquire release es (0, s)"
    and "pool_run acquire release es (0, s) = (m, t)"
  shows "int m \<le> cap s \<and> (fst (acquire t) \<longleftrightarrow> int m < cap s)"
  using run_counts [of s 0 es m t] assms ok_used [of t] acquire_iff [of t] by auto

end

interpretation climit: slot_pool limit_OnAccept limit_OnClose limit_Current limit_Max limit_ok
proof unfold_locales
  show "limit_ok s \<Longrightarrow> limit_OnAccept s = (True, t) \<Longrightarrow>
      limit_ok t \<and> limit_Current t = limit_Current s + 1 \<and> limit_Max t = limit_Max s" for s t
    by (rule limit_OnAccept_True)
  show "limit_ok s \<Longrightarrow> limit_OnAccept s = (False, t) \<Longrightarrow> t = s" for s t
    by (simp add: limit_OnAccept_False)
  show "limit_ok s \<Longrightarrow> 0 < limit_Current s \<Longrightarrow> limit_ok (limit_OnClose s)
      \<and> limit_Current (limit_OnClose s) = limit_Current s - 1 \<and> limit_Max (limit_OnClose s) = limit_Max s" for s
    using limit_OnClose_Current [of s] by (auto simp: limit_ok_def)
qed (simp_all add: limit_OnAccept_full limit_ok_def)

lemma NewConnLimit_ok:
  assumes "0 < n" and "n < 2 ^ 31"
  shows "limit_ok (NewConnLimit n)" "limit_Current (NewConnLimit n) = 0" "limit_Max (NewConnLimit n) = n"
proof -
  have "signed_take_bit 31 n = n" using assms by (simp add: signed_take_bit_int_eq_self)
  then have "sint (word_of_int n :: i32) = n" by (simp add: sint_sbintrunc')
  with assms show "limit_ok (NewConnLimit n)" "limit_Current (NewConnLimit n) = 0" "limit_Max (NewConnLimit n) = n"
    by (simp_all add: NewConnLimit_def limit_ok_def limit_Current_def limit_Max_def)
qed

text \<open>
  Over any history in which only admitted connections
  depart, the number of connections that are in never exceeds the configured maximum, and
  the next one is admitted exactly when there is room.
\<close>

theorem conn_limit_bounded:
  assumes "0 < n" and "n < 2 ^ 31"
    and "departs_ok limit_OnAccept limit_OnClose es (0, NewConnLimit n)"
    and "pool_run limit_OnAccept limit_OnClose es (0, NewConnLimit n) = (m, t)"
  shows "int m \<le> n \<and> (fst (limit_OnAccept t) \<longleftrightarrow> int m < n)"
  using climit.run_bounded [of "NewConnLimit n" es m t] NewConnLimit_ok [OF assms(1,2)] assms(3,4)
  by simp

theorem conn_limit_bounded_witness:
  "int 2 \<le> (2::int) \<and> (fst (limit_OnAccept \<lparr>maxConns = 2, current = 2\<rparr>) \<longleftrightarrow> int 2 < (2::int))"
  by (rule conn_limit_bounded [of 2 "[Arrive, Arrive, Arrive]"])
    (simp_all add: NewConnLimit_def limit_OnAccept_def)

section \<open>The compare-and-swap loop\<close>

text \<open>
  Any number of goroutines run \<open>OnAccept\<close>. Each has loaded the counter or not yet; the
  compare-and-swap succeeds only if the counter still has the loaded value, otherwise the
  loop starts again. A goroutine that got in may leave through \<open>OnClose\<close>.
\<close>

datatype cas_pc = Start | Loaded i32 | Admitted | Refused | Left

record cas_sys =
  shared :: ConnLimit
  pcs :: "nat \<Rightarrow> cas_pc"

definition cas_init :: "int \<Rightarrow> cas_sys" where
  "cas_init n = \<lparr>shared = NewConnLimit n, pcs = (\<lambda>_. Start)\<rparr>"

inductive cas_step :: "cas_sys \<Rightarrow> cas_sys \<Rightarrow> bool" where
  cas_load: "pcs s i = Start \<Longrightarrow>
    cas_step s (s\<lparr>pcs := (pcs s)(i := Loaded (current (shared s)))\<rparr>)"
| cas_refuse: "pcs s i = Loaded c \<Longrightarrow> sint c \<ge> sint (maxConns (shared s)) \<Longrightarrow>
    cas_step s (s\<lparr>pcs := (pcs s)(i := Refused)\<rparr>)"
| cas_swap: "pcs s i = Loaded c \<Longrightarrow> sint c < sint (maxConns (shared s)) \<Longrightarrow> current (shared s) = c \<Longrightarrow>
    cas_step s (s\<lparr>shared := (shared s)\<lparr>current := c + 1\<rparr>, pcs := (pcs s)(i := Admitted)\<rparr>)"
| cas_retry: "pcs s i = Loaded c \<Longrightarrow> sint c < sint (maxConns (shared s)) \<Longrightarrow> current (shared s) \<noteq> c \<Longrightarrow>
    cas_step s (s\<lparr>pcs := (pcs s)(i := Start)\<rparr>)"
| cas_close: "pcs s i = Admitted \<Longrightarrow>
    cas_step s (s\<lparr>shared := limit_OnClose (shared s), pcs := (pcs s)(i := Left)\<rparr>)"

inductive cas_reach :: "int \<Rightarrow> cas_sys \<Rightarrow> bool" for n where
  cas_start: "cas_reach n (cas_init n)"
| cas_next: "cas_reach n s \<Longrightarrow> cas_step s t \<Longrightarrow> cas_reach n t"

definition holders :: "cas_sys \<Rightarrow> nat set" where
  "holders s = {i. pcs s i = Admitted}"

definition cas_inv :: "int \<Rightarrow> cas_sys \<Rightarrow> bool" where
  "cas_inv n s \<longleftrightarrow> finite (holders s) \<and> limit_ok (shared s) \<and> limit_Max (shared s) = n
     \<and> limit_Current (shared s) = int (card (holders s))"

lemma holders_upd_other:
  assumes "pcs s i \<noteq> Admitted" and "p \<noteq> Admitted"
  shows "holders (s\<lparr>pcs := (pcs s)(i := p)\<rparr>) = holders s"
  using assms by (auto simp: holders_def)

lemma holders_shared [simp]: "holders (s\<lparr>shared := l, pcs := p\<rparr>) = holders (s\<lparr>pcs := p\<rparr>)"
  by (simp add: holders_def)

lemma holders_admit:
  "pcs s i \<noteq> Admitted \<Longrightarrow> holders (s\<lparr>pcs := (pcs s)(i := Admitted)\<rparr>) = insert i (holders s) \<and> i \<notin> holders s"
  by (auto simp: holders_def)

lemma holders_leave:
  "pcs s i = Admitted \<Longrightarrow> holders (s\<lparr>pcs := (pcs s)(i := Left)\<rparr>) = holders s - {i} \<and> i \<in> holders s"
  by (auto simp: holders_def)

lemma cas_step_inv: "cas_step s t \<Longrightarrow> cas_inv n s \<Longrightarrow> cas_inv n t"
proof (induction rule: cas_step.induct)
  case (cas_swap s i c)
  then have lt: "sint c < sint (maxConns (shared s))" and c: "sint c = int (card (holders s))"
    by (auto simp: cas_inv_def limit_Current_def)
  with sint_succ_less [OF lt] cas_swap holders_admit [of s i] show ?case
    by (auto simp: cas_inv_def limit_ok_def limit_Current_def limit_Max_def)
next
  case (cas_close s i)
  with holders_leave [of s i] have pos: "0 < card (holders s)" and h: "i \<in> holders s"
    by (auto simp: cas_inv_def card_gt_0_iff)
  from pos cas_close climit.release_ok [of "shared s"] holders_leave [of s i] h show ?case
    by (auto simp: cas_inv_def)
qed (auto simp: cas_inv_def holders_upd_other)

lemma cas_reach_inv:
  assumes "cas_reach n s" and "0 < n" and "n < 2 ^ 31"
  shows "cas_inv n s"
  using assms(1)
proof (induction rule: cas_reach.induct)
  case cas_start
  show ?case using NewConnLimit_ok [OF assms(2,3)]
    by (simp add: cas_inv_def cas_init_def holders_def)
next
  case (cas_next s t)
  then show ?case by (blast intro: cas_step_inv)
qed

text \<open>
  Claim C29 (conn_limit_concurrent): whatever the interleaving of the compare-and-swap
  loops, the callers that are in never outnumber the maximum, and the counter is their
  exact number.
\<close>

theorem conn_limit_concurrent:
  assumes "cas_reach n s" and "0 < n" and "n < 2 ^ 31"
  shows "int (card (holders s)) \<le> n \<and> limit_Current (shared s) = int (card (holders s))"
  using cas_reach_inv [OF assms] by (auto simp: cas_inv_def limit_ok_def)

text \<open>A run in which goroutine 0 gets the only slot and goroutine 1 has already loaded 0.\<close>

definition cas_demo :: cas_sys where
  "cas_demo = \<lparr>shared = \<lparr>maxConns = 1, current = 1\<rparr>, pcs = (\<lambda>_. Start)(0 := Admitted, 1 := Loaded 0)\<rparr>"

lemma cas_demo_reach: "cas_reach 1 cas_demo"
proof -
  let ?s1 = "(cas_init 1)\<lparr>pcs := (pcs (cas_init 1))(0 := Loaded 0)\<rparr>"
  let ?s2 = "?s1\<lparr>pcs := (pcs ?s1)(1 := Loaded 0)\<rparr>"
  have "cas_step (cas_init 1) ?s1"
    using cas_load [of "cas_init 1" 0] by (simp add: cas_init_def NewConnLimit_def)
  then have "cas_reach 1 ?s1" by (rule cas_next [OF cas_start])
  moreover have "cas_step ?s1 ?s2"
    using cas_load [of ?s1 1] by (simp add: cas_init_def NewConnLimit_def)
  ultimately have "cas_reach 1 ?s2" by (rule cas_next)
  moreover have "cas_step ?s2 cas_demo"
    using cas_swap [of ?s2 0 0] by (simp add: cas_init_def NewConnLimit_def cas_demo_def fun_upd_twist)
  ultimately show ?thesis by (rule cas_next)
qed

theorem conn_limit_concurrent_witness:
  "int (card (holders cas_demo)) \<le> (1::int) \<and> limit_Current (shared cas_demo) = int (card (holders cas_demo))"
  by (rule conn_limit_concurrent [OF cas_demo_reach]) simp_all

end
