(* ===== verification/TrafficLog.thy ===== *)
theory TrafficLog
  imports Prelude GoStrings
begin

text \<open>
  The traffic log (\<open>plugin/trafficlog.go\<close>): the open connections with their byte counters,
  and the lines written to the file. A line is kept as its fields; the layout of the time
  stamp is not modelled. The two readings of the clock in one operation are taken as one.
\<close>

text \<open>What a hook asks for (\<open>dynplugin.PluginAction\<close>).\<close>

record PluginAction =
  act_Close :: bool
  act_Reason :: string

definition no_action :: PluginAction where
  "no_action = \<lparr>act_Close = False, act_Reason = []\<rparr>"

section \<open>Operations\<close>

record connInfo =
  ci_proto :: string
  ci_remoteAddr :: string
  ci_localPort :: int
  ci_openTime :: int
  ci_bytesRx :: i64
  ci_bytesTx :: i64

datatype log_line =
    OpenLine int string string int u32
  | CloseLine int u32 string string int int string string

record TrafficLog =
  tl_file :: "log_line list"
  tl_open :: bool
  tl_conns :: "u32 \<Rightarrow> connInfo option"

definition NewTrafficLog :: "log_line list \<Rightarrow> TrafficLog" where
  "NewTrafficLog old = \<lparr>tl_file = old, tl_open = True, tl_conns = Map.empty\<rparr>"

text \<open>Writing to a closed file fails, and the error is ignored.\<close>

definition tl_write :: "log_line \<Rightarrow> TrafficLog \<Rightarrow> TrafficLog" where
  "tl_write l t = (if tl_open t then t\<lparr>tl_file := tl_file t @ [l]\<rparr> else t)"

text \<open>\<open>Close\<close> returns an error when the file is closed already.\<close>

definition tl_Close :: "TrafficLog \<Rightarrow> bool \<times> TrafficLog" where
  "tl_Close t = (tl_open t, t\<lparr>tl_open := False\<rparr>)"

text \<open>\<open>Sprintf("%.1f", num / den)\<close>: one decimal, halves to even.\<close>

definition fmt1 :: "int \<Rightarrow> int \<Rightarrow> string" where
  "fmt1 num den =
     (let q = 10 * num div den; r = 10 * num mod den;
          t = (if 2 * r < den then q else if 2 * r > den then q + 1 else if even q then q else q + 1)
      in itoa (t div 10) @ ''.'' @ itoa (t mod 10))"

definition formatBytes :: "i64 \<Rightarrow> string" where
  "formatBytes b =
     (if sint b < 1024 then itoa (sint b) @ ''B''
      else if sint b < 1048576 then fmt1 (sint b) 1024 @ ''KB''
      else fmt1 (sint b) 1048576 @ ''MB'')"

definition tl_OnOpen :: "int \<Rightarrow> string \<Rightarrow> string \<Rightarrow> u32 \<Rightarrow> int \<Rightarrow> TrafficLog \<Rightarrow> PluginAction \<times> TrafficLog" where
  "tl_OnOpen now proto remoteAddr channelID localPort t =
     (let t1 = t\<lparr>tl_conns := (tl_conns t)(channelID \<mapsto>
          \<lparr>ci_proto = proto, ci_remoteAddr = remoteAddr, ci_localPort = localPort, ci_openTime = now,
           ci_bytesRx = 0, ci_bytesTx = 0\<rparr>)\<rparr>
      in (no_action, tl_write (OpenLine now proto remoteAddr localPort channelID) t1))"

text \<open>\<open>Duration.Truncate(time.Second)\<close> rounds towards zero.\<close>

definition truncate_sec :: "int \<Rightarrow> int" where
  "truncate_sec d = (if 0 \<le> d then d - d mod 1000000000 else d + (- d) mod 1000000000)"

definition tl_OnClose :: "int \<Rightarrow> u32 \<Rightarrow> TrafficLog \<Rightarrow> TrafficLog" where
  "tl_OnClose now channelID t =
     (case tl_conns t channelID of
        None \<Rightarrow> t
      | Some info \<Rightarrow>
          (let t1 = t\<lparr>tl_conns := (tl_conns t)(channelID := None)\<rparr>;
               duration = truncate_sec (now - ci_openTime info)
           in tl_write (CloseLine now channelID (ci_proto info) (ci_remoteAddr info)
                (ci_localPort info) duration (formatBytes (ci_bytesRx info)) (formatBytes (ci_bytesTx info))) t1))"

definition tl_OnData :: "u32 \<Rightarrow> string \<Rightarrow> int \<Rightarrow> TrafficLog \<Rightarrow> PluginAction \<times> TrafficLog" where
  "tl_OnData channelID dir n t =
     (no_action,
      case tl_conns t channelID of
        None \<Rightarrow> t
      | Some info \<Rightarrow> t\<lparr>tl_conns := (tl_conns t)(channelID \<mapsto>
          (if dir = ''rx'' then info\<lparr>ci_bytesRx := ci_bytesRx info + word_of_int n\<rparr>
           else info\<lparr>ci_bytesTx := ci_bytesTx info + word_of_int n\<rparr>))\<rparr>)"

definition tl_OnCheck :: "TrafficLog \<Rightarrow> u32 list" where
  "tl_OnCheck t = []"

section \<open>Histories\<close>

text \<open>The hook calls in the order the log receives them.\<close>

datatype hook_call =
    HOpen int string string u32 int
  | HClose int u32
  | HData u32 string int

fun tl_hook :: "hook_call \<Rightarrow> TrafficLog \<Rightarrow> TrafficLog" where
  "tl_hook (HOpen now p a ch lp) t = snd (tl_OnOpen now p a ch lp t)"
| "tl_hook (HClose now ch) t = tl_OnClose now ch t"
| "tl_hook (HData ch d n) t = snd (tl_OnData ch d n t)"

fun call_chan :: "hook_call \<Rightarrow> u32" where
  "call_chan (HOpen now p a ch lp) = ch"
| "call_chan (HClose now ch) = ch"
| "call_chan (HData ch d n) = ch"

fun is_data :: "hook_call \<Rightarrow> bool" where
  "is_data (HData ch d n) = True"
| "is_data _ = False"

text \<open>The bytes a history reports on a channel in direction \<open>rx\<close>, or in any other.\<close>

fun data_bytes :: "bool \<Rightarrow> u32 \<Rightarrow> hook_call list \<Rightarrow> int" where
  "data_bytes rx ch [] = 0"
| "data_bytes rx ch (HData c d n # hs) =
     (if c = ch \<and> ((d = ''rx'') = rx) then n else 0) + data_bytes rx ch hs"
| "data_bytes rx ch (h # hs) = data_bytes rx ch hs"

lemma tl_write_fields [simp]:
  "tl_conns (tl_write l t) = tl_conns t" "tl_open (tl_write l t) = tl_open t"
  "tl_open t \<Longrightarrow> tl_file (tl_write l t) = tl_file t @ [l]"
  by (simp_all add: tl_write_def)

lemma tl_hook_open: "tl_open (tl_hook h t) = tl_open t"
  by (cases h) (auto simp: tl_OnOpen_def tl_OnClose_def tl_OnData_def Let_def split: option.splits)

lemma tl_run_open: "tl_open (fold tl_hook hs t) = tl_open t"
  by (induction hs arbitrary: t) (simp_all add: tl_hook_open)

lemma tl_hook_other: "call_chan h \<noteq> ch \<Longrightarrow> tl_conns (tl_hook h t) ch = tl_conns t ch"
  by (cases h) (auto simp: tl_OnOpen_def tl_OnClose_def tl_OnData_def Let_def split: option.splits)

text \<open>Between the opening and the closing of a channel its record only counts.\<close>

lemma tl_counts:
  assumes "\<forall>h \<in> set hs. call_chan h = ch \<longrightarrow> is_data h" and "tl_conns t ch = Some i"
  shows "tl_conns (fold tl_hook hs t) ch = Some (i\<lparr>ci_bytesRx := ci_bytesRx i + word_of_int (data_bytes True ch hs),
      ci_bytesTx := ci_bytesTx i + word_of_int (data_bytes False ch hs)\<rparr>)"
  using assms
proof (induction hs arbitrary: t i)
  case (Cons h hs)
  show ?case
  proof (cases "call_chan h = ch")
    case False
    then have "tl_conns (tl_hook h t) ch = Some i" using Cons.prems(2) tl_hook_other by simp
    moreover have "data_bytes r ch (h # hs) = data_bytes r ch hs" for r
      using False by (cases h) auto
    ultimately show ?thesis using Cons.IH [of "tl_hook h t" i] Cons.prems(1) by simp
  next
    case True
    with Cons.prems(1) obtain d n where h: "h = HData ch d n" by (cases h) auto
    show ?thesis
    proof (cases "d = ''rx''")
      case rx: True
      with h Cons.prems(2) have "tl_conns (tl_hook h t) ch = Some (i\<lparr>ci_bytesRx := ci_bytesRx i + word_of_int n\<rparr>)"
        by (simp add: tl_OnData_def)
      from Cons.IH [OF _ this] Cons.prems(1) h rx show ?thesis by (simp add: add.assoc)
    next
      case tx: False
      with h Cons.prems(2) have "tl_conns (tl_hook h t) ch = Some (i\<lparr>ci_bytesTx := ci_bytesTx i + word_of_int n\<rparr>)"
        by (simp add: tl_OnData_def)
      from Cons.IH [OF _ this] Cons.prems(1) h tx show ?thesis by (simp add: add.assoc)
    qed
  qed
qed simp

text \<open>
  The closing line of a channel reports the channel's
  own protocol, address and port, the whole seconds since it was opened, and exactly the
  bytes (as 64-bit integers) the data hooks reported for it in each direction in between,
  whatever happened on the other channels.
\<close>

theorem traffic_log_accounting:
  assumes "\<forall>h \<in> set hs. call_chan h = ch \<longrightarrow> is_data h"
    and "t1 = fold tl_hook hs (snd (tl_OnOpen t0 proto addr ch port t))" and "tl_open t"
  shows "tl_file (tl_OnClose now ch t1) = tl_file t1 @ [CloseLine now ch proto addr port (truncate_sec (now - t0))
      (formatBytes (word_of_int (data_bytes True ch hs))) (formatBytes (word_of_int (data_bytes False ch hs)))]
    \<and> tl_conns (tl_OnClose now ch t1) ch = None"
proof -
  have "tl_conns (snd (tl_OnOpen t0 proto addr ch port t)) ch = Some \<lparr>ci_proto = proto, ci_remoteAddr = addr,
      ci_localPort = port, ci_openTime = t0, ci_bytesRx = 0, ci_bytesTx = 0\<rparr>"
    by (simp add: tl_OnOpen_def Let_def)
  moreover have "tl_open t1" using assms(2,3) by (simp add: tl_run_open tl_OnOpen_def Let_def)
  ultimately show ?thesis
    using tl_counts [OF assms(1), of "snd (tl_OnOpen t0 proto addr ch port t)"] by (simp add: assms(2) tl_OnClose_def Let_def)
qed

theorem traffic_log_accounting_witness:
  "tl_file (tl_OnClose 3500000000 7 (fold tl_hook [HData 7 ''rx'' 2000, HData 8 ''rx'' 5, HData 7 ''tx'' 10]
      (snd (tl_OnOpen 0 ''tcp'' ''a:1'' 7 80 (NewTrafficLog [])))))
    = [OpenLine 0 ''tcp'' ''a:1'' 80 7, CloseLine 3500000000 7 ''tcp'' ''a:1'' 80 3000000000 ''2.0KB'' ''10B'']"
proof -
  have "sint (2000 :: i64) = 2000" "sint (10 :: i64) = 10" by simp_all
  then have "formatBytes 2000 = ''2.0KB''" "formatBytes 10 = ''10B''"
    by (simp_all add: formatBytes_def fmt1_def itoa_def dec_digits.simps Let_def char_of_def bit_0)
  then show ?thesis
    using traffic_log_accounting [where hs = "[HData 7 ''rx'' 2000, HData 8 ''rx'' 5, HData 7 ''tx'' 10]" and ch = 7
        and now = 3500000000 and ?t0.0 = 0 and proto = "''tcp''" and addr = "''a:1''" and port = 80
        and t = "NewTrafficLog []", OF _ refl]
    by (simp add: truncate_sec_def NewTrafficLog_def) (simp add: tl_OnOpen_def tl_OnData_def tl_write_def Let_def)
qed

section \<open>One closing line per opening line\<close>

fun opens :: "u32 \<Rightarrow> log_line list \<Rightarrow> nat" where
  "opens ch [] = 0"
| "opens ch (OpenLine now p a lp c # ls) = (if c = ch then 1 else 0) + opens ch ls"
| "opens ch (CloseLine now c p a lp d rx tx # ls) = opens ch ls"

fun closes :: "u32 \<Rightarrow> log_line list \<Rightarrow> nat" where
  "closes ch [] = 0"
| "closes ch (OpenLine now p a lp c # ls) = closes ch ls"
| "closes ch (CloseLine now c p a lp d rx tx # ls) = (if c = ch then 1 else 0) + closes ch ls"

lemma opens_append [simp]: "opens ch (xs @ ys) = opens ch xs + opens ch ys"
  by (induction ch xs rule: opens.induct) auto

lemma closes_append [simp]: "closes ch (xs @ ys) = closes ch xs + closes ch ys"
  by (induction ch xs rule: closes.induct) auto

definition paired :: "u32 \<Rightarrow> TrafficLog \<Rightarrow> bool" where
  "paired ch t \<longleftrightarrow> tl_open t \<and> closes ch (tl_file t) + (if tl_conns t ch = None then 0 else 1) \<le> opens ch (tl_file t)"

lemma paired_hook: "paired ch t \<Longrightarrow> paired ch (tl_hook h t)"
  by (cases h) (auto simp: paired_def tl_OnOpen_def tl_OnClose_def tl_OnData_def Let_def
      split: option.splits if_splits)

lemma paired_run: "paired ch t \<Longrightarrow> paired ch (fold tl_hook hs t)"
  by (induction hs arbitrary: t) (auto simp: paired_hook)

text \<open>
  However often and in whatever order the hooks are called
  (a close may be reported twice, or for a channel never opened), a channel never has more
  closing than opening lines in the log.
\<close>

theorem traffic_log_paired:
  "closes ch (tl_file (fold tl_hook hs (NewTrafficLog []))) \<le> opens ch (tl_file (fold tl_hook hs (NewTrafficLog [])))"
proof -
  have "paired ch (NewTrafficLog [])" by (simp add: paired_def NewTrafficLog_def)
  then have "paired ch (fold tl_hook hs (NewTrafficLog []))" by (rule paired_run)
  then show ?thesis by (simp add: paired_def)
qed

end
