(* ===== verification/PluginMgr.thy ===== *)
theory PluginMgr
  imports Prelude GoStrings IPFilter ConnLimit TrafficLog
begin

text \<open>
  The compression plugin (\<open>plugin/compression.go\<close>) and the plugin manager
  (\<open>plugin/plugin.go\<close>). The LZ4 library is not in the repository: a writer and a reader are
  arguments of the definitions. The dynamic plugins are separate processes: what they
  answer to a hook is given by the environment of the call, and what is sent to them is
  recorded.
\<close>

section \<open>Compression\<close>

text \<open>
  The LZ4 library: the stream a writer produces (None if \<open>Write\<close> fails) and what a reader
  makes of a stream (None for an error).
\<close>

record lz4 =
  lz4_write :: "bytes \<Rightarrow> bytes option"
  lz4_read :: "bytes \<Rightarrow> bytes option"

text \<open>The documented behaviour the code relies on: reading a written stream gives the data.\<close>

definition lz4_sound :: "lz4 \<Rightarrow> bool" where
  "lz4_sound z \<longleftrightarrow> (\<forall>d s. lz4_write z d = Some s \<longrightarrow> lz4_read z s = Some d)"

record Compression =
  minSize :: int

definition NewCompression :: "int \<Rightarrow> int \<Rightarrow> Compression" where
  "NewCompression level n = \<lparr>minSize = (if n < 0 then 128 else n)\<rparr>"

definition comp_Compress :: "lz4 \<Rightarrow> Compression \<Rightarrow> bytes \<Rightarrow> bytes \<times> bool" where
  "comp_Compress z c data =
     (if int (length data) < minSize c then (data, False)
      else case lz4_write z data of
             None \<Rightarrow> (data, False)
           | Some compressed \<Rightarrow>
               if length compressed \<ge> length data then (data, False) else (compressed, True))"

definition comp_Decompress :: "lz4 \<Rightarrow> Compression \<Rightarrow> bytes \<Rightarrow> bytes option" where
  "comp_Decompress z c data = lz4_read z data"

section \<open>The manager\<close>

text \<open>
  The filters in the order they were added. The connection limiter is one object, reached
  through the filter list and through its own field; \<open>main\<close> sets it at most once, so the
  filter is a reference to that field.
\<close>

datatype accept_filter = FilterIP IPFilter | FilterLimit | FilterDyn

datatype logger = FileLogger TrafficLog | DynLogger "hook_call list"

record Manager =
  acceptFilters :: "accept_filter list"
  compressor :: "Compression option"
  decompressor :: "Compression option"
  mgr_logger :: "logger option"
  mgr_limiter :: "ConnLimit option"

definition mgr_NewManager :: Manager where
  "mgr_NewManager = \<lparr>acceptFilters = [], compressor = None, decompressor = None, mgr_logger = None, mgr_limiter = None\<rparr>"

definition AddAcceptFilter :: "accept_filter \<Rightarrow> Manager \<Rightarrow> Manager" where
  "AddAcceptFilter f m = m\<lparr>acceptFilters := acceptFilters m @ [f]\<rparr>"

definition SetCompressor :: "Compression \<Rightarrow> Manager \<Rightarrow> Manager" where
  "SetCompressor c m = m\<lparr>compressor := Some c\<rparr>"

definition SetDecompressor :: "Compression \<Rightarrow> Manager \<Rightarrow> Manager" where
  "SetDecompressor c m = m\<lparr>decompressor := Some c\<rparr>"

definition SetLogger :: "logger \<Rightarrow> Manager \<Rightarrow> Manager" where
  "SetLogger l m = m\<lparr>mgr_logger := Some l\<rparr>"

definition SetConnLimiter :: "ConnLimit \<Rightarrow> Manager \<Rightarrow> Manager" where
  "SetConnLimiter l m = AddAcceptFilter FilterLimit (m\<lparr>mgr_limiter := Some l\<rparr>)"

text \<open>
  What the environment supplies for one call: the clock, and what the dynamic plugins
  answer to \<open>on_accept\<close>, \<open>on_open\<close> and \<open>on_check\<close>.
\<close>

record hook_env =
  he_now :: int
  he_accept :: bool
  he_open :: PluginAction
  he_check :: "u32 list"

fun run_filters :: "hook_env \<Rightarrow> string \<Rightarrow> string \<Rightarrow> accept_filter list \<Rightarrow> ConnLimit option
    \<Rightarrow> bool \<times> ConnLimit option" where
  "run_filters e proto addr [] l = (True, l)"
| "run_filters e proto addr (FilterIP f # fs) l =
     (if ipf_OnAccept f proto addr then run_filters e proto addr fs l else (False, l))"
| "run_filters e proto addr (FilterLimit # fs) l =
     (case l of
        None \<Rightarrow> run_filters e proto addr fs l
      | Some c \<Rightarrow> (case limit_OnAccept c of
            (True, c1) \<Rightarrow> run_filters e proto addr fs (Some c1)
          | (False, c1) \<Rightarrow> (False, Some c1)))"
| "run_filters e proto addr (FilterDyn # fs) l =
     (if he_accept e then run_filters e proto addr fs l else (False, l))"

definition mgr_OnAccept :: "hook_env \<Rightarrow> string \<Rightarrow> string \<Rightarrow> Manager \<Rightarrow> bool \<times> Manager" where
  "mgr_OnAccept e proto addr m =
     (case run_filters e proto addr (acceptFilters m) (mgr_limiter m) of
        (b, l) \<Rightarrow> (b, m\<lparr>mgr_limiter := l\<rparr>))"

definition HasCompressor :: "Manager \<Rightarrow> bool" where
  "HasCompressor m \<longleftrightarrow> compressor m \<noteq> None"

definition CanDecompress :: "Manager \<Rightarrow> bool" where
  "CanDecompress m \<longleftrightarrow> compressor m \<noteq> None \<or> decompressor m \<noteq> None"

definition mgr_Compress :: "lz4 \<Rightarrow> Manager \<Rightarrow> bytes \<Rightarrow> bytes \<times> bool" where
  "mgr_Compress z m data = (case compressor m of
       None \<Rightarrow> (data, False)
     | Some c \<Rightarrow> comp_Compress z c data)"

definition mgr_Decompress :: "lz4 \<Rightarrow> Manager \<Rightarrow> bytes \<Rightarrow> bytes option" where
  "mgr_Decompress z m data = (case compressor m of
       Some c \<Rightarrow> comp_Decompress z c data
     | None \<Rightarrow> (case decompressor m of
           Some c \<Rightarrow> comp_Decompress z c data
         | None \<Rightarrow> Some data))"

fun log_open :: "hook_env \<Rightarrow> string \<Rightarrow> string \<Rightarrow> u32 \<Rightarrow> int \<Rightarrow> logger \<Rightarrow> PluginAction \<times> logger" where
  "log_open e proto addr ch lp (FileLogger t) =
     (case tl_OnOpen (he_now e) proto addr ch lp t of (a, t1) \<Rightarrow> (a, FileLogger t1))"
| "log_open e proto addr ch lp (DynLogger hs) = (he_open e, DynLogger (hs @ [HOpen (he_now e) proto addr ch lp]))"

fun log_close :: "hook_env \<Rightarrow> u32 \<Rightarrow> logger \<Rightarrow> logger" where
  "log_close e ch (FileLogger t) = FileLogger (tl_OnClose (he_now e) ch t)"
| "log_close e ch (DynLogger hs) = DynLogger (hs @ [HClose (he_now e) ch])"

fun log_data :: "u32 \<Rightarrow> string \<Rightarrow> int \<Rightarrow> logger \<Rightarrow> PluginAction \<times> logger" where
  "log_data ch dir n (FileLogger t) = (case tl_OnData ch dir n t of (a, t1) \<Rightarrow> (a, FileLogger t1))"
| "log_data ch dir n (DynLogger hs) = (no_action, DynLogger (hs @ [HData ch dir n]))"

fun log_check :: "hook_env \<Rightarrow> logger \<Rightarrow> u32 list" where
  "log_check e (FileLogger t) = tl_OnCheck t"
| "log_check e (DynLogger hs) = he_check e"

definition mgr_OnOpen :: "hook_env \<Rightarrow> string \<Rightarrow> string \<Rightarrow> u32 \<Rightarrow> int \<Rightarrow> Manager \<Rightarrow> PluginAction \<times> Manager" where
  "mgr_OnOpen e proto addr ch lp m =
     (let m1 = m\<lparr>mgr_limiter := map_option limit_OnOpen (mgr_limiter m)\<rparr>
      in case mgr_logger m1 of
           Some l \<Rightarrow> (case log_open e proto addr ch lp l of (a, l1) \<Rightarrow> (a, m1\<lparr>mgr_logger := Some l1\<rparr>))
         | None \<Rightarrow> (no_action, m1))"

definition mgr_OnClose :: "hook_env \<Rightarrow> u32 \<Rightarrow> Manager \<Rightarrow> Manager" where
  "mgr_OnClose e ch m =
     (let m1 = m\<lparr>mgr_limiter := map_option limit_OnClose (mgr_limiter m)\<rparr>
      in m1\<lparr>mgr_logger := map_option (log_close e ch) (mgr_logger m1)\<rparr>)"

definition mgr_OnData :: "u32 \<Rightarrow> string \<Rightarrow> int \<Rightarrow> Manager \<Rightarrow> PluginAction \<times> Manager" where
  "mgr_OnData ch dir n m = (case mgr_logger m of
       Some l \<Rightarrow> (case log_data ch dir n l of (a, l1) \<Rightarrow> (a, m\<lparr>mgr_logger := Some l1\<rparr>))
     | None \<Rightarrow> (no_action, m))"

definition mgr_OnCheck :: "hook_env \<Rightarrow> Manager \<Rightarrow> u32 list" where
  "mgr_OnCheck e m = (case mgr_logger m of Some l \<Rightarrow> log_check e l | None \<Rightarrow> [])"

text \<open>The plugins' adapter has nothing to close.\<close>

definition mgr_Close :: "Manager \<Rightarrow> Manager" where
  "mgr_Close m =
     (case mgr_logger m of
        Some (FileLogger t) \<Rightarrow> m\<lparr>mgr_logger := Some (FileLogger (snd (tl_Close t)))\<rparr>
      | _ \<Rightarrow> m)"

section \<open>Lemmas\<close>

text \<open>No data hook of the repository ever asks for a close.\<close>

lemma mgr_OnData_no_close: "act_Close (fst (mgr_OnData ch dir n m)) = False"
  by (cases "mgr_logger m"; cases "the (mgr_logger m)")
    (auto simp: mgr_OnData_def tl_OnData_def no_action_def)

lemma mgr_OnData_fields [simp]:
  "mgr_limiter (snd (mgr_OnData ch dir n m)) = mgr_limiter m"
  "acceptFilters (snd (mgr_OnData ch dir n m)) = acceptFilters m"
  "compressor (snd (mgr_OnData ch dir n m)) = compressor m"
  "decompressor (snd (mgr_OnData ch dir n m)) = decompressor m"
  by (auto simp: mgr_OnData_def split: option.splits prod.splits)

lemma mgr_OnOpen_fields [simp]:
  "mgr_limiter (snd (mgr_OnOpen e p a ch lp m)) = mgr_limiter m"
  "acceptFilters (snd (mgr_OnOpen e p a ch lp m)) = acceptFilters m"
  "compressor (snd (mgr_OnOpen e p a ch lp m)) = compressor m"
  "decompressor (snd (mgr_OnOpen e p a ch lp m)) = decompressor m"
  by (cases "mgr_limiter m"; auto simp: mgr_OnOpen_def limit_OnOpen_def Let_def split: option.splits prod.splits)+

lemma mgr_OnClose_fields [simp]:
  "mgr_limiter (mgr_OnClose e ch m) = map_option limit_OnClose (mgr_limiter m)"
  "acceptFilters (mgr_OnClose e ch m) = acceptFilters m"
  "compressor (mgr_OnClose e ch m) = compressor m"
  "decompressor (mgr_OnClose e ch m) = decompressor m"
  by (auto simp: mgr_OnClose_def Let_def)

lemma mgr_OnAccept_fields [simp]:
  "acceptFilters (snd (mgr_OnAccept e p a m)) = acceptFilters m"
  "compressor (snd (mgr_OnAccept e p a m)) = compressor m"
  "decompressor (snd (mgr_OnAccept e p a m)) = decompressor m"
  "mgr_logger (snd (mgr_OnAccept e p a m)) = mgr_logger m"
  by (auto simp: mgr_OnAccept_def split: prod.splits)

lemma mgr_no_logger_open: "mgr_logger m = None \<Longrightarrow> fst (mgr_OnOpen e p a ch lp m) = no_action"
  by (simp add: mgr_OnOpen_def Let_def)

lemma comp_roundtrip:
  assumes "lz4_sound z" and "comp_Compress z c data = (out, True)"
  shows "comp_Decompress z c' out = Some data \<and> length out < length data"
  using assms by (auto simp: comp_Compress_def comp_Decompress_def lz4_sound_def split: if_splits option.splits)

lemma comp_unchanged: "comp_Compress z c data = (out, False) \<Longrightarrow> out = data"
  by (auto simp: comp_Compress_def split: if_splits option.splits)

lemma mgr_Compress_True:
  assumes "lz4_sound z" and "mgr_Compress z m data = (out, True)"
  shows "comp_Decompress z c' out = Some data \<and> length out < length data"
  using assms comp_roundtrip by (fastforce simp: mgr_Compress_def split: option.splits)

lemma mgr_Compress_False: "mgr_Compress z m data = (out, False) \<Longrightarrow> out = data"
  using comp_unchanged by (fastforce simp: mgr_Compress_def split: option.splits)

lemma mgr_Decompress_any: "CanDecompress m \<Longrightarrow> mgr_Decompress z m s = lz4_read z s"
  by (auto simp: mgr_Decompress_def CanDecompress_def comp_Decompress_def split: option.splits)

text \<open>
  Whatever the compressor of one side does with a packet, a
  side that can decompress gets the packet back: the flag says whether to decompress, a
  packet marked compressed is strictly shorter than the original, and an unmarked one is
  the original.
\<close>

theorem compress_roundtrip:
  assumes "lz4_sound z" and "mgr_Compress z m data = (out, flag)" and "CanDecompress m'"
  shows "(if flag then mgr_Decompress z m' out else Some out) = Some data
    \<and> length out \<le> length data \<and> (flag \<longrightarrow> length out < length data)"
proof (cases flag)
  case True
  with assms mgr_Compress_True [of z m data out] show ?thesis
    by (auto simp: mgr_Decompress_any comp_Decompress_def)
next
  case False
  with assms mgr_Compress_False show ?thesis by fastforce
qed

text \<open>A run-length toy stands for the library: 200 equal bytes become two.\<close>

definition toy_lz4 :: lz4 where
  "toy_lz4 = \<lparr>lz4_write = (\<lambda>d. if d \<noteq> [] \<and> length d < 256 \<and> d = replicate (length d) (hd d)
       then Some [1, of_nat (length d), hd d] else Some (0 # d)),
     lz4_read = (\<lambda>s. case s of [] \<Rightarrow> None
       | t # r \<Rightarrow> if t = 0 then Some r
           else if length r = 2 then Some (replicate (unat (r ! 0)) (r ! 1)) else None)\<rparr>"

lemma toy_lz4_sound: "lz4_sound toy_lz4"
  by (auto simp: lz4_sound_def toy_lz4_def unat_of_nat)

theorem compress_roundtrip_witness:
  "mgr_Compress toy_lz4 (SetCompressor (NewCompression 1 128) mgr_NewManager) (replicate 200 65) = ([1, 200, 65], True)
    \<and> mgr_Decompress toy_lz4 (SetDecompressor (NewCompression 1 128) mgr_NewManager) [1, 200, 65] = Some (replicate 200 65)"
proof -
  have "(of_nat 200 :: byte) = 200" by simp
  then have c: "mgr_Compress toy_lz4 (SetCompressor (NewCompression 1 128) mgr_NewManager) (replicate 200 65) = ([1, 200, 65], True)"
    by (simp add: mgr_Compress_def SetCompressor_def mgr_NewManager_def NewCompression_def comp_Compress_def toy_lz4_def)
  have d: "CanDecompress (SetDecompressor (NewCompression 1 128) mgr_NewManager)"
    by (simp add: CanDecompress_def SetDecompressor_def)
  show ?thesis using c compress_roundtrip [OF toy_lz4_sound c d] by simp
qed

section \<open>What admission does to the limiter\<close>

text \<open>
  The filters as a specification: the connection is admitted when every filter agrees, the
  limiter being asked with the count it has when its turn comes.
\<close>

lemma run_filters_None: "fst (run_filters e p a fs None) \<longleftrightarrow>
    (\<forall>f \<in> set fs. case f of FilterIP i \<Rightarrow> ipf_OnAccept i p a | FilterLimit \<Rightarrow> True | FilterDyn \<Rightarrow> he_accept e)
  \<and> snd (run_filters e p a fs None) = None"
  by (induction e p a fs "None :: ConnLimit option" rule: run_filters.induct) auto

lemma run_filters_no_limit:
  "FilterLimit \<notin> set fs \<Longrightarrow> snd (run_filters e p a fs l) = l \<and>
    (fst (run_filters e p a fs l) \<longleftrightarrow>
      (\<forall>f \<in> set fs. case f of FilterIP i \<Rightarrow> ipf_OnAccept i p a | FilterLimit \<Rightarrow> True | FilterDyn \<Rightarrow> he_accept e))"
  by (induction e p a fs l rule: run_filters.induct) auto

lemma run_filters_append:
  "run_filters e p a (fs @ gs) l = (case run_filters e p a fs l of
     (True, l1) \<Rightarrow> run_filters e p a gs l1 | (False, l1) \<Rightarrow> (False, l1))"
  by (induction e p a fs l rule: run_filters.induct) (auto split: option.splits prod.splits bool.splits)

text \<open>
  When a dynamic plugin refuses a connection that the IP
  filter and the limiter admitted, the manager reports a refusal but the limiter keeps the
  slot it took, and nothing gives it back.
\<close>

theorem refused_but_counted:
  assumes "acceptFilters m = ips @ [FilterLimit, FilterDyn]" and "FilterLimit \<notin> set ips" and "FilterDyn \<notin> set ips"
    and "\<forall>f \<in> set ips. \<forall>i. f = FilterIP i \<longrightarrow> ipf_OnAccept i p a"
    and "mgr_limiter m = Some l" and "limit_ok l" and "limit_Current l < limit_Max l"
    and "\<not> he_accept e"
  shows "\<exists>l'. mgr_OnAccept e p a m = (False, m\<lparr>mgr_limiter := Some l'\<rparr>) \<and> limit_Current l' = limit_Current l + 1"
proof -
  have "run_filters e p a ips (Some l) = (True, Some l)"
    using run_filters_no_limit [OF assms(2), of e p a "Some l"] assms(3,4)
    by (auto intro!: prod_eqI split: accept_filter.splits)
  moreover obtain l' where "limit_OnAccept l = (True, l')"
    using limit_OnAccept_full [OF assms(6)] assms(7) by (cases "limit_OnAccept l") auto
  ultimately have "mgr_OnAccept e p a m = (False, m\<lparr>mgr_limiter := Some l'\<rparr>)"
    using assms(1,5,8) by (simp add: mgr_OnAccept_def run_filters_append)
  with limit_OnAccept_True [OF assms(6)] \<open>limit_OnAccept l = (True, l')\<close> show ?thesis by blast
qed

theorem refused_but_counted_witness:
  "\<exists>l'. mgr_OnAccept \<lparr>he_now = 0, he_accept = False, he_open = no_action, he_check = []\<rparr> ''tcp'' ''1.2.3.4:5''
      (AddAcceptFilter FilterDyn (SetConnLimiter \<lparr>maxConns = 2, current = 0\<rparr> mgr_NewManager))
    = (False, (AddAcceptFilter FilterDyn (SetConnLimiter \<lparr>maxConns = 2, current = 0\<rparr> mgr_NewManager))\<lparr>mgr_limiter := Some l'\<rparr>)
    \<and> limit_Current l' = limit_Current \<lparr>maxConns = 2, current = 0\<rparr> + 1"
  by (rule refused_but_counted [of _ "[]"])
    (simp_all add: AddAcceptFilter_def SetConnLimiter_def mgr_NewManager_def limit_ok_def limit_Current_def limit_Max_def)

end
