(* ===== verification/RateLimit.thy ===== *)
theory RateLimit
  imports Prelude Complex_Main
begin

text \<open>
  The token bucket (\<open>plugin/ratelimit.go\<close>). Token counts are rationals: the source's
  float64 arithmetic is taken as exact. Times are nanoseconds; the two readings of the
  clock in \<open>Wait\<close> and the time the sleep takes are given by the environment. \<open>Wait\<close> holds
  the mutex twice, before and after the sleep, so it is two operations, which concurrent
  callers interleave.
\<close>

section \<open>Operations\<close>

record RateLimit =
  bytesPerSec :: int
  tokens :: rat
  maxTokens :: rat
  lastRefill :: int

abbreviation ns_per_sec :: rat where
  "ns_per_sec \<equiv> 1000000000"

definition NewRateLimit :: "int \<Rightarrow> int \<Rightarrow> RateLimit option" where
  "NewRateLimit bps now =
     (if bps \<le> 0 then None
      else let maxT = of_int bps
           in Some \<lparr>bytesPerSec = bps, tokens = maxT, maxTokens = maxT, lastRefill = now\<rparr>)"

definition refill :: "int \<Rightarrow> RateLimit \<Rightarrow> RateLimit" where
  "refill now r =
     (let elapsed = of_int (now - lastRefill r) / ns_per_sec;
          tk = tokens r + elapsed * of_int (bytesPerSec r)
      in r\<lparr>lastRefill := now, tokens := (if tk > maxTokens r then maxTokens r else tk)\<rparr>)"

text \<open>
  The first critical section: None when the call is through, the sleep in nanoseconds
  otherwise (\<open>time.Duration\<close> truncates).
\<close>

definition wait_begin :: "int \<Rightarrow> int \<Rightarrow> RateLimit \<Rightarrow> int option \<times> RateLimit" where
  "wait_begin now n r =
     (if bytesPerSec r \<le> 0 then (None, r)
      else let r1 = refill now r
           in if tokens r1 \<ge> of_int n then (None, r1\<lparr>tokens := tokens r1 - of_int n\<rparr>)
              else let deficit = of_int n - tokens r1;
                       waitSec = deficit / of_int (bytesPerSec r1)
                   in (Some (if waitSec > 0 then \<lfloor>waitSec * ns_per_sec\<rfloor> else 0), r1\<lparr>tokens := 0\<rparr>))"

text \<open>The second one, after the sleep.\<close>

definition wait_end :: "int \<Rightarrow> int \<Rightarrow> RateLimit \<Rightarrow> RateLimit" where
  "wait_end now n r =
     (let r1 = refill now r; tk = tokens r1 - of_int n
      in r1\<lparr>tokens := (if tk < 0 then 0 else tk)\<rparr>)"

definition Wait :: "int \<Rightarrow> int \<Rightarrow> int \<Rightarrow> RateLimit \<Rightarrow> RateLimit" where
  "Wait now wake n r = (case wait_begin now n r of
       (None, r1) \<Rightarrow> r1
     | (Some d, r1) \<Rightarrow> wait_end wake n r1)"

text \<open>A nil limiter does not wait and reports 0.\<close>

definition Wait_nilable :: "int \<Rightarrow> int \<Rightarrow> int \<Rightarrow> RateLimit option \<Rightarrow> RateLimit option" where
  "Wait_nilable now wake n = map_option (Wait now wake n)"

definition BytesPerSec :: "RateLimit option \<Rightarrow> int" where
  "BytesPerSec r = (case r of None \<Rightarrow> 0 | Some l \<Rightarrow> bytesPerSec l)"

section \<open>Invariant\<close>

definition bucket_ok :: "RateLimit \<Rightarrow> bool" where
  "bucket_ok r \<longleftrightarrow> 0 < bytesPerSec r \<and> maxTokens r = of_int (bytesPerSec r) \<and> 0 \<le> tokens r \<and> tokens r \<le> maxTokens r"

lemma refill_fields [simp]:
  "bytesPerSec (refill now r) = bytesPerSec r"
  "maxTokens (refill now r) = maxTokens r"
  "lastRefill (refill now r) = now"
  by (simp_all add: refill_def Let_def)

lemma refill_ok: "bucket_ok r \<Longrightarrow> lastRefill r \<le> now \<Longrightarrow> bucket_ok (refill now r)"
  by (auto simp: bucket_ok_def refill_def Let_def)

lemma refill_gain:
  "tokens (refill now r) \<le> tokens r + of_int (now - lastRefill r) / ns_per_sec * of_int (bytesPerSec r)"
  by (simp add: refill_def Let_def)

lemma wait_begin_ok:
  assumes "bucket_ok r" and "lastRefill r \<le> now" and "0 \<le> n" and "wait_begin now n r = (d, r')"
  shows "bucket_ok r'" "bytesPerSec r' = bytesPerSec r" "lastRefill r' = now"
  using assms refill_ok [OF assms(1,2)]
  by (auto simp: wait_begin_def Let_def bucket_ok_def split: if_splits)

lemma wait_end_ok:
  assumes "bucket_ok r" and "lastRefill r \<le> now" and "0 \<le> n"
  shows "bucket_ok (wait_end now n r)" "bytesPerSec (wait_end now n r) = bytesPerSec r"
    "lastRefill (wait_end now n r) = now"
  using refill_ok [OF assms(1,2)] assms(3) by (auto simp: wait_end_def Let_def bucket_ok_def)

section \<open>Throughput of calls one after another\<close>

text \<open>
  A schedule is a list of calls (time of the call, time of the wake-up, bytes). It is
  possible if time does not go back and \<open>time.Sleep\<close> sleeps at least as long as asked, as
  it is documented to. The result is the time the last call returned and the limiter.
\<close>

fun wait_run :: "(int \<times> int \<times> nat) list \<Rightarrow> int \<Rightarrow> RateLimit \<Rightarrow> (int \<times> RateLimit) option" where
  "wait_run [] t r = Some (t, r)"
| "wait_run ((now, wake, n) # cs) t r =
     (if now < t then None
      else case wait_begin now (int n) r of
             (None, r1) \<Rightarrow> wait_run cs now r1
           | (Some d, r1) \<Rightarrow>
               if wake < now + d then None else wait_run cs wake (wait_end wake (int n) r1))"

definition call_bytes :: "(int \<times> int \<times> nat) list \<Rightarrow> nat" where
  "call_bytes cs = sum_list (map (\<lambda>(_, _, n). n) cs)"

text \<open>
  What has been let through plus what is in the bucket grows no faster than the rate; each
  sleep may be cut by the truncation to whole nanoseconds.
\<close>

definition paid :: "rat \<Rightarrow> RateLimit \<Rightarrow> rat" where
  "paid a r = a + tokens r - of_int (bytesPerSec r) * of_int (lastRefill r) / ns_per_sec"

lemma paid_refill: "paid a (refill now r) \<le> paid a r"
proof -
  have "of_int (now - lastRefill r) / ns_per_sec * of_int (bytesPerSec r)
      = of_int (bytesPerSec r) * of_int now / ns_per_sec - of_int (bytesPerSec r) * of_int (lastRefill r) / ns_per_sec"
    by (simp add: field_simps)
  then show ?thesis
    using refill_gain [of now r] unfolding paid_def refill_fields by linarith
qed

lemma wait_begin_through:
  assumes "0 < bytesPerSec r" and "wait_begin now n r = (None, r')"
  shows "paid (a + of_int n) r' \<le> paid a r"
  using assms paid_refill [of a now r]
  by (auto simp: wait_begin_def Let_def paid_def split: if_splits)

lemma wait_begin_sleep:
  assumes "bucket_ok r" and "lastRefill r \<le> now" and "wait_begin now n r = (Some d, r')"
  shows "of_int n * ns_per_sec - of_int (bytesPerSec r)
      \<le> tokens (refill now r) * ns_per_sec + of_int d * of_int (bytesPerSec r)"
    and "tokens r' = 0" and "lastRefill r' = now" and "bytesPerSec r' = bytesPerSec r" and "0 \<le> d"
proof -
  let ?b = "of_int (bytesPerSec r) :: rat" and ?t = "tokens (refill now r)"
  have b: "0 < ?b" using assms(1) by (simp add: bucket_ok_def)
  from assms have lt: "?t < of_int n" and r': "r' = (refill now r)\<lparr>tokens := 0\<rparr>"
    and d: "d = \<lfloor>(of_int n - ?t) / ?b * ns_per_sec\<rfloor>"
    by (auto simp: wait_begin_def Let_def bucket_ok_def not_le split: if_splits)
  from r' show "tokens r' = 0" "lastRefill r' = now" "bytesPerSec r' = bytesPerSec r" by simp_all
  have "(of_int n - ?t) / ?b * ns_per_sec - 1 \<le> of_int d"
    unfolding d by linarith
  then have "((of_int n - ?t) / ?b * ns_per_sec - 1) * ?b \<le> of_int d * ?b"
    using b by (intro mult_right_mono) simp_all
  moreover have "((of_int n - ?t) / ?b * ns_per_sec - 1) * ?b = (of_int n - ?t) * ns_per_sec - ?b"
    using b by (simp add: left_diff_distrib diff_divide_distrib)
  ultimately show "of_int n * ns_per_sec - ?b \<le> ?t * ns_per_sec + of_int d * ?b"
    by (simp add: left_diff_distrib)
  show "0 \<le> d" unfolding d using lt b by (simp add: field_simps)
qed

lemma wait_slow_paid:
  assumes "bucket_ok r" and "lastRefill r \<le> now" and "wait_begin now n r = (Some d, r1)"
    and "now + d \<le> wake"
  shows "paid (a + of_int n) (wait_end wake n r1) \<le> paid a r + of_int (bytesPerSec r) / ns_per_sec"
proof -
  let ?b = "of_int (bytesPerSec r) :: rat"
  note sl = wait_begin_sleep [OF assms(1-3)]
  have b: "0 < ?b" using assms(1) by (simp add: bucket_ok_def)
  have fin: "lastRefill (wait_end wake n r1) = wake" "bytesPerSec (wait_end wake n r1) = bytesPerSec r"
    using sl by (simp_all add: wait_end_def Let_def)
  have p: "paid a (refill now r) \<le> paid a r" by (rule paid_refill)
  have tk: "tokens (wait_end wake n r1) \<le> max 0 (of_int (wake - now) / ns_per_sec * ?b - of_int n)"
    using refill_gain [of wake r1] sl by (auto simp: wait_end_def Let_def)
  have "of_int d * ?b \<le> of_int (wake - now) * ?b"
    using assms(4) b by (intro mult_right_mono) simp_all
  then have w: "of_int n - ?b / ns_per_sec \<le> tokens (refill now r) + of_int (wake - now) / ns_per_sec * ?b"
    using sl(1) by (simp add: field_simps)
  have t0: "0 \<le> tokens (refill now r)"
    using refill_ok [OF assms(1,2)] by (simp add: bucket_ok_def)
  have eq: "?b * of_int wake / ns_per_sec = ?b * of_int now / ns_per_sec + of_int (wake - now) / ns_per_sec * ?b"
    by (simp add: field_simps)
  have b0: "0 \<le> ?b / ns_per_sec" using b by simp
  show ?thesis
  proof (cases "of_int (wake - now) / ns_per_sec * ?b \<le> of_int n")
    case True
    with tk have "tokens (wait_end wake n r1) \<le> 0" by simp
    with p w eq show ?thesis unfolding paid_def fin refill_fields by linarith
  next
    case False
    with tk have "tokens (wait_end wake n r1) \<le> of_int (wake - now) / ns_per_sec * ?b - of_int n" by simp
    with p t0 eq b0 show ?thesis unfolding paid_def fin refill_fields by linarith
  qed
qed

lemma wait_run_paid:
  assumes "bucket_ok r" and "lastRefill r \<le> t" and "wait_run cs t r = Some (t', r')"
  shows "bucket_ok r' \<and> lastRefill r' \<le> t' \<and> bytesPerSec r' = bytesPerSec r \<and>
    paid (a + of_nat (call_bytes cs)) r' \<le> paid a r + of_nat (length cs) * (of_int (bytesPerSec r) / ns_per_sec)"
  using assms
proof (induction cs arbitrary: t r a)
  case Nil
  then show ?case by (simp add: call_bytes_def)
next
  case (Cons c cs)
  obtain now wake n where c: "c = (now, wake, n)" by (cases c) auto
  obtain d r1 where wb: "wait_begin now (int n) r = (d, r1)" by force
  from Cons.prems c have le: "lastRefill r \<le> now" by (auto split: if_splits)
  have bytes: "a + of_nat (call_bytes (c # cs)) = (a + of_int (int n)) + of_nat (call_bytes cs)"
    by (simp add: call_bytes_def c)
  have b: "0 \<le> (of_int (bytesPerSec r) :: rat) / ns_per_sec"
    using Cons.prems(1) by (simp add: bucket_ok_def)
  have len: "of_nat (length (c # cs)) * (of_int (bytesPerSec r) / ns_per_sec)
      = of_int (bytesPerSec r) / ns_per_sec + of_nat (length cs) * (of_int (bytesPerSec r) / ns_per_sec)"
    by (simp only: list.size of_nat_Suc of_nat_add distrib_right mult_1)
  note ok1 = wait_begin_ok [OF Cons.prems(1) le _ wb, simplified]
  show ?case
  proof (cases d)
    case None
    with Cons.prems c wb have run: "wait_run cs now r1 = Some (t', r')" by (auto split: if_splits)
    have "paid (a + of_int (int n)) r1 \<le> paid a r"
      using wait_begin_through [of r now "int n" r1 a] Cons.prems(1) wb None by (simp add: bucket_ok_def)
    moreover have "bytesPerSec r1 = bytesPerSec r" "bucket_ok r1" "lastRefill r1 = now"
      using ok1 by simp_all
    ultimately show ?thesis
      using Cons.IH [of r1 now "a + of_int (int n)"] run b unfolding bytes len by simp
  next
    case (Some s)
    let ?r2 = "wait_end wake (int n) r1"
    from Cons.prems c wb Some have wake: "now + s \<le> wake" and run: "wait_run cs wake ?r2 = Some (t', r')"
      by (auto split: if_splits)
    have s: "0 \<le> s" using wait_begin_sleep(5) [OF Cons.prems(1) le] wb Some by blast
    have ok2: "bucket_ok ?r2" "bytesPerSec ?r2 = bytesPerSec r" "lastRefill ?r2 = wake"
      using wait_end_ok [of r1 wake "int n"] ok1 wake s by simp_all
    have "paid (a + of_int (int n)) ?r2 \<le> paid a r + of_int (bytesPerSec r) / ns_per_sec"
      using wait_slow_paid [OF Cons.prems(1) le _ wake, of "int n"] wb Some by simp
    then show ?thesis
      using Cons.IH [of ?r2 wake "a + of_int (int n)"] ok2 run unfolding bytes len by simp
  qed
qed

text \<open>
  Claim C30 (rate_limit_throughput): calls that follow one another let through at most one
  bucket plus the rate times the elapsed time, up to the part of a byte that the truncation
  of each sleep to whole nanoseconds can give away.
\<close>

theorem rate_limit_throughput:
  assumes "NewRateLimit bps t0 = Some r" and "wait_run cs t0 r = Some (t, r')"
  shows "(of_nat (call_bytes cs) :: rat)
    \<le> of_int bps + of_int bps * of_int (t - t0) / ns_per_sec + of_nat (length cs) * (of_int bps / ns_per_sec)"
proof -
  from assms(1) have r: "bucket_ok r" "lastRefill r = t0" "bytesPerSec r = bps" "tokens r = of_int bps"
    by (auto simp: NewRateLimit_def bucket_ok_def Let_def split: if_splits)
  with wait_run_paid [of r t0 cs t r' 0] assms(2) have
    r': "bucket_ok r'" "lastRefill r' \<le> t" "bytesPerSec r' = bps"
    and p: "paid (of_nat (call_bytes cs)) r' \<le> paid 0 r + of_nat (length cs) * (of_int bps / ns_per_sec)"
    by auto
  have "of_int bps * of_int (lastRefill r') / ns_per_sec \<le> of_int bps * (of_int t :: rat) / ns_per_sec"
    using r' by (intro divide_right_mono mult_left_mono) (auto simp: bucket_ok_def)
  moreover have "0 \<le> tokens r'" using r' by (simp add: bucket_ok_def)
  ultimately show ?thesis
    using p r r' by (simp add: paid_def field_simps)
qed

theorem rate_limit_throughput_witness:
  "(of_nat (call_bytes [(0, 0, 600), (1, 200000001, 600)]) :: rat)
    \<le> of_int 1000 + of_int 1000 * of_int (200000001 - 0) / ns_per_sec + of_nat 2 * (of_int 1000 / ns_per_sec)"
proof -
  let ?r = "\<lparr>bytesPerSec = 1000, tokens = 1000, maxTokens = 1000, lastRefill = 0\<rparr>"
  have "NewRateLimit 1000 0 = Some ?r" by (simp add: NewRateLimit_def)
  moreover have "wait_run [(0, 0, 600), (1, 200000001, 600)] 0 ?r
      = Some (200000001, \<lparr>bytesPerSec = 1000, tokens = 0, maxTokens = 1000, lastRefill = 200000001\<rparr>)"
    by (simp add: wait_begin_def wait_end_def refill_def Let_def floor_divide_of_int_eq)
  ultimately show ?thesis
    using rate_limit_throughput [of 1000 0 ?r "[(0, 0, 600), (1, 200000001, 600)]"] by simp
qed

section \<open>Concurrent callers\<close>

text \<open>
  A caller that sleeps leaves the bucket empty and no mark of what it waits for, so callers
  that arrive at the same time all compute the same sleep.
\<close>

lemma wait_begin_empty:
  assumes "0 < bytesPerSec r" and "tokens r = 0" and "lastRefill r = now" and "0 \<le> maxTokens r" and "0 < n"
  shows "wait_begin now n r = (Some \<lfloor>of_int n / of_int (bytesPerSec r) * ns_per_sec\<rfloor>, r)"
  using assms by (cases r) (simp add: wait_begin_def refill_def Let_def)

text \<open>
  When the bucket is empty, any number k of callers that
  ask for n bytes at the same instant are all told to sleep just the time n bytes take, so
  k * n bytes go out in the time the limit allows for n.
\<close>

theorem rate_limit_concurrent:
  assumes "0 < bytesPerSec r" and "tokens r = 0" and "lastRefill r = now" and "0 \<le> maxTokens r" and "0 < n"
  shows "fst (wait_begin now n (((snd \<circ> wait_begin now n) ^^ k) r))
    = Some \<lfloor>of_int n / of_int (bytesPerSec r) * ns_per_sec\<rfloor>"
proof -
  have "((snd \<circ> wait_begin now n) ^^ k) r = r"
    using wait_begin_empty [OF assms] by (induction k) simp_all
  then show ?thesis by (simp add: wait_begin_empty [OF assms])
qed

theorem rate_limit_concurrent_witness:
  "fst (wait_begin 5 1000 (((snd \<circ> wait_begin 5 1000) ^^ 20)
      \<lparr>bytesPerSec = 1000, tokens = 0, maxTokens = 1000, lastRefill = 5\<rparr>)) = Some 1000000000"
  using rate_limit_concurrent [of "\<lparr>bytesPerSec = 1000, tokens = 0, maxTokens = 1000, lastRefill = 5\<rparr>" 5 1000 20]
  by simp

end
