(* ===== verification/ServerState.thy ===== *)
theory ServerState
  imports Frames Control PluginMgr RateLimit
begin

text \<open>
  The state of the signal server (\<open>signal-server/main.go\<close>): the client object
  (\<open>relayClient\<close>), the UDP session, the package variables, and the primitive operations on
  them that the handlers share.

  Every client is an object that its goroutines keep a pointer to, also after it has left
  the \<open>clients\<close> map, so the objects are a heap keyed by the id they were created with and
  the map is the list of the ids in it. A Go map that the code iterates over is an
  association list: its order is one of the orders the iteration may have.
\<close>

section \<open>State\<close>

record Config =
  cfg_STUNPort :: int
  cfg_RelayPort :: int
  cfg_PublicAddr :: string
  cfg_AuthKey :: string

text \<open>An accepted external connection: its remote address, the bytes written to it, whether it was closed.\<close>

record extConn =
  x_addr :: string
  x_sent :: bytes
  x_closed :: bool

text \<open>A UDP session; \<open>udpConn\<close> is the number of the socket of the service that opened it.\<close>

record udpSession =
  us_channelID :: u32
  us_localPort :: int
  us_remoteAddr :: string
  us_udpConn :: nat
  us_lastActive :: int

text \<open>
  \<open>channelConns\<close> maps channel ids to external connections. \<open>udpConns\<close> maps ports to the
  sockets listening on them; it and \<open>udpSessions\<close> are nil (None) after the client was torn
  down. \<open>udpLocked\<close> says that a goroutine holds \<open>udpMu\<close> for good, \<open>udpClosed\<close> lists the
  sockets of the client that were closed. The last three fields are the goroutines running
  for the client: accept loops, UDP read loops (each with its socket) and pipes.
\<close>

record relayClient =
  cl_wconn :: wconn
  cl_closed :: bool
  cl_services :: "serviceMapping list"
  cl_channelConns :: "(u32 \<times> nat) list"
  cl_stopped :: bool
  cl_cid :: u32
  cl_udpConns :: "(int \<times> nat) list option"
  cl_udpSessions :: "(string \<times> udpSession) list option"
  cl_udpLocked :: bool
  cl_udpClosed :: "nat list"
  cl_features :: "string list"
  cl_ipFilter :: "IPFilter option"
  cl_connLimiter :: "ConnLimit option"
  cl_rateLimiter :: "RateLimit option"
  cl_tcpLoops :: "serviceMapping list"
  cl_udpLoops :: "(serviceMapping \<times> nat) list"
  cl_pipes :: "(u32 \<times> nat) list"

text \<open>
  The package variables. A listener and a UDP socket is a number, fresh for each
  \<open>net.Listen\<close> and \<open>net.ListenUDP\<close>. \<open>udp_out\<close> is what was sent from the UDP service
  sockets: socket, destination, data.
\<close>

record shared =
  sh_cfg :: Config
  sh_clients :: "u32 list"
  sh_nextCID :: u32
  sh_listeners :: "int \<Rightarrow> nat option"
  sh_lnext :: nat
  sh_mgr :: Manager
  sh_rate :: "RateLimit option"
  sh_exts :: "nat \<Rightarrow> extConn option"
  sh_udp_out :: "(nat \<times> string \<times> bytes) list"

record server =
  sv_sh :: shared
  sv_objs :: "u32 \<Rightarrow> relayClient option"

text \<open>
  What the environment decides in one step: the plugin answers and the clock, the time a
  rate-limit sleep ends, whether an external write takes all bytes (None) or only some, and
  which ports the operating system lets the process listen on.
\<close>

record srv_env =
  se_hook :: hook_env
  se_wake :: int
  se_ext_write :: "nat option"
  se_listen_tcp :: "int \<Rightarrow> bool"
  se_listen_udp :: "int \<Rightarrow> bool"

text \<open>
  How one iteration of a goroutine's loop ends: it goes round again, the goroutine returns,
  it waits for a mutex that is never released, or the process panics.
\<close>

datatype flow = Continue | Return | Blocked | Crash

section \<open>Helpers of the server\<close>

text \<open>The text of an error, as far as \<open>isNormalClose\<close> looks at it.\<close>

fun err_text :: "io_err \<Rightarrow> string" where
  "err_text EOF = ''EOF''"
| "err_text UnexpectedEOF = ''unexpected EOF''"
| "err_text Timeout = ''i/o timeout''"
| "err_text (ConnErr e) = e"
| "err_text (FrameTooLarge n) = ''frame too large: '' @ itoa (uint n)"
| "err_text (NotControl t) = ''expected control frame, got '' @ itoa (uint t)"
| "err_text BadJSON = ''invalid character''"

definition isNormalClose :: "io_err option \<Rightarrow> bool" where
  "isNormalClose err = (case err of
       None \<Rightarrow> True
     | Some e \<Rightarrow>
         if e = EOF then True
         else contains_str (err_text e) ''use of closed network connection''
           \<or> contains_str (err_text e) ''connection reset by peer''
           \<or> contains_str (err_text e) ''broken pipe'')"

fun has_feature :: "string list \<Rightarrow> bool" where
  "has_feature [] = False"
| "has_feature (f # fs) = (if f = ''compression'' then True else has_feature fs)"

definition clientSupportsCompression :: "relayClient \<Rightarrow> bool" where
  "clientSupportsCompression c = has_feature (cl_features c)"

definition getPublicIP :: "string \<Rightarrow> Config \<Rightarrow> string" where
  "getPublicIP localIP cfg = (if cfg_PublicAddr cfg \<noteq> [] then cfg_PublicAddr cfg else localIP)"

text \<open>\<open>atomic.AddUint32(&nextCID, 1)\<close>.\<close>

definition next_cid :: "shared \<Rightarrow> u32 \<times> shared" where
  "next_cid s = (sh_nextCID s + 1, s\<lparr>sh_nextCID := sh_nextCID s + 1\<rparr>)"

definition client_stop :: "relayClient \<Rightarrow> relayClient" where
  "client_stop c = c\<lparr>cl_stopped := True\<rparr>"

text \<open>\<open>conn.Close()\<close>: from now on every write fails.\<close>

definition close_conn :: "relayClient \<Rightarrow> relayClient" where
  "close_conn c = c\<lparr>cl_closed := True, cl_wconn := (cl_wconn c)\<lparr>w_room := Some 0\<rparr>\<rparr>"

text \<open>
  A frame written under \<open>writeMu\<close>. The write returns: what the connection does not take is
  an error, not a wait, so the time a goroutine may be held in a write (with the locks it
  holds) is not modelled.
\<close>

definition writeFrameLocked :: "byte \<Rightarrow> u32 \<Rightarrow> bytes \<Rightarrow> relayClient \<Rightarrow> io_err option \<times> relayClient" where
  "writeFrameLocked ft ch payload c =
     (case srv_writeFrame ft ch payload (cl_wconn c) of (r, w) \<Rightarrow> (r, c\<lparr>cl_wconn := w\<rparr>))"

definition rc_sendControl :: "controlMsg \<Rightarrow> relayClient \<Rightarrow> io_err option \<times> relayClient" where
  "rc_sendControl msg c = writeFrameLocked frameControl 0 (marshal_msg msg) c"

definition ext_addr :: "nat \<Rightarrow> shared \<Rightarrow> string" where
  "ext_addr x s = (case sh_exts s x of Some k \<Rightarrow> x_addr k | None \<Rightarrow> [])"

definition close_ext :: "nat \<Rightarrow> shared \<Rightarrow> shared" where
  "close_ext x s = s\<lparr>sh_exts := (sh_exts s)(x := map_option (\<lambda>k. k\<lparr>x_closed := True\<rparr>) (sh_exts s x))\<rparr>"

text \<open>The deferred \<open>conn.Close()\<close> of a UDP read loop: nothing can be sent from its socket any more.\<close>

definition close_udp :: "nat \<Rightarrow> relayClient \<Rightarrow> relayClient" where
  "close_udp x c = c\<lparr>cl_udpClosed := x # cl_udpClosed c\<rparr>"

text \<open>\<open>extConn.Write(data)\<close>: nothing on a closed connection, all of it or a part otherwise.\<close>

definition write_ext :: "srv_env \<Rightarrow> nat \<Rightarrow> bytes \<Rightarrow> shared \<Rightarrow> shared" where
  "write_ext e x data s = s\<lparr>sh_exts := (sh_exts s)(x := map_option (\<lambda>k.
       if x_closed k then k
       else k\<lparr>x_sent := x_sent k @ (case se_ext_write e of None \<Rightarrow> data | Some n \<Rightarrow> take n data)\<rparr>) (sh_exts s x))\<rparr>"

text \<open>\<open>if client.connLimiter != nil { client.connLimiter.OnClose() }\<close> and its siblings.\<close>

definition limiter_accept :: "relayClient \<Rightarrow> bool \<times> relayClient" where
  "limiter_accept c = (case cl_connLimiter c of
       None \<Rightarrow> (True, c)
     | Some l \<Rightarrow> (case limit_OnAccept l of (b, l1) \<Rightarrow> (b, c\<lparr>cl_connLimiter := Some l1\<rparr>)))"

definition limiter_open :: "relayClient \<Rightarrow> relayClient" where
  "limiter_open c = c\<lparr>cl_connLimiter := map_option limit_OnOpen (cl_connLimiter c)\<rparr>"

definition limiter_close :: "relayClient \<Rightarrow> relayClient" where
  "limiter_close c = c\<lparr>cl_connLimiter := map_option limit_OnClose (cl_connLimiter c)\<rparr>"

definition filter_refuses :: "string \<Rightarrow> string \<Rightarrow> relayClient \<Rightarrow> bool" where
  "filter_refuses proto addr c = (case cl_ipFilter c of None \<Rightarrow> False | Some f \<Rightarrow> \<not> ipf_OnAccept f proto addr)"

definition on_close :: "srv_env \<Rightarrow> u32 \<Rightarrow> shared \<Rightarrow> shared" where
  "on_close e ch s = s\<lparr>sh_mgr := mgr_OnClose (se_hook e) ch (sh_mgr s)\<rparr>"

text \<open>The client's own rate limiter if it has one, else the global one.\<close>

definition rate_wait :: "srv_env \<Rightarrow> nat \<Rightarrow> relayClient \<Rightarrow> shared \<Rightarrow> relayClient \<times> shared" where
  "rate_wait e n c s = (case cl_rateLimiter c of
       Some r \<Rightarrow> (c\<lparr>cl_rateLimiter := Some (Wait (he_now (se_hook e)) (se_wake e) (int n) r)\<rparr>, s)
     | None \<Rightarrow> (c, s\<lparr>sh_rate := Wait_nilable (he_now (se_hook e)) (se_wake e) (int n) (sh_rate s)\<rparr>))"

text \<open>The frame type and payload for data on its way to the client.\<close>

definition pack :: "lz4 \<Rightarrow> relayClient \<Rightarrow> Manager \<Rightarrow> bytes \<Rightarrow> byte \<times> bytes" where
  "pack z c m data =
     (if HasCompressor m \<and> clientSupportsCompression c
      then (case mgr_Compress z m data of (compressed, ok) \<Rightarrow>
              if ok then (frameDataCompressed, compressed) else (frameData, data))
      else (frameData, data))"

text \<open>\<open>for key, sess := range udpSessions { if sess.channelID == ch ...\<close>: the first one found.\<close>

definition find_session :: "u32 \<Rightarrow> (string \<times> udpSession) list option \<Rightarrow> (string \<times> udpSession) option" where
  "find_session ch ss = (case ss of None \<Rightarrow> None | Some l \<Rightarrow> find (\<lambda>(k, u). us_channelID u = ch) l)"

definition delete_session :: "string \<Rightarrow> relayClient \<Rightarrow> relayClient" where
  "delete_session k c = c\<lparr>cl_udpSessions := map_option (AList.delete k) (cl_udpSessions c)\<rparr>"

section \<open>Lemmas\<close>

lemma has_feature_iff: "has_feature fs \<longleftrightarrow> ''compression'' \<in> set fs"
  by (induction fs) auto

lemma next_cid_fields [simp]:
  "fst (next_cid s) = sh_nextCID s + 1"
  "snd (next_cid s) = s\<lparr>sh_nextCID := sh_nextCID s + 1\<rparr>"
  by (simp_all add: next_cid_def)

lemma writeFrameLocked_None:
  "writeFrameLocked t ch p c = (None, c') \<Longrightarrow>
    c' = c\<lparr>cl_wconn := cl_wconn c'\<rparr> \<and>
    w_sent (cl_wconn c') = w_sent (cl_wconn c) @ enc_frame \<lparr>f_type = t, f_chan = ch, f_payload = p\<rparr>"
  by (auto simp: writeFrameLocked_def split: prod.splits dest: srv_writeFrame_None)

lemma writeFrameLocked_only_wconn:
  "snd (writeFrameLocked t ch p c) = c\<lparr>cl_wconn := cl_wconn (snd (writeFrameLocked t ch p c))\<rparr>"
  by (auto simp: writeFrameLocked_def split: prod.splits)

lemma rc_sendControl_only_wconn:
  "snd (rc_sendControl m c) = c\<lparr>cl_wconn := cl_wconn (snd (rc_sendControl m c))\<rparr>"
  unfolding rc_sendControl_def by (rule writeFrameLocked_only_wconn)

text \<open>A write touches only the connection: every other field is read through it.\<close>

lemma writeFrameLocked_fields [simp]:
  "cl_channelConns (snd (writeFrameLocked t ch p c)) = cl_channelConns c"
  "cl_udpSessions (snd (writeFrameLocked t ch p c)) = cl_udpSessions c"
  "cl_connLimiter (snd (writeFrameLocked t ch p c)) = cl_connLimiter c"
  "cl_udpLocked (snd (writeFrameLocked t ch p c)) = cl_udpLocked c"
  "cl_stopped (snd (writeFrameLocked t ch p c)) = cl_stopped c"
  "cl_pipes (snd (writeFrameLocked t ch p c)) = cl_pipes c"
  "cl_cid (snd (writeFrameLocked t ch p c)) = cl_cid c"
  "cl_features (snd (writeFrameLocked t ch p c)) = cl_features c"
  "cl_udpClosed (snd (writeFrameLocked t ch p c)) = cl_udpClosed c"
  by (auto simp: writeFrameLocked_def split: prod.splits)

lemma rc_sendControl_fields [simp]:
  "cl_channelConns (snd (rc_sendControl m c)) = cl_channelConns c"
  "cl_udpSessions (snd (rc_sendControl m c)) = cl_udpSessions c"
  "cl_connLimiter (snd (rc_sendControl m c)) = cl_connLimiter c"
  "cl_udpLocked (snd (rc_sendControl m c)) = cl_udpLocked c"
  "cl_stopped (snd (rc_sendControl m c)) = cl_stopped c"
  "cl_pipes (snd (rc_sendControl m c)) = cl_pipes c"
  "cl_cid (snd (rc_sendControl m c)) = cl_cid c"
  "cl_features (snd (rc_sendControl m c)) = cl_features c"
  "cl_udpClosed (snd (rc_sendControl m c)) = cl_udpClosed c"
  by (simp_all add: rc_sendControl_def)

lemma limiter_accept_fields [simp]:
  "cl_channelConns (snd (limiter_accept c)) = cl_channelConns c"
  "cl_udpSessions (snd (limiter_accept c)) = cl_udpSessions c"
  "cl_wconn (snd (limiter_accept c)) = cl_wconn c"
  "cl_udpLocked (snd (limiter_accept c)) = cl_udpLocked c"
  "cl_stopped (snd (limiter_accept c)) = cl_stopped c"
  "cl_pipes (snd (limiter_accept c)) = cl_pipes c"
  "cl_cid (snd (limiter_accept c)) = cl_cid c"
  "cl_features (snd (limiter_accept c)) = cl_features c"
  "cl_udpClosed (snd (limiter_accept c)) = cl_udpClosed c"
  "cl_rateLimiter (snd (limiter_accept c)) = cl_rateLimiter c"
  by (auto simp: limiter_accept_def split: option.splits prod.splits)

lemma limiter_open_id [simp]: "limiter_open c = c"
  by (cases c; cases "cl_connLimiter c") (auto simp: limiter_open_def limit_OnOpen_def)

lemma pack_type: "fst (pack z c m d) = frameData \<or> fst (pack z c m d) = frameDataCompressed"
  by (auto simp: pack_def split: prod.splits)

lemma find_session_Some:
  "find_session ch (Some l) = Some (k, u) \<Longrightarrow> (k, u) \<in> set l \<and> us_channelID u = ch"
  by (auto simp: find_session_def find_Some_iff dest: nth_mem)

end
