(* ===== verification/Registration.thy ===== *)
theory Registration
  imports ServerState
begin

text \<open>
  A client's life on the server, \<open>handleRelayClient\<close> of \<open>signal-server/main.go\<close>, except for
  the relay loop: the registration exchange up to the point where the services listen
  (\<open>handle_hello\<close>), the reply (\<open>handle_reply\<close>) and what runs when the loop ends
  (\<open>relay_teardown\<close>). The three are separate definitions because the services accept
  connections from the moment they listen, before the reply is written.
\<close>

section \<open>Starting the services\<close>

datatype start_err = PortInUse int | ListenFailed | UnsupportedProto string

definition startTCPService :: "srv_env \<Rightarrow> serviceMapping \<Rightarrow> relayClient \<Rightarrow> shared
    \<Rightarrow> (start_err + nat) \<times> relayClient \<times> shared" where
  "startTCPService e svc c s =
     (if sh_listeners s (sm_RemotePort svc) \<noteq> None then (Inl (PortInUse (sm_RemotePort svc)), c, s)
      else if \<not> se_listen_tcp e (sm_RemotePort svc) then (Inl ListenFailed, c, s)
      else let lsn = sh_lnext s
           in (Inr lsn, c\<lparr>cl_tcpLoops := cl_tcpLoops c @ [svc]\<rparr>,
               s\<lparr>sh_lnext := lsn + 1, sh_listeners := (sh_listeners s)(sm_RemotePort svc \<mapsto> lsn)\<rparr>))"

text \<open>
  The ports of the UDP sockets the client has. Each of them is listening: \<open>net.ListenUDP\<close>
  fails on such a port, except on port 0, for which the system picks a free one. Ports taken
  by other clients or processes are refused by the environment.
\<close>

definition udp_ports :: "relayClient \<Rightarrow> int set" where
  "udp_ports c = (case cl_udpConns c of None \<Rightarrow> {} | Some l \<Rightarrow> fst ` set l)"

definition startUDPService :: "srv_env \<Rightarrow> serviceMapping \<Rightarrow> relayClient \<Rightarrow> shared
    \<Rightarrow> start_err option \<times> relayClient \<times> shared" where
  "startUDPService e svc c s =
     (if \<not> se_listen_udp e (sm_RemotePort svc) \<or> sm_RemotePort svc \<noteq> 0 \<and> sm_RemotePort svc \<in> udp_ports c
      then (Some ListenFailed, c, s)
      else let conn = sh_lnext s
           in (None, c\<lparr>cl_udpConns := map_option (AList.update (sm_RemotePort svc) conn) (cl_udpConns c),
                       cl_udpLoops := cl_udpLoops c @ [(svc, conn)]\<rparr>, s\<lparr>sh_lnext := conn + 1\<rparr>))"

definition startServiceListener :: "srv_env \<Rightarrow> serviceMapping \<Rightarrow> relayClient \<Rightarrow> shared
    \<Rightarrow> (start_err + nat option) \<times> relayClient \<times> shared" where
  "startServiceListener e svc c s =
     (if sm_Proto svc = ''udp'' then
        (case startUDPService e svc c s of
           (Some er, c1, s1) \<Rightarrow> (Inl er, c1, s1)
         | (None, c1, s1) \<Rightarrow> (Inr None, c1, s1))
      else if sm_Proto svc = ''tcp'' then
        (case startTCPService e svc c s of
           (Inl er, c1, s1) \<Rightarrow> (Inl er, c1, s1)
         | (Inr lsn, c1, s1) \<Rightarrow> (Inr (Some lsn), c1, s1))
      else (Inl (UnsupportedProto (sm_Proto svc)), c, s))"

text \<open>The loop over the services: the listeners it opened and the services that failed.\<close>

fun start_services :: "srv_env \<Rightarrow> serviceMapping list \<Rightarrow> relayClient \<Rightarrow> shared
    \<Rightarrow> nat list \<times> serviceMapping list \<times> relayClient \<times> shared" where
  "start_services e [] c s = ([], [], c, s)"
| "start_services e (svc # svcs) c s =
     (case startServiceListener e svc c s of
        (r, c1, s1) \<Rightarrow>
          (case start_services e svcs c1 s1 of
             (lns, failed, c2, s2) \<Rightarrow>
               (case r of
                  Inl er \<Rightarrow> (lns, svc # failed, c2, s2)
                | Inr None \<Rightarrow> (lns, failed, c2, s2)
                | Inr (Some lsn) \<Rightarrow> (lsn # lns, failed, c2, s2))))"

section \<open>The registration exchange\<close>

definition new_client :: "u32 \<Rightarrow> wconn \<Rightarrow> relayClient" where
  "new_client cid w = \<lparr>cl_wconn = w, cl_closed = False, cl_services = [], cl_channelConns = [],
     cl_stopped = False, cl_cid = cid, cl_udpConns = Some [], cl_udpSessions = Some [],
     cl_udpLocked = False, cl_udpClosed = [], cl_features = [], cl_ipFilter = None, cl_connLimiter = None,
     cl_rateLimiter = None, cl_tcpLoops = [], cl_udpLoops = [], cl_pipes = []\<rparr>"

definition handle_connect :: "wconn \<Rightarrow> shared \<Rightarrow> relayClient \<times> shared" where
  "handle_connect w s =
     (case next_cid s of (cid, s1) \<Rightarrow> (new_client cid w, s1\<lparr>sh_clients := sh_clients s1 @ [cid]\<rparr>))"

text \<open>\<open>delete(clients, cid)\<close> and \<open>conn.Close()\<close>, the end of every failed registration.\<close>

definition drop_client :: "relayClient \<Rightarrow> shared \<Rightarrow> relayClient \<times> shared" where
  "drop_client c s = (close_conn c, s\<lparr>sh_clients := removeAll (cl_cid c) (sh_clients s)\<rparr>)"

text \<open>The settings a register message carries.\<close>

definition apply_settings :: "int \<Rightarrow> controlMsg \<Rightarrow> relayClient \<Rightarrow> relayClient" where
  "apply_settings now msg c =
     (let c1 = c\<lparr>cl_services := c_Services msg, cl_features := c_Features msg\<rparr>;
          c2 = (if c_IPAllow msg \<noteq> [] \<or> c_IPDeny msg \<noteq> []
                then (case NewIPFilter (c_IPAllow msg) (c_IPDeny msg) of
                        Inl err \<Rightarrow> c1 | Inr ipf \<Rightarrow> c1\<lparr>cl_ipFilter := Some ipf\<rparr>)
                else c1);
          c3 = (if c_MaxConns msg > 0 then c2\<lparr>cl_connLimiter := Some (NewConnLimit (c_MaxConns msg))\<rparr> else c2)
      in if c_RateLimit msg > 0 then c3\<lparr>cl_rateLimiter := NewRateLimit (c_RateLimit msg) now\<rparr> else c3)"

datatype hello =
    Refused_at string
  | Listening "nat list" "serviceMapping list" string

text \<open>
  From the first frame to the listeners. \<open>localIP\<close> is the address the connection came in on.
\<close>

definition handle_hello :: "srv_env \<Rightarrow> string \<Rightarrow> rd list \<Rightarrow> relayClient \<Rightarrow> shared
    \<Rightarrow> hello \<times> relayClient \<times> shared" where
  "handle_hello e localIP input c s =
     (case srv_readFrame input of
        (Ret f, rest) \<Rightarrow>
          if f_type f \<noteq> frameControl then (Refused_at ''frame'', drop_client c s)
          else (case unmarshal_msg (f_payload f) of
             None \<Rightarrow> (Refused_at ''json'', drop_client c s)
           | Some msg \<Rightarrow>
               if c_Type msg \<noteq> ''register'' then (Refused_at ''type'', drop_client c s)
               else if cfg_AuthKey (sh_cfg s) \<noteq> [] \<and> c_AuthKey msg \<noteq> cfg_AuthKey (sh_cfg s) then
                 (let errResp = zero_msg\<lparr>c_Type := ''error'', c_PublicAddr := ''auth failed''\<rparr>;
                      c1 = snd (rc_sendControl errResp c)
                  in (Refused_at ''auth'', drop_client c1 s))
               else
                 (let c1 = apply_settings (he_now (se_hook e)) msg c;
                      publicIP = getPublicIP localIP (sh_cfg s)
                  in case start_services e (c_Services msg) c1 s of
                       (lns, failed, c2, s2) \<Rightarrow> (Listening lns failed publicIP, c2, s2)))
      | (_, rest) \<Rightarrow> (Refused_at ''read'', drop_client c s))"

text \<open>Closing the client's listeners and removing them from the port map.\<close>

fun close_listeners :: "nat list \<Rightarrow> shared \<Rightarrow> shared" where
  "close_listeners [] s = s"
| "close_listeners (l # ls) s =
     close_listeners ls (s\<lparr>sh_listeners := (\<lambda>p. if sh_listeners s p = Some l then None else sh_listeners s p)\<rparr>)"

definition ok_msg :: "string \<Rightarrow> serviceMapping list \<Rightarrow> Manager \<Rightarrow> controlMsg" where
  "ok_msg publicIP failed m = zero_msg\<lparr>c_Type := ''ok'', c_PublicAddr := publicIP, c_FailedServices := failed,
     c_Features := (if HasCompressor m \<or> CanDecompress m then [''compression''] else [])\<rparr>"

text \<open>
  The reply; if it cannot be sent the client is dropped (True: the relay loop starts). It
  is written to the connection without \<open>writeMu\<close>, by two calls of \<open>conn.Write\<close>:
  \<open>reply_write\<close> is one of them, \<open>handle_reply\<close> both of them with nothing in between.
\<close>

definition reply_failed :: "nat list \<Rightarrow> relayClient \<Rightarrow> shared \<Rightarrow> bool \<times> relayClient \<times> shared" where
  "reply_failed lns c s = (False, drop_client (client_stop c) (close_listeners lns s))"

definition reply_header :: "bytes \<Rightarrow> bytes" where
  "reply_header payload = [frameControl] @ put_u32 0 @ put_u32 (of_nat (length payload))"

definition reply_write :: "nat list \<Rightarrow> bytes \<Rightarrow> relayClient \<Rightarrow> shared \<Rightarrow> bool \<times> relayClient \<times> shared" where
  "reply_write lns b c s =
     (case conn_write b (cl_wconn c) of
        (Some err, w) \<Rightarrow> reply_failed lns (c\<lparr>cl_wconn := w\<rparr>) s
      | (None, w) \<Rightarrow> (True, c\<lparr>cl_wconn := w\<rparr>, s))"

definition handle_reply :: "nat list \<Rightarrow> serviceMapping list \<Rightarrow> string \<Rightarrow> relayClient \<Rightarrow> shared
    \<Rightarrow> bool \<times> relayClient \<times> shared" where
  "handle_reply lns failed publicIP c s =
     (case srv_sendControl (ok_msg publicIP failed (sh_mgr s)) (cl_wconn c) of
        (Some err, w) \<Rightarrow> reply_failed lns (c\<lparr>cl_wconn := w\<rparr>) s
      | (None, w) \<Rightarrow> (True, c\<lparr>cl_wconn := w\<rparr>, s))"

section \<open>The end of a client\<close>

fun close_exts :: "(u32 \<times> nat) list \<Rightarrow> shared \<Rightarrow> shared" where
  "close_exts [] s = s"
| "close_exts ((ch, x) # cs) s = close_exts cs (close_ext x s)"

definition udp_sockets :: "relayClient \<Rightarrow> nat list" where
  "udp_sockets c = (case cl_udpConns c of None \<Rightarrow> [] | Some l \<Rightarrow> map snd l)"

definition relay_teardown :: "nat list \<Rightarrow> relayClient \<Rightarrow> shared \<Rightarrow> flow \<times> relayClient \<times> shared" where
  "relay_teardown lns c s =
     (let c1 = client_stop c;
          s1 = close_exts (cl_channelConns c1) (close_listeners lns s)
      in if cl_udpLocked c1 then (Blocked, c1, s1)
         else (Return, drop_client (c1\<lparr>cl_udpClosed := udp_sockets c1 @ cl_udpClosed c1,
                                        cl_udpConns := None, cl_udpSessions := None\<rparr>) s1))"

section \<open>Lemmas\<close>

text \<open>What starting services changes: listeners and the client's own loops, nothing else.\<close>

lemma startServiceListener_frame:
  assumes "startServiceListener e svc c s = (r, c1, s1)"
  shows "s1 = s\<lparr>sh_lnext := sh_lnext s1, sh_listeners := sh_listeners s1\<rparr>
    \<and> c1 = c\<lparr>cl_udpConns := cl_udpConns c1, cl_udpLoops := cl_udpLoops c1, cl_tcpLoops := cl_tcpLoops c1\<rparr>"
  using assms
  by (auto simp: startServiceListener_def startUDPService_def startTCPService_def Let_def split: if_splits)

lemma start_services_frame:
  "start_services e svcs c s = (lns, failed, c1, s1) \<Longrightarrow>
     s1 = s\<lparr>sh_lnext := sh_lnext s1, sh_listeners := sh_listeners s1\<rparr>
    \<and> c1 = c\<lparr>cl_udpConns := cl_udpConns c1, cl_udpLoops := cl_udpLoops c1, cl_tcpLoops := cl_tcpLoops c1\<rparr>"
proof (induction svcs arbitrary: c s lns failed c1 s1)
  case (Cons svc svcs)
  obtain r c2 s2 where st: "startServiceListener e svc c s = (r, c2, s2)" by (cases "startServiceListener e svc c s") auto
  obtain l2 f2 c3 s3 where rest: "start_services e svcs c2 s2 = (l2, f2, c3, s3)"
    by (cases "start_services e svcs c2 s2") auto
  have "c1 = c3" "s1 = s3" using Cons.prems st rest by (auto split: sum.splits option.splits)
  with Cons.IH [OF rest] startServiceListener_frame [OF st] show ?case
    by (cases c; cases s; cases c2; cases s2; cases c3; cases s3) simp
qed simp

text \<open>A port that is in the map keeps its listener; a listener number is never used twice.\<close>

definition listeners_ok :: "shared \<Rightarrow> bool" where
  "listeners_ok s \<longleftrightarrow> (\<forall>p l. sh_listeners s p = Some l \<longrightarrow> l < sh_lnext s)
     \<and> (\<forall>p q l. sh_listeners s p = Some l \<longrightarrow> sh_listeners s q = Some l \<longrightarrow> p = q)"

text \<open>A service the server can serve: a protocol it knows, on a port it may listen on.\<close>

definition startable :: "srv_env \<Rightarrow> relayClient \<Rightarrow> shared \<Rightarrow> serviceMapping \<Rightarrow> bool" where
  "startable e c s svc \<longleftrightarrow> (sm_Proto svc = ''udp'' \<and> se_listen_udp e (sm_RemotePort svc)
        \<and> (sm_RemotePort svc = 0 \<or> sm_RemotePort svc \<notin> udp_ports c))
     \<or> (sm_Proto svc = ''tcp'' \<and> se_listen_tcp e (sm_RemotePort svc) \<and> sh_listeners s (sm_RemotePort svc) = None)"

lemma startServiceListener_iff:
  assumes "startServiceListener e svc c s = (r, c1, s1)"
  shows "(\<exists>er. r = Inl er) \<longleftrightarrow> \<not> startable e c s svc"
    and "\<not> startable e c s svc \<Longrightarrow> c1 = c \<and> s1 = s"
    and "sh_listeners s \<subseteq>\<^sub>m sh_listeners s1"
    and "sh_lnext s \<le> sh_lnext s1"
  using assms
  by (auto simp: startServiceListener_def startUDPService_def startTCPService_def startable_def Let_def
      map_le_def split: if_splits)

lemma start_services_extend:
  "start_services e svcs c s = (lns, failed, c1, s1) \<Longrightarrow> sh_listeners s \<subseteq>\<^sub>m sh_listeners s1 \<and> sh_lnext s \<le> sh_lnext s1"
proof (induction svcs arbitrary: c s lns failed)
  case (Cons svc svcs)
  obtain r c2 s2 where st: "startServiceListener e svc c s = (r, c2, s2)" by (cases "startServiceListener e svc c s") auto
  obtain l2 f2 where rest: "start_services e svcs c2 s2 = (l2, f2, c1, s1)"
    using Cons.prems st by (auto split: prod.splits sum.splits option.splits)
  from Cons.IH [OF rest] startServiceListener_iff(3,4) [OF st] show ?case
    by (auto intro: map_le_trans)
qed simp

text \<open>
  The services that fail, as a specification over the sets of TCP ports already taken and
  of UDP ports the client already listens on.
\<close>

fun failing :: "srv_env \<Rightarrow> int set \<Rightarrow> int set \<Rightarrow> serviceMapping list \<Rightarrow> serviceMapping list" where
  "failing e tcp udp [] = []"
| "failing e tcp udp (svc # svcs) =
     (if sm_Proto svc = ''udp'' \<and> (sm_RemotePort svc = 0 \<or> sm_RemotePort svc \<notin> udp) \<and> se_listen_udp e (sm_RemotePort svc) then
        failing e tcp (insert (sm_RemotePort svc) udp) svcs
      else if sm_Proto svc = ''tcp'' \<and> sm_RemotePort svc \<notin> tcp \<and> se_listen_tcp e (sm_RemotePort svc) then
        failing e (insert (sm_RemotePort svc) tcp) udp svcs
      else svc # failing e tcp udp svcs)"

lemma startServiceListener_taken:
  assumes "startServiceListener e svc c s = (r, c1, s1)" and "cl_udpConns c = Some y"
  shows "cl_udpConns c1 \<noteq> None"
    and "udp_ports c1 = (if sm_Proto svc = ''udp'' \<and> startable e c s svc then insert (sm_RemotePort svc) (udp_ports c) else udp_ports c)"
    and "dom (sh_listeners s1) = (if sm_Proto svc \<noteq> ''udp'' \<and> startable e c s svc
      then insert (sm_RemotePort svc) (dom (sh_listeners s)) else dom (sh_listeners s))"
proof -
  have up: "udp_ports c = fst ` set y" "udp_ports (c\<lparr>cl_udpConns := Some l, cl_udpLoops := k\<rparr>) = fst ` set l"
      "udp_ports (c\<lparr>cl_tcpLoops := k2\<rparr>) = udp_ports c" for l k k2
    by (simp_all add: udp_ports_def assms(2))
  show "cl_udpConns c1 \<noteq> None"
    using assms by (auto simp: startServiceListener_def startUDPService_def startTCPService_def Let_def split: if_splits)
  show "udp_ports c1 = (if sm_Proto svc = ''udp'' \<and> startable e c s svc then insert (sm_RemotePort svc) (udp_ports c) else udp_ports c)"
    using assms unfolding startable_def
    by (cases "sm_Proto svc = ''udp''"; cases "sm_Proto svc = ''tcp''")
      (auto simp: startServiceListener_def startUDPService_def startTCPService_def Let_def up(2,3) up(1) [symmetric] AList.dom_update
        split: if_splits)
  show "dom (sh_listeners s1) = (if sm_Proto svc \<noteq> ''udp'' \<and> startable e c s svc
      then insert (sm_RemotePort svc) (dom (sh_listeners s)) else dom (sh_listeners s))"
    using assms unfolding startable_def
    by (cases "sm_Proto svc = ''udp''"; cases "sm_Proto svc = ''tcp''")
      (auto simp: startServiceListener_def startUDPService_def startTCPService_def Let_def split: if_splits)
qed

lemma failing_Cons:
  "failing e (dom (sh_listeners s)) (udp_ports c) (svc # svcs) =
    (if \<not> startable e c s svc then svc # failing e (dom (sh_listeners s)) (udp_ports c) svcs
     else if sm_Proto svc = ''udp'' then failing e (dom (sh_listeners s)) (insert (sm_RemotePort svc) (udp_ports c)) svcs
     else failing e (insert (sm_RemotePort svc) (dom (sh_listeners s))) (udp_ports c) svcs)"
  by (auto simp: startable_def)

lemma start_services_failing:
  "start_services e svcs c s = (lns, failed, c1, s1) \<Longrightarrow> cl_udpConns c \<noteq> None \<Longrightarrow>
    failed = failing e (dom (sh_listeners s)) (udp_ports c) svcs"
proof (induction svcs arbitrary: c s lns failed)
  case (Cons svc svcs)
  obtain r c2 s2 where st: "startServiceListener e svc c s = (r, c2, s2)" by (cases "startServiceListener e svc c s") auto
  obtain l2 f2 where rest: "start_services e svcs c2 s2 = (l2, f2, c1, s1)"
    and failed: "failed = (case r of Inl er \<Rightarrow> svc # f2 | Inr x \<Rightarrow> f2)"
    using Cons.prems st by (auto split: prod.splits sum.splits option.splits)
  from Cons.prems(2) obtain y where y: "cl_udpConns c = Some y" by blast
  note tk = startServiceListener_taken [OF st y]
  have f: "failed = (if startable e c s svc then f2 else svc # f2)"
    using failed startServiceListener_iff(1) [OF st] by (auto split: sum.splits)
  show ?case unfolding f failing_Cons Cons.IH [OF rest tk(1)] tk(2,3) by (auto simp: startable_def)
qed simp

lemma close_listeners_eq:
  "close_listeners ls s = s\<lparr>sh_listeners := (\<lambda>p. case sh_listeners s p of
      None \<Rightarrow> None | Some l \<Rightarrow> if l \<in> set ls then None else Some l)\<rparr>"
proof (induction ls arbitrary: s)
  case Nil
  have same: "(\<lambda>p. case sh_listeners s p of None \<Rightarrow> None | Some l \<Rightarrow> if l \<in> set [] then None else Some l) = sh_listeners s"
    by (auto split: option.splits)
  show ?case unfolding same by simp
next
  case (Cons l ls)
  show ?case by (auto simp: Cons.IH fun_eq_iff intro!: arg_cong2 [where f = sh_listeners_update] split: option.splits)
qed

text \<open>The new entries of the port map are the listeners returned, none of them an old number.\<close>

lemma start_services_listeners:
  "start_services e svcs c s = (lns, failed, c1, s1) \<Longrightarrow> \<forall>p l. sh_listeners s p = Some l \<longrightarrow> l < sh_lnext s \<Longrightarrow>
    (\<forall>l \<in> set lns. sh_lnext s \<le> l) \<and>
    (\<forall>p l. sh_listeners s1 p = Some l \<longrightarrow> l < sh_lnext s1 \<and> (sh_listeners s p = Some l \<or> l \<in> set lns))"
proof (induction svcs arbitrary: c s lns failed)
  case (Cons svc svcs)
  obtain r c2 s2 where st: "startServiceListener e svc c s = (r, c2, s2)" by (cases "startServiceListener e svc c s") auto
  obtain l2 f2 where rest: "start_services e svcs c2 s2 = (l2, f2, c1, s1)"
    and lns: "lns = (case r of Inr (Some n) \<Rightarrow> n # l2 | _ \<Rightarrow> l2)"
    using Cons.prems(1) st by (auto split: prod.splits sum.splits option.splits)
  have old: "l < sh_lnext s2" if "sh_listeners s2 p = Some l" for p l
    using that st Cons.prems(2)
    by (auto simp: startServiceListener_def startUDPService_def startTCPService_def Let_def
        split: if_splits simp: less_Suc_eq)
  have new: "(sh_listeners s2 = sh_listeners s \<and> sh_lnext s \<le> sh_lnext s2 \<and> lns = l2) \<or>
      (sh_lnext s2 = Suc (sh_lnext s) \<and> lns = sh_lnext s # l2 \<and>
        sh_listeners s2 = (sh_listeners s)(sm_RemotePort svc \<mapsto> sh_lnext s))"
    using st lns
    by (auto simp: startServiceListener_def startUDPService_def startTCPService_def Let_def split: if_splits)
  from old have "\<forall>p l. sh_listeners s2 p = Some l \<longrightarrow> l < sh_lnext s2" by blast
  from Cons.IH [OF rest this] new show ?case
    by (fastforce split: if_splits)
qed simp

text \<open>
  With nothing in between, the reply is what a locked write would be, and its two writes one
  after the other are the whole of it.
\<close>

lemma handle_reply_eq:
  "handle_reply lns failed pub c s = (case rc_sendControl (ok_msg pub failed (sh_mgr s)) c of
      (Some err, c1) \<Rightarrow> reply_failed lns c1 s | (None, c1) \<Rightarrow> (True, c1, s))"
  by (simp add: handle_reply_def rc_sendControl_def srv_sendControl_def writeFrameLocked_def split: prod.split option.split)

lemma handle_reply_two:
  assumes "marshal_msg (ok_msg pub failed (sh_mgr s)) = p" and "p \<noteq> []"
  shows "handle_reply lns failed pub c s = (case reply_write lns (reply_header p) c s of
      (b, c1, s1) \<Rightarrow> if b then reply_write lns p c1 s1 else (b, c1, s1))"
  using assms
  by (simp add: handle_reply_def reply_write_def reply_failed_def srv_sendControl_def srv_writeFrame_def reply_header_def Let_def
      split: prod.split option.split)

section \<open>Properties\<close>

text \<open>What a refused registration leaves behind.\<close>

lemma drop_client_fields [simp]:
  "cl_closed (fst (drop_client c s)) = True"
  "sh_listeners (snd (drop_client c s)) = sh_listeners s"
  "snd (drop_client c s) = s\<lparr>sh_clients := removeAll (cl_cid c) (sh_clients s)\<rparr>"
  by (simp_all add: drop_client_def close_conn_def)

lemma handle_hello_refused:
  assumes "handle_hello e ip input c s = (Refused_at why, c1, s1)"
  shows "s1 = s\<lparr>sh_clients := removeAll (cl_cid c) (sh_clients s)\<rparr> \<and> cl_closed c1
    \<and> cl_tcpLoops c1 = cl_tcpLoops c \<and> cl_udpLoops c1 = cl_udpLoops c
    \<and> (why \<noteq> ''auth'' \<longrightarrow> w_sent (cl_wconn c1) = w_sent (cl_wconn c))"
proof -
  have w: "snd (rc_sendControl m c) = c\<lparr>cl_wconn := cl_wconn (snd (rc_sendControl m c))\<rparr>" for m
    by (rule rc_sendControl_only_wconn)
  show ?thesis using assms
    by (cases "srv_readFrame input"; cases "fst (srv_readFrame input)")
      (auto simp: handle_hello_def drop_client_def close_conn_def Let_def
        split: if_splits option.splits prod.splits, (subst w, simp)+)
qed

text \<open>
  Claim C12 (registration_gate): a client gets its services started exactly when its first
  frame is a well-formed \<open>register\<close> message carrying the configured key (any key if none is
  configured). In every other case no listener is opened, no loop is started, the client is
  taken off the map and its connection closed, and nothing else of the server changes.
\<close>

theorem registration_gate:
  assumes "handle_hello e ip input c s = (r, c1, s1)"
  shows "((\<exists>lns failed pub. r = Listening lns failed pub) \<longleftrightarrow>
      (\<exists>f rest msg. srv_readFrame input = (Ret f, rest) \<and> f_type f = frameControl
        \<and> unmarshal_msg (f_payload f) = Some msg \<and> c_Type msg = ''register''
        \<and> (cfg_AuthKey (sh_cfg s) = [] \<or> c_AuthKey msg = cfg_AuthKey (sh_cfg s))))
    \<and> ((\<nexists>lns failed pub. r = Listening lns failed pub) \<longrightarrow>
        s1 = s\<lparr>sh_clients := removeAll (cl_cid c) (sh_clients s)\<rparr> \<and> cl_closed c1
          \<and> cl_tcpLoops c1 = cl_tcpLoops c \<and> cl_udpLoops c1 = cl_udpLoops c)"
proof -
  have "(\<exists>lns failed pub. r = Listening lns failed pub) \<longleftrightarrow>
      (\<exists>f rest msg. srv_readFrame input = (Ret f, rest) \<and> f_type f = frameControl
        \<and> unmarshal_msg (f_payload f) = Some msg \<and> c_Type msg = ''register''
        \<and> (cfg_AuthKey (sh_cfg s) = [] \<or> c_AuthKey msg = cfg_AuthKey (sh_cfg s)))"
    using assms by (cases "srv_readFrame input"; cases "fst (srv_readFrame input)")
      (auto simp: handle_hello_def Let_def split: if_splits option.splits prod.splits)
  moreover have "(\<nexists>lns failed pub. r = Listening lns failed pub) \<longrightarrow>
        s1 = s\<lparr>sh_clients := removeAll (cl_cid c) (sh_clients s)\<rparr> \<and> cl_closed c1
          \<and> cl_tcpLoops c1 = cl_tcpLoops c \<and> cl_udpLoops c1 = cl_udpLoops c"
    using assms handle_hello_refused by (cases r) blast+
  ultimately show ?thesis by blast
qed

lemma apply_settings_services [simp]: "cl_services (apply_settings now msg c) = c_Services msg"
  by (simp add: apply_settings_def Let_def split: sum.splits)

lemma handle_hello_Listening:
  assumes "handle_hello e ip input c s = (Listening lns failed pub, c1, s1)"
  obtains f rest msg where "srv_readFrame input = (Ret f, rest)" "unmarshal_msg (f_payload f) = Some msg"
    "start_services e (c_Services msg) (apply_settings (he_now (se_hook e)) msg c) s = (lns, failed, c1, s1)"
  using assms by (cases "srv_readFrame input"; cases "fst (srv_readFrame input)")
    (auto simp: handle_hello_def Let_def split: if_splits option.splits prod.splits)

text \<open>
  Claim C32 (registration_reply): for a client that has no UDP socket yet, as
  \<open>handle_connect\<close> makes it, on a server whose port map is consistent (\<open>listeners_ok\<close>), the
  failed services that the reply carries are exactly those that could not be started:
  unknown protocol, a TCP port in the port map or opened by an earlier service of the
  message, a UDP port other than 0 that an earlier service of the message listens on, or a
  port refused by the operating system. No port that was in use changes hands, every new
  entry of the port map is one of this client's listeners, and closing those listeners puts
  the map back as it was.
\<close>

theorem registration_reply:
  assumes "handle_hello e ip input c s = (Listening lns failed pub, c1, s1)" and "listeners_ok s" and "cl_udpConns c = Some []"
  shows "failed = failing e (dom (sh_listeners s)) {} (cl_services c1)
    \<and> c_FailedServices (ok_msg pub failed (sh_mgr s1)) = failed
    \<and> sh_listeners s \<subseteq>\<^sub>m sh_listeners s1
    \<and> (\<forall>p l. sh_listeners s1 p = Some l \<and> sh_listeners s p \<noteq> Some l \<longrightarrow> l \<in> set lns)
    \<and> sh_listeners (close_listeners lns s1) = sh_listeners s"
proof -
  let ?c0 = "\<lambda>msg. apply_settings (he_now (se_hook e)) msg c"
  from assms(1) obtain f rest msg where st: "start_services e (c_Services msg) (?c0 msg) s = (lns, failed, c1, s1)"
    by (rule handle_hello_Listening)
  have sv: "cl_services c1 = c_Services msg" using start_services_frame [OF st] by (metis (no_types, lifting) apply_settings_services
        relayClient.select_convs(3) relayClient.surjective relayClient.update_convs)
  have ok: "\<forall>p l. sh_listeners s p = Some l \<longrightarrow> l < sh_lnext s"
    using assms(2) by (simp add: listeners_ok_def)
  note new = start_services_listeners [OF st ok] and ext = start_services_extend [OF st, THEN conjunct1]
  have "sh_listeners (close_listeners lns s1) = sh_listeners s"
  proof
    fix p
    show "sh_listeners (close_listeners lns s1) p = sh_listeners s p"
    proof (cases "sh_listeners s p")
      case (Some l)
      then have "sh_listeners s1 p = Some l" "l \<notin> set lns"
        using ext new ok by (auto simp: map_le_def dom_def not_le [symmetric])
      with Some show ?thesis by (simp add: close_listeners_eq)
    next
      case None
      then have "l \<in> set lns" if "sh_listeners s1 p = Some l" for l
        using new that by (metis option.distinct(1))
      with None show ?thesis by (auto simp: close_listeners_eq split: option.splits)
    qed
  qed
  moreover have "cl_udpConns (?c0 msg) = Some []" using assms(3) by (simp add: apply_settings_def Let_def split: sum.split)
  then have "failed = failing e (dom (sh_listeners s)) {} (cl_services c1)"
    using start_services_failing [OF st] sv by (simp add: udp_ports_def)
  ultimately show ?thesis using ext new by (auto simp: ok_msg_def)
qed

text \<open>A server with one client taken port 80; another asks for 80, 81 and an unknown protocol.\<close>

definition demo_cfg :: Config where
  "demo_cfg = \<lparr>cfg_STUNPort = 0, cfg_RelayPort = 9000, cfg_PublicAddr = ''h'', cfg_AuthKey = ''k''\<rparr>"

definition demo_shared :: shared where
  "demo_shared = \<lparr>sh_cfg = demo_cfg, sh_clients = [1], sh_nextCID = 1, sh_listeners = [80 \<mapsto> 0], sh_lnext = 1,
     sh_mgr = mgr_NewManager, sh_rate = None, sh_exts = Map.empty, sh_udp_out = []\<rparr>"

definition demo_env :: srv_env where
  "demo_env = \<lparr>se_hook = \<lparr>he_now = 0, he_accept = True, he_open = no_action, he_check = []\<rparr>, se_wake = 0,
     se_ext_write = None, se_listen_tcp = (\<lambda>_. True), se_listen_udp = (\<lambda>_. True)\<rparr>"

definition demo_register :: "string \<Rightarrow> controlMsg" where
  "demo_register key = zero_msg\<lparr>c_Type := ''register'', c_AuthKey := key,
     c_Services := [\<lparr>sm_LocalPort = 1, sm_RemotePort = 80, sm_Proto = ''tcp''\<rparr>,
       \<lparr>sm_LocalPort = 2, sm_RemotePort = 81, sm_Proto = ''tcp''\<rparr>,
       \<lparr>sm_LocalPort = 3, sm_RemotePort = 82, sm_Proto = ''sctp''\<rparr>]\<rparr>"

definition demo_client :: relayClient where
  "demo_client = new_client 2 \<lparr>w_sent = [], w_room = None\<rparr>"

definition demo_hello_bytes :: "string \<Rightarrow> bytes" where
  "demo_hello_bytes key = enc_frame \<lparr>f_type = frameControl, f_chan = 0, f_payload = marshal_msg (demo_register key)\<rparr>"

lemma demo_register_ok: "control_ok (demo_register ''k'')"
  by (simp add: demo_register_def control_ok_def zero_msg_def service_ok_def int64_def)

lemma demo_register_small: "frame_ok \<lparr>f_type = frameControl, f_chan = 0, f_payload = marshal_msg (demo_register ''k'')\<rparr>"
proof -
  have "length (marshal_msg (demo_register ''k'')) \<le> 400"
    by (simp add: marshal_msg_def text_bytes_def controlMsg_json_def demo_register_def zero_msg_def omit_def
        service_json_def j_int_def itoa_def dec_digits.simps print_string_def esc_char_def)
  then show ?thesis by (simp add: frame_ok_def maxFrameSize_def)
qed

lemma demo_hello:
  "handle_hello demo_env ''10.0.0.1'' (map RByte (demo_hello_bytes ''k'')) demo_client demo_shared =
    (Listening [1] [\<lparr>sm_LocalPort = 1, sm_RemotePort = 80, sm_Proto = ''tcp''\<rparr>,
        \<lparr>sm_LocalPort = 3, sm_RemotePort = 82, sm_Proto = ''sctp''\<rparr>] ''h'',
     demo_client\<lparr>cl_services := c_Services (demo_register ''k''),
       cl_tcpLoops := [\<lparr>sm_LocalPort = 2, sm_RemotePort = 81, sm_Proto = ''tcp''\<rparr>]\<rparr>,
     demo_shared\<lparr>sh_lnext := 2, sh_listeners := [80 \<mapsto> 0, 81 \<mapsto> 1]\<rparr>)"
proof -
  have "srv_readFrame (map RByte (demo_hello_bytes ''k'')) =
      (Ret \<lparr>f_type = frameControl, f_chan = 0, f_payload = marshal_msg (demo_register ''k'')\<rparr>, [])"
    using srv_readFrame_enc [OF demo_register_small, of "[]"] by (simp add: demo_hello_bytes_def)
  then show ?thesis
    by (simp add: handle_hello_def unmarshal_marshal [OF demo_register_ok])
      (simp add: demo_register_def demo_env_def demo_client_def new_client_def demo_shared_def demo_cfg_def zero_msg_def
        apply_settings_def startServiceListener_def startTCPService_def getPublicIP_def Let_def)
qed

theorem registration_gate_witness:
  "\<exists>lns failed pub c1 s1. handle_hello demo_env ''10.0.0.1'' (map RByte (demo_hello_bytes ''k'')) demo_client demo_shared
      = (Listening lns failed pub, c1, s1)
    \<and> (\<exists>f rest msg. srv_readFrame (map RByte (demo_hello_bytes ''k'')) = (Ret f, rest) \<and> f_type f = frameControl
        \<and> unmarshal_msg (f_payload f) = Some msg \<and> c_Type msg = ''register'' \<and> c_AuthKey msg = ''k'')"
  using registration_gate [OF demo_hello] demo_hello
  by (auto simp: demo_shared_def demo_cfg_def)

theorem registration_reply_witness:
  "failing demo_env (dom [80 \<mapsto> (0 :: nat)]) {} (c_Services (demo_register ''k''))
      = [\<lparr>sm_LocalPort = 1, sm_RemotePort = 80, sm_Proto = ''tcp''\<rparr>,
         \<lparr>sm_LocalPort = 3, sm_RemotePort = 82, sm_Proto = ''sctp''\<rparr>]
    \<and> sh_listeners (close_listeners [1] (demo_shared\<lparr>sh_lnext := 2, sh_listeners := [80 \<mapsto> 0, 81 \<mapsto> 1]\<rparr>)) = [80 \<mapsto> 0]"
proof -
  have "listeners_ok demo_shared" by (auto simp: listeners_ok_def demo_shared_def split: if_splits)
  from registration_reply [OF demo_hello this] show ?thesis by (simp add: demo_shared_def demo_client_def new_client_def)
qed

lemma close_exts_other [simp]:
  "sh_listeners (close_exts cs s) = sh_listeners s" "sh_mgr (close_exts cs s) = sh_mgr s"
  "sh_clients (close_exts cs s) = sh_clients s" "sh_nextCID (close_exts cs s) = sh_nextCID s"
  by (induction cs s rule: close_exts.induct) (auto simp: close_ext_def)

definition ext_closed :: "nat \<Rightarrow> shared \<Rightarrow> bool" where
  "ext_closed x s = (case sh_exts s x of None \<Rightarrow> True | Some k \<Rightarrow> x_closed k)"

lemma ext_closed_close_ext: "ext_closed y (close_ext x s) \<longleftrightarrow> y = x \<or> ext_closed y s"
  by (auto simp: ext_closed_def close_ext_def split: option.splits)

lemma ext_closed_close_exts: "ext_closed y (close_exts cs s) \<longleftrightarrow> y \<in> snd ` set cs \<or> ext_closed y s"
  by (induction cs s rule: close_exts.induct) (auto simp: ext_closed_close_ext)

lemma close_exts_sent:
  "map_option x_sent (sh_exts (close_exts cs s) y) = map_option x_sent (sh_exts s y)"
  by (induction cs s rule: close_exts.induct) (auto simp: close_ext_def option.map_comp o_def)

text \<open>No write goes through on a closed relay connection.\<close>

lemma srv_writeFrame_no_room: "fst (srv_writeFrame t ch p (w\<lparr>w_room := Some 0\<rparr>)) \<noteq> None"
  by (simp add: srv_writeFrame_def conn_write_def)

text \<open>
  Claim C33 (teardown_releases): when a client's relay loop ends (and no goroutine holds its
  UDP mutex), the client leaves the map, its listeners leave the port map, every external
  connection of its channels is closed, nothing can be written to it any more, and the
  plugin manager is not told about any of its UDP sessions.
\<close>

theorem teardown_releases:
  assumes "relay_teardown lns c s = (fl, c1, s1)" and "\<not> cl_udpLocked c"
  shows "fl = Return \<and> cl_cid c \<notin> set (sh_clients s1) \<and> cl_stopped c1
    \<and> (\<forall>ch x. (ch, x) \<in> set (cl_channelConns c) \<longrightarrow> ext_closed x s1)
    \<and> (\<forall>p l. l \<in> set lns \<longrightarrow> sh_listeners s1 p \<noteq> Some l)
    \<and> fst (writeFrameLocked t ch p c1) \<noteq> None
    \<and> cl_udpSessions c1 = None \<and> sh_mgr s1 = sh_mgr s"
proof -
  from assms have fl: "fl = Return"
    and c1: "c1 = close_conn ((client_stop c)\<lparr>cl_udpClosed := udp_sockets (client_stop c) @ cl_udpClosed (client_stop c),
      cl_udpConns := None, cl_udpSessions := None\<rparr>)"
    and s1: "s1 = (close_exts (cl_channelConns c) (close_listeners lns s))\<lparr>sh_clients := removeAll (cl_cid c) (sh_clients s)\<rparr>"
    by (auto simp: relay_teardown_def Let_def client_stop_def drop_client_def close_listeners_eq)
  have "ext_closed x s1" if "(ch, x) \<in> set (cl_channelConns c)" for ch x
  proof -
    have "ext_closed x (close_exts (cl_channelConns c) (close_listeners lns s))"
      using that by (force simp: ext_closed_close_exts)
    then show ?thesis by (simp add: s1 ext_closed_def)
  qed
  moreover have "sh_listeners s1 p \<noteq> Some l" if "l \<in> set lns" for p l
    using that by (auto simp: s1 close_listeners_eq split: option.splits)
  moreover have "fst (writeFrameLocked t ch p c1) \<noteq> None"
    using srv_writeFrame_no_room [of t ch p "cl_wconn c"]
    by (simp add: c1 writeFrameLocked_def close_conn_def client_stop_def split_beta del: not_None_eq)
  ultimately show ?thesis
    by (auto simp: fl c1 s1 close_conn_def client_stop_def close_listeners_eq)
qed

theorem teardown_releases_witness:
  "\<exists>s1 c1. relay_teardown [0] (demo_client\<lparr>cl_cid := 1, cl_channelConns := [(5, 3)]\<rparr>)
      (demo_shared\<lparr>sh_exts := [3 \<mapsto> \<lparr>x_addr = [], x_sent = [], x_closed = False\<rparr>]\<rparr>) = (Return, c1, s1)
    \<and> ext_closed 3 s1 \<and> sh_listeners s1 80 \<noteq> Some 0 \<and> 1 \<notin> set (sh_clients s1)"
proof -
  let ?c = "demo_client\<lparr>cl_cid := 1, cl_channelConns := [(5, 3)]\<rparr>"
  let ?s = "demo_shared\<lparr>sh_exts := [3 \<mapsto> \<lparr>x_addr = [], x_sent = [], x_closed = False\<rparr>]\<rparr>"
  obtain fl c1 s1 where t: "relay_teardown [0] ?c ?s = (fl, c1, s1)" by (cases "relay_teardown [0] ?c ?s") auto
  show ?thesis
    using teardown_releases [OF t] t by (auto simp: demo_client_def new_client_def)
qed

end
