(* ===== verification/TcpService.thy ===== *)
theory TcpService
  imports Registration
begin

text \<open>
  TCP services: one iteration of the accept loop of \<open>startTCPService\<close> after \<open>Accept\<close>
  returned a connection, and \<open>pipeExternalToClient\<close>, the goroutine that carries what an
  external connection sends to the client (\<open>signal-server/main.go\<close>). An iteration is one
  step: the interleaving of its critical sections with other goroutines is not modelled.
\<close>

section \<open>The accept loop\<close>

text \<open>The deferred function: the port leaves the map whoever owns the entry by then.\<close>

definition tcp_loop_exit :: "serviceMapping \<Rightarrow> shared \<Rightarrow> shared" where
  "tcp_loop_exit svc s = s\<lparr>sh_listeners := (sh_listeners s)(sm_RemotePort svc := None)\<rparr>"

definition new_conn_msg :: "u32 \<Rightarrow> serviceMapping \<Rightarrow> string \<Rightarrow> controlMsg" where
  "new_conn_msg ch svc addr = zero_msg\<lparr>c_Type := ''new_conn'', c_ChannelID := ch,
     c_LocalPort := sm_LocalPort svc, c_RemoteAddr := addr\<rparr>"

text \<open>From the allocation of the channel id to the start of the pipe.\<close>

definition tcp_open :: "srv_env \<Rightarrow> serviceMapping \<Rightarrow> nat \<Rightarrow> relayClient \<Rightarrow> shared
    \<Rightarrow> flow \<times> relayClient \<times> shared" where
  "tcp_open e svc x c s =
     (let addr = ext_addr x s;
          (channelID, s1) = next_cid s;
          c1 = c\<lparr>cl_channelConns := AList.update channelID x (cl_channelConns c)\<rparr>;
          (action, m) = mgr_OnOpen (se_hook e) ''tcp'' addr channelID (sm_LocalPort svc) (sh_mgr s1);
          s2 = s1\<lparr>sh_mgr := m\<rparr>
      in if act_Close action then
           (Return, limiter_close c1, tcp_loop_exit svc (close_ext x (on_close e channelID s2)))
         else
           (let c2 = limiter_open c1
            in case rc_sendControl (new_conn_msg channelID svc addr) c2 of
                 (Some err, c3) \<Rightarrow>
                   (Return,
                    limiter_close (c3\<lparr>cl_channelConns := AList.delete channelID (cl_channelConns c3)\<rparr>),
                    tcp_loop_exit svc (close_ext x (on_close e channelID s2)))
               | (None, c3) \<Rightarrow> (Continue, c3\<lparr>cl_pipes := cl_pipes c3 @ [(channelID, x)]\<rparr>, s2)))"

definition tcp_accept :: "srv_env \<Rightarrow> serviceMapping \<Rightarrow> nat \<Rightarrow> relayClient \<Rightarrow> shared
    \<Rightarrow> flow \<times> relayClient \<times> shared" where
  "tcp_accept e svc x c s =
     (let addr = ext_addr x s;
          (ok, m) = mgr_OnAccept (se_hook e) ''tcp'' addr (sh_mgr s);
          s1 = s\<lparr>sh_mgr := m\<rparr>
      in if \<not> ok then (Continue, c, close_ext x s1)
         else if filter_refuses ''tcp'' addr c then (Continue, c, close_ext x s1)
         else (case limiter_accept c of
                 (False, c1) \<Rightarrow> (Continue, c1, close_ext x s1)
               | (True, c1) \<Rightarrow> tcp_open e svc x c1 s1))"

text \<open>\<open>Accept\<close> failed: the loop ends, whether the client stopped or not.\<close>

definition tcp_accept_error :: "serviceMapping \<Rightarrow> relayClient \<Rightarrow> shared \<Rightarrow> flow \<times> relayClient \<times> shared" where
  "tcp_accept_error svc c s = (Return, c, tcp_loop_exit svc s)"

section \<open>From an external connection to the client\<close>

text \<open>The deferred function of the pipe.\<close>

definition pipe_exit :: "srv_env \<Rightarrow> u32 \<Rightarrow> nat \<Rightarrow> relayClient \<Rightarrow> shared \<Rightarrow> flow \<times> relayClient \<times> shared" where
  "pipe_exit e ch x c s =
     (let s1 = close_ext x s;
          existed = (map_of (cl_channelConns c) ch \<noteq> None);
          c1 = c\<lparr>cl_channelConns := AList.delete ch (cl_channelConns c)\<rparr>
      in if existed then (Return, limiter_close c1, on_close e ch s1) else (Return, c1, s1))"

text \<open>One iteration: the read gave an error (Inl) or data (Inr, at most 32 KiB).\<close>

definition pipe_step :: "lz4 \<Rightarrow> srv_env \<Rightarrow> u32 \<Rightarrow> nat \<Rightarrow> io_err + bytes \<Rightarrow> relayClient \<Rightarrow> shared
    \<Rightarrow> flow \<times> relayClient \<times> shared" where
  "pipe_step z e ch x r c s =
     (case r of
        Inl err \<Rightarrow> (case writeFrameLocked frameClose ch [] c of (_, c1) \<Rightarrow> pipe_exit e ch x c1 s)
      | Inr d \<Rightarrow>
          (let n = length d;
               (action, m) = mgr_OnData ch ''rx'' (int n) (sh_mgr s);
               s1 = s\<lparr>sh_mgr := m\<rparr>
           in if act_Close action then pipe_exit e ch x c s1
              else
                (let (c1, s2) = rate_wait e n c s1;
                     (ft, data) = pack z c1 (sh_mgr s2) d
                 in case writeFrameLocked ft ch data c1 of
                      (Some err, c2) \<Rightarrow> pipe_exit e ch x c2 s2
                    | (None, c2) \<Rightarrow> (Continue, c2, s2))))"

section \<open>Lemmas\<close>

lemma rate_wait_fields [simp]:
  "cl_channelConns (fst (rate_wait e n c s)) = cl_channelConns c"
  "cl_udpSessions (fst (rate_wait e n c s)) = cl_udpSessions c"
  "cl_connLimiter (fst (rate_wait e n c s)) = cl_connLimiter c"
  "cl_wconn (fst (rate_wait e n c s)) = cl_wconn c"
  "cl_features (fst (rate_wait e n c s)) = cl_features c"
  "cl_udpLocked (fst (rate_wait e n c s)) = cl_udpLocked c"
  "cl_pipes (fst (rate_wait e n c s)) = cl_pipes c"
  "cl_cid (fst (rate_wait e n c s)) = cl_cid c"
  "cl_stopped (fst (rate_wait e n c s)) = cl_stopped c"
  "sh_mgr (snd (rate_wait e n c s)) = sh_mgr s"
  "sh_nextCID (snd (rate_wait e n c s)) = sh_nextCID s"
  "sh_exts (snd (rate_wait e n c s)) = sh_exts s"
  "sh_udp_out (snd (rate_wait e n c s)) = sh_udp_out s"
  "sh_clients (snd (rate_wait e n c s)) = sh_clients s"
  "sh_listeners (snd (rate_wait e n c s)) = sh_listeners s"
  "cl_udpClosed (fst (rate_wait e n c s)) = cl_udpClosed c"
  by (auto simp: rate_wait_def split: option.splits)

lemma pack_cong:
  "cl_features c = cl_features c' \<Longrightarrow> compressor m = compressor m' \<Longrightarrow> pack z c m d = pack z c' m' d"
  by (simp add: pack_def clientSupportsCompression_def HasCompressor_def mgr_Compress_def)

text \<open>What reaches the client when the write goes through.\<close>

lemma pipe_step_data:
  assumes "pipe_step z e ch x (Inr d) c s = (Continue, c', s')"
  shows "w_sent (cl_wconn c') = w_sent (cl_wconn c) @
      enc_frame \<lparr>f_type = fst (pack z c (sh_mgr s) d), f_chan = ch, f_payload = snd (pack z c (sh_mgr s) d)\<rparr>
    \<and> cl_features c' = cl_features c \<and> compressor (sh_mgr s') = compressor (sh_mgr s)
    \<and> decompressor (sh_mgr s') = decompressor (sh_mgr s)"
proof -
  obtain a m where od: "mgr_OnData ch ''rx'' (int (length d)) (sh_mgr s) = (a, m)" by force
  obtain c1 s2 where rw: "rate_wait e (length d) c (s\<lparr>sh_mgr := m\<rparr>) = (c1, s2)" by force
  obtain ft data where pk: "pack z c (sh_mgr s) d = (ft, data)" by force
  obtain r c2 where w: "writeFrameLocked ft ch data c1 = (r, c2)" by force
  have m: "compressor m = compressor (sh_mgr s)" "decompressor m = decompressor (sh_mgr s)" "\<not> act_Close a"
    using mgr_OnData_fields [of ch "''rx''" "int (length d)" "sh_mgr s"]
      mgr_OnData_no_close [of ch "''rx''" "int (length d)" "sh_mgr s"] by (simp_all add: od)
  have c1: "cl_features c1 = cl_features c" "cl_wconn c1 = cl_wconn c" "sh_mgr s2 = m"
    using rate_wait_fields [of e "length d" c "s\<lparr>sh_mgr := m\<rparr>"] by (simp_all add: rw)
  with pk m have pk1: "pack z c1 m d = (ft, data)" using pack_cong [of c1 c m "sh_mgr s" z d] by simp
  from assms od rw pk1 w m c1 have "r = None \<and> c' = c2 \<and> s' = s2"
    by (auto simp: pipe_step_def pipe_exit_def Let_def split: option.splits if_splits)
  with w m c1 pk writeFrameLocked_None [of ft ch data c1 c2] writeFrameLocked_fields(8) [of ft ch data c1]
  show ?thesis by auto
qed

end
