(* ===== verification/UdpService.thy ===== *)
theory UdpService
  imports TcpService
begin

text \<open>
  UDP services of \<open>signal-server/main.go\<close>: one iteration of \<open>udpReadLoop\<close> after a datagram was
  read (\<open>udp_datagram\<close>) or the read failed (\<open>udp_read_error\<close>), what is left of the loop after
  it (\<open>udp_loop_end\<close>, with the deferred close of its socket), and one tick of
  \<open>udpSessionCleanup\<close>. A session belongs to a remote address, whatever the service the
  datagram came in on.
\<close>

section \<open>The read loop\<close>

definition new_udp_conn_msg :: "u32 \<Rightarrow> serviceMapping \<Rightarrow> string \<Rightarrow> controlMsg" where
  "new_udp_conn_msg ch svc addr = zero_msg\<lparr>c_Type := ''new_udp_conn'', c_ChannelID := ch,
     c_LocalPort := sm_LocalPort svc, c_Proto := ''udp'', c_RemoteAddr := addr\<rparr>"

definition lookup_session :: "string \<Rightarrow> relayClient \<Rightarrow> udpSession option" where
  "lookup_session k c = (case cl_udpSessions c of None \<Rightarrow> None | Some l \<Rightarrow> map_of l k)"

definition touch_session :: "string \<Rightarrow> int \<Rightarrow> relayClient \<Rightarrow> relayClient" where
  "touch_session k now c = c\<lparr>cl_udpSessions :=
     map_option (AList.map_entry k (\<lambda>u. u\<lparr>us_lastActive := now\<rparr>)) (cl_udpSessions c)\<rparr>"

text \<open>From the refreshed session to the frame; \<open>ch\<close> is the session's channel.\<close>

definition udp_forward :: "lz4 \<Rightarrow> srv_env \<Rightarrow> string \<Rightarrow> u32 \<Rightarrow> bytes \<Rightarrow> relayClient \<Rightarrow> shared
    \<Rightarrow> flow \<times> relayClient \<times> shared" where
  "udp_forward z e addr ch d c s =
     (let n = length d;
          (action, m) = mgr_OnData ch ''rx'' (int n) (sh_mgr s);
          s1 = s\<lparr>sh_mgr := m\<rparr>
      in if act_Close action then
           (Continue, limiter_close (delete_session addr c), on_close e ch s1)
         else
           (let (c1, s2) = rate_wait e n c s1;
                (ft, data) = pack z c1 (sh_mgr s2) d
            in case writeFrameLocked ft ch data c1 of
                 (Some err, c2) \<Rightarrow> (Return, c2, s2)
               | (None, c2) \<Rightarrow> (Continue, c2, s2)))"

definition udp_datagram :: "lz4 \<Rightarrow> srv_env \<Rightarrow> serviceMapping \<Rightarrow> nat \<Rightarrow> string \<Rightarrow> bytes \<Rightarrow> relayClient \<Rightarrow> shared
    \<Rightarrow> flow \<times> relayClient \<times> shared" where
  "udp_datagram z e svc conn addr d c s =
     (let now = he_now (se_hook e);
          (ok, m) = mgr_OnAccept (se_hook e) ''udp'' addr (sh_mgr s);
          s1 = s\<lparr>sh_mgr := m\<rparr>
      in if \<not> ok then (Continue, c, s1)
         else if filter_refuses ''udp'' addr c then (Continue, c, s1)
         else if cl_udpLocked c then (Blocked, c, s1)
         else (case lookup_session addr c of
             Some u \<Rightarrow> udp_forward z e addr (us_channelID u) d (touch_session addr now c) s1
           | None \<Rightarrow>
               (case limiter_accept c of
                  (False, c1) \<Rightarrow> (Continue, c1, s1)
                | (True, c1) \<Rightarrow>
                    (let (ch, s2) = next_cid s1;
                         u = \<lparr>us_channelID = ch, us_localPort = sm_LocalPort svc, us_remoteAddr = addr,
                              us_udpConn = conn, us_lastActive = now\<rparr>
                     in case cl_udpSessions c1 of
                          None \<Rightarrow> (Crash, c1, s2)
                        | Some l \<Rightarrow>
                            (let c2 = c1\<lparr>cl_udpSessions := Some (AList.update addr u l)\<rparr>;
                                 (action, m2) = mgr_OnOpen (se_hook e) ''udp'' addr ch (sm_LocalPort svc) (sh_mgr s2);
                                 s3 = s2\<lparr>sh_mgr := m2\<rparr>
                             in if act_Close action then
                                  (Continue, (limiter_close (delete_session addr c2))\<lparr>cl_udpLocked := True\<rparr>, s3)
                                else
                                  (let c3 = snd (rc_sendControl (new_udp_conn_msg ch svc addr) (limiter_open c2))
                                   in udp_forward z e addr ch d (touch_session addr now c3) s3))))))"

text \<open>The read failed: a deadline is ignored, anything else ends the loop.\<close>

definition udp_read_error :: "io_err \<Rightarrow> flow" where
  "udp_read_error err = (if err = Timeout then Continue else Return)"

text \<open>
  What an iteration leaves of its loop: a loop that returns runs its deferred \<open>conn.Close()\<close>,
  so the sessions opened through its socket can no longer be sent to; a loop that waits for
  ever or panicked keeps the socket but takes no further step.
\<close>

definition udp_loop_end :: "serviceMapping \<Rightarrow> nat \<Rightarrow> flow \<Rightarrow> relayClient \<Rightarrow> relayClient" where
  "udp_loop_end svc conn fl c =
     (let c1 = c\<lparr>cl_udpLoops := remove1 (svc, conn) (cl_udpLoops c)\<rparr>
      in case fl of Continue \<Rightarrow> c | Return \<Rightarrow> close_udp conn c1 | Blocked \<Rightarrow> c1 | Crash \<Rightarrow> c1)"

section \<open>The cleanup ticker\<close>

definition udp_idle_limit :: int where
  "udp_idle_limit = 120 * 1000000000"

fun cleanup_sessions :: "srv_env \<Rightarrow> (string \<times> udpSession) list \<Rightarrow> relayClient \<Rightarrow> shared
    \<Rightarrow> (string \<times> udpSession) list \<times> relayClient \<times> shared" where
  "cleanup_sessions e [] c s = ([], c, s)"
| "cleanup_sessions e ((k, u) # us) c s =
     (if he_now (se_hook e) - us_lastActive u > udp_idle_limit
      then cleanup_sessions e us
             (limiter_close (snd (writeFrameLocked frameClose (us_channelID u) [] c)))
             (on_close e (us_channelID u) s)
      else (case cleanup_sessions e us c s of (l, c1, s1) \<Rightarrow> ((k, u) # l, c1, s1)))"

definition udp_cleanup :: "srv_env \<Rightarrow> relayClient \<Rightarrow> shared \<Rightarrow> flow \<times> relayClient \<times> shared" where
  "udp_cleanup e c s =
     (if cl_udpLocked c then (Blocked, c, s)
      else (case cl_udpSessions c of
              None \<Rightarrow> (Continue, c, s)
            | Some l \<Rightarrow> (case cleanup_sessions e l c s of
                (l', c1, s1) \<Rightarrow> (Continue, c1\<lparr>cl_udpSessions := Some l'\<rparr>, s1))))"

section \<open>Lemmas\<close>

definition idle :: "srv_env \<Rightarrow> string \<times> udpSession \<Rightarrow> bool" where
  "idle e = (\<lambda>(k, u). he_now (se_hook e) - us_lastActive u > udp_idle_limit)"

lemma cleanup_sessions_kept:
  "fst (cleanup_sessions e l c s) = filter (Not \<circ> idle e) l"
  by (induction e l c s rule: cleanup_sessions.induct) (auto simp: idle_def split: prod.splits)

lemma cleanup_sessions_mgr:
  "sh_mgr (snd (snd (cleanup_sessions e l c s)))
    = fold (\<lambda>(k, u). mgr_OnClose (se_hook e) (us_channelID u)) (filter (idle e) l) (sh_mgr s)"
  by (induction e l c s rule: cleanup_sessions.induct) (auto simp: idle_def on_close_def split: prod.splits)

lemma cleanup_sessions_wire:
  assumes "w_room (cl_wconn c) = None"
  shows "w_sent (cl_wconn (fst (snd (cleanup_sessions e l c s)))) = w_sent (cl_wconn c)
    @ concat (map (\<lambda>(k, u). enc_frame \<lparr>f_type = frameClose, f_chan = us_channelID u, f_payload = []\<rparr>) (filter (idle e) l))"
  using assms
proof (induction e l c s rule: cleanup_sessions.induct)
  case (2 e k u us c s)
  let ?c = "limiter_close (snd (writeFrameLocked frameClose (us_channelID u) [] c))"
  have "w_room (cl_wconn ?c) = None \<and> w_sent (cl_wconn ?c) = w_sent (cl_wconn c)
      @ enc_frame \<lparr>f_type = frameClose, f_chan = us_channelID u, f_payload = []\<rparr>"
    using 2(3) by (simp add: writeFrameLocked_def srv_writeFrame_def conn_write_def enc_frame_def limiter_close_def)
  with 2 show ?case by (auto simp: idle_def split: prod.splits)
qed simp

section \<open>Properties\<close>

text \<open>
  Claim C34 (udp_cleanup_exact): a tick removes exactly the sessions that have been silent
  for more than 120 seconds, keeps the others in place, tells the plugin manager about each
  removed one, and, while the relay connection takes writes, sends one close frame for each
  of them in order.
\<close>

theorem udp_cleanup_exact:
  assumes "\<not> cl_udpLocked c" and "cl_udpSessions c = Some l" and "w_room (cl_wconn c) = None"
    and "udp_cleanup e c s = (fl, c1, s1)"
  shows "fl = Continue \<and> cl_udpSessions c1 = Some (filter (\<lambda>(k, u). he_now (se_hook e) - us_lastActive u \<le> udp_idle_limit) l)
    \<and> sh_mgr s1 = fold (\<lambda>(k, u). mgr_OnClose (se_hook e) (us_channelID u)) (filter (idle e) l) (sh_mgr s)
    \<and> w_sent (cl_wconn c1) = w_sent (cl_wconn c) @ concat (map (\<lambda>(k, u).
        enc_frame \<lparr>f_type = frameClose, f_chan = us_channelID u, f_payload = []\<rparr>) (filter (idle e) l))"
proof -
  obtain l' c2 s2 where cs: "cleanup_sessions e l c s = (l', c2, s2)" by (cases "cleanup_sessions e l c s") auto
  have "(\<lambda>(k, u). he_now (se_hook e) - us_lastActive u \<le> udp_idle_limit) = (Not \<circ> idle e)"
    by (auto simp: idle_def fun_eq_iff)
  then have "l' = filter (\<lambda>(k, u). he_now (se_hook e) - us_lastActive u \<le> udp_idle_limit) l"
    using cleanup_sessions_kept [of e l c s] cs by simp
  with assms cs cleanup_sessions_mgr [of e l c s] cleanup_sessions_wire [OF assms(3), of e l s]
  show ?thesis by (auto simp: udp_cleanup_def)
qed

definition demo_session :: "u32 \<Rightarrow> int \<Rightarrow> udpSession" where
  "demo_session ch t = \<lparr>us_channelID = ch, us_localPort = 53, us_remoteAddr = ''1.1.1.1:9'', us_udpConn = 0, us_lastActive = t\<rparr>"

theorem udp_cleanup_exact_witness:
  "\<exists>c1 s1. udp_cleanup (demo_env\<lparr>se_hook := (se_hook demo_env)\<lparr>he_now := 130000000000\<rparr>\<rparr>)
      (demo_client\<lparr>cl_udpSessions := Some [(''a'', demo_session 7 0), (''b'', demo_session 8 10000000000)]\<rparr>) demo_shared = (Continue, c1, s1)
    \<and> cl_udpSessions c1 = Some [(''b'', demo_session 8 10000000000)]
    \<and> w_sent (cl_wconn c1) = enc_frame \<lparr>f_type = frameClose, f_chan = 7, f_payload = []\<rparr>"
proof -
  let ?e = "demo_env\<lparr>se_hook := (se_hook demo_env)\<lparr>he_now := 130000000000\<rparr>\<rparr>"
  let ?l = "[(''a'', demo_session 7 0), (''b'', demo_session 8 10000000000)]"
  let ?c = "demo_client\<lparr>cl_udpSessions := Some ?l\<rparr>"
  obtain fl c1 s1 where u: "udp_cleanup ?e ?c demo_shared = (fl, c1, s1)" by (cases "udp_cleanup ?e ?c demo_shared") auto
  have "\<not> cl_udpLocked ?c" "cl_udpSessions ?c = Some ?l" "w_room (cl_wconn ?c) = None" "w_sent (cl_wconn ?c) = []"
    by (simp_all add: demo_client_def new_client_def)
  with udp_cleanup_exact [OF this(1-3) u] u show ?thesis
    by (simp add: demo_session_def udp_idle_limit_def idle_def)
qed

text \<open>
  Claim C36 (udp_open_close_deadlock): if a plugin answers \<open>close\<close> to the opening of a UDP
  session, the read loop goes on without releasing the client's UDP mutex. From then on
  the next datagram that passes the filters, the cleanup tick and the teardown of the
  client all wait for ever; the client stays in the map with its connection open.
\<close>

theorem udp_open_close_deadlock:
  assumes "mgr_OnAccept (se_hook e) ''udp'' addr (sh_mgr s) = (True, m)" and "\<not> filter_refuses ''udp'' addr c"
    and "\<not> cl_udpLocked c" and "lookup_session addr c = None" and "cl_udpSessions c = Some l"
    and "fst (limiter_accept c)" and "mgr_logger (sh_mgr s) = Some (DynLogger hs)" and "act_Close (he_open (se_hook e))"
    and "udp_datagram z e svc conn addr d c s = (fl, c1, s1)"
  shows "fl = Continue \<and> cl_udpLocked c1
    \<and> (fst (mgr_OnAccept (se_hook e2) ''udp'' addr2 (sh_mgr s2)) \<and> \<not> filter_refuses ''udp'' addr2 c1
        \<longrightarrow> fst (udp_datagram z e2 svc2 conn2 addr2 d2 c1 s2) = Blocked)
    \<and> fst (udp_cleanup e2 c1 s2) = Blocked
    \<and> (\<exists>c3 s3. relay_teardown lns c1 s2 = (Blocked, c3, s3) \<and> sh_clients s3 = sh_clients s2 \<and> cl_closed c3 = cl_closed c1)"
proof -
  obtain c0 where la: "limiter_accept c = (True, c0)" using assms(6) by (cases "limiter_accept c") auto
  have c0: "cl_udpSessions c0 = Some l" using limiter_accept_fields(2) [of c] la assms(5) by simp
  have lg: "mgr_logger m = Some (DynLogger hs)"
    using mgr_OnAccept_fields(4) [of "se_hook e" "''udp''" addr "sh_mgr s"] assms(1,7) by simp
  have op: "act_Close (fst (mgr_OnOpen (se_hook e) ''udp'' addr ch lp m))" for ch lp
    using lg assms(8) by (simp add: mgr_OnOpen_def Let_def)
  from assms(9) have fl: "fl = Continue \<and> cl_udpLocked c1"
    using assms(1-4) la c0 op by (auto simp: udp_datagram_def Let_def next_cid_def split_beta)
  moreover have "fst (udp_datagram z e2 svc2 conn2 addr2 d2 c1 s2) = Blocked"
    if "fst (mgr_OnAccept (se_hook e2) ''udp'' addr2 (sh_mgr s2))" and "\<not> filter_refuses ''udp'' addr2 c1"
    using that fl by (auto simp: udp_datagram_def Let_def split: prod.splits)
  moreover have "fst (udp_cleanup e2 c1 s2) = Blocked" using fl by (simp add: udp_cleanup_def)
  moreover have "\<exists>c3 s3. relay_teardown lns c1 s2 = (Blocked, c3, s3) \<and> sh_clients s3 = sh_clients s2 \<and> cl_closed c3 = cl_closed c1"
    using fl by (simp add: relay_teardown_def Let_def client_stop_def close_listeners_eq)
  ultimately show ?thesis by blast
qed

definition demo_udp :: serviceMapping where
  "demo_udp = \<lparr>sm_LocalPort = 53, sm_RemotePort = 5353, sm_Proto = ''udp''\<rparr>"

definition demo_close_env :: srv_env where
  "demo_close_env = demo_env\<lparr>se_hook := (se_hook demo_env)\<lparr>he_open := \<lparr>act_Close = True, act_Reason = ''no''\<rparr>\<rparr>\<rparr>"

theorem udp_open_close_deadlock_witness:
  "\<exists>c1 s1. udp_datagram toy_lz4 demo_close_env demo_udp 0 ''1.1.1.1:9'' [1, 2] demo_client
      (demo_shared\<lparr>sh_mgr := SetLogger (DynLogger []) mgr_NewManager\<rparr>) = (Continue, c1, s1)
    \<and> fst (udp_cleanup demo_env c1 s1) = Blocked \<and> fst (relay_teardown [] c1 s1) = Blocked"
proof -
  let ?s = "demo_shared\<lparr>sh_mgr := SetLogger (DynLogger []) mgr_NewManager\<rparr>"
  obtain fl c1 s1 where u: "udp_datagram toy_lz4 demo_close_env demo_udp 0 ''1.1.1.1:9'' [1, 2] demo_client ?s = (fl, c1, s1)"
    by (cases "udp_datagram toy_lz4 demo_close_env demo_udp 0 ''1.1.1.1:9'' [1, 2] demo_client ?s") auto
  have "mgr_OnAccept (se_hook demo_close_env) ''udp'' ''1.1.1.1:9'' (sh_mgr ?s) = (True, sh_mgr ?s)"
    by (simp add: mgr_OnAccept_def SetLogger_def mgr_NewManager_def)
  from udp_open_close_deadlock [where lns = "[]" and ?s2.0 = s1 and ?addr2.0 = "[]" and ?svc2.0 = demo_udp and ?conn2.0 = 0 and ?d2.0 = "[]" and ?e2.0 = demo_env and l = "[]" and hs = "[]",
      OF this _ _ _ _ _ _ _ u]
  have "fl = Continue \<and> fst (udp_cleanup demo_env c1 s1) = Blocked \<and> (\<exists>c3 s3. relay_teardown [] c1 s1 = (Blocked, c3, s3))"
    by (auto simp: demo_client_def new_client_def filter_refuses_def lookup_session_def limiter_accept_def
        SetLogger_def demo_close_env_def)
  then show ?thesis using u by auto
qed

text \<open>
  The teardown sets the session map to nil. A datagram
  from a new address that the read loop had already received then makes it write to the nil
  map: the process panics, and with it every other client's connections end.
\<close>

theorem udp_panic_after_teardown:
  assumes "\<not> cl_udpLocked c" and "relay_teardown lns c s = (fl, c1, s1)"
    and "fst (mgr_OnAccept (se_hook e) ''udp'' addr (sh_mgr s2))" and "\<not> filter_refuses ''udp'' addr c1"
    and "fst (limiter_accept c1)"
  shows "fst (udp_datagram z e svc conn addr d c1 s2) = Crash"
proof -
  have c1: "cl_udpSessions c1 = None" "\<not> cl_udpLocked c1"
    using assms(1,2) by (auto simp: relay_teardown_def Let_def client_stop_def drop_client_def close_conn_def)
  obtain c2 where la: "limiter_accept c1 = (True, c2)" using assms(5) by (cases "limiter_accept c1") auto
  have "cl_udpSessions c2 = None" using limiter_accept_fields(2) [of c1] la c1 by simp
  with assms(3,4) c1 la show ?thesis
    by (auto simp: udp_datagram_def lookup_session_def Let_def split: prod.splits)
qed

theorem udp_panic_after_teardown_witness:
  "fst (udp_datagram toy_lz4 demo_env demo_udp 0 ''1.1.1.1:9'' [1] (fst (snd (relay_teardown [] demo_client demo_shared)))
      (snd (snd (relay_teardown [] demo_client demo_shared)))) = Crash"
proof -
  obtain fl c1 s1 where t: "relay_teardown [] demo_client demo_shared = (fl, c1, s1)"
    by (cases "relay_teardown [] demo_client demo_shared") auto
  have u: "\<not> cl_udpLocked demo_client" by (simp add: demo_client_def new_client_def)
  have "\<not> filter_refuses ''udp'' ''1.1.1.1:9'' c1" "fst (limiter_accept c1)"
      "fst (mgr_OnAccept (se_hook demo_env) ''udp'' ''1.1.1.1:9'' (sh_mgr s1))"
    using t by (auto simp: relay_teardown_def demo_client_def new_client_def client_stop_def drop_client_def
        close_conn_def filter_refuses_def limiter_accept_def demo_shared_def mgr_NewManager_def mgr_OnAccept_def Let_def)
  with udp_panic_after_teardown [OF u t, of demo_env "''1.1.1.1:9''" s1] t show ?thesis by simp
qed

section \<open>The end of a loop\<close>

lemma udp_loop_end_fields [simp]:
  "cl_udpSessions (udp_loop_end svc conn fl c) = cl_udpSessions c" "cl_wconn (udp_loop_end svc conn fl c) = cl_wconn c"
  "cl_udpLocked (udp_loop_end svc conn fl c) = cl_udpLocked c" "cl_channelConns (udp_loop_end svc conn fl c) = cl_channelConns c"
  "cl_pipes (udp_loop_end svc conn fl c) = cl_pipes c" "cl_features (udp_loop_end svc conn fl c) = cl_features c"
  "cl_connLimiter (udp_loop_end svc conn fl c) = cl_connLimiter c" "cl_cid (udp_loop_end svc conn fl c) = cl_cid c"
  "cl_tcpLoops (udp_loop_end svc conn fl c) = cl_tcpLoops c" "cl_stopped (udp_loop_end svc conn fl c) = cl_stopped c"
  "cl_udpConns (udp_loop_end svc conn fl c) = cl_udpConns c" "cl_closed (udp_loop_end svc conn fl c) = cl_closed c"
  by (auto simp: udp_loop_end_def close_udp_def Let_def split: flow.split)

lemma udp_loop_end_closed:
  "set (cl_udpClosed (udp_loop_end svc conn fl c)) = (if fl = Return then insert conn (set (cl_udpClosed c)) else set (cl_udpClosed c))"
  by (auto simp: udp_loop_end_def close_udp_def Let_def split: flow.split)

lemma udp_loop_end_Continue [simp]: "udp_loop_end svc conn Continue c = c"
  by (simp add: udp_loop_end_def)

section \<open>Sessions and services\<close>

lemma touch_session_fields [simp]:
  "cl_features (touch_session k t c) = cl_features c" "cl_wconn (touch_session k t c) = cl_wconn c"
  "cl_udpLocked (touch_session k t c) = cl_udpLocked c" "cl_ipFilter (touch_session k t c) = cl_ipFilter c"
  "cl_channelConns (touch_session k t c) = cl_channelConns c" "cl_connLimiter (touch_session k t c) = cl_connLimiter c"
  "lookup_session k (touch_session k t c) = map_option (\<lambda>u. u\<lparr>us_lastActive := t\<rparr>) (lookup_session k c)"
  by (auto simp: touch_session_def lookup_session_def map_of_map_entry split: option.splits)

text \<open>Forwarding when no write fails.\<close>

lemma udp_forward_cases:
  obtains c1 s2 r c2 where
    "udp_forward z e addr ch d c s = (if r = None then Continue else Return, c2, s2)"
    "writeFrameLocked (fst (pack z c (sh_mgr s) d)) ch (snd (pack z c (sh_mgr s) d)) c1 = (r, c2)"
    "c1 = fst (rate_wait e (length d) c (s\<lparr>sh_mgr := snd (mgr_OnData ch ''rx'' (int (length d)) (sh_mgr s))\<rparr>))"
    "s2 = snd (rate_wait e (length d) c (s\<lparr>sh_mgr := snd (mgr_OnData ch ''rx'' (int (length d)) (sh_mgr s))\<rparr>))"
proof -
  obtain a m where od: "mgr_OnData ch ''rx'' (int (length d)) (sh_mgr s) = (a, m)" by force
  obtain c1 s2 where rw: "rate_wait e (length d) c (s\<lparr>sh_mgr := m\<rparr>) = (c1, s2)" by force
  obtain ft data where pk: "pack z c (sh_mgr s) d = (ft, data)" by force
  obtain r c2 where w: "writeFrameLocked ft ch data c1 = (r, c2)" by force
  have m: "compressor m = compressor (sh_mgr s)" "\<not> act_Close a"
    using mgr_OnData_fields [of ch "''rx''" "int (length d)" "sh_mgr s"]
      mgr_OnData_no_close [of ch "''rx''" "int (length d)" "sh_mgr s"] by (simp_all add: od)
  have "cl_features c1 = cl_features c" "sh_mgr s2 = m"
    using rate_wait_fields [of e "length d" c "s\<lparr>sh_mgr := m\<rparr>"] by (simp_all add: rw)
  with pk m have pk1: "pack z c1 (sh_mgr s2) d = (ft, data)" using pack_cong [of c1 c m "sh_mgr s" z d] by simp
  show ?thesis
    by (rule that [of r c2 s2 c1]) (use od rw pk pk1 w m in \<open>auto simp: udp_forward_def Let_def split: option.splits\<close>)
qed

lemma writeFrameLocked_open:
  "w_room (cl_wconn c) = None \<Longrightarrow> fst (writeFrameLocked t ch p c) = None \<and>
    w_room (cl_wconn (snd (writeFrameLocked t ch p c))) = None"
  by (simp add: writeFrameLocked_def srv_writeFrame_def conn_write_def Let_def)

lemma rate_wait_ipFilter [simp]: "cl_ipFilter (fst (rate_wait e n c s)) = cl_ipFilter c"
  by (auto simp: rate_wait_def split: option.splits)

lemma writeFrameLocked_ipFilter [simp]: "cl_ipFilter (snd (writeFrameLocked t ch p c)) = cl_ipFilter c"
  by (auto simp: writeFrameLocked_def split: prod.splits)

lemma lookup_session_cong: "cl_udpSessions c = cl_udpSessions c' \<Longrightarrow> lookup_session k c = lookup_session k c'"
  by (simp add: lookup_session_def)

text \<open>A datagram of an open session, on a connection that takes writes.\<close>

lemma udp_datagram_known:
  assumes "mgr_OnAccept (se_hook e) ''udp'' addr (sh_mgr s) = (True, m)" and "\<not> filter_refuses ''udp'' addr c"
    and "\<not> cl_udpLocked c" and "lookup_session addr c = Some u" and "w_room (cl_wconn c) = None"
    and "udp_datagram z e svc conn addr d c s = (fl, c1, s1)"
  shows "fl = Continue"
    and "w_sent (cl_wconn c1) = w_sent (cl_wconn c) @ enc_frame \<lparr>f_type = fst (pack z c m d),
        f_chan = us_channelID u, f_payload = snd (pack z c m d)\<rparr>"
    and "lookup_session addr c1 = Some (u\<lparr>us_lastActive := he_now (se_hook e)\<rparr>)"
    and "\<not> cl_udpLocked c1" and "w_room (cl_wconn c1) = None" and "cl_ipFilter c1 = cl_ipFilter c"
    and "mgr_limiter (sh_mgr s1) = mgr_limiter m" and "acceptFilters (sh_mgr s1) = acceptFilters m"
proof -
  let ?c = "touch_session addr (he_now (se_hook e)) c" and ?s = "s\<lparr>sh_mgr := m\<rparr>"
  have eq: "udp_datagram z e svc conn addr d c s = udp_forward z e addr (us_channelID u) d ?c ?s"
    using assms(1-4) by (simp add: udp_datagram_def)
  have pk: "pack z ?c m d = pack z c m d" by (rule pack_cong) simp_all
  obtain c2 s2 r c3 where
    f: "udp_forward z e addr (us_channelID u) d ?c ?s = (if r = None then Continue else Return, c3, s2)"
    and w: "writeFrameLocked (fst (pack z ?c (sh_mgr ?s) d)) (us_channelID u) (snd (pack z ?c (sh_mgr ?s) d)) c2 = (r, c3)"
    and c2: "c2 = fst (rate_wait e (length d) ?c (?s\<lparr>sh_mgr := snd (mgr_OnData (us_channelID u) ''rx'' (int (length d)) (sh_mgr ?s))\<rparr>))"
    and s2: "s2 = snd (rate_wait e (length d) ?c (?s\<lparr>sh_mgr := snd (mgr_OnData (us_channelID u) ''rx'' (int (length d)) (sh_mgr ?s))\<rparr>))"
    by (rule udp_forward_cases)
  have w': "writeFrameLocked (fst (pack z c m d)) (us_channelID u) (snd (pack z c m d)) c2 = (r, c3)"
    using w pk by simp
  have r: "r = None" and room: "w_room (cl_wconn c3) = None"
    using writeFrameLocked_open [of c2 "fst (pack z c m d)" "us_channelID u" "snd (pack z c m d)"] assms(5)
    by (auto simp: w') (simp_all add: c2)
  have res: "fl = Continue" "c1 = c3" "s1 = s2" using assms(6) f r by (simp_all add: eq)
  show "fl = Continue" by (rule res)
  show "w_room (cl_wconn c1) = None" using room res by simp
  show "w_sent (cl_wconn c1) = w_sent (cl_wconn c) @ enc_frame \<lparr>f_type = fst (pack z c m d),
        f_chan = us_channelID u, f_payload = snd (pack z c m d)\<rparr>"
    using writeFrameLocked_None [OF w' [unfolded r]] res by (simp add: c2)
  have c3: "cl_udpSessions c3 = cl_udpSessions ?c" "cl_udpLocked c3 = cl_udpLocked c" "cl_ipFilter c3 = cl_ipFilter c"
    using writeFrameLocked_fields [of "fst (pack z c m d)" "us_channelID u" "snd (pack z c m d)" c2]
      writeFrameLocked_ipFilter [of "fst (pack z c m d)" "us_channelID u" "snd (pack z c m d)" c2]
    by (simp_all add: w') (simp_all add: c2)
  show "lookup_session addr c1 = Some (u\<lparr>us_lastActive := he_now (se_hook e)\<rparr>)"
    using lookup_session_cong [OF c3(1), of addr] assms(4) res by simp
  show "\<not> cl_udpLocked c1" "cl_ipFilter c1 = cl_ipFilter c" using c3 assms(3) res by simp_all
  show "mgr_limiter (sh_mgr s1) = mgr_limiter m" "acceptFilters (sh_mgr s1) = acceptFilters m"
    using res by (simp_all add: s2)
qed

text \<open>
  Once a remote address has a session, a datagram
  from it is sent to the client on that session's channel whatever service socket it
  arrived on: two UDP services of a client that the same peer uses share the channel of
  the first one, and the second service's local port never hears of it.
\<close>

theorem udp_session_ignores_service:
  assumes "lookup_session addr c = Some u" and "\<not> cl_udpLocked c" and "w_room (cl_wconn c) = None"
    and "mgr_OnAccept (se_hook e) ''udp'' addr (sh_mgr s) = (True, m)" and "\<not> filter_refuses ''udp'' addr c"
    and "udp_datagram z e svc conn addr d c s = (fl, c1, s1)"
  shows "udp_datagram z e svc' conn' addr d c s = (Continue, c1, s1)
    \<and> w_sent (cl_wconn c1) = w_sent (cl_wconn c) @ enc_frame \<lparr>f_type = fst (pack z c m d),
        f_chan = us_channelID u, f_payload = snd (pack z c m d)\<rparr>"
proof -
  have "udp_datagram z e svc' conn' addr d c s = udp_datagram z e svc conn addr d c s"
    using assms by (simp add: udp_datagram_def)
  with assms udp_datagram_known [OF assms(4,5,2,1,3,6)] show ?thesis by simp
qed

theorem udp_session_ignores_service_witness:
  "\<exists>c1 s1. udp_datagram toy_lz4 demo_env \<lparr>sm_LocalPort = 99, sm_RemotePort = 9999, sm_Proto = ''udp''\<rparr> 4 ''a'' [1]
      (demo_client\<lparr>cl_udpSessions := Some [(''a'', demo_session 7 0)]\<rparr>) demo_shared = (Continue, c1, s1)
    \<and> w_sent (cl_wconn c1) = enc_frame \<lparr>f_type = frameData, f_chan = 7, f_payload = [1]\<rparr>"
proof -
  let ?c = "demo_client\<lparr>cl_udpSessions := Some [(''a'', demo_session 7 0)]\<rparr>"
  obtain fl c1 s1 where u: "udp_datagram toy_lz4 demo_env demo_udp 0 ''a'' [1] ?c demo_shared = (fl, c1, s1)"
    by (cases "udp_datagram toy_lz4 demo_env demo_udp 0 ''a'' [1] ?c demo_shared") auto
  have "lookup_session ''a'' ?c = Some (demo_session 7 0)" "\<not> cl_udpLocked ?c" "w_room (cl_wconn ?c) = None"
      "mgr_OnAccept (se_hook demo_env) ''udp'' ''a'' (sh_mgr demo_shared) = (True, sh_mgr demo_shared)"
      "\<not> filter_refuses ''udp'' ''a'' ?c" "w_sent (cl_wconn ?c) = []" "pack toy_lz4 ?c (sh_mgr demo_shared) [1] = (frameData, [1])"
    by (simp_all add: demo_client_def new_client_def lookup_session_def filter_refuses_def demo_shared_def
        mgr_NewManager_def mgr_OnAccept_def pack_def HasCompressor_def)
  with udp_session_ignores_service [OF this(1-5) u] show ?thesis by (simp add: demo_session_def)
qed

section \<open>The global limit and UDP\<close>

fun udp_run :: "lz4 \<Rightarrow> srv_env \<Rightarrow> serviceMapping \<Rightarrow> nat \<Rightarrow> string \<Rightarrow> bytes list \<Rightarrow> relayClient \<Rightarrow> shared \<Rightarrow> relayClient \<times> shared" where
  "udp_run z e svc conn addr [] c s = (c, s)"
| "udp_run z e svc conn addr (d # ds) c s =
     (case udp_datagram z e svc conn addr d c s of (fl, c1, s1) \<Rightarrow> udp_run z e svc conn addr ds c1 s1)"

lemma only_limit_accept:
  assumes "acceptFilters m = [FilterLimit]" and "mgr_limiter m = Some l" and "limit_ok l" and "limit_Current l < limit_Max l"
  shows "\<exists>l'. mgr_OnAccept e p a m = (True, m\<lparr>mgr_limiter := Some l'\<rparr>)
      \<and> limit_ok l' \<and> limit_Current l' = limit_Current l + 1 \<and> limit_Max l' = limit_Max l"
proof -
  obtain l' where l': "limit_OnAccept l = (True, l')"
    using limit_OnAccept_full [OF assms(3)] assms(4) by (cases "limit_OnAccept l") auto
  then have "mgr_OnAccept e p a m = (True, m\<lparr>mgr_limiter := Some l'\<rparr>)"
    using assms(1,2) by (simp add: mgr_OnAccept_def)
  with limit_OnAccept_True [OF assms(3) l'] show ?thesis by blast
qed

lemma only_limit_refuse:
  assumes "acceptFilters m = [FilterLimit]" and "mgr_limiter m = Some l" and "limit_ok l" and "limit_Current l = limit_Max l"
  shows "\<not> fst (mgr_OnAccept e p a m)"
proof -
  obtain l' where "limit_OnAccept l = (False, l')"
    using limit_OnAccept_full [OF assms(3)] assms(4) by (cases "limit_OnAccept l") auto
  then show ?thesis using assms(1,2) by (simp add: mgr_OnAccept_def)
qed

lemma udp_run_counts:
  assumes "lookup_session addr c = Some u" and "\<not> cl_udpLocked c" and "w_room (cl_wconn c) = None" and "cl_ipFilter c = None"
    and "acceptFilters (sh_mgr s) = [FilterLimit]" and "mgr_limiter (sh_mgr s) = Some l" and "limit_ok l"
    and "int (length ds) \<le> limit_Max l - limit_Current l"
    and "udp_run z e svc conn addr ds c s = (c1, s1)"
  shows "\<exists>l1. mgr_limiter (sh_mgr s1) = Some l1 \<and> limit_ok l1 \<and> limit_Current l1 = limit_Current l + int (length ds)
    \<and> limit_Max l1 = limit_Max l \<and> acceptFilters (sh_mgr s1) = [FilterLimit]"
  using assms
proof (induction ds arbitrary: c s u l)
  case (Cons d ds)
  then have "limit_Current l < limit_Max l" by simp
  from only_limit_accept [OF Cons.prems(5-7) this, of "se_hook e" "''udp''" addr] obtain l' where
    acc: "mgr_OnAccept (se_hook e) ''udp'' addr (sh_mgr s) = (True, (sh_mgr s)\<lparr>mgr_limiter := Some l'\<rparr>)"
    and l': "limit_ok l'" "limit_Current l' = limit_Current l + 1" "limit_Max l' = limit_Max l" by blast
  obtain fl c2 s2 where st: "udp_datagram z e svc conn addr d c s = (fl, c2, s2)" by (cases "udp_datagram z e svc conn addr d c s") auto
  have nf: "\<not> filter_refuses ''udp'' addr c" using Cons.prems(4) by (simp add: filter_refuses_def)
  note known = udp_datagram_known [OF acc nf Cons.prems(2,1,3) st]
  have "udp_run z e svc conn addr ds c2 s2 = (c1, s1)" using Cons.prems(9) st by simp
  from Cons.IH [OF known(3,4,5) _ _ _ l'(1) _ this] known(6-8) Cons.prems(4,5,8) l'
  show ?case by (auto simp: algebra_simps)
qed simp

text \<open>
  The global limiter is asked once per datagram, not
  once per session. A single open session that receives as many datagrams as there are
  free slots uses them all up, although no connection was opened, and from then on every
  new connection of every client is refused.
\<close>

theorem udp_traffic_exhausts_limit:
  assumes "lookup_session addr c = Some u" and "\<not> cl_udpLocked c" and "w_room (cl_wconn c) = None" and "cl_ipFilter c = None"
    and "acceptFilters (sh_mgr s) = [FilterLimit]" and "mgr_limiter (sh_mgr s) = Some l" and "limit_ok l"
    and "int (length ds) = limit_Max l - limit_Current l"
    and "udp_run z e svc conn addr ds c s = (c1, s1)"
  shows "\<not> fst (mgr_OnAccept h proto addr' (sh_mgr s1))"
proof -
  obtain l1 where "mgr_limiter (sh_mgr s1) = Some l1" "limit_ok l1" "limit_Current l1 = limit_Max l1"
      "acceptFilters (sh_mgr s1) = [FilterLimit]"
    using udp_run_counts [OF assms(1-7) _ assms(9)] assms(8) by auto
  then show ?thesis by (simp add: only_limit_refuse)
qed

theorem udp_traffic_exhausts_limit_witness:
  "\<not> fst (mgr_OnAccept (se_hook demo_env) ''tcp'' ''9.9.9.9:1'' (sh_mgr (snd (udp_run toy_lz4 demo_env demo_udp 0 ''a'' [[1], [2]]
      (demo_client\<lparr>cl_udpSessions := Some [(''a'', demo_session 7 0)]\<rparr>)
      (demo_shared\<lparr>sh_mgr := SetConnLimiter \<lparr>maxConns = 3, current = 1\<rparr> mgr_NewManager\<rparr>)))))"
proof -
  let ?c = "demo_client\<lparr>cl_udpSessions := Some [(''a'', demo_session 7 0)]\<rparr>"
  let ?s = "demo_shared\<lparr>sh_mgr := SetConnLimiter \<lparr>maxConns = 3, current = 1\<rparr> mgr_NewManager\<rparr>"
  have "lookup_session ''a'' ?c = Some (demo_session 7 0)" "\<not> cl_udpLocked ?c" "w_room (cl_wconn ?c) = None"
      "cl_ipFilter ?c = None" "acceptFilters (sh_mgr ?s) = [FilterLimit]"
      "mgr_limiter (sh_mgr ?s) = Some \<lparr>maxConns = 3, current = 1\<rparr>" "limit_ok \<lparr>maxConns = 3, current = 1\<rparr>"
      "int (length [[1 :: byte], [2]]) = limit_Max \<lparr>maxConns = 3, current = 1\<rparr> - limit_Current \<lparr>maxConns = 3, current = 1\<rparr>"
    by (simp_all add: demo_client_def new_client_def lookup_session_def SetConnLimiter_def AddAcceptFilter_def
        mgr_NewManager_def limit_ok_def limit_Max_def limit_Current_def)
  from udp_traffic_exhausts_limit [OF this prod.collapse [symmetric]] show ?thesis .
qed

end
