(* ===== verification/RelayLoop.thy ===== *)
theory RelayLoop
  imports UdpService
begin

text \<open>
  What the server does with a frame of a registered client: one iteration of
  \<open>relayReadLoop\<close> of \<open>signal-server/main.go\<close>, with its three kinds of frames, and the periodic
  \<open>runPluginChecker\<close>, which goes over all clients.
\<close>

section \<open>Frames from the client\<close>

definition relay_control :: "bytes \<Rightarrow> relayClient \<Rightarrow> shared \<Rightarrow> flow \<times> relayClient \<times> shared" where
  "relay_control payload c s =
     (case unmarshal_msg payload of
        None \<Rightarrow> (Continue, c, s)
      | Some msg \<Rightarrow>
          (let c1 = (if c_Type msg = ''ping'' then snd (rc_sendControl (zero_msg\<lparr>c_Type := ''pong''\<rparr>) c) else c)
           in (Continue, c1, s)))"

text \<open>
  Data for a channel, decompressed: to its external connection, or to the peer of its UDP
  session. On a socket that was closed \<open>WriteToUDP\<close> fails, and its error is not looked at.
\<close>

definition write_udp :: "udpSession \<Rightarrow> bytes \<Rightarrow> relayClient \<Rightarrow> shared \<Rightarrow> shared" where
  "write_udp u data c s =
     (if us_udpConn u \<in> set (cl_udpClosed c) then s
      else s\<lparr>sh_udp_out := sh_udp_out s @ [(us_udpConn u, us_remoteAddr u, data)]\<rparr>)"

definition relay_data :: "srv_env \<Rightarrow> u32 \<Rightarrow> bytes \<Rightarrow> relayClient \<Rightarrow> shared \<Rightarrow> flow \<times> relayClient \<times> shared" where
  "relay_data e ch data c s =
     (let (action, m) = mgr_OnData ch ''tx'' (int (length data)) (sh_mgr s);
          s1 = s\<lparr>sh_mgr := m\<rparr>
      in if act_Close action then
           (let s2 = (case map_of (cl_channelConns c) ch of Some x \<Rightarrow> close_ext x s1 | None \<Rightarrow> s1);
                c1 = c\<lparr>cl_channelConns := AList.delete ch (cl_channelConns c)\<rparr>
            in (Continue, limiter_close c1, on_close e ch s2))
         else
           (let (c1, s2) = rate_wait e (length data) c s1
            in case map_of (cl_channelConns c1) ch of
                 Some x \<Rightarrow> (Continue, c1, write_ext e x data s2)
               | None \<Rightarrow>
                   if cl_udpLocked c1 then (Blocked, c1, s2)
                   else (case find_session ch (cl_udpSessions c1) of
                           Some (k, u) \<Rightarrow>
                             (Continue, c1, write_udp u data c1 s2)
                         | None \<Rightarrow> (Continue, c1, s2))))"

definition relay_close :: "srv_env \<Rightarrow> u32 \<Rightarrow> relayClient \<Rightarrow> shared \<Rightarrow> flow \<times> relayClient \<times> shared" where
  "relay_close e ch c s =
     (let (c1, s1) = (case map_of (cl_channelConns c) ch of
            Some x \<Rightarrow> (limiter_close (c\<lparr>cl_channelConns := AList.delete ch (cl_channelConns c)\<rparr>),
                       on_close e ch (close_ext x s))
          | None \<Rightarrow> (c, s))
      in if cl_udpLocked c1 then (Blocked, c1, s1)
         else (case find_session ch (cl_udpSessions c1) of
                 Some (k, u) \<Rightarrow> (Continue, limiter_close (delete_session k c1), on_close e ch s1)
               | None \<Rightarrow> (Continue, c1, s1)))"

definition relay_frame :: "lz4 \<Rightarrow> srv_env \<Rightarrow> frame \<Rightarrow> relayClient \<Rightarrow> shared \<Rightarrow> flow \<times> relayClient \<times> shared" where
  "relay_frame z e f c s =
     (if f_type f = frameControl then relay_control (f_payload f) c s
      else if f_type f = frameData then relay_data e (f_chan f) (f_payload f) c s
      else if f_type f = frameDataCompressed then
        (if CanDecompress (sh_mgr s)
         then (case mgr_Decompress z (sh_mgr s) (f_payload f) of
                 None \<Rightarrow> (Continue, c, s)
               | Some data \<Rightarrow> relay_data e (f_chan f) data c s)
         else (Continue, c, s))
      else if f_type f = frameClose then relay_close e (f_chan f) c s
      else (Continue, c, s))"

text \<open>One iteration of the loop on the bytes of the connection.\<close>

definition relay_iter :: "lz4 \<Rightarrow> srv_env \<Rightarrow> rd list \<Rightarrow> relayClient \<Rightarrow> shared
    \<Rightarrow> (flow \<times> relayClient \<times> shared) \<times> rd list" where
  "relay_iter z e input c s =
     (case srv_readFrame input of
        (Ret f, rest) \<Rightarrow> (relay_frame z e f c s, rest)
      | (Err err, rest) \<Rightarrow> ((Return, c, s), rest)
      | (Panic, rest) \<Rightarrow> ((Crash, c, s), rest))"

section \<open>The plugin checker\<close>

text \<open>
  One channel id: the clients in the order of the map until one has the channel. The
  result says whether it was found, or that a client's UDP mutex is never released.
\<close>

datatype scan = Found | NotFound | ScanBlocked

fun checker_scan :: "u32 \<Rightarrow> u32 list \<Rightarrow> server \<Rightarrow> scan \<times> server" where
  "checker_scan ch [] v = (NotFound, v)"
| "checker_scan ch (cid # cids) v =
     (case sv_objs v cid of
        None \<Rightarrow> checker_scan ch cids v
      | Some c \<Rightarrow>
          (case map_of (cl_channelConns c) ch of
             Some x \<Rightarrow>
               (Found, v\<lparr>sv_objs := (sv_objs v)(cid \<mapsto> c\<lparr>cl_channelConns := AList.delete ch (cl_channelConns c)\<rparr>),
                         sv_sh := close_ext x (sv_sh v)\<rparr>)
           | None \<Rightarrow>
               if cl_udpLocked c then (ScanBlocked, v)
               else (case find_session ch (cl_udpSessions c) of
                       Some (k, u) \<Rightarrow> (Found, v\<lparr>sv_objs := (sv_objs v)(cid \<mapsto> delete_session k c)\<rparr>)
                     | None \<Rightarrow> checker_scan ch cids v)))"

fun checker_channels :: "srv_env \<Rightarrow> u32 list \<Rightarrow> server \<Rightarrow> flow \<times> server" where
  "checker_channels e [] v = (Continue, v)"
| "checker_channels e (ch # chs) v =
     (case checker_scan ch (sh_clients (sv_sh v)) v of
        (ScanBlocked, v1) \<Rightarrow> (Blocked, v1)
      | (NotFound, v1) \<Rightarrow> checker_channels e chs v1
      | (Found, v1) \<Rightarrow> checker_channels e chs (v1\<lparr>sv_sh := on_close e ch (sv_sh v1)\<rparr>))"

definition plugin_check :: "srv_env \<Rightarrow> server \<Rightarrow> flow \<times> server" where
  "plugin_check e v = checker_channels e (mgr_OnCheck (se_hook e) (sh_mgr (sv_sh v))) v"

section \<open>Lemmas\<close>

lemma relay_data_no_plugin:
  assumes "mgr_OnData ch ''tx'' (int (length data)) (sh_mgr s) = (a, m)"
    and "rate_wait e (length data) c (s\<lparr>sh_mgr := m\<rparr>) = (c1, s2)"
  shows "relay_data e ch data c s = (case map_of (cl_channelConns c) ch of
        Some x \<Rightarrow> (Continue, c1, write_ext e x data s2)
      | None \<Rightarrow> if cl_udpLocked c then (Blocked, c1, s2)
          else (case find_session ch (cl_udpSessions c) of
              Some (k, u) \<Rightarrow> (Continue, c1, write_udp u data c s2)
            | None \<Rightarrow> (Continue, c1, s2)))"
  using assms mgr_OnData_no_close [of ch "''tx''" "int (length data)" "sh_mgr s"]
    rate_wait_fields [of e "length data" c "s\<lparr>sh_mgr := m\<rparr>"]
  by (auto simp: relay_data_def write_udp_def Let_def split: option.split)

lemma write_udp_fields [simp]:
  "sh_exts (write_udp u d c s) = sh_exts s" "sh_listeners (write_udp u d c s) = sh_listeners s"
  "sh_clients (write_udp u d c s) = sh_clients s" "sh_nextCID (write_udp u d c s) = sh_nextCID s"
  "sh_mgr (write_udp u d c s) = sh_mgr s" "sh_lnext (write_udp u d c s) = sh_lnext s"
  by (simp_all add: write_udp_def)

text \<open>Data frames keep every map of the client and every other external connection.\<close>

lemma relay_data_client:
  assumes "relay_data e ch data c s = (fl, c', s')"
  shows "cl_channelConns c' = cl_channelConns c \<and> cl_udpSessions c' = cl_udpSessions c \<and> cl_wconn c' = cl_wconn c
    \<and> cl_udpClosed c' = cl_udpClosed c"
proof -
  obtain a m where od: "mgr_OnData ch ''tx'' (int (length data)) (sh_mgr s) = (a, m)" by force
  obtain c1 s2 where rw: "rate_wait e (length data) c (s\<lparr>sh_mgr := m\<rparr>) = (c1, s2)" by force
  have "c' = c1" using assms relay_data_no_plugin [OF od rw] by (auto split: option.splits if_splits)
  with rate_wait_fields [of e "length data" c "s\<lparr>sh_mgr := m\<rparr>"] rw show ?thesis by simp
qed

definition owned :: "relayClient \<Rightarrow> nat set" where
  "owned c = snd ` set (cl_channelConns c)"

lemma map_of_owned: "map_of (cl_channelConns c) ch = Some x \<Longrightarrow> x \<in> owned c"
  by (force simp: owned_def dest: map_of_SomeD)

lemma write_ext_other: "y \<noteq> x \<Longrightarrow> sh_exts (write_ext e x d s) y = sh_exts s y"
  by (simp add: write_ext_def)

lemma close_ext_other: "y \<noteq> x \<Longrightarrow> sh_exts (close_ext x s) y = sh_exts s y"
  by (simp add: close_ext_def)

lemma relay_data_exts:
  assumes "relay_data e ch data c s = (fl, c', s')"
  shows "sh_exts s' = (case map_of (cl_channelConns c) ch of
      Some x \<Rightarrow> sh_exts (write_ext e x data s) | None \<Rightarrow> sh_exts s)"
proof -
  obtain a m where od: "mgr_OnData ch ''tx'' (int (length data)) (sh_mgr s) = (a, m)" by force
  obtain c1 s2 where rw: "rate_wait e (length data) c (s\<lparr>sh_mgr := m\<rparr>) = (c1, s2)" by force
  have "sh_exts s2 = sh_exts s" using rate_wait_fields [of e "length data" c "s\<lparr>sh_mgr := m\<rparr>"] rw by simp
  then show ?thesis using assms relay_data_no_plugin [OF od rw]
    by (auto simp: write_ext_def split: option.splits if_splits)
qed

section \<open>Properties\<close>

text \<open>
  A data frame appends its payload, unchanged, to exactly
  the external connection of its channel; without one, it sends exactly one datagram, to
  the peer of the channel's UDP session from the socket of the service that opened it,
  if that socket is still open; and
  for a channel the client does not have nothing at all goes out.
\<close>

theorem relay_data_delivered:
  assumes "f_type f = frameData" and "\<not> cl_udpLocked c" and "relay_frame z e f c s = (fl, c', s')"
  shows "fl = Continue \<and> (case map_of (cl_channelConns c) (f_chan f) of
      Some x \<Rightarrow> sh_udp_out s' = sh_udp_out s \<and> (\<forall>y. y \<noteq> x \<longrightarrow> sh_exts s' y = sh_exts s y)
        \<and> (\<forall>k. sh_exts s x = Some k \<and> \<not> x_closed k \<and> se_ext_write e = None
            \<longrightarrow> sh_exts s' x = Some (k\<lparr>x_sent := x_sent k @ f_payload f\<rparr>))
    | None \<Rightarrow> sh_exts s' = sh_exts s \<and> (case find_session (f_chan f) (cl_udpSessions c) of
        Some (k, u) \<Rightarrow> sh_udp_out s' = sh_udp_out s
          @ (if us_udpConn u \<in> set (cl_udpClosed c) then [] else [(us_udpConn u, us_remoteAddr u, f_payload f)])
      | None \<Rightarrow> sh_udp_out s' = sh_udp_out s))"
proof -
  have r: "relay_data e (f_chan f) (f_payload f) c s = (fl, c', s')"
    using assms(1,3) by (simp add: relay_frame_def frame_consts)
  obtain a m where od: "mgr_OnData (f_chan f) ''tx'' (int (length (f_payload f))) (sh_mgr s) = (a, m)" by force
  obtain c1 s2 where rw: "rate_wait e (length (f_payload f)) c (s\<lparr>sh_mgr := m\<rparr>) = (c1, s2)" by force
  have "sh_exts s2 = sh_exts s" "sh_udp_out s2 = sh_udp_out s"
    using rate_wait_fields [of e "length (f_payload f)" c "s\<lparr>sh_mgr := m\<rparr>"] rw by simp_all
  with r assms(2) relay_data_no_plugin [OF od rw] show ?thesis
    by (auto simp: write_ext_def write_udp_def split: option.splits)
qed

theorem relay_data_delivered_witness:
  "\<exists>c' s'. relay_frame toy_lz4 demo_env \<lparr>f_type = frameData, f_chan = 5, f_payload = [9, 8]\<rparr>
      (demo_client\<lparr>cl_channelConns := [(5, 3)]\<rparr>)
      (demo_shared\<lparr>sh_exts := [3 \<mapsto> \<lparr>x_addr = [], x_sent = [7], x_closed = False\<rparr>]\<rparr>) = (Continue, c', s')
    \<and> sh_exts s' 3 = Some \<lparr>x_addr = [], x_sent = [7, 9, 8], x_closed = False\<rparr>"
proof -
  let ?f = "\<lparr>f_type = frameData, f_chan = 5, f_payload = [9, 8]\<rparr>"
  let ?c = "demo_client\<lparr>cl_channelConns := [(5, 3)]\<rparr>"
  let ?s = "demo_shared\<lparr>sh_exts := [3 \<mapsto> \<lparr>x_addr = [], x_sent = [7], x_closed = False\<rparr>]\<rparr>"
  obtain fl c' s' where r: "relay_frame toy_lz4 demo_env ?f ?c ?s = (fl, c', s')"
    by (cases "relay_frame toy_lz4 demo_env ?f ?c ?s") auto
  have "\<not> cl_udpLocked ?c" by (simp add: demo_client_def new_client_def)
  from relay_data_delivered [OF _ this r] r show ?thesis by (simp add: demo_env_def)
qed

text \<open>What a frame of a client can touch.\<close>

lemma frame_isolated:
  assumes "relay_frame z e f c s = (fl, c', s')"
  shows "(\<forall>y. y \<notin> owned c \<longrightarrow> sh_exts s' y = sh_exts s y)
    \<and> sh_listeners s' = sh_listeners s \<and> sh_clients s' = sh_clients s \<and> sh_nextCID s' = sh_nextCID s
    \<and> set (cl_channelConns c') \<subseteq> set (cl_channelConns c)"
proof -
  have data: ?thesis if "relay_data e ch d c s = (fl, c', s')" for ch d
  proof -
    obtain a m where od: "mgr_OnData ch ''tx'' (int (length d)) (sh_mgr s) = (a, m)" by force
    obtain c1 s2 where rw: "rate_wait e (length d) c (s\<lparr>sh_mgr := m\<rparr>) = (c1, s2)" by force
    have "sh_listeners s2 = sh_listeners s" "sh_clients s2 = sh_clients s" "sh_nextCID s2 = sh_nextCID s"
      using rate_wait_fields [of e "length d" c "s\<lparr>sh_mgr := m\<rparr>"] rw by simp_all
    with that relay_data_no_plugin [OF od rw] have "sh_listeners s' = sh_listeners s \<and> sh_clients s' = sh_clients s \<and> sh_nextCID s' = sh_nextCID s"
      by (auto simp: write_ext_def split: option.splits if_splits)
    moreover have "\<forall>y. y \<notin> owned c \<longrightarrow> sh_exts s' y = sh_exts s y"
      using relay_data_exts [OF that] map_of_owned [of c ch] write_ext_other
      by (auto split: option.splits) metis
    ultimately show ?thesis using relay_data_client [OF that] by simp
  qed
  have close: ?thesis if "relay_close e ch c s = (fl, c', s')" for ch
  proof (cases "map_of (cl_channelConns c) ch")
    case None
    with that show ?thesis
      by (auto simp: relay_close_def limiter_close_def delete_session_def on_close_def split: option.splits if_splits)
  next
    case (Some x)
    then have x: "x \<in> owned c" by (rule map_of_owned)
    have del: "set (AList.delete ch (cl_channelConns c)) \<subseteq> set (cl_channelConns c)"
      by (auto simp: AList.delete_eq)
    have ext: "sh_exts (close_ext x s) y = sh_exts s y" if "y \<notin> owned c" for y
      using that x by (intro close_ext_other) auto
    from that Some del ext show ?thesis
      by (auto simp: relay_close_def limiter_close_def delete_session_def on_close_def Let_def close_ext_def
          split: option.splits if_splits)
  qed
  have ctl: ?thesis if "relay_control p c s = (fl, c', s')" for p
    using that by (auto simp: relay_control_def Let_def split: option.splits if_splits)
  show ?thesis
    using assms data close ctl by (auto simp: relay_frame_def split: if_splits option.splits)
qed

text \<open>
  Claim C13 (client_isolation): whatever frame a client sends, it can only touch external
  connections of its own channels: every other connection keeps its bytes and stays as
  open as it was, the port map and the client map do not change, and no channel is added to
  the client.
\<close>

theorem client_isolation:
  assumes "relay_frame z e f c s = (fl, c', s')"
  shows "(\<forall>y. y \<notin> owned c \<longrightarrow> sh_exts s' y = sh_exts s y)
    \<and> sh_listeners s' = sh_listeners s \<and> sh_clients s' = sh_clients s \<and> sh_nextCID s' = sh_nextCID s
    \<and> set (cl_channelConns c') \<subseteq> set (cl_channelConns c)"
  by (rule frame_isolated [OF assms])

theorem client_isolation_witness:
  "\<exists>fl c' s'. relay_frame toy_lz4 demo_env \<lparr>f_type = frameClose, f_chan = 6, f_payload = []\<rparr>
      (demo_client\<lparr>cl_channelConns := [(5, 3)]\<rparr>)
      (demo_shared\<lparr>sh_exts := [4 \<mapsto> \<lparr>x_addr = [], x_sent = [7], x_closed = False\<rparr>]\<rparr>) = (fl, c', s')
    \<and> sh_exts s' 4 = Some \<lparr>x_addr = [], x_sent = [7], x_closed = False\<rparr>"
proof -
  let ?f = "\<lparr>f_type = frameClose, f_chan = 6, f_payload = []\<rparr>"
  let ?c = "demo_client\<lparr>cl_channelConns := [(5, 3)]\<rparr>"
  let ?s = "demo_shared\<lparr>sh_exts := [4 \<mapsto> \<lparr>x_addr = [], x_sent = [7], x_closed = False\<rparr>]\<rparr>"
  obtain fl c' s' where r: "relay_frame toy_lz4 demo_env ?f ?c ?s = (fl, c', s')"
    by (cases "relay_frame toy_lz4 demo_env ?f ?c ?s") auto
  from client_isolation [OF r] r show ?thesis by (simp add: owned_def)
qed

end
