(* ===== verification/ServerInv.thy ===== *)
theory ServerInv
  imports RelayLoop
begin

text \<open>
  The bookkeeping invariant of a client object and its preservation by every handler: channel
  ids are distinct, channels and sessions do not share ids, and the client's connection
  limiter counts exactly the channels and sessions it has. It holds when no dynamic plugin
  is loaded as logger, since the paths a plugin's \<open>close\<close> answer takes break it.
\<close>

section \<open>The invariant of one client\<close>

definition skeys :: "relayClient \<Rightarrow> (string \<times> u32) list option" where
  "skeys c = map_option (map (\<lambda>(k, u). (k, us_channelID u))) (cl_udpSessions c)"

definition sess_list :: "(string \<times> u32) list option \<Rightarrow> (string \<times> u32) list" where
  "sess_list ks = (case ks of None \<Rightarrow> [] | Some l \<Rightarrow> l)"

definition core_ids :: "(u32 \<times> nat) list \<Rightarrow> (string \<times> u32) list option \<Rightarrow> u32 set" where
  "core_ids ch ks = fst ` set ch \<union> snd ` set (sess_list ks)"

definition core_wf :: "(u32 \<times> nat) list \<Rightarrow> (string \<times> u32) list option \<Rightarrow> ConnLimit option \<Rightarrow> bool" where
  "core_wf ch ks lm \<longleftrightarrow> distinct (map fst ch) \<and> distinct (map snd ch)
     \<and> distinct (map fst (sess_list ks)) \<and> distinct (map snd (sess_list ks))
     \<and> fst ` set ch \<inter> snd ` set (sess_list ks) = {}
     \<and> (\<forall>l. lm = Some l \<longrightarrow> 0 < limit_Max l \<longrightarrow> ks \<noteq> None \<longrightarrow>
          limit_Current l = int (length ch + length (sess_list ks)) \<and> limit_Current l \<le> limit_Max l)"

definition ids :: "relayClient \<Rightarrow> u32 set" where
  "ids c = core_ids (cl_channelConns c) (skeys c)"

definition cl_wf :: "relayClient \<Rightarrow> bool" where
  "cl_wf c \<longleftrightarrow> core_wf (cl_channelConns c) (skeys c) (cl_connLimiter c)"

lemma sess_list_simps [simp]: "sess_list None = []" "sess_list (Some l) = l"
  by (simp_all add: sess_list_def)

lemma distinct_map_delete: "distinct (map f l) \<Longrightarrow> distinct (map f (AList.delete k l))"
  by (auto simp: AList.delete_eq distinct_map_filter)

lemma length_delete:
  "distinct (map fst l) \<Longrightarrow> k \<in> fst ` set l \<Longrightarrow> Suc (length (AList.delete k l)) = length l"
proof (induction l)
  case (Cons p l)
  then show ?case
    by (cases p) (auto simp: AList.delete_idem)
qed simp

lemma limiter_close_fields [simp]:
  "cl_channelConns (limiter_close c) = cl_channelConns c" "cl_udpSessions (limiter_close c) = cl_udpSessions c"
  "cl_wconn (limiter_close c) = cl_wconn c" "cl_cid (limiter_close c) = cl_cid c"
  "cl_udpLocked (limiter_close c) = cl_udpLocked c" "cl_features (limiter_close c) = cl_features c"
  "cl_connLimiter (limiter_close c) = map_option limit_OnClose (cl_connLimiter c)"
  "skeys (limiter_close c) = skeys c"
  "cl_udpClosed (limiter_close c) = cl_udpClosed c"
  by (simp_all add: limiter_close_def skeys_def)

lemma core_close:
  assumes "\<And>l. lm = Some l \<Longrightarrow> 0 < limit_Max l \<Longrightarrow> limit_Current l = int (Suc n) \<and> limit_Current l \<le> limit_Max l"
    and "map_option limit_OnClose lm = Some l'" and "0 < limit_Max l'"
  shows "limit_Current l' = int n \<and> limit_Current l' \<le> limit_Max l'"
proof -
  from assms(2) obtain l where l: "lm = Some l" "l' = limit_OnClose l" by auto
  with assms(1,3) have c: "limit_Current l = int (Suc n)" "limit_Current l \<le> limit_Max l" by auto
  with assms(3) l have "limit_ok l" by (simp add: limit_ok_def)
  with c l show ?thesis by (simp add: limit_OnClose_Current)
qed

lemma core_delete_channel:
  assumes "core_wf ch ks lm" and "k \<in> fst ` set ch"
  shows "core_wf (AList.delete k ch) ks (map_option limit_OnClose lm)"
proof -
  let ?n = "length (AList.delete k ch) + length (sess_list ks)"
  have len: "length ch + length (sess_list ks) = Suc ?n"
    using length_delete [of ch k] assms by (simp add: core_wf_def)
  have sub: "fst ` set (AList.delete k ch) \<subseteq> fst ` set ch" by (auto simp: AList.delete_eq)
  have lim: "limit_Current l' = int ?n \<and> limit_Current l' \<le> limit_Max l'"
    if m: "map_option limit_OnClose lm = Some l'" "0 < limit_Max l'" and ks: "ks \<noteq> None" for l'
    by (rule core_close [OF _ m]) (use assms(1) [unfolded core_wf_def len] ks in blast)
  have dis: "fst ` set (AList.delete k ch) \<inter> snd ` set (sess_list ks) = {}"
    using assms(1) sub by (auto simp only: core_wf_def)
  show ?thesis
    using assms(1) [unfolded core_wf_def] lim dis unfolding core_wf_def by (blast intro: distinct_map_delete)
qed

lemma core_delete_session:
  assumes "core_wf ch (Some ks) lm" and "k \<in> fst ` set ks"
  shows "core_wf ch (Some (AList.delete k ks)) (map_option limit_OnClose lm)"
proof -
  let ?n = "length ch + length (AList.delete k ks)"
  have len: "length ch + length ks = Suc ?n"
    using length_delete [of ks k] assms by (simp add: core_wf_def)
  have sub: "snd ` set (AList.delete k ks) \<subseteq> snd ` set ks" by (auto simp: AList.delete_eq)
  have lim: "limit_Current l' = int ?n \<and> limit_Current l' \<le> limit_Max l'"
    if m: "map_option limit_OnClose lm = Some l'" "0 < limit_Max l'" for l'
    by (rule core_close [OF _ m]) (use assms(1) [unfolded core_wf_def sess_list_simps len] in blast)
  have dis: "fst ` set ch \<inter> snd ` set (AList.delete k ks) = {}"
    using assms(1) sub by (auto simp only: core_wf_def sess_list_simps)
  show ?thesis
    using assms(1) [unfolded core_wf_def sess_list_simps] lim dis unfolding core_wf_def sess_list_simps
    by (blast intro: distinct_map_delete)
qed

text \<open>A successful \<open>OnAccept\<close> makes room for one more entry.\<close>

lemma core_accept:
  assumes "\<And>l. lm = Some l \<Longrightarrow> 0 < limit_Max l \<Longrightarrow> ks \<noteq> None \<Longrightarrow>
      limit_Current l = int n \<and> limit_Current l \<le> limit_Max l"
    and "lm' = (case lm of None \<Rightarrow> None | Some l \<Rightarrow> Some (snd (limit_OnAccept l)))"
    and "\<And>l. lm = Some l \<Longrightarrow> fst (limit_OnAccept l)"
    and "lm' = Some l'" and "0 < limit_Max l'" and "ks \<noteq> None"
  shows "limit_Current l' = int (Suc n) \<and> limit_Current l' \<le> limit_Max l'"
proof -
  from assms(2,4) obtain l where l: "lm = Some l" "l' = snd (limit_OnAccept l)" by (cases lm) auto
  then have acc: "limit_OnAccept l = (True, l')" using assms(3) by (metis prod.collapse)
  have "limit_Max l' = limit_Max l" using acc
    by (auto simp: limit_OnAccept_def limit_Max_def Let_def split: if_splits)
  with assms(1,5,6) l have c: "limit_Current l = int n" "limit_Current l \<le> limit_Max l" "0 < limit_Max l" by auto
  then have "limit_ok l" by (simp add: limit_ok_def)
  from limit_OnAccept_True [OF this acc] c show ?thesis by (simp add: limit_ok_def)
qed

lemma limiter_accept_True:
  assumes "limiter_accept c = (True, c1)"
  shows "cl_connLimiter c1 = (case cl_connLimiter c of None \<Rightarrow> None | Some l \<Rightarrow> Some (snd (limit_OnAccept l)))"
    and "\<And>l. cl_connLimiter c = Some l \<Longrightarrow> fst (limit_OnAccept l)"
    and "cl_channelConns c1 = cl_channelConns c" and "cl_udpSessions c1 = cl_udpSessions c" and "cl_cid c1 = cl_cid c"
    and "cl_wconn c1 = cl_wconn c"
  using assms by (auto simp: limiter_accept_def split: option.splits prod.splits)

lemma limiter_accept_False: "limiter_accept c = (False, c1) \<Longrightarrow> c1 = c"
  by (auto simp: limiter_accept_def split: option.splits prod.splits dest!: limit_OnAccept_False)

lemma cl_wf_add_channel:
  assumes "cl_wf c" and "limiter_accept c = (True, c1)" and "ch \<notin> ids c" and "x \<notin> snd ` set (cl_channelConns c)"
  shows "core_wf (AList.update ch x (cl_channelConns c1)) (skeys c1) (cl_connLimiter c1)"
proof -
  note a = limiter_accept_True [OF assms(2)]
  have ks: "skeys c1 = skeys c" using a by (simp add: skeys_def)
  have new: "AList.update ch x (cl_channelConns c1) = cl_channelConns c @ [(ch, x)]"
    using assms(3) a(3) by (simp add: update_new ids_def core_ids_def)
  have "limit_Current l' = int (Suc (length (cl_channelConns c) + length (sess_list (skeys c)))) \<and> limit_Current l' \<le> limit_Max l'"
    if "cl_connLimiter c1 = Some l'" "0 < limit_Max l'" "skeys c \<noteq> None" for l'
    by (rule core_accept [OF _ a(1,2) that]) (use assms(1) in \<open>auto simp: cl_wf_def core_wf_def\<close>)
  with assms show ?thesis
    by (auto simp: new ks cl_wf_def core_wf_def ids_def core_ids_def)
qed

lemma cl_wf_add_session:
  assumes "cl_wf c" and "limiter_accept c = (True, c1)" and "ch \<notin> ids c" and "cl_udpSessions c1 = Some l"
    and "lookup_session k c = None" and "us_channelID u = ch"
  shows "cl_wf (c1\<lparr>cl_udpSessions := Some (AList.update k u l)\<rparr>)"
    and "skeys (c1\<lparr>cl_udpSessions := Some (AList.update k u l)\<rparr>) = Some (sess_list (skeys c) @ [(k, ch)])"
proof -
  note a = limiter_accept_True [OF assms(2)]
  have l: "cl_udpSessions c = Some l" using a assms(4) by simp
  then have k: "k \<notin> fst ` set l" using assms(5) by (simp add: lookup_session_def map_of_eq_None_iff)
  then show sk: "skeys (c1\<lparr>cl_udpSessions := Some (AList.update k u l)\<rparr>) = Some (sess_list (skeys c) @ [(k, ch)])"
    using assms(6) l by (simp add: skeys_def update_new)
  have kl: "k \<notin> fst ` set (sess_list (skeys c))" using k l by (force simp: skeys_def)
  have "limit_Current l' = int (Suc (length (cl_channelConns c) + length (sess_list (skeys c)))) \<and> limit_Current l' \<le> limit_Max l'"
    if "cl_connLimiter c1 = Some l'" "0 < limit_Max l'" for l'
    by (rule core_accept [OF _ a(1,2) that]) (use assms(1) l in \<open>auto simp: cl_wf_def core_wf_def skeys_def\<close>)
  with assms(1,3) sk kl a(3) show "cl_wf (c1\<lparr>cl_udpSessions := Some (AList.update k u l)\<rparr>)"
    by (auto simp: cl_wf_def core_wf_def ids_def core_ids_def)
qed

end
