(* ===== verification/ServerSteps.thy ===== *)
theory ServerSteps
  imports ServerInv
begin

text \<open>
  Every handler of the server preserves the bookkeeping of its client: one lemma per handler,
  all of the same form (\<open>kept\<close>).
\<close>

section \<open>The form of the lemmas\<close>

definition no_dyn :: "Manager \<Rightarrow> bool" where
  "no_dyn m \<longleftrightarrow> (case mgr_logger m of Some (DynLogger hs) \<Rightarrow> False | _ \<Rightarrow> True)"

text \<open>
  The client stays well formed; a new channel id, if any, is the next one; new external
  connections come from \<open>X\<close>; no external connection appears or vanishes.
\<close>

definition kept :: "nat set \<Rightarrow> relayClient \<Rightarrow> shared \<Rightarrow> relayClient \<Rightarrow> shared \<Rightarrow> bool" where
  "kept X c s c' s' \<longleftrightarrow> cl_wf c' \<and> cl_cid c' = cl_cid c \<and> no_dyn (sh_mgr s')
     \<and> dom (sh_exts s') = dom (sh_exts s) \<and> owned c' \<subseteq> owned c \<union> X
     \<and> ((sh_nextCID s' = sh_nextCID s \<and> ids c' \<subseteq> ids c)
        \<or> (sh_nextCID s' = sh_nextCID s + 1 \<and> ids c' \<subseteq> insert (sh_nextCID s + 1) (ids c)))"

lemma no_dyn_OnData [simp]: "no_dyn (snd (mgr_OnData ch d n m)) = no_dyn m"
  by (auto simp: no_dyn_def mgr_OnData_def split: option.splits prod.splits logger.splits)

lemma no_dyn_OnOpen [simp]: "no_dyn (snd (mgr_OnOpen e p a ch lp m)) = no_dyn m"
  by (auto simp: no_dyn_def mgr_OnOpen_def Let_def split: option.splits prod.splits logger.splits)

lemma no_dyn_OnClose [simp]: "no_dyn (mgr_OnClose e ch m) = no_dyn m"
  by (auto simp: no_dyn_def mgr_OnClose_def Let_def split: option.splits logger.splits elim!: log_close.elims)

lemma no_dyn_OnAccept [simp]: "no_dyn (snd (mgr_OnAccept e p a m)) = no_dyn m"
  by (simp add: no_dyn_def)

lemma no_dyn_open: "no_dyn m \<Longrightarrow> \<not> act_Close (fst (mgr_OnOpen e p a ch lp m))"
  by (auto simp: no_dyn_def mgr_OnOpen_def Let_def no_action_def tl_OnOpen_def split: option.splits logger.splits)

lemma no_dyn_check: "no_dyn m \<Longrightarrow> mgr_OnCheck e m = []"
  by (auto simp: no_dyn_def mgr_OnCheck_def tl_OnCheck_def split: option.splits logger.splits)

text \<open>Two clients with the same channels, session keys and limiter have the same bookkeeping.\<close>

definition same_core :: "relayClient \<Rightarrow> relayClient \<Rightarrow> bool" where
  "same_core c c' \<longleftrightarrow> cl_channelConns c' = cl_channelConns c \<and> skeys c' = skeys c
     \<and> cl_connLimiter c' = cl_connLimiter c \<and> cl_cid c' = cl_cid c"

lemma same_core_wf: "same_core c c' \<Longrightarrow> cl_wf c' = cl_wf c \<and> ids c' = ids c \<and> owned c' = owned c \<and> cl_cid c' = cl_cid c"
  by (simp add: same_core_def cl_wf_def ids_def owned_def)

lemma same_core_trans: "same_core a b \<Longrightarrow> same_core b c \<Longrightarrow> same_core a c"
  by (simp add: same_core_def)

lemma same_core_write: "same_core c (snd (writeFrameLocked t ch p c))"
  by (simp add: same_core_def skeys_def)

lemma same_core_send: "same_core c (snd (rc_sendControl m c))"
  by (simp add: same_core_def skeys_def)

lemma same_core_rate: "same_core c (fst (rate_wait e n c s))"
  by (simp add: same_core_def skeys_def)

lemma skeys_touch: "skeys (touch_session k t c) = skeys c"
proof -
  have "map (\<lambda>(k, u). (k, us_channelID u)) (AList.map_entry k (\<lambda>u. u\<lparr>us_lastActive := t\<rparr>) l)
      = map (\<lambda>(k, u). (k, us_channelID u)) l" for l :: "(string \<times> udpSession) list"
    by (induction l) auto
  then show ?thesis by (cases "cl_udpSessions c") (simp_all add: skeys_def touch_session_def)
qed

lemma same_core_touch: "same_core c (touch_session k t c)"
  by (simp add: same_core_def skeys_touch) (simp add: touch_session_def)

lemma same_core_kept:
  assumes "same_core c c'" and "cl_wf c" and "no_dyn (sh_mgr s')" and "dom (sh_exts s') = dom (sh_exts s)"
    and "sh_nextCID s' = sh_nextCID s"
  shows "kept X c s c' s'"
  using assms same_core_wf [OF assms(1)] by (auto simp: kept_def)

lemma kept_same_core: "kept X c s c1 s1 \<Longrightarrow> same_core c1 c' \<Longrightarrow> kept X c s c' s1"
  using same_core_wf [of c1 c'] by (auto simp: kept_def)

lemma dom_close_ext [simp]: "dom (sh_exts (close_ext x s)) = dom (sh_exts s)"
  by (auto simp: close_ext_def)

lemma dom_write_ext [simp]: "dom (sh_exts (write_ext e x d s)) = dom (sh_exts s)"
  by (auto simp: write_ext_def)

lemma ext_fields [simp]:
  "sh_mgr (close_ext x s) = sh_mgr s" "sh_nextCID (close_ext x s) = sh_nextCID s"
  "sh_mgr (write_ext e x d s) = sh_mgr s" "sh_nextCID (write_ext e x d s) = sh_nextCID s"
  "sh_mgr (tcp_loop_exit svc s) = sh_mgr s" "sh_nextCID (tcp_loop_exit svc s) = sh_nextCID s"
  "sh_exts (tcp_loop_exit svc s) = sh_exts s"
  "sh_mgr (on_close e ch s) = mgr_OnClose (se_hook e) ch (sh_mgr s)" "sh_nextCID (on_close e ch s) = sh_nextCID s"
  "sh_exts (on_close e ch s) = sh_exts s"
  by (simp_all add: close_ext_def write_ext_def tcp_loop_exit_def on_close_def)

section \<open>Removing a channel or a session\<close>

definition without_channel :: "u32 \<Rightarrow> relayClient \<Rightarrow> relayClient" where
  "without_channel ch c = c\<lparr>cl_channelConns := AList.delete ch (cl_channelConns c)\<rparr>"

lemma without_channel_absent:
  "map_of (cl_channelConns c) ch = None \<Longrightarrow> without_channel ch c = c"
  by (cases c) (auto simp: without_channel_def AList.delete_idem map_of_eq_None_iff)

lemma skeys_delete_session:
  "skeys (delete_session k c) = map_option (AList.delete k) (skeys c)"
proof -
  have "map (\<lambda>(k, u). (k, us_channelID u)) (AList.delete k l) = AList.delete k (map (\<lambda>(k, u). (k, us_channelID u)) l)"
    for l :: "(string \<times> udpSession) list" by (induction l) auto
  then show ?thesis by (cases "cl_udpSessions c") (simp_all add: skeys_def delete_session_def)
qed

lemma kept_drop_channel:
  assumes "cl_wf c" and "map_of (cl_channelConns c) ch = Some x" and "no_dyn (sh_mgr s')"
    and "dom (sh_exts s') = dom (sh_exts s)" and "sh_nextCID s' = sh_nextCID s"
  shows "kept X c s (limiter_close (without_channel ch c)) s'"
proof -
  have "ch \<in> fst ` set (cl_channelConns c)" using assms(2) by (metis map_of_eq_None_iff option.distinct(1))
  with assms(1) have "cl_wf (limiter_close (without_channel ch c))"
    using core_delete_channel [of "cl_channelConns c" "skeys c" "cl_connLimiter c" ch]
    by (simp add: cl_wf_def without_channel_def skeys_def)
  moreover have "ids (limiter_close (without_channel ch c)) \<subseteq> ids c"
    by (auto simp: ids_def core_ids_def without_channel_def skeys_def AList.delete_eq)
  moreover have "owned (limiter_close (without_channel ch c)) \<subseteq> owned c"
    by (auto simp: owned_def without_channel_def AList.delete_eq)
  moreover have "cl_cid (without_channel ch c) = cl_cid c" by (simp add: without_channel_def)
  ultimately show ?thesis using assms by (auto simp: kept_def)
qed

lemma kept_drop_session:
  assumes "cl_wf c" and "(k, u) \<in> set l" and "cl_udpSessions c = Some l" and "no_dyn (sh_mgr s')"
    and "dom (sh_exts s') = dom (sh_exts s)" and "sh_nextCID s' = sh_nextCID s"
  shows "kept X c s (limiter_close (delete_session k c)) s'"
proof -
  let ?ks = "map (\<lambda>(k, u). (k, us_channelID u)) l"
  have ks: "skeys c = Some ?ks" using assms(3) by (simp add: skeys_def)
  have "k \<in> fst ` set ?ks" using assms(2) by force
  moreover have "cl_channelConns (delete_session k c) = cl_channelConns c" "cl_cid (delete_session k c) = cl_cid c"
      "cl_connLimiter (delete_session k c) = cl_connLimiter c"
    by (simp_all add: delete_session_def)
  ultimately have "cl_wf (limiter_close (delete_session k c))"
    using core_delete_session [of "cl_channelConns c" ?ks "cl_connLimiter c" k] assms(1)
    by (simp add: cl_wf_def skeys_delete_session ks)
  moreover have "ids (limiter_close (delete_session k c)) \<subseteq> ids c"
    by (auto simp: ids_def core_ids_def skeys_delete_session ks AList.delete_eq) (force simp: delete_session_def)
  moreover have "owned (limiter_close (delete_session k c)) \<subseteq> owned c" "cl_cid (delete_session k c) = cl_cid c"
    by (auto simp: owned_def delete_session_def)
  ultimately show ?thesis using assms by (auto simp: kept_def)
qed

section \<open>The handlers\<close>

lemma kept_refl: "cl_wf c \<Longrightarrow> no_dyn (sh_mgr s') \<Longrightarrow> dom (sh_exts s') = dom (sh_exts s) \<Longrightarrow> sh_nextCID s' = sh_nextCID s
    \<Longrightarrow> kept X c s c s'"
  by (simp add: kept_def)

lemma kept_id: "cl_wf c \<Longrightarrow> no_dyn (sh_mgr s) \<Longrightarrow> kept X c s c s"
  by (rule kept_refl) simp_all

lemma kept_pipe_exit:
  assumes "pipe_exit e ch x c s = (fl, c', s')" and "cl_wf c" and "no_dyn (sh_mgr s)"
  shows "kept X c s c' s'"
proof (cases "map_of (cl_channelConns c) ch")
  case None
  with assms(1) have "c' = c" "s' = close_ext x s"
    using without_channel_absent [OF None] by (auto simp: pipe_exit_def without_channel_def Let_def)
  with assms(2,3) show ?thesis by (simp add: kept_refl)
next
  case (Some y)
  with assms(1) have "c' = limiter_close (without_channel ch c)" "s' = on_close e ch (close_ext x s)"
    by (auto simp: pipe_exit_def without_channel_def Let_def)
  with kept_drop_channel [OF assms(2) Some] assms(3) show ?thesis by simp
qed

lemma kept_from:
  assumes "same_core c c1" and "dom (sh_exts s1) = dom (sh_exts s)" and "sh_nextCID s1 = sh_nextCID s"
    and "kept X c1 s1 c' s'"
  shows "kept X c s c' s'"
  using assms same_core_wf [OF assms(1)] by (simp add: kept_def)

lemma kept_pipe_step:
  assumes "pipe_step z e ch x r c s = (fl, c', s')" and "cl_wf c" and "no_dyn (sh_mgr s)"
  shows "kept X c s c' s'"
proof (cases r)
  case (Inl er)
  let ?c = "snd (writeFrameLocked frameClose ch [] c)"
  have "pipe_exit e ch x ?c s = (fl, c', s')"
    using assms(1) Inl by (simp add: pipe_step_def split_beta)
  then have "kept X ?c s c' s'"
    by (rule kept_pipe_exit) (simp_all add: assms same_core_wf [OF same_core_write])
  then show ?thesis by (rule kept_from [OF same_core_write refl refl])
next
  case (Inr d)
  obtain a m where od: "mgr_OnData ch ''rx'' (int (length d)) (sh_mgr s) = (a, m)" by force
  obtain c1 s2 where rw: "rate_wait e (length d) c (s\<lparr>sh_mgr := m\<rparr>) = (c1, s2)" by force
  obtain ft data where pk: "pack z c1 (sh_mgr s2) d = (ft, data)" by force
  obtain w c2 where w: "writeFrameLocked ft ch data c1 = (w, c2)" by force
  have m: "no_dyn m" "\<not> act_Close a"
    using mgr_OnData_no_close [of ch "''rx''" "int (length d)" "sh_mgr s"] no_dyn_OnData [of ch "''rx''" "int (length d)" "sh_mgr s"]
      assms(3) by (simp_all add: od)
  have s2: "no_dyn (sh_mgr s2)" "dom (sh_exts s2) = dom (sh_exts s)" "sh_nextCID s2 = sh_nextCID s"
    using rate_wait_fields [of e "length d" c "s\<lparr>sh_mgr := m\<rparr>"] m by (simp_all add: rw)
  have sc: "same_core c c1" "same_core c1 c2"
    using same_core_rate [of c e "length d" "s\<lparr>sh_mgr := m\<rparr>"] same_core_write [of c1 ft ch data] rw w by simp_all
  then have sc2: "same_core c c2" by (rule same_core_trans)
  from assms(1) Inr od rw pk w m have "if w = None then c' = c2 \<and> s' = s2 else pipe_exit e ch x c2 s2 = (fl, c', s')"
    by (auto simp: pipe_step_def Let_def split: option.splits)
  then show ?thesis
  proof (cases w)
    case None
    with \<open>if w = None then _ else _\<close> show ?thesis using same_core_kept [OF sc2 assms(2) s2] by simp
  next
    case (Some er)
    with \<open>if w = None then _ else _\<close> have "pipe_exit e ch x c2 s2 = (fl, c', s')" by simp
    then have "kept X c2 s2 c' s'" by (rule kept_pipe_exit) (simp_all add: assms(2) same_core_wf [OF sc2] s2)
    then show ?thesis by (rule kept_from [OF sc2 s2(2,3)])
  qed
qed

lemma kept_relay_data:
  assumes "relay_data e ch d c s = (fl, c', s')" and "cl_wf c" and "no_dyn (sh_mgr s)"
  shows "kept X c s c' s'"
proof -
  obtain a m where od: "mgr_OnData ch ''tx'' (int (length d)) (sh_mgr s) = (a, m)" by force
  obtain c1 s2 where rw: "rate_wait e (length d) c (s\<lparr>sh_mgr := m\<rparr>) = (c1, s2)" by force
  have m: "no_dyn m" using no_dyn_OnData [of ch "''tx''" "int (length d)" "sh_mgr s"] assms(3) by (simp add: od)
  have s2: "no_dyn (sh_mgr s2)" "dom (sh_exts s2) = dom (sh_exts s)" "sh_nextCID s2 = sh_nextCID s"
    using rate_wait_fields [of e "length d" c "s\<lparr>sh_mgr := m\<rparr>"] m by (simp_all add: rw)
  have sc: "same_core c c1" using same_core_rate [of c e "length d" "s\<lparr>sh_mgr := m\<rparr>"] rw by simp
  have c': "c' = c1" and s': "s' = s2 \<or> (\<exists>x. s' = write_ext e x d s2) \<or> (\<exists>u. s' = write_udp u d c s2)"
    using assms(1) relay_data_no_plugin [OF od rw] by (auto split: option.splits if_splits)
  from s' have "sh_mgr s' = sh_mgr s2" "dom (sh_exts s') = dom (sh_exts s2)" "sh_nextCID s' = sh_nextCID s2"
    by (elim disjE exE; simp)+
  with c' s2 have "c' = c1" "no_dyn (sh_mgr s')" "dom (sh_exts s') = dom (sh_exts s)" "sh_nextCID s' = sh_nextCID s"
    by simp_all
  then show ?thesis using same_core_kept [OF sc assms(2)] by simp
qed

lemma kept_trans_close:
  assumes "kept X c s c1 s1" and "sh_nextCID s1 = sh_nextCID s" and "kept X c1 s1 c' s'" and "sh_nextCID s' = sh_nextCID s1"
  shows "kept X c s c' s'"
  using assms by (auto simp: kept_def)

lemma kept_relay_close:
  assumes "relay_close e ch c s = (fl, c', s')" and "cl_wf c" and "no_dyn (sh_mgr s)"
  shows "kept X c s c' s'"
proof -
  obtain c1 s1 where one: "(case map_of (cl_channelConns c) ch of
            Some x \<Rightarrow> (limiter_close (c\<lparr>cl_channelConns := AList.delete ch (cl_channelConns c)\<rparr>),
                       on_close e ch (close_ext x s))
          | None \<Rightarrow> (c, s)) = (c1, s1)" by force
  have k1: "kept X c s c1 s1 \<and> sh_nextCID s1 = sh_nextCID s"
  proof (cases "map_of (cl_channelConns c) ch")
    case None
    with one assms show ?thesis by (simp add: kept_id)
  next
    case (Some x)
    with one have "c1 = limiter_close (without_channel ch c)" "s1 = on_close e ch (close_ext x s)"
      by (simp_all add: without_channel_def)
    with kept_drop_channel [OF assms(2) Some] assms(3) show ?thesis by simp
  qed
  then have wf1: "cl_wf c1" "no_dyn (sh_mgr s1)" by (simp_all add: kept_def)
  have k2: "kept X c1 s1 c' s' \<and> sh_nextCID s' = sh_nextCID s1"
  proof (cases "\<not> cl_udpLocked c1 \<and> find_session ch (cl_udpSessions c1) \<noteq> None")
    case False
    with assms(1) one wf1 show ?thesis
      by (auto simp: relay_close_def kept_id split: if_splits option.splits)
  next
    case True
    then obtain k u where f: "find_session ch (cl_udpSessions c1) = Some (k, u)" by force
    then obtain l where l: "cl_udpSessions c1 = Some l" by (auto simp: find_session_def split: option.splits)
    with f have "(k, u) \<in> set l" by (auto dest: find_session_Some)
    moreover have "c' = limiter_close (delete_session k c1)" "s' = on_close e ch s1"
      using assms(1) one True f by (auto simp: relay_close_def)
    ultimately show ?thesis using kept_drop_session [OF wf1(1) _ l] wf1(2) by simp
  qed
  show ?thesis using kept_trans_close k1 k2 by blast
qed

lemma kept_relay_frame:
  assumes "relay_frame z e f c s = (fl, c', s')" and "cl_wf c" and "no_dyn (sh_mgr s)"
  shows "kept X c s c' s'"
proof -
  have ctl: "kept X c s c' s'" if "relay_control p c s = (fl, c', s')" for p
    using that assms(2,3) same_core_send [of c] kept_id [OF assms(2,3)]
    by (auto simp: relay_control_def Let_def intro!: same_core_kept split: option.splits if_splits)
  show ?thesis
    using assms ctl kept_relay_data kept_relay_close kept_id [OF assms(2,3), of X]
    by (auto simp: relay_frame_def split: if_splits option.splits)
qed

text \<open>The cleanup keeps a prefix already seen and works on the rest.\<close>

abbreviation keys_of :: "(string \<times> udpSession) list \<Rightarrow> (string \<times> u32) list" where
  "keys_of l \<equiv> map (\<lambda>(k, u). (k, us_channelID u)) l"

lemma delete_middle:
  "distinct (map fst (pre @ (k, v) # r)) \<Longrightarrow> AList.delete k (pre @ (k, v) # r) = pre @ r"
  by (induction pre) (auto simp: AList.delete_idem)

lemma cleanup_sessions_core:
  "cleanup_sessions e l c s = (l', c', s') \<Longrightarrow>
    core_wf (cl_channelConns c) (Some (pre @ keys_of l)) (cl_connLimiter c) \<Longrightarrow>
    core_wf (cl_channelConns c) (Some (pre @ keys_of l')) (cl_connLimiter c')
    \<and> cl_channelConns c' = cl_channelConns c \<and> cl_cid c' = cl_cid c \<and> set l' \<subseteq> set l
    \<and> no_dyn (sh_mgr s') = no_dyn (sh_mgr s) \<and> sh_exts s' = sh_exts s \<and> sh_nextCID s' = sh_nextCID s"
proof (induction e l c s arbitrary: l' c' s' pre rule: cleanup_sessions.induct)
  case (2 e k u us c s)
  show ?case
  proof (cases "he_now (se_hook e) - us_lastActive u > udp_idle_limit")
    case True
    let ?c = "limiter_close (snd (writeFrameLocked frameClose (us_channelID u) [] c))"
    have "distinct (map fst (pre @ (k, us_channelID u) # keys_of us))"
      using 2(4) by (simp add: core_wf_def)
    then have "core_wf (cl_channelConns ?c) (Some (pre @ keys_of us)) (cl_connLimiter ?c)"
      using core_delete_session [of "cl_channelConns c" "pre @ keys_of ((k, u) # us)" "cl_connLimiter c" k] 2(4)
      by (simp add: delete_middle)
    moreover have "cleanup_sessions e us ?c (on_close e (us_channelID u) s) = (l', c', s')"
      using 2(3) True by simp
    ultimately have "core_wf (cl_channelConns ?c) (Some (pre @ keys_of l')) (cl_connLimiter c')
      \<and> cl_channelConns c' = cl_channelConns ?c \<and> cl_cid c' = cl_cid ?c \<and> set l' \<subseteq> set us
      \<and> no_dyn (sh_mgr s') = no_dyn (sh_mgr (on_close e (us_channelID u) s))
      \<and> sh_exts s' = sh_exts (on_close e (us_channelID u) s) \<and> sh_nextCID s' = sh_nextCID (on_close e (us_channelID u) s)"
      using 2(1) [OF True] by blast
    then show ?thesis by (auto simp del: fun_upd_apply)
  next
    case False
    obtain l2 c2 s2 where r: "cleanup_sessions e us c s = (l2, c2, s2)" by (cases "cleanup_sessions e us c s") auto
    with 2(2) [OF False r, of "pre @ [(k, us_channelID u)]"] 2(3,4) False show ?thesis by auto
  qed
qed simp

lemma kept_udp_cleanup:
  assumes "udp_cleanup e c s = (fl, c', s')" and "cl_wf c" and "no_dyn (sh_mgr s)"
  shows "kept X c s c' s'"
proof (cases "cl_udpLocked c \<or> cl_udpSessions c = None")
  case True
  with assms show ?thesis by (auto simp: udp_cleanup_def kept_id split: if_splits)
next
  case False
  then obtain l where l: "\<not> cl_udpLocked c" "cl_udpSessions c = Some l" by auto
  obtain l' c1 s1 where cs: "cleanup_sessions e l c s = (l', c1, s1)" by (cases "cleanup_sessions e l c s") auto
  with assms(1) l have r: "c' = c1\<lparr>cl_udpSessions := Some l'\<rparr>" "s' = s1" by (auto simp: udp_cleanup_def)
  have "core_wf (cl_channelConns c) (Some ([] @ keys_of l)) (cl_connLimiter c)"
    using assms(2) l by (simp add: cl_wf_def skeys_def)
  note core = cleanup_sessions_core [OF cs this]
  then have "cl_wf c'" by (simp add: cl_wf_def skeys_def r)
  moreover have "ids c' \<subseteq> ids c" using core l by (force simp: ids_def core_ids_def skeys_def r)
  moreover have "owned c' = owned c" using core by (simp add: owned_def r)
  ultimately show ?thesis using core assms(3) by (simp add: kept_def r)
qed

section \<open>The handlers that add\<close>

lemma kept_add:
  assumes "cl_wf c'" and "cl_cid c' = cl_cid c" and "no_dyn (sh_mgr s')" and "dom (sh_exts s') = dom (sh_exts s)"
    and "owned c' \<subseteq> owned c \<union> X" and "sh_nextCID s' = sh_nextCID s + 1" and "ids c' \<subseteq> insert (sh_nextCID s + 1) (ids c)"
  shows "kept X c s c' s'"
  using assms by (simp add: kept_def)

lemma kept_tcp_accept:
  assumes "tcp_accept e svc x c s = (fl, c', s')" and "cl_wf c" and "no_dyn (sh_mgr s)"
    and fresh: "sh_nextCID s + 1 \<notin> ids c" "x \<notin> owned c"
  shows "kept {x} c s c' s'"
proof -
  let ?addr = "ext_addr x s" and ?ch = "sh_nextCID s + 1"
  obtain ok m where oa: "mgr_OnAccept (se_hook e) ''tcp'' ?addr (sh_mgr s) = (ok, m)" by force
  have m: "no_dyn m" using no_dyn_OnAccept [of "se_hook e" "''tcp''" ?addr "sh_mgr s"] oa assms(3) by simp
  have refuse: ?thesis if "c' = c" "s' = close_ext x (s\<lparr>sh_mgr := m\<rparr>)"
    using that assms(2) m by (simp add: kept_refl)
  show ?thesis
  proof (cases "\<not> ok \<or> filter_refuses ''tcp'' ?addr c")
    case True
    with assms(1) oa refuse show ?thesis by (auto simp: tcp_accept_def Let_def split: if_splits)
  next
    case False
    obtain b c1 where la: "limiter_accept c = (b, c1)" by force
    show ?thesis
    proof (cases b)
      case False
      with la limiter_accept_False have "c1 = c" by simp
      with assms(1) oa la \<open>\<not> (\<not> ok \<or> _)\<close> False refuse show ?thesis by (auto simp: tcp_accept_def Let_def)
    next
      case True
      note a = limiter_accept_True [OF la [unfolded eqTrueI [OF True]]]
      let ?c2 = "c1\<lparr>cl_channelConns := AList.update ?ch x (cl_channelConns c1)\<rparr>"
      let ?s1 = "s\<lparr>sh_mgr := m, sh_nextCID := ?ch\<rparr>"
      obtain ac m2 where op: "mgr_OnOpen (se_hook e) ''tcp'' ?addr ?ch (sm_LocalPort svc) m = (ac, m2)" by force
      have m2: "no_dyn m2" "\<not> act_Close ac"
        using no_dyn_OnOpen [of "se_hook e" "''tcp''" ?addr ?ch "sm_LocalPort svc" m]
          no_dyn_open [OF m, of "se_hook e" "''tcp''" ?addr ?ch "sm_LocalPort svc"] op m by simp_all
      obtain r c3 where sd: "rc_sendControl (new_conn_msg ?ch svc ?addr) ?c2 = (r, c3)" by force
      have sc: "same_core ?c2 c3" using same_core_send [of ?c2 "new_conn_msg ?ch svc ?addr"] sd by simp
      have ex: "ext_addr x (s\<lparr>sh_mgr := m\<rparr>) = ?addr" by (simp add: ext_addr_def)
      have new: "AList.update ?ch x (cl_channelConns c1) = cl_channelConns c @ [(?ch, x)]"
        using fresh(1) a(3) by (simp add: update_new ids_def core_ids_def)
      have xs: "x \<notin> snd ` set (cl_channelConns c)" using fresh(2) by (simp add: owned_def)
      have "cl_wf ?c2" using cl_wf_add_channel [OF assms(2) la [unfolded eqTrueI [OF True]] fresh(1) xs]
        by (simp add: cl_wf_def skeys_def)
      then have k2: "kept {x} c s ?c2 (s\<lparr>sh_nextCID := ?ch, sh_mgr := m2\<rparr>)"
        using m2 a by (intro kept_add) (auto simp: owned_def ids_def core_ids_def new [unfolded a(3)] skeys_def)
      then have wf3: "cl_wf c3" by (simp add: kept_def same_core_wf [OF sc])
      have res: "tcp_accept e svc x c s = (case r of
          Some err \<Rightarrow> (Return, limiter_close (without_channel ?ch c3),
             tcp_loop_exit svc (close_ext x (on_close e ?ch (s\<lparr>sh_nextCID := ?ch, sh_mgr := m2\<rparr>))))
        | None \<Rightarrow> (Continue, c3\<lparr>cl_pipes := cl_pipes c3 @ [(?ch, x)]\<rparr>, s\<lparr>sh_nextCID := ?ch, sh_mgr := m2\<rparr>))"
        using False oa la True op m2 sd
        by (simp add: tcp_accept_def tcp_open_def Let_def ex without_channel_def next_cid_def split: option.split)
      show ?thesis
      proof (cases r)
        case None
        have "same_core ?c2 (c3\<lparr>cl_pipes := cl_pipes c3 @ [(?ch, x)]\<rparr>)"
          using sc by (simp add: same_core_def skeys_def)
        with kept_same_core [OF k2] res None assms(1) show ?thesis by simp
      next
        case (Some er)
        have c3: "cl_channelConns c3 = cl_channelConns c @ [(?ch, x)]" using sc new by (simp add: same_core_def)
        then have mo: "map_of (cl_channelConns c3) ?ch = Some x"
          using fresh(1) by (simp add: ids_def core_ids_def map_add_def map_of_eq_None_iff split: option.split)
            (metis fst_conv image_eqI map_of_SomeD)
        have "s' = tcp_loop_exit svc (close_ext x (on_close e ?ch (s\<lparr>sh_nextCID := ?ch, sh_mgr := m2\<rparr>)))"
            "c' = limiter_close (without_channel ?ch c3)"
          using res Some assms(1) by simp_all
        then have k3: "kept {x} c3 (s\<lparr>sh_nextCID := ?ch, sh_mgr := m2\<rparr>) c' s'" "sh_nextCID s' = ?ch"
          using kept_drop_channel [OF wf3 mo] m2 by simp_all
        have "kept {x} ?c2 (s\<lparr>sh_nextCID := ?ch, sh_mgr := m2\<rparr>) c' s'" by (rule kept_from [OF sc refl refl k3(1)])
        with k2 k3(2) show ?thesis by (auto simp: kept_def)
      qed
    qed
  qed
qed

lemma kept_udp_forward:
  assumes "udp_forward z e addr ch d c s = (fl, c', s')" and "cl_wf c" and "no_dyn (sh_mgr s)"
  shows "kept X c s c' s'" and "sh_nextCID s' = sh_nextCID s"
proof -
  obtain c1 s2 r c2 where
    f: "udp_forward z e addr ch d c s = (if r = None then Continue else Return, c2, s2)"
    and w: "writeFrameLocked (fst (pack z c (sh_mgr s) d)) ch (snd (pack z c (sh_mgr s) d)) c1 = (r, c2)"
    and c1: "c1 = fst (rate_wait e (length d) c (s\<lparr>sh_mgr := snd (mgr_OnData ch ''rx'' (int (length d)) (sh_mgr s))\<rparr>))"
    and s2: "s2 = snd (rate_wait e (length d) c (s\<lparr>sh_mgr := snd (mgr_OnData ch ''rx'' (int (length d)) (sh_mgr s))\<rparr>))"
    by (rule udp_forward_cases)
  have "same_core c c1" unfolding c1 by (rule same_core_rate)
  moreover have "same_core c1 c2"
    using same_core_write [of c1 "fst (pack z c (sh_mgr s) d)" ch "snd (pack z c (sh_mgr s) d)"] w by simp
  ultimately have "same_core c c2" by (rule same_core_trans)
  then show "kept X c s c' s'" using f assms by (intro same_core_kept) (auto simp: s2)
  show "sh_nextCID s' = sh_nextCID s" using f assms(1) by (simp add: s2)
qed

lemma kept_udp_datagram:
  assumes "udp_datagram z e svc conn addr d c s = (fl, c', s')" and "cl_wf c" and "no_dyn (sh_mgr s)"
    and fresh: "sh_nextCID s + 1 \<notin> ids c" and "fl \<noteq> Crash"
  shows "kept X c s c' s'"
proof -
  let ?now = "he_now (se_hook e)" and ?ch = "sh_nextCID s + 1"
  obtain ok m where oa: "mgr_OnAccept (se_hook e) ''udp'' addr (sh_mgr s) = (ok, m)" by force
  have m: "no_dyn m" using no_dyn_OnAccept [of "se_hook e" "''udp''" addr "sh_mgr s"] oa assms(3) by simp
  have same: ?thesis if "c' = c" "s' = s\<lparr>sh_mgr := m\<rparr>"
    using that assms(2) m by (simp add: kept_refl)
  consider "\<not> ok \<or> filter_refuses ''udp'' addr c \<or> cl_udpLocked c"
    | (known) u where "ok" "\<not> filter_refuses ''udp'' addr c" "\<not> cl_udpLocked c" "lookup_session addr c = Some u"
    | (new) "ok" "\<not> filter_refuses ''udp'' addr c" "\<not> cl_udpLocked c" "lookup_session addr c = None"
    by (cases "lookup_session addr c") auto
  then show ?thesis
  proof cases
    case 1
    with assms(1) oa same show ?thesis by (auto simp: udp_datagram_def Let_def split: if_splits)
  next
    case (known u)
    let ?c = "touch_session addr ?now c"
    have "udp_forward z e addr (us_channelID u) d ?c (s\<lparr>sh_mgr := m\<rparr>) = (fl, c', s')"
      using assms(1) oa known by (simp add: udp_datagram_def Let_def)
    then have "kept X ?c (s\<lparr>sh_mgr := m\<rparr>) c' s'"
      by (rule kept_udp_forward) (simp_all add: assms(2) m same_core_wf [OF same_core_touch])
    then show ?thesis by (rule kept_from [OF same_core_touch, rotated 2]) simp_all
  next
    case new
    obtain b c1 where la: "limiter_accept c = (b, c1)" by force
    show ?thesis
    proof (cases b)
      case False
      with la limiter_accept_False have "c1 = c" by simp
      with assms(1) oa la new False same show ?thesis by (auto simp: udp_datagram_def Let_def)
    next
      case True
      note la1 = la [unfolded eqTrueI [OF True]]
      note a = limiter_accept_True [OF la1]
      obtain l where l: "cl_udpSessions c1 = Some l"
        using assms(1,5) oa new la True by (cases "cl_udpSessions c1") (auto simp: udp_datagram_def Let_def next_cid_def)
      let ?u = "\<lparr>us_channelID = ?ch, us_localPort = sm_LocalPort svc, us_remoteAddr = addr,
          us_udpConn = conn, us_lastActive = ?now\<rparr>"
      let ?c2 = "c1\<lparr>cl_udpSessions := Some (AList.update addr ?u l)\<rparr>"
      obtain ac m2 where op: "mgr_OnOpen (se_hook e) ''udp'' addr ?ch (sm_LocalPort svc) m = (ac, m2)" by force
      have m2: "no_dyn m2" "\<not> act_Close ac"
        using no_dyn_OnOpen [of "se_hook e" "''udp''" addr ?ch "sm_LocalPort svc" m]
          no_dyn_open [OF m, of "se_hook e" "''udp''" addr ?ch "sm_LocalPort svc"] op m by simp_all
      let ?c3 = "snd (rc_sendControl (new_udp_conn_msg ?ch svc addr) ?c2)" and ?s3 = "s\<lparr>sh_nextCID := ?ch, sh_mgr := m2\<rparr>"
      have fw: "udp_forward z e addr ?ch d (touch_session addr ?now ?c3) ?s3 = (fl, c', s')"
        using assms(1) oa new la True l op m2 by (simp add: udp_datagram_def Let_def next_cid_def)
      have sc: "same_core ?c2 (touch_session addr ?now ?c3)"
        by (rule same_core_trans [OF same_core_send same_core_touch])
      note add = cl_wf_add_session [OF assms(2) la1 fresh l new(4), of ?u]
      then have wf2: "cl_wf ?c2" and sk: "skeys ?c2 = Some (sess_list (skeys c) @ [(addr, ?ch)])" by simp_all
      have k2: "kept X c s ?c2 ?s3"
        using m2 a wf2 by (intro kept_add) (auto simp: owned_def ids_def core_ids_def sk)
      have wf3: "cl_wf (touch_session addr ?now ?c3)" using wf2 same_core_wf [OF sc] by simp
      have "kept X (touch_session addr ?now ?c3) ?s3 c' s'" and n: "sh_nextCID s' = sh_nextCID ?s3"
        using kept_udp_forward [OF fw wf3] m2 by simp_all
      then have "kept X ?c2 ?s3 c' s'" by (intro kept_from [OF sc refl refl])
      with k2 n show ?thesis by (auto simp: kept_def)
    qed
  qed
qed

end
