(* ===== verification/ServerSystem.thy ===== *)
theory ServerSystem
  imports ServerSteps
begin

text \<open>
  The server as a transition system: any number of clients, each going through its
  registration, its relay loop and its teardown, while the accept loops, pipes, UDP loops and
  cleanup tickers started for it run in any order. One event is one iteration of one of
  these goroutines. The events are executable; reachability counts them, because channel ids
  are 32-bit numbers and repeat after \<open>2 ^ 32\<close> allocations.
\<close>

section \<open>Events\<close>

text \<open>
  Where the goroutine of \<open>handleRelayClient\<close> is. \<open>PReplying\<close> is between the two writes of the
  reply: the header is on the connection, the payload is not.
\<close>

datatype phase =
    PNone
  | PNew
  | PListening "nat list" "serviceMapping list" string
  | PReplying "nat list" bytes
  | PServing "nat list"
  | PStuck
  | PDone

record sys =
  sy_srv :: server
  sy_phase :: "u32 \<Rightarrow> phase"
  sy_checker :: bool
  sy_crashed :: bool

datatype srv_event =
    EvConnect wconn
  | EvHello u32 srv_env string "rd list"
  | EvReply u32
  | EvReplyWrite u32
  | EvAccept u32 serviceMapping nat string srv_env
  | EvAcceptError u32 serviceMapping
  | EvPipe u32 u32 nat "io_err + bytes" srv_env
  | EvDatagram u32 serviceMapping nat string bytes srv_env
  | EvUdpError u32 serviceMapping nat io_err
  | EvCleanup u32 srv_env
  | EvFrame u32 srv_env frame
  | EvEnd u32
  | EvCheck srv_env

definition sys_init :: "Config \<Rightarrow> Manager \<Rightarrow> RateLimit option \<Rightarrow> sys" where
  "sys_init cfg m r = \<lparr>sy_srv = \<lparr>sv_sh = \<lparr>sh_cfg = cfg, sh_clients = [], sh_nextCID = 0, sh_listeners = Map.empty,
       sh_lnext = 0, sh_mgr = m, sh_rate = r, sh_exts = Map.empty, sh_udp_out = []\<rparr>, sv_objs = Map.empty\<rparr>,
     sy_phase = (\<lambda>_. PNone), sy_checker = True, sy_crashed = False\<rparr>"

definition put :: "u32 \<Rightarrow> flow \<times> relayClient \<times> shared \<Rightarrow> sys \<Rightarrow> sys" where
  "put cid = (\<lambda>(fl, c, s) y. y\<lparr>sy_srv := \<lparr>sv_sh = s, sv_objs = (sv_objs (sy_srv y))(cid \<mapsto> c)\<rparr>,
     sy_crashed := (fl = Crash)\<rparr>)"

definition set_phase :: "u32 \<Rightarrow> phase \<Rightarrow> sys \<Rightarrow> sys" where
  "set_phase cid p y = y\<lparr>sy_phase := (sy_phase y)(cid := p)\<rparr>"

text \<open>A client whose registration message was handled: its goroutines may be running.\<close>

definition live :: "u32 \<Rightarrow> sys \<Rightarrow> relayClient option" where
  "live cid y = (if sy_phase y cid = PNone \<or> sy_phase y cid = PNew then None else sv_objs (sy_srv y) cid)"

text \<open>A loop that returned or waits for ever takes no further step.\<close>

definition goes_on :: "flow \<Rightarrow> bool" where
  "goes_on fl \<longleftrightarrow> fl = Continue"

definition with_ext :: "nat \<Rightarrow> string \<Rightarrow> shared \<Rightarrow> shared" where
  "with_ext x addr s = s\<lparr>sh_exts := (sh_exts s)(x \<mapsto> \<lparr>x_addr = addr, x_sent = [], x_closed = False\<rparr>)\<rparr>"

fun srv_exec :: "lz4 \<Rightarrow> srv_event \<Rightarrow> sys \<Rightarrow> sys option" where
  "srv_exec z (EvConnect w) y =
     (case handle_connect w (sv_sh (sy_srv y)) of
        (c, s) \<Rightarrow> Some (set_phase (cl_cid c) PNew (put (cl_cid c) (Continue, c, s) y)))"
| "srv_exec z (EvHello cid e ip input) y =
     (case (sy_phase y cid, sv_objs (sy_srv y) cid) of
        (PNew, Some c) \<Rightarrow>
          (case handle_hello e ip input c (sv_sh (sy_srv y)) of
             (Listening lns failed pub, c1, s1) \<Rightarrow>
               Some (set_phase cid (PListening lns failed pub) (put cid (Continue, c1, s1) y))
           | (Refused_at why, c1, s1) \<Rightarrow> Some (set_phase cid PDone (put cid (Return, c1, s1) y)))
      | _ \<Rightarrow> None)"
| "srv_exec z (EvReply cid) y =
     (case (sy_phase y cid, live cid y) of
        (PListening lns failed pub, Some c) \<Rightarrow>
          (case handle_reply lns failed pub c (sv_sh (sy_srv y)) of
             (b, c1, s1) \<Rightarrow> Some (set_phase cid (if b then PServing lns else PDone) (put cid (Continue, c1, s1) y)))
      | _ \<Rightarrow> None)"
| "srv_exec z (EvReplyWrite cid) y =
     (case (sy_phase y cid, live cid y) of
        (PListening lns failed pub, Some c) \<Rightarrow>
          (let payload = marshal_msg (ok_msg pub failed (sh_mgr (sv_sh (sy_srv y))))
           in case reply_write lns (reply_header payload) c (sv_sh (sy_srv y)) of
                (b, c1, s1) \<Rightarrow> Some (set_phase cid (if b then PReplying lns payload else PDone) (put cid (Continue, c1, s1) y)))
      | (PReplying lns payload, Some c) \<Rightarrow>
          (case reply_write lns payload c (sv_sh (sy_srv y)) of
             (b, c1, s1) \<Rightarrow> Some (set_phase cid (if b then PServing lns else PDone) (put cid (Continue, c1, s1) y)))
      | _ \<Rightarrow> None)"
| "srv_exec z (EvAccept cid svc x addr e) y =
     (case live cid y of
        Some c \<Rightarrow>
          if svc \<in> set (cl_tcpLoops c) \<and> sh_exts (sv_sh (sy_srv y)) x = None
          then (case tcp_accept e svc x c (with_ext x addr (sv_sh (sy_srv y))) of
                  (fl, c1, s1) \<Rightarrow>
                    Some (put cid (fl, if goes_on fl then c1 else c1\<lparr>cl_tcpLoops := remove1 svc (cl_tcpLoops c1)\<rparr>, s1) y))
          else None
      | None \<Rightarrow> None)"
| "srv_exec z (EvAcceptError cid svc) y =
     (case live cid y of
        Some c \<Rightarrow>
          if svc \<in> set (cl_tcpLoops c)
          then (case tcp_accept_error svc c (sv_sh (sy_srv y)) of
                  (fl, c1, s1) \<Rightarrow> Some (put cid (fl, c1\<lparr>cl_tcpLoops := remove1 svc (cl_tcpLoops c1)\<rparr>, s1) y))
          else None
      | None \<Rightarrow> None)"
| "srv_exec z (EvPipe cid ch x r e) y =
     (case live cid y of
        Some c \<Rightarrow>
          if (ch, x) \<in> set (cl_pipes c)
          then (case pipe_step z e ch x r c (sv_sh (sy_srv y)) of
                  (fl, c1, s1) \<Rightarrow>
                    Some (put cid (fl, if goes_on fl then c1 else c1\<lparr>cl_pipes := remove1 (ch, x) (cl_pipes c1)\<rparr>, s1) y))
          else None
      | None \<Rightarrow> None)"
| "srv_exec z (EvDatagram cid svc conn addr d e) y =
     (case live cid y of
        Some c \<Rightarrow>
          if (svc, conn) \<in> set (cl_udpLoops c)
          then (case udp_datagram z e svc conn addr d c (sv_sh (sy_srv y)) of
                  (fl, c1, s1) \<Rightarrow> Some (put cid (fl, udp_loop_end svc conn fl c1, s1) y))
          else None
      | None \<Rightarrow> None)"
| "srv_exec z (EvUdpError cid svc conn err) y =
     (case live cid y of
        Some c \<Rightarrow>
          if (svc, conn) \<in> set (cl_udpLoops c)
          then Some (put cid (Continue, udp_loop_end svc conn (udp_read_error err) c, sv_sh (sy_srv y)) y)
          else None
      | None \<Rightarrow> None)"
| "srv_exec z (EvCleanup cid e) y =
     (case live cid y of
        Some c \<Rightarrow> if cl_stopped c then None else Some (put cid (udp_cleanup e c (sv_sh (sy_srv y))) y)
      | None \<Rightarrow> None)"
| "srv_exec z (EvFrame cid e f) y =
     (case (sy_phase y cid, live cid y) of
        (PServing lns, Some c) \<Rightarrow>
          (case relay_frame z e f c (sv_sh (sy_srv y)) of
             (fl, c1, s1) \<Rightarrow> Some (set_phase cid (if goes_on fl then PServing lns else PStuck) (put cid (fl, c1, s1) y)))
      | _ \<Rightarrow> None)"
| "srv_exec z (EvEnd cid) y =
     (case (sy_phase y cid, live cid y) of
        (PServing lns, Some c) \<Rightarrow>
          (case relay_teardown lns c (sv_sh (sy_srv y)) of
             (fl, c1, s1) \<Rightarrow> Some (set_phase cid (if fl = Return then PDone else PStuck) (put cid (fl, c1, s1) y)))
      | _ \<Rightarrow> None)"
| "srv_exec z (EvCheck e) y =
     (if sy_checker y then
        (case plugin_check e (sy_srv y) of (fl, v) \<Rightarrow> Some (y\<lparr>sy_srv := v, sy_checker := goes_on fl\<rparr>))
      else None)"

inductive srv_reach :: "lz4 \<Rightarrow> sys \<Rightarrow> nat \<Rightarrow> sys \<Rightarrow> bool" for z y0 where
  reach_start: "srv_reach z y0 0 y0"
| reach_event: "srv_reach z y0 n y \<Longrightarrow> \<not> sy_crashed y \<Longrightarrow> srv_exec z ev y = Some y' \<Longrightarrow> srv_reach z y0 (Suc n) y'"

section \<open>The invariant\<close>

definition cl_fresh :: "relayClient \<Rightarrow> bool" where
  "cl_fresh c \<longleftrightarrow> cl_channelConns c = [] \<and> cl_udpSessions c = Some [] \<and> cl_connLimiter c = None"

definition sys_inv :: "nat \<Rightarrow> sys \<Rightarrow> bool" where
  "sys_inv n y \<longleftrightarrow> unat (sh_nextCID (sv_sh (sy_srv y))) \<le> n \<and> no_dyn (sh_mgr (sv_sh (sy_srv y)))
     \<and> (\<forall>cid c. sv_objs (sy_srv y) cid = Some c \<longrightarrow> cl_wf c \<and> cl_cid c = cid
          \<and> cid \<le> sh_nextCID (sv_sh (sy_srv y)) \<and> (\<forall>i \<in> ids c. i \<le> sh_nextCID (sv_sh (sy_srv y)))
          \<and> owned c \<subseteq> dom (sh_exts (sv_sh (sy_srv y))) \<and> (sy_phase y cid = PNew \<longrightarrow> cl_fresh c))
     \<and> (\<forall>cid1 c1 cid2 c2. sv_objs (sy_srv y) cid1 = Some c1 \<longrightarrow> sv_objs (sy_srv y) cid2 = Some c2 \<longrightarrow> cid1 \<noteq> cid2
          \<longrightarrow> ids c1 \<inter> ids c2 = {} \<and> owned c1 \<inter> owned c2 = {})"

lemma sys_invD:
  assumes "sys_inv n y" and "sv_objs (sy_srv y) cid = Some c"
  shows "cl_wf c" "cl_cid c = cid" "cid \<le> sh_nextCID (sv_sh (sy_srv y))" "\<And>i. i \<in> ids c \<Longrightarrow> i \<le> sh_nextCID (sv_sh (sy_srv y))"
    "owned c \<subseteq> dom (sh_exts (sv_sh (sy_srv y)))" "sy_phase y cid = PNew \<Longrightarrow> cl_fresh c"
  using assms unfolding sys_inv_def by blast+

lemma sys_inv_mgr: "sys_inv n y \<Longrightarrow> no_dyn (sh_mgr (sv_sh (sy_srv y)))"
  by (simp add: sys_inv_def)

text \<open>Below the bound the next id is new.\<close>

lemma next_fresh:
  fixes i k :: u32
  assumes "unat k \<le> n" and "Suc n < 2 ^ 32"
  shows "unat (k + 1) = unat k + 1" and "i \<le> k \<Longrightarrow> i \<noteq> k + 1" and "i \<le> k \<Longrightarrow> i \<le> k + 1"
proof -
  from assms show k: "unat (k + 1) = unat k + 1" by (simp add: unat_plus_if')
  then show "i \<le> k \<Longrightarrow> i \<noteq> k + 1" "i \<le> k \<Longrightarrow> i \<le> k + 1" by (auto simp: word_le_nat_alt)
qed

lemma inv_put:
  assumes inv: "sys_inv n y" and n: "Suc n < 2 ^ 32" and obj: "sv_objs (sy_srv y) cid = Some c"
    and k: "kept X c s0 c' s'" and s0: "sh_nextCID s0 = sh_nextCID (sv_sh (sy_srv y))"
    and X: "dom (sh_exts s0) = dom (sh_exts (sv_sh (sy_srv y))) \<union> X" "X \<inter> dom (sh_exts (sv_sh (sy_srv y))) = {}"
    and p: "p = PNew \<Longrightarrow> cl_fresh c'"
  shows "sys_inv (Suc n) (set_phase cid p (put cid (fl, c', s') y))"
proof -
  let ?s = "sv_sh (sy_srv y)" and ?k = "sh_nextCID (sv_sh (sy_srv y))"
  have nk: "unat ?k \<le> n" using inv by (simp add: sys_inv_def)
  note fr = next_fresh [OF nk n]
  note d = sys_invD [OF inv]
  have next': "sh_nextCID s' = ?k \<or> sh_nextCID s' = ?k + 1" using k s0 by (auto simp: kept_def)
  have mono: "i \<le> sh_nextCID s'" if "i \<le> ?k" for i using next' fr(3) that by auto
  have ids': "ids c' \<subseteq> ids c \<or> (sh_nextCID s' = ?k + 1 \<and> ids c' \<subseteq> insert (?k + 1) (ids c))"
    using k s0 by (auto simp: kept_def)
  have up: "i \<le> sh_nextCID s'" if "i \<in> ids c'" for i
    using that ids' mono d(4) [OF obj] by auto
  have own: "owned c' \<subseteq> owned c \<union> X" "dom (sh_exts s') = dom (sh_exts ?s) \<union> X"
    using k X by (auto simp: kept_def)
  have dis: "ids c' \<inter> ids c2 = {} \<and> owned c' \<inter> owned c2 = {}"
    if "sv_objs (sy_srv y) cid2 = Some c2" "cid2 \<noteq> cid" for cid2 c2
  proof -
    have "ids c \<inter> ids c2 = {}" "owned c \<inter> owned c2 = {}" using inv obj that unfolding sys_inv_def by blast+
    moreover have "?k + 1 \<notin> ids c2" using d(4) [OF that(1)] fr(2) by auto
    moreover have "X \<inter> owned c2 = {}" using d(5) [OF that(1)] X(2) by auto
    ultimately show ?thesis using ids' own by blast
  qed
  have "unat (sh_nextCID s') \<le> Suc n" using next' nk fr(1) by auto
  moreover have "no_dyn (sh_mgr s')" "cl_wf c'" "cl_cid c' = cid" using k d(2) [OF obj] by (simp_all add: kept_def)
  moreover have "cid \<le> sh_nextCID s'" using d(3) [OF obj] mono by blast
  moreover have "owned c' \<subseteq> dom (sh_exts s')" using own d(5) [OF obj] by auto
  moreover have "owned c2 \<subseteq> dom (sh_exts s')" if "sv_objs (sy_srv y) cid2 = Some c2" for cid2 c2
    using own(2) d(5) [OF that] by blast
  ultimately show ?thesis
    using up dis mono p d inv unfolding sys_inv_def
    by (simp add: put_def set_phase_def Int_commute)
qed

lemma inv_put_same:
  assumes "sys_inv n y" and "Suc n < 2 ^ 32" and "sv_objs (sy_srv y) cid = Some c" and "sy_phase y cid \<noteq> PNew"
    and "kept {} c (sv_sh (sy_srv y)) c' s'"
  shows "sys_inv (Suc n) (put cid (fl, c', s') y)"
proof -
  have "set_phase cid (sy_phase y cid) (put cid (fl, c', s') y) = put cid (fl, c', s') y"
    by (simp add: set_phase_def put_def)
  then show ?thesis
    using inv_put [OF assms(1-3,5) refl _ _, of "sy_phase y cid" fl] assms(4) by simp
qed

lemma inv_put_phase:
  assumes "sys_inv n y" and "Suc n < 2 ^ 32" and "sv_objs (sy_srv y) cid = Some c"
    and "kept {} c (sv_sh (sy_srv y)) c' s'" and "p \<noteq> PNew"
  shows "sys_inv (Suc n) (set_phase cid p (put cid (fl, c', s') y))"
  by (rule inv_put [OF assms(1-4) refl]) (use assms(5) in simp_all)

lemma sys_inv_Suc:
  assumes "sys_inv n y" shows "sys_inv (Suc n) y"
  using assms unfolding sys_inv_def by auto

text \<open>Fields of a client that its bookkeeping does not read.\<close>

lemma same_core_loops:
  "same_core c (c\<lparr>cl_tcpLoops := a\<rparr>)" "same_core c (udp_loop_end svc conn fl c)" "same_core c (c\<lparr>cl_pipes := d\<rparr>)"
  by (simp_all add: same_core_def skeys_def)

text \<open>One of the two writes of the reply.\<close>

lemma reply_write_event:
  assumes "srv_exec z (EvReplyWrite cid) y = Some y'"
  obtains c lns bs b c1 s1 p where "live cid y = Some c" and "reply_write lns bs c (sv_sh (sy_srv y)) = (b, c1, s1)"
    and "y' = set_phase cid p (put cid (Continue, c1, s1) y)" and "p \<noteq> PNew" and "p \<noteq> PStuck"
    and "(\<exists>failed pub. sy_phase y cid = PListening lns failed pub) \<or> sy_phase y cid = PReplying lns bs"
  using assms by (auto simp: Let_def split: phase.splits option.splits prod.splits if_splits)

section \<open>Registration and teardown\<close>

lemma cl_fresh_wf: "cl_fresh c \<Longrightarrow> cl_wf c \<and> ids c = {} \<and> owned c = {}"
  by (simp add: cl_fresh_def cl_wf_def core_wf_def skeys_def ids_def core_ids_def owned_def)

definition cl_empty :: "relayClient \<Rightarrow> bool" where
  "cl_empty c \<longleftrightarrow> cl_channelConns c = [] \<and> cl_udpSessions c = Some []
     \<and> (\<forall>l. cl_connLimiter c = Some l \<longrightarrow> limit_Current l = 0)"

lemma cl_empty_wf: "cl_empty c \<Longrightarrow> cl_wf c \<and> ids c = {} \<and> owned c = {}"
  by (auto simp: cl_empty_def cl_wf_def core_wf_def skeys_def ids_def core_ids_def owned_def)

lemma NewConnLimit_zero: "limit_Current (NewConnLimit k) = 0"
  by (simp add: NewConnLimit_def limit_Current_def)

lemma apply_settings_empty: "cl_fresh c \<Longrightarrow> cl_empty (apply_settings now msg c) \<and> cl_cid (apply_settings now msg c) = cl_cid c"
  by (auto simp: cl_fresh_def cl_empty_def apply_settings_def Let_def NewConnLimit_zero split: sum.splits)

lemma start_services_core:
  assumes "start_services e svcs c s = (lns, failed, c1, s1)"
  shows "same_core c c1 \<and> sh_mgr s1 = sh_mgr s \<and> sh_exts s1 = sh_exts s \<and> sh_nextCID s1 = sh_nextCID s"
proof -
  obtain n ls where s1: "s1 = s\<lparr>sh_lnext := n, sh_listeners := ls\<rparr>" using start_services_frame [OF assms] by blast
  obtain a b d where c1: "c1 = c\<lparr>cl_udpConns := a, cl_udpLoops := b, cl_tcpLoops := d\<rparr>"
    using start_services_frame [OF assms] by blast
  show ?thesis by (simp add: s1 c1 same_core_def skeys_def)
qed

lemma drop_client_core: "drop_client c s = (c', s') \<Longrightarrow> same_core c c'"
  by (auto simp: drop_client_def close_conn_def same_core_def skeys_def)

lemma kept_hello:
  assumes "handle_hello e ip input c s = (r, c', s')" and "cl_fresh c" and "no_dyn (sh_mgr s)"
  shows "kept {} c s c' s'"
proof (cases r)
  case (Refused_at why)
  then have s': "s' = s\<lparr>sh_clients := removeAll (cl_cid c) (sh_clients s)\<rparr>" using handle_hello_refused assms(1) by blast
  have "same_core c c'"
    using assms(1) Refused_at drop_client_core [of c s c' s'] drop_client_core [of "snd (rc_sendControl _ c)" s c' s']
      same_core_trans [OF same_core_send]
    by (cases "srv_readFrame input"; cases "fst (srv_readFrame input)")
      (auto simp: handle_hello_def Let_def split: if_splits option.splits prod.splits)
  then show ?thesis using cl_fresh_wf [OF assms(2)] assms(3) by (intro same_core_kept) (simp_all add: s')
next
  case (Listening lns failed pub)
  then obtain msg where st: "start_services e (c_Services msg) (apply_settings (he_now (se_hook e)) msg c) s = (lns, failed, c', s')"
    using assms(1) by (auto elim: handle_hello_Listening)
  have em: "cl_empty (apply_settings (he_now (se_hook e)) msg c)" "cl_cid (apply_settings (he_now (se_hook e)) msg c) = cl_cid c"
    using apply_settings_empty [OF assms(2)] by blast+
  note core = start_services_core [OF st]
  then show ?thesis
    using same_core_wf cl_empty_wf [OF em(1)] em(2) assms(3) by (auto simp: kept_def)
qed

lemma kept_reply_failed:
  assumes "reply_failed lns c s = (b, c', s')" and "cl_wf c" and "no_dyn (sh_mgr s)"
  shows "kept {} c s c' s'"
proof -
  from assms(1) have d: "drop_client (client_stop c) (close_listeners lns s) = (c', s')" by (simp add: reply_failed_def)
  have st: "same_core c (client_stop c)" by (simp add: client_stop_def same_core_def skeys_def)
  have s': "s' = (close_listeners lns s)\<lparr>sh_clients := removeAll (cl_cid (client_stop c)) (sh_clients (close_listeners lns s))\<rparr>"
    using d drop_client_fields(3) [of "client_stop c" "close_listeners lns s"] by simp
  have "same_core c c'" by (rule same_core_trans [OF st drop_client_core [OF d]])
  then show ?thesis using assms(2,3) by (intro same_core_kept) (simp_all add: s' close_listeners_eq)
qed

lemma same_core_wconn: "same_core c (c\<lparr>cl_wconn := w\<rparr>)"
  by (simp add: same_core_def skeys_def)

lemma kept_wconn:
  assumes "cl_wf c" and "no_dyn (sh_mgr s)"
    and "(r = None \<and> c' = c\<lparr>cl_wconn := w\<rparr> \<and> s' = s) \<or> (\<exists>b. reply_failed lns (c\<lparr>cl_wconn := w\<rparr>) s = (b, c', s'))"
  shows "kept {} c s c' s'"
  using assms(3)
proof
  assume "r = None \<and> c' = c\<lparr>cl_wconn := w\<rparr> \<and> s' = s"
  then show ?thesis using assms(1,2) same_core_wconn by (intro same_core_kept) simp_all
next
  assume "\<exists>b. reply_failed lns (c\<lparr>cl_wconn := w\<rparr>) s = (b, c', s')"
  then obtain b where "reply_failed lns (c\<lparr>cl_wconn := w\<rparr>) s = (b, c', s')" ..
  from kept_reply_failed [OF this] same_core_wf [OF same_core_wconn [of c w]] assms(1,2)
  have "kept {} (c\<lparr>cl_wconn := w\<rparr>) s c' s'" by simp
  then show ?thesis by (rule kept_from [OF same_core_wconn refl refl])
qed

lemma kept_reply:
  assumes "handle_reply lns failed pub c s = (b, c', s')" and "cl_wf c" and "no_dyn (sh_mgr s)"
  shows "kept {} c s c' s'"
proof -
  obtain r w where "srv_sendControl (ok_msg pub failed (sh_mgr s)) (cl_wconn c) = (r, w)" by force
  with assms(1) show ?thesis
    by (intro kept_wconn [OF assms(2,3), of r _ w _ lns]) (auto simp: handle_reply_def split: option.splits)
qed

lemma kept_reply_write:
  assumes "reply_write lns bs c s = (b, c', s')" and "cl_wf c" and "no_dyn (sh_mgr s)"
  shows "kept {} c s c' s'"
proof -
  obtain r w where "conn_write bs (cl_wconn c) = (r, w)" by force
  with assms(1) show ?thesis
    by (intro kept_wconn [OF assms(2,3), of r _ w _ lns]) (auto simp: reply_write_def split: option.splits)
qed

lemma dom_close_exts: "dom (sh_exts (close_exts cs s)) = dom (sh_exts s)"
  by (induction cs s rule: close_exts.induct) simp_all

lemma kept_teardown:
  assumes "relay_teardown lns c s = (fl, c', s')" and "cl_wf c" and "no_dyn (sh_mgr s)"
  shows "kept {} c s c' s'"
proof -
  let ?s1 = "close_exts (cl_channelConns c) (close_listeners lns s)"
  have s1: "dom (sh_exts ?s1) = dom (sh_exts s)" "sh_mgr ?s1 = sh_mgr s" "sh_nextCID ?s1 = sh_nextCID s"
    by (simp_all add: dom_close_exts close_listeners_eq)
  show ?thesis
  proof (cases "cl_udpLocked c")
    case True
    then have "c' = client_stop c" "s' = ?s1"
      using assms(1) by (simp_all add: relay_teardown_def Let_def client_stop_def)
    moreover have "same_core c (client_stop c)" by (simp add: client_stop_def same_core_def skeys_def)
    ultimately show ?thesis using assms(2,3) s1 by (intro same_core_kept) simp_all
  next
    case False
    then have c': "c' = close_conn ((client_stop c)\<lparr>cl_udpClosed := udp_sockets (client_stop c) @ cl_udpClosed (client_stop c),
        cl_udpConns := None, cl_udpSessions := None\<rparr>)"
      and s': "s' = ?s1\<lparr>sh_clients := removeAll (cl_cid c) (sh_clients ?s1)\<rparr>"
      using assms(1) by (auto simp: relay_teardown_def Let_def client_stop_def drop_client_def)
    have "cl_channelConns c' = cl_channelConns c" "skeys c' = None" "cl_cid c' = cl_cid c"
      by (simp_all add: c' close_conn_def client_stop_def skeys_def)
    with assms(2,3) s1 show ?thesis
      by (auto simp: kept_def cl_wf_def core_wf_def ids_def core_ids_def owned_def s')
  qed
qed

section \<open>Every event preserves the invariant\<close>

lemma inv_connect:
  assumes inv: "sys_inv n y" and n: "Suc n < 2 ^ 32" and h: "handle_connect w (sv_sh (sy_srv y)) = (c, s)"
  shows "sys_inv (Suc n) (set_phase (cl_cid c) PNew (put (cl_cid c) (fl, c, s) y))"
proof -
  let ?k = "sh_nextCID (sv_sh (sy_srv y))"
  have c: "c = new_client (?k + 1) w" and s: "sh_nextCID s = ?k + 1" "sh_mgr s = sh_mgr (sv_sh (sy_srv y))"
      "sh_exts s = sh_exts (sv_sh (sy_srv y))"
    using h by (auto simp: handle_connect_def next_cid_def)
  have nk: "unat ?k \<le> n" using inv by (simp add: sys_inv_def)
  note fr = next_fresh [OF nk n]
  have f: "cl_fresh c" "cl_cid c = ?k + 1" by (simp_all add: c new_client_def cl_fresh_def)
  note e = cl_fresh_wf [OF f(1)] and d = sys_invD [OF inv]
  have un: "unat (?k + 1) \<le> Suc n" using fr(1) nk by simp
  from d(1,2,5,6) have d': "cl_wf c'" "cl_cid c' = cid" "cid \<le> ?k + 1" "\<And>i. i \<in> ids c' \<Longrightarrow> i \<le> ?k + 1"
      "owned c' \<subseteq> dom (sh_exts (sv_sh (sy_srv y)))" "sy_phase y cid = PNew \<Longrightarrow> cl_fresh c'"
    if "sv_objs (sy_srv y) cid = Some c'" for cid c'
    using that fr(3) d(3,4) [OF that] by simp_all
  have p: "ids c1 \<inter> ids c2 = {} \<and> owned c1 \<inter> owned c2 = {}"
    if "sv_objs (sy_srv y) a = Some c1" "sv_objs (sy_srv y) b = Some c2" "a \<noteq> b" for a b c1 c2
    using inv that unfolding sys_inv_def by blast
  show ?thesis
    unfolding sys_inv_def
    using un d' p e f inv by (simp add: put_def set_phase_def s sys_inv_mgr)
qed

lemma live_Some: "live cid y = Some c \<Longrightarrow> sv_objs (sy_srv y) cid = Some c \<and> sy_phase y cid \<noteq> PNew"
  by (auto simp: live_def split: if_splits)

lemma kept_cond: "kept X c s c1 s1 \<Longrightarrow> same_core c1 c2 \<Longrightarrow> kept X c s (if b then c1 else c2) s1"
  using kept_same_core by simp

lemma srv_exec_inv:
  assumes inv: "sys_inv n y" and n: "Suc n < 2 ^ 32" and st: "srv_exec z ev y = Some y'" and ok: "\<not> sy_crashed y'"
  shows "sys_inv (Suc n) y'"
proof -
  let ?s = "sv_sh (sy_srv y)"
  note d = sys_invD [OF inv] and nd = sys_inv_mgr [OF inv]
  note L = live_Some
  show ?thesis
  proof (cases ev)
    case (EvConnect w)
    with st inv_connect [OF inv n] show ?thesis by (auto split: prod.splits)
  next
    case (EvHello cid e ip input)
    with st obtain c where o: "sv_objs (sy_srv y) cid = Some c" "sy_phase y cid = PNew"
      by (auto split: phase.splits option.splits)
    obtain r c1 s1 where h: "handle_hello e ip input c ?s = (r, c1, s1)" by (cases "handle_hello e ip input c ?s") auto
    have "y' = set_phase cid (case r of Listening lns failed pub \<Rightarrow> PListening lns failed pub | Refused_at why \<Rightarrow> PDone)
        (put cid (case r of Listening lns failed pub \<Rightarrow> Continue | Refused_at why \<Rightarrow> Return, c1, s1) y)"
      using st EvHello o h by (cases r) simp_all
    then show ?thesis
      using inv_put [OF inv n o(1) kept_hello [OF h d(6) [OF o] nd] refl] by (cases r) auto
  next
    case (EvReply cid)
    with st obtain c lns failed pub b c1 s1 where o: "live cid y = Some c"
        and h: "handle_reply lns failed pub c ?s = (b, c1, s1)"
        and y': "y' = set_phase cid (if b then PServing lns else PDone) (put cid (Continue, c1, s1) y)"
      by (auto split: phase.splits option.splits prod.splits)
    from y' inv_put [OF inv n _ kept_reply [OF h] refl] L [OF o] d(1) nd show ?thesis by auto
  next
    case (EvReplyWrite cid)
    from st [unfolded EvReplyWrite] obtain c lns bs b c1 s1 p where o: "live cid y = Some c" and h: "reply_write lns bs c ?s = (b, c1, s1)"
        and y': "y' = set_phase cid p (put cid (Continue, c1, s1) y)" "p \<noteq> PNew"
      by (rule reply_write_event)
    have "kept {} c ?s c1 s1" by (rule kept_reply_write [OF h _ nd]) (use d(1) L [OF o] in blast)
    with inv_put_phase [OF inv n L [OF o, THEN conjunct1]] y' show ?thesis by blast
  next
    case (EvAccept cid svc x addr e)
    with st obtain c fl c1 s1 where o: "live cid y = Some c" and x: "sh_exts ?s x = None"
        and h: "tcp_accept e svc x c (with_ext x addr ?s) = (fl, c1, s1)"
        and y': "y' = put cid (fl, if goes_on fl then c1 else c1\<lparr>cl_tcpLoops := remove1 svc (cl_tcpLoops c1)\<rparr>, s1) y"
      by (auto split: option.splits prod.splits if_splits)
    note o' = L [OF o, THEN conjunct1]
    have fresh: "sh_nextCID (with_ext x addr ?s) + 1 \<notin> ids c" "x \<notin> owned c"
      using d(4,5) [OF o'] next_fresh(2) [OF _ n] inv x by (auto simp: with_ext_def sys_inv_def)
    have "kept {x} c (with_ext x addr ?s) c1 s1"
      by (rule kept_tcp_accept [OF h d(1) [OF o'] _ fresh]) (simp add: with_ext_def nd)
    then have k: "kept {x} c (with_ext x addr ?s) (if goes_on fl then c1 else c1\<lparr>cl_tcpLoops := remove1 svc (cl_tcpLoops c1)\<rparr>) s1"
      by (rule kept_cond) (rule same_core_loops)
    have "y' = set_phase cid (sy_phase y cid) y'" by (simp add: y' set_phase_def put_def)
    moreover have "x \<notin> dom (sh_exts ?s)" using x by (simp add: domIff)
    ultimately show ?thesis
      using inv_put [OF inv n o' k, of "sy_phase y cid" fl] y' L [OF o] by (simp add: with_ext_def)
  next
    case (EvAcceptError cid svc)
    with st obtain c fl c1 s1 where o: "live cid y = Some c" and h: "tcp_accept_error svc c ?s = (fl, c1, s1)"
        and y': "y' = put cid (fl, c1\<lparr>cl_tcpLoops := remove1 svc (cl_tcpLoops c1)\<rparr>, s1) y"
      by (auto split: option.splits prod.splits if_splits)
    from h have "kept {} c ?s c1 s1" using d(1) L [OF o] nd by (auto simp: tcp_accept_error_def kept_refl)
    then have "kept {} c ?s (c1\<lparr>cl_tcpLoops := remove1 svc (cl_tcpLoops c1)\<rparr>) s1" by (rule kept_same_core) (rule same_core_loops)
    with inv_put_same [OF inv n] L [OF o] y' show ?thesis by blast
  next
    case (EvPipe cid ch x r e)
    with st obtain c fl c1 s1 where o: "live cid y = Some c" and h: "pipe_step z e ch x r c ?s = (fl, c1, s1)"
        and y': "y' = put cid (fl, if goes_on fl then c1 else c1\<lparr>cl_pipes := remove1 (ch, x) (cl_pipes c1)\<rparr>, s1) y"
      by (auto split: option.splits prod.splits if_splits)
    have "kept {} c ?s c1 s1" by (rule kept_pipe_step [OF h _ nd]) (use d(1) L [OF o] in blast)
    then have "kept {} c ?s (if goes_on fl then c1 else c1\<lparr>cl_pipes := remove1 (ch, x) (cl_pipes c1)\<rparr>) s1"
      by (rule kept_cond) (rule same_core_loops)
    with inv_put_same [OF inv n] L [OF o] y' show ?thesis by blast
  next
    case (EvDatagram cid svc conn addr dt e)
    with st obtain c fl c1 s1 where o: "live cid y = Some c" and h: "udp_datagram z e svc conn addr dt c ?s = (fl, c1, s1)"
        and y': "y' = put cid (fl, udp_loop_end svc conn fl c1, s1) y"
      by (auto split: option.splits prod.splits if_splits)
    note o' = L [OF o, THEN conjunct1]
    have "fl \<noteq> Crash" using ok y' by (auto simp: put_def)
    moreover have "sh_nextCID ?s + 1 \<notin> ids c"
      using d(4) [OF o'] next_fresh(2) [OF _ n] inv by (auto simp: sys_inv_def)
    ultimately have "kept {} c ?s c1 s1" by (intro kept_udp_datagram [OF h d(1) [OF o'] nd])
    then have "kept {} c ?s (udp_loop_end svc conn fl c1) s1" by (rule kept_same_core) (rule same_core_loops)
    with inv_put_same [OF inv n] L [OF o] y' show ?thesis by blast
  next
    case (EvUdpError cid svc conn err)
    with st obtain c where o: "live cid y = Some c"
        and y': "y' = put cid (Continue, udp_loop_end svc conn (udp_read_error err) c, ?s) y"
      by (auto split: option.splits if_splits)
    have "kept {} c ?s (udp_loop_end svc conn (udp_read_error err) c) ?s"
      by (rule kept_same_core [OF kept_id same_core_loops(2)]) (use d(1) L [OF o] nd in blast)+
    with inv_put_same [OF inv n] L [OF o] y' show ?thesis by blast
  next
    case (EvCleanup cid e)
    with st obtain c fl c1 s1 where o: "live cid y = Some c" and h: "udp_cleanup e c ?s = (fl, c1, s1)"
        and y': "y' = put cid (fl, c1, s1) y"
      by (cases "udp_cleanup e (the (live cid y)) ?s") (auto split: option.splits if_splits)
    have "kept {} c ?s c1 s1" by (rule kept_udp_cleanup [OF h _ nd]) (use d(1) L [OF o] in blast)
    with inv_put_same [OF inv n] L [OF o] y' show ?thesis by blast
  next
    case (EvFrame cid e f)
    with st obtain c fl c1 s1 p where o: "live cid y = Some c" and h: "relay_frame z e f c ?s = (fl, c1, s1)"
        and y': "y' = set_phase cid p (put cid (fl, c1, s1) y)" "p \<noteq> PNew"
      by (auto split: phase.splits option.splits prod.splits)
    have "kept {} c ?s c1 s1" by (rule kept_relay_frame [OF h _ nd]) (use d(1) L [OF o] in blast)
    with inv_put_phase [OF inv n L [OF o, THEN conjunct1]] y' show ?thesis by blast
  next
    case (EvEnd cid)
    with st obtain c lns fl c1 s1 p where o: "live cid y = Some c" and h: "relay_teardown lns c ?s = (fl, c1, s1)"
        and y': "y' = set_phase cid p (put cid (fl, c1, s1) y)" "p \<noteq> PNew"
      by (auto split: phase.splits option.splits prod.splits)
    have "kept {} c ?s c1 s1" by (rule kept_teardown [OF h _ nd]) (use d(1) L [OF o] in blast)
    with inv_put_phase [OF inv n L [OF o, THEN conjunct1]] y' show ?thesis by blast
  next
    case (EvCheck e)
    have "plugin_check e (sy_srv y) = (Continue, sy_srv y)"
      using no_dyn_check [OF nd] by (simp add: plugin_check_def)
    with st EvCheck have "y' = y" by (auto simp: goes_on_def split: if_splits)
    then show ?thesis using sys_inv_Suc [OF inv] by simp
  qed
qed

section \<open>Properties\<close>

lemma sys_init_inv: "no_dyn m \<Longrightarrow> sys_inv 0 (sys_init cfg m r)"
  by (simp add: sys_inv_def sys_init_def)

lemma srv_reach_inv:
  assumes "srv_reach z (sys_init cfg m r) n y" and "no_dyn m" and "n < 2 ^ 32" and "\<not> sy_crashed y"
  shows "sys_inv n y"
  using assms(1,3,4)
proof (induction rule: srv_reach.induct)
  case reach_start
  show ?case using sys_init_inv [OF assms(2)] .
next
  case (reach_event n y ev y')
  then show ?case using srv_exec_inv [of n y z ev y'] by simp
qed

text \<open>
  Claim C7 (channel_ids_unique): in every state the server can reach in fewer than 2^32
  events (no dynamic plugin loaded), no two clients share a channel id or an external
  connection, and within a client a channel id names one TCP channel or one UDP session,
  never two; so a frame's channel id determines where its data goes.
\<close>

theorem channel_ids_unique:
  assumes "srv_reach z (sys_init cfg m r) n y" and "no_dyn m" and "n < 2 ^ 32" and "\<not> sy_crashed y"
    and "sv_objs (sy_srv y) cid = Some c"
  shows "distinct (map fst (cl_channelConns c)) \<and> distinct (map snd (cl_channelConns c))
    \<and> (\<forall>ss. cl_udpSessions c = Some ss \<longrightarrow> distinct (map (us_channelID \<circ> snd) ss)
          \<and> fst ` set (cl_channelConns c) \<inter> (us_channelID \<circ> snd) ` set ss = {})
    \<and> (\<forall>cid' c'. sv_objs (sy_srv y) cid' = Some c' \<and> cid' \<noteq> cid \<longrightarrow> ids c \<inter> ids c' = {} \<and> owned c \<inter> owned c' = {})"
proof -
  have inv: "sys_inv n y" by (rule srv_reach_inv [OF assms(1-4)])
  have wf: "cl_wf c" by (rule sys_invD(1) [OF inv assms(5)])
  have f: "snd \<circ> (\<lambda>(k, u). (k, us_channelID u)) = (us_channelID \<circ> snd :: string \<times> udpSession \<Rightarrow> u32)" by auto
  have k: "map snd (keys_of ss) = map (us_channelID \<circ> snd) ss" for ss by (simp only: map_map f)
  have "distinct (map (us_channelID \<circ> snd) ss) \<and> fst ` set (cl_channelConns c) \<inter> (us_channelID \<circ> snd) ` set ss = {}"
    if "cl_udpSessions c = Some ss" for ss
  proof -
    have "snd ` set (keys_of ss) = (us_channelID \<circ> snd) ` set ss" using arg_cong [OF k [of ss], of set] by (simp only: set_map)
    with wf that show ?thesis by (simp add: cl_wf_def core_wf_def skeys_def f del: o_apply)
  qed
  moreover have "ids c \<inter> ids c' = {} \<and> owned c \<inter> owned c' = {}"
    if "sv_objs (sy_srv y) cid' = Some c'" "cid' \<noteq> cid" for cid' c'
    using inv assms(5) that unfolding sys_inv_def by blast
  moreover have "distinct (map fst (cl_channelConns c)) \<and> distinct (map snd (cl_channelConns c))"
    using wf by (simp add: cl_wf_def core_wf_def)
  ultimately show ?thesis by blast
qed


section \<open>A run\<close>

text \<open>A client registers one TCP service with \<open>max_conns = 2\<close>, and one connection arrives.\<close>

definition run_register :: controlMsg where
  "run_register = zero_msg\<lparr>c_Type := ''register'', c_MaxConns := 2,
     c_Services := [\<lparr>sm_LocalPort = 22, sm_RemotePort = 81, sm_Proto = ''tcp''\<rparr>]\<rparr>"

definition run_input :: "rd list" where
  "run_input = map RByte (enc_frame \<lparr>f_type = frameControl, f_chan = 0, f_payload = marshal_msg run_register\<rparr>)"

definition run_svc :: serviceMapping where
  "run_svc = \<lparr>sm_LocalPort = 22, sm_RemotePort = 81, sm_Proto = ''tcp''\<rparr>"

definition run_cfg :: Config where
  "run_cfg = \<lparr>cfg_STUNPort = 0, cfg_RelayPort = 9000, cfg_PublicAddr = ''h'', cfg_AuthKey = []\<rparr>"

definition run_init :: sys where
  "run_init = sys_init run_cfg mgr_NewManager None"

lemma run_frame:
  "srv_readFrame run_input = (Ret \<lparr>f_type = frameControl, f_chan = 0, f_payload = marshal_msg run_register\<rparr>, [])"
proof -
  have "length (marshal_msg run_register) \<le> 400"
    by (simp add: marshal_msg_def text_bytes_def controlMsg_json_def run_register_def zero_msg_def omit_def
        service_json_def j_int_def itoa_def dec_digits.simps print_string_def esc_char_def)
  then have "frame_ok \<lparr>f_type = frameControl, f_chan = 0, f_payload = marshal_msg run_register\<rparr>"
    by (simp add: frame_ok_def maxFrameSize_def)
  from srv_readFrame_enc [OF this, of "[]"] show ?thesis by (simp add: run_input_def)
qed

lemma run_unmarshal: "unmarshal_msg (marshal_msg run_register) = Some run_register"
  by (rule unmarshal_marshal) (simp add: run_register_def control_ok_def zero_msg_def service_ok_def int64_def)

lemma rc_sendControl_room:
  "w_room (cl_wconn c) = None \<Longrightarrow> rc_sendControl m c = (None, c\<lparr>cl_wconn := (cl_wconn c)\<lparr>w_sent :=
      w_sent (cl_wconn c) @ enc_frame \<lparr>f_type = frameControl, f_chan = 0, f_payload = marshal_msg m\<rparr>\<rparr>\<rparr>)"
  by (simp add: rc_sendControl_def writeFrameLocked_def srv_writeFrame_def conn_write_def enc_frame_def Let_def)

definition run_wire :: bytes where
  "run_wire = enc_frame \<lparr>f_type = frameControl, f_chan = 0, f_payload = marshal_msg (new_conn_msg 2 run_svc ''6.6.6.6:6'')\<rparr>"

definition run_client :: relayClient where
  "run_client = (new_client 1 \<lparr>w_sent = run_wire, w_room = None\<rparr>)\<lparr>cl_services := [run_svc],
     cl_connLimiter := Some \<lparr>maxConns = 2, current = 1\<rparr>, cl_tcpLoops := [run_svc],
     cl_channelConns := [(2, 0)], cl_pipes := [(2, 0)]\<rparr>"

definition run_listening :: relayClient where
  "run_listening = (new_client 1 \<lparr>w_sent = [], w_room = None\<rparr>)\<lparr>cl_services := [run_svc],
     cl_connLimiter := Some \<lparr>maxConns = 2, current = 0\<rparr>, cl_tcpLoops := [run_svc]\<rparr>"

definition run_shared :: shared where
  "run_shared = (sv_sh (sy_srv run_init))\<lparr>sh_nextCID := 1, sh_clients := [1], sh_lnext := 1, sh_listeners := [81 \<mapsto> 0]\<rparr>"

text \<open>After the registration message, before the reply.\<close>

lemma run_hello:
  "\<exists>y. srv_reach toy_lz4 run_init 2 y \<and> \<not> sy_crashed y \<and> sv_objs (sy_srv y) 1 = Some run_listening
    \<and> sy_phase y 1 = PListening [0] [] ''h'' \<and> sv_sh (sy_srv y) = run_shared"
proof -
  let ?e = demo_env
  obtain y1 where s1: "srv_exec toy_lz4 (EvConnect \<lparr>w_sent = [], w_room = None\<rparr>) run_init = Some y1"
    and y1: "\<not> sy_crashed y1" "sv_objs (sy_srv y1) 1 = Some (new_client 1 \<lparr>w_sent = [], w_room = None\<rparr>)"
      "sy_phase y1 1 = PNew" "sv_sh (sy_srv y1) = (sv_sh (sy_srv run_init))\<lparr>sh_nextCID := 1, sh_clients := [1]\<rparr>"
    by (simp add: handle_connect_def next_cid_def run_init_def sys_init_def new_client_def put_def set_phase_def)
  have h: "handle_hello ?e ''10.0.0.1'' run_input (new_client 1 \<lparr>w_sent = [], w_room = None\<rparr>) (sv_sh (sy_srv y1))
      = (Listening [0] [] ''h'', run_listening, run_shared)"
    using run_unmarshal
    by (simp add: handle_hello_def run_frame y1(4))
      (simp add: run_register_def zero_msg_def demo_env_def new_client_def run_init_def run_cfg_def sys_init_def run_svc_def
        apply_settings_def startServiceListener_def startTCPService_def getPublicIP_def NewConnLimit_def Let_def
        run_listening_def run_shared_def)
  obtain y2 where s2: "srv_exec toy_lz4 (EvHello 1 ?e ''10.0.0.1'' run_input) y1 = Some y2"
    and y2: "\<not> sy_crashed y2" "sv_objs (sy_srv y2) 1 = Some run_listening" "sy_phase y2 1 = PListening [0] [] ''h''"
      "sv_sh (sy_srv y2) = run_shared"
    using h y1 by (simp add: put_def set_phase_def)
  have "srv_reach toy_lz4 run_init (Suc (Suc 0)) y2"
    by (rule reach_event [OF reach_event [OF reach_start _ s1] y1(1) s2]) (simp add: run_init_def sys_init_def)
  then show ?thesis using y2 by (auto simp: numeral_2_eq_2)
qed

lemma run_accept:
  "w_room w = None \<Longrightarrow> tcp_accept demo_env run_svc 0 (run_listening\<lparr>cl_wconn := w\<rparr>) (with_ext 0 ''6.6.6.6:6'' run_shared)
    = (Continue, run_client\<lparr>cl_wconn := w\<lparr>w_sent := w_sent w @ run_wire\<rparr>\<rparr>, (with_ext 0 ''6.6.6.6:6'' run_shared)\<lparr>sh_nextCID := 2\<rparr>)"
  by (simp add: run_listening_def run_shared_def tcp_accept_def tcp_open_def with_ext_def ext_addr_def run_init_def sys_init_def
      mgr_NewManager_def mgr_OnAccept_def filter_refuses_def limiter_accept_def limit_OnAccept_def new_client_def Let_def next_cid_def
      mgr_OnOpen_def no_action_def run_client_def rc_sendControl_room run_wire_def)

lemma run_reach: "\<exists>y. srv_reach toy_lz4 run_init 3 y \<and> \<not> sy_crashed y \<and> sv_objs (sy_srv y) 1 = Some run_client"
proof -
  obtain y2 where r: "srv_reach toy_lz4 run_init 2 y2" and y2: "\<not> sy_crashed y2" "sv_objs (sy_srv y2) 1 = Some run_listening"
      "sy_phase y2 1 = PListening [0] [] ''h''" "sv_sh (sy_srv y2) = run_shared"
    using run_hello by blast
  have "run_listening\<lparr>cl_wconn := \<lparr>w_sent = [], w_room = None\<rparr>\<rparr> = run_listening"
    "run_client\<lparr>cl_wconn := \<lparr>w_sent = run_wire, w_room = None\<rparr>\<rparr> = run_client"
    by (simp_all add: run_listening_def run_client_def new_client_def)
  then have a: "tcp_accept demo_env run_svc 0 run_listening (with_ext 0 ''6.6.6.6:6'' run_shared)
      = (Continue, run_client, (with_ext 0 ''6.6.6.6:6'' run_shared)\<lparr>sh_nextCID := 2\<rparr>)"
    using run_accept [of "\<lparr>w_sent = [], w_room = None\<rparr>"] by simp
  obtain y3 where s3: "srv_exec toy_lz4 (EvAccept 1 run_svc 0 ''6.6.6.6:6'' demo_env) y2 = Some y3"
    and y3: "\<not> sy_crashed y3" "sv_objs (sy_srv y3) 1 = Some run_client"
    using a y2 by (simp add: live_def put_def goes_on_def run_listening_def run_shared_def run_init_def sys_init_def)
  from reach_event [OF r y2(1) s3] y3 show ?thesis by (auto simp: numeral_3_eq_3)
qed


theorem channel_ids_unique_witness:
  "distinct (map fst (cl_channelConns run_client)) \<and> distinct (map snd (cl_channelConns run_client))"
proof -
  obtain y where y: "srv_reach toy_lz4 run_init 3 y" "\<not> sy_crashed y" "sv_objs (sy_srv y) 1 = Some run_client"
    using run_reach by blast
  show ?thesis
    using channel_ids_unique [OF y(1) [unfolded run_init_def] _ _ y(2,3)] by (simp add: no_dyn_def mgr_NewManager_def)
qed

end
