(* ===== verification/RelayClient.thy ===== *)
theory RelayClient
  imports ServerState
begin

text \<open>
  The relay client (\<open>relay/relay.go\<close>): its state, \<open>Connect\<close> and \<open>Close\<close>, one iteration of
  \<open>readLoop\<close>, the handlers of control messages and the two pipes from local connections to
  the server. The counters of \<open>logutil\<close> that this code updates (active channels, bytes in
  and out) are fields of the state.
\<close>

section \<open>State\<close>

record ConnInfo =
  in_ChannelID :: u32
  in_RemoteAddr :: string
  in_LocalPort :: int
  in_Proto :: string
  in_ConnectedAt :: int
  in_BytesIn :: i64
  in_BytesOut :: i64

text \<open>A connection to a local service: the writes made on it, each kept apart for UDP.\<close>

record localConn =
  lc_addr :: string
  lc_writes :: "bytes list"
  lc_closed :: bool

text \<open>
  \<open>conn\<close> and \<open>closeCh\<close> are nil (None) before \<open>Connect\<close>; a channel that is not nil is open or
  closed (True). \<open>k_locals\<close> are the local connections, \<open>k_pipes\<close> the running pipe goroutines.
\<close>

record Client =
  k_AuthKey :: string
  k_Services :: "ServiceMap list"
  k_Compressor :: "Compression option"
  k_IPAllow :: string
  k_IPDeny :: string
  k_MaxConns :: int
  k_RateLimit :: int
  k_conn :: "wconn option"
  k_channels :: "(u32 \<times> nat) list"
  k_udpChannels :: "(u32 \<times> nat) list"
  k_connInfos :: "(u32 \<times> ConnInfo) list"
  k_totalConns :: i64
  k_closeCh :: "bool option"
  k_serverSupportsCompression :: bool
  k_locals :: "nat \<Rightarrow> localConn option"
  k_pipes :: "(u32 \<times> nat) list"
  k_activeChan :: int
  k_bytesIn :: int
  k_bytesOut :: int

text \<open>What the environment decides in one step of the client.\<close>

record cli_env =
  ce_now :: int
  ce_dial :: bool
  ce_new :: nat
  ce_write_ok :: bool

section \<open>Writing to the server\<close>

definition k_writeFrame :: "byte \<Rightarrow> u32 \<Rightarrow> bytes \<Rightarrow> Client \<Rightarrow> (io_err, Client) go \<times> Client" where
  "k_writeFrame ft ch payload c =
     (case k_conn c of
        None \<Rightarrow> (Panic, c)
      | Some w \<Rightarrow>
          (case cli_writeFrame ft ch payload w of
             (r, w1) \<Rightarrow> (let c1 = c\<lparr>k_conn := Some w1\<rparr>
                         in (case r of None \<Rightarrow> Ret c1 | Some er \<Rightarrow> Err er, c1))))"

definition k_sendControl :: "cli_controlMsg \<Rightarrow> Client \<Rightarrow> (io_err, Client) go \<times> Client" where
  "k_sendControl msg c = k_writeFrame frameControl 0 (marshal_msg msg) c"

definition k_closeConn :: "Client \<Rightarrow> Client" where
  "k_closeConn c = c\<lparr>k_conn := map_option (\<lambda>w. w\<lparr>w_room := Some 0\<rparr>) (k_conn c)\<rparr>"

section \<open>Connect and Close\<close>

datatype connect_err =
    DialFailed
  | SendRegister io_err
  | ReadResponse io_err
  | Rejected string
  | ConnectPanic

definition register_msg :: "Client \<Rightarrow> cli_controlMsg" where
  "register_msg c = zero_msg\<lparr>c_Type := ''register'', c_Services := k_Services c, c_AuthKey := k_AuthKey c,
     c_Features := (if k_Compressor c \<noteq> None then [''compression''] else []),
     c_IPAllow := k_IPAllow c, c_IPDeny := k_IPDeny c, c_MaxConns := k_MaxConns c, c_RateLimit := k_RateLimit c\<rparr>"

text \<open>\<open>dialed\<close> is the connection, \<open>input\<close> what the server sends on it.\<close>

definition Connect :: "wconn option \<Rightarrow> rd list \<Rightarrow> Client \<Rightarrow> connect_err option \<times> Client \<times> rd list" where
  "Connect dialed input c =
     (case dialed of
        None \<Rightarrow> (Some DialFailed, c, input)
      | Some w \<Rightarrow>
          (let c1 = c\<lparr>k_conn := Some w, k_channels := [], k_udpChannels := [], k_connInfos := [], k_closeCh := Some False\<rparr>
           in case k_sendControl (register_msg c1) c1 of
                (Err er, c2) \<Rightarrow> (Some (SendRegister er), k_closeConn c2, input)
              | (Panic, c2) \<Rightarrow> (Some ConnectPanic, c2, input)
              | (Ret _, c2) \<Rightarrow>
                  (case readControl input of
                     (Err er, rest) \<Rightarrow> (Some (ReadResponse er), k_closeConn c2, rest)
                   | (Panic, rest) \<Rightarrow> (Some ConnectPanic, c2, rest)
                   | (Ret resp, rest) \<Rightarrow>
                       if c_Type resp \<noteq> ''ok'' then
                         (Some (Rejected (if c_Type resp = ''error'' then c_PublicAddr resp else c_Type resp)),
                          k_closeConn c2, rest)
                       else
                         (let c3 = (if has_feature (c_Features resp) then c2\<lparr>k_serverSupportsCompression := True\<rparr> else c2);
                              c4 = (if k_Compressor c3 \<noteq> None \<and> \<not> k_serverSupportsCompression c3
                                    then c3\<lparr>k_Compressor := None\<rparr> else c3)
                          in (None, c4, rest)))))"

text \<open>
  On a nil channel the \<open>select\<close> takes its default branch and \<open>close\<close> panics.
\<close>

definition Client_Close :: "Client \<Rightarrow> (unit, Client) go" where
  "Client_Close c =
     (case k_closeCh c of
        None \<Rightarrow> Panic
      | Some shut \<Rightarrow> Ret (k_closeConn (if shut then c else c\<lparr>k_closeCh := Some True\<rparr>)))"

definition GetConnections :: "Client \<Rightarrow> ConnInfo list" where
  "GetConnections c = map snd (k_connInfos c)"

definition GetTotalConns :: "Client \<Rightarrow> i64" where
  "GetTotalConns c = k_totalConns c"

text \<open>\<open>NextChannelID\<close> increments a local variable.\<close>

definition NextChannelID :: u32 where
  "NextChannelID = (let id = (0 :: u32) in id + 1)"

definition isClosedErr :: "io_err \<Rightarrow> bool" where
  "isClosedErr err = (case err of
       EOF \<Rightarrow> True
     | ConnErr s \<Rightarrow> s = ''use of closed network connection''
     | _ \<Rightarrow> False)"

section \<open>Control messages\<close>

definition local_addr :: "int \<Rightarrow> string" where
  "local_addr port = ''127.0.0.1:'' @ itoa port"

definition close_local :: "nat \<Rightarrow> Client \<Rightarrow> Client" where
  "close_local x c = c\<lparr>k_locals := (k_locals c)(x := map_option (\<lambda>l. l\<lparr>lc_closed := True\<rparr>) (k_locals c x))\<rparr>"

definition new_info :: "cli_env \<Rightarrow> u32 \<Rightarrow> int \<Rightarrow> string \<Rightarrow> string \<Rightarrow> ConnInfo" where
  "new_info e ch port proto addr = \<lparr>in_ChannelID = ch, in_RemoteAddr = addr, in_LocalPort = port, in_Proto = proto,
     in_ConnectedAt = ce_now e, in_BytesIn = 0, in_BytesOut = 0\<rparr>"

definition ready_msg :: "u32 \<Rightarrow> cli_controlMsg" where
  "ready_msg ch = zero_msg\<lparr>c_Type := ''conn_ready'', c_ChannelID := ch\<rparr>"

definition handleNewConn :: "cli_env \<Rightarrow> u32 \<Rightarrow> int \<Rightarrow> string \<Rightarrow> Client \<Rightarrow> Client" where
  "handleNewConn e ch port addr c =
     (if \<not> ce_dial e then snd (k_writeFrame frameClose ch [] c)
      else let x = ce_new e;
               c1 = c\<lparr>k_locals := (k_locals c)(x \<mapsto> \<lparr>lc_addr = local_addr port, lc_writes = [], lc_closed = False\<rparr>),
                      k_channels := AList.update ch x (k_channels c),
                      k_connInfos := AList.update ch (new_info e ch port ''tcp'' addr) (k_connInfos c),
                      k_totalConns := k_totalConns c + 1,
                      k_activeChan := k_activeChan c + 1\<rparr>
           in case k_sendControl (ready_msg ch) c1 of
                (Ret _, c2) \<Rightarrow> c2\<lparr>k_pipes := k_pipes c2 @ [(ch, x)]\<rparr>
              | (_, c2) \<Rightarrow> c2)"

definition handleNewUDPConn :: "cli_env \<Rightarrow> u32 \<Rightarrow> int \<Rightarrow> string \<Rightarrow> Client \<Rightarrow> Client" where
  "handleNewUDPConn e ch port addr c =
     (if \<not> ce_dial e then snd (k_writeFrame frameClose ch [] c)
      else let x = ce_new e;
               c1 = c\<lparr>k_locals := (k_locals c)(x \<mapsto> \<lparr>lc_addr = local_addr port, lc_writes = [], lc_closed = False\<rparr>),
                      k_udpChannels := AList.update ch x (k_udpChannels c),
                      k_connInfos := AList.update ch (new_info e ch port ''udp'' addr) (k_connInfos c),
                      k_totalConns := k_totalConns c + 1,
                      k_activeChan := k_activeChan c + 1\<rparr>
           in case k_sendControl (ready_msg ch) c1 of
                (Ret _, c2) \<Rightarrow> c2\<lparr>k_pipes := k_pipes c2 @ [(ch, x)]\<rparr>
              | (_, c2) \<Rightarrow> c2)"

definition handleControl :: "cli_env \<Rightarrow> cli_controlMsg \<Rightarrow> Client \<Rightarrow> Client" where
  "handleControl e msg c =
     (if c_Type msg = ''new_conn'' then handleNewConn e (c_ChannelID msg) (c_LocalPort msg) (c_RemoteAddr msg) c
      else if c_Type msg = ''new_udp_conn'' then handleNewUDPConn e (c_ChannelID msg) (c_LocalPort msg) (c_RemoteAddr msg) c
      else c)"

section \<open>Frames from the server\<close>

definition write_local :: "nat \<Rightarrow> bytes \<Rightarrow> Client \<Rightarrow> Client" where
  "write_local x data c = c\<lparr>k_locals := (k_locals c)(x := map_option (\<lambda>l. l\<lparr>lc_writes := lc_writes l @ [data]\<rparr>) (k_locals c x))\<rparr>"

definition local_open :: "nat \<Rightarrow> Client \<Rightarrow> bool" where
  "local_open x c = (case k_locals c x of Some l \<Rightarrow> \<not> lc_closed l | None \<Rightarrow> False)"

definition lookup_local :: "u32 \<Rightarrow> Client \<Rightarrow> nat option" where
  "lookup_local ch c = (case map_of (k_channels c) ch of Some x \<Rightarrow> Some x | None \<Rightarrow> map_of (k_udpChannels c) ch)"

definition k_data :: "cli_env \<Rightarrow> u32 \<Rightarrow> bytes \<Rightarrow> Client \<Rightarrow> Client" where
  "k_data e ch data c =
     (case lookup_local ch c of
        None \<Rightarrow> c
      | Some x \<Rightarrow>
          if \<not> (ce_write_ok e \<and> local_open x c) then c
          else (let c1 = write_local x data c
                in c1\<lparr>k_bytesIn := k_bytesIn c1 + int (length data),
                      k_connInfos := AList.map_entry ch (\<lambda>i. i\<lparr>in_BytesIn := in_BytesIn i + of_nat (length data)\<rparr>) (k_connInfos c1)\<rparr>))"

definition k_close :: "u32 \<Rightarrow> Client \<Rightarrow> Client" where
  "k_close ch c =
     (let c1 = (case map_of (k_channels c) ch of
            Some x \<Rightarrow> (close_local x c)\<lparr>k_channels := AList.delete ch (k_channels c), k_activeChan := k_activeChan c - 1\<rparr>
          | None \<Rightarrow> c);
          c2 = (case map_of (k_udpChannels c1) ch of
            Some x \<Rightarrow> (close_local x c1)\<lparr>k_udpChannels := AList.delete ch (k_udpChannels c1), k_activeChan := k_activeChan c1 - 1\<rparr>
          | None \<Rightarrow> c1)
      in c2\<lparr>k_connInfos := AList.delete ch (k_connInfos c2)\<rparr>)"

definition k_frame :: "lz4 \<Rightarrow> cli_env \<Rightarrow> frame \<Rightarrow> Client \<Rightarrow> Client" where
  "k_frame z e f c =
     (if f_type f = frameControl then
        (case unmarshal_msg (f_payload f) of None \<Rightarrow> c | Some msg \<Rightarrow> handleControl e msg c)
      else if f_type f = frameData then k_data e (f_chan f) (f_payload f) c
      else if f_type f = frameDataCompressed then
        (case k_Compressor c of
           None \<Rightarrow> c
         | Some cp \<Rightarrow> (case comp_Decompress z cp (f_payload f) of
               None \<Rightarrow> c
             | Some data \<Rightarrow> k_data e (f_chan f) data c))
      else if f_type f = frameClose then k_close (f_chan f) c
      else c)"

text \<open>
  One iteration of \<open>readLoop\<close>. A read that timed out sends a ping and goes on reading; any
  other error ends the loop, whose deferred \<open>Close\<close> then runs.
\<close>

definition loop_exit :: "Client \<Rightarrow> flow \<times> Client" where
  "loop_exit c = (case Client_Close c of Ret c1 \<Rightarrow> (Return, c1) | _ \<Rightarrow> (Crash, c))"

definition k_iter :: "lz4 \<Rightarrow> cli_env \<Rightarrow> rd list \<Rightarrow> Client \<Rightarrow> (flow \<times> Client) \<times> rd list" where
  "k_iter z e input c =
     (if k_closeCh c = Some True then (loop_exit c, input)
      else (case cli_readFrame input of
              (Ret f, rest) \<Rightarrow> ((Continue, k_frame z e f c), rest)
            | (Panic, rest) \<Rightarrow> ((Crash, c), rest)
            | (Err er, rest) \<Rightarrow>
                if \<not> isClosedErr er \<and> er = Timeout then
                  (case k_sendControl (zero_msg\<lparr>c_Type := ''ping''\<rparr>) c of
                     (Ret _, c1) \<Rightarrow> ((Continue, c1), rest)
                   | (Err _, c1) \<Rightarrow> (loop_exit c1, rest)
                   | (Panic, c1) \<Rightarrow> ((Crash, c1), rest))
                else (loop_exit c, rest)))"

section \<open>From local connections to the server\<close>

definition k_pack :: "lz4 \<Rightarrow> Client \<Rightarrow> bytes \<Rightarrow> byte \<times> bytes" where
  "k_pack z c data =
     (case k_Compressor c of
        Some cp \<Rightarrow>
          if k_serverSupportsCompression c
          then (case comp_Compress z cp data of (compressed, ok) \<Rightarrow>
                  if ok then (frameDataCompressed, compressed) else (frameData, data))
          else (frameData, data)
      | None \<Rightarrow> (frameData, data))"

definition k_pipe_exit :: "u32 \<Rightarrow> nat \<Rightarrow> Client \<Rightarrow> flow \<times> Client" where
  "k_pipe_exit ch x c =
     (let c1 = snd (k_writeFrame frameClose ch [] c);
          c2 = (if map_of (k_channels c1) ch \<noteq> None
                then c1\<lparr>k_channels := AList.delete ch (k_channels c1), k_activeChan := k_activeChan c1 - 1\<rparr> else c1);
          c3 = c2\<lparr>k_connInfos := AList.delete ch (k_connInfos c2)\<rparr>
      in (Return, close_local x c3))"

definition k_udp_pipe_exit :: "u32 \<Rightarrow> nat \<Rightarrow> Client \<Rightarrow> flow \<times> Client" where
  "k_udp_pipe_exit ch x c =
     (let c1 = snd (k_writeFrame frameClose ch [] c);
          c2 = (if map_of (k_udpChannels c1) ch \<noteq> None
                then c1\<lparr>k_udpChannels := AList.delete ch (k_udpChannels c1), k_activeChan := k_activeChan c1 - 1\<rparr> else c1);
          c3 = c2\<lparr>k_connInfos := AList.delete ch (k_connInfos c2)\<rparr>
      in (Return, close_local x c3))"

definition k_count_out :: "u32 \<Rightarrow> nat \<Rightarrow> Client \<Rightarrow> Client" where
  "k_count_out ch n c = c\<lparr>k_bytesOut := k_bytesOut c + int n,
     k_connInfos := AList.map_entry ch (\<lambda>i. i\<lparr>in_BytesOut := in_BytesOut i + of_nat n\<rparr>) (k_connInfos c)\<rparr>"

text \<open>\<open>pipeLocalToRelay\<close>: the read gave an error or data; a timeout ends the pipe.\<close>

definition k_pipe_step :: "lz4 \<Rightarrow> u32 \<Rightarrow> nat \<Rightarrow> io_err + bytes \<Rightarrow> Client \<Rightarrow> flow \<times> Client" where
  "k_pipe_step z ch x r c =
     (if k_closeCh c = Some True then k_pipe_exit ch x c
      else (case r of
              Inl er \<Rightarrow> k_pipe_exit ch x c
            | Inr d \<Rightarrow>
                (case k_pack z c d of (ft, data) \<Rightarrow>
                   (case k_writeFrame ft ch data c of
                      (Ret _, c1) \<Rightarrow> (Continue, k_count_out ch (length d) c1)
                    | (Err _, c1) \<Rightarrow> k_pipe_exit ch x c1
                    | (Panic, c1) \<Rightarrow> (Crash, c1)))))"

text \<open>\<open>pipeUDPFromRelay\<close>: a timeout only makes it look at \<open>closeCh\<close> again.\<close>

definition k_udp_pipe_step :: "lz4 \<Rightarrow> u32 \<Rightarrow> nat \<Rightarrow> io_err + bytes \<Rightarrow> Client \<Rightarrow> flow \<times> Client" where
  "k_udp_pipe_step z ch x r c =
     (if k_closeCh c = Some True then k_udp_pipe_exit ch x c
      else (case r of
              Inl er \<Rightarrow>
                if er \<noteq> EOF \<and> \<not> isClosedErr er \<and> er = Timeout then (Continue, c) else k_udp_pipe_exit ch x c
            | Inr d \<Rightarrow>
                (case k_pack z c d of (ft, data) \<Rightarrow>
                   (case k_writeFrame ft ch data c of
                      (Ret _, c1) \<Rightarrow> (Continue, k_count_out ch (length d) c1)
                    | (Err _, c1) \<Rightarrow> k_udp_pipe_exit ch x c1
                    | (Panic, c1) \<Rightarrow> (Crash, c1)))))"

section \<open>Lemmas\<close>

lemma k_writeFrame_cases:
  assumes "k_writeFrame ft ch p c = (r, c')"
  shows "c' = c\<lparr>k_conn := k_conn c'\<rparr>"
  using assms by (cases "k_conn c") (auto simp: k_writeFrame_def Let_def split: prod.splits option.splits)

lemma k_writeFrame_fields [simp]:
  "k_channels (snd (k_writeFrame ft ch p c)) = k_channels c" "k_udpChannels (snd (k_writeFrame ft ch p c)) = k_udpChannels c"
  "k_connInfos (snd (k_writeFrame ft ch p c)) = k_connInfos c" "k_activeChan (snd (k_writeFrame ft ch p c)) = k_activeChan c"
  "k_locals (snd (k_writeFrame ft ch p c)) = k_locals c" "k_closeCh (snd (k_writeFrame ft ch p c)) = k_closeCh c"
  "k_Compressor (snd (k_writeFrame ft ch p c)) = k_Compressor c"
  "k_serverSupportsCompression (snd (k_writeFrame ft ch p c)) = k_serverSupportsCompression c"
  "k_pipes (snd (k_writeFrame ft ch p c)) = k_pipes c"
  by (auto simp: k_writeFrame_def Let_def split: prod.splits option.splits)

lemma k_writeFrame_Ret:
  assumes "k_writeFrame ft ch p c = (Ret c0, c')" and "k_conn c = Some w"
  shows "c0 = c' \<and> (\<exists>w'. k_conn c' = Some w' \<and> w_sent w' = w_sent w @ enc_frame \<lparr>f_type = ft, f_chan = ch, f_payload = p\<rparr>)"
  using assms up.wr_sent [of ft ch p w] by (auto simp: k_writeFrame_def Let_def split: prod.splits option.splits)

lemma k_writeFrame_room:
  assumes "k_conn c = Some w" and "w_room w = None"
  shows "k_writeFrame ft ch p c = (Ret (c\<lparr>k_conn := Some (w\<lparr>w_sent := w_sent w @ enc_frame \<lparr>f_type = ft, f_chan = ch, f_payload = p\<rparr>\<rparr>)\<rparr>),
    c\<lparr>k_conn := Some (w\<lparr>w_sent := w_sent w @ enc_frame \<lparr>f_type = ft, f_chan = ch, f_payload = p\<rparr>\<rparr>)\<rparr>)"
  using assms by (simp add: k_writeFrame_def cli_writeFrame_def conn_write_def enc_frame_def Let_def)

section \<open>Connecting\<close>

text \<open>
  \<open>Connect\<close> succeeds only if the whole registration message was
  written and the server's first message says \<open>ok\<close>; the client then starts without
  channels, and it keeps its compressor only if the server announced compression.
\<close>

theorem connect_registers:
  assumes "Connect dialed input c = (None, c', rest)"
  shows "\<exists>w resp w'. dialed = Some w \<and> readControl input = (Ret resp, rest) \<and> c_Type resp = ''ok''
    \<and> k_conn c' = Some w' \<and> w_sent w' = w_sent w @ enc_frame \<lparr>f_type = frameControl, f_chan = 0,
        f_payload = marshal_msg (register_msg c)\<rparr>
    \<and> k_channels c' = [] \<and> k_udpChannels c' = [] \<and> k_closeCh c' = Some False
    \<and> (k_Compressor c' \<noteq> None \<longrightarrow> k_Compressor c' = k_Compressor c \<and> k_serverSupportsCompression c')
    \<and> (''compression'' \<in> set (c_Features resp) \<longrightarrow> k_Compressor c' = k_Compressor c)"
proof -
  from assms obtain w where w: "dialed = Some w" by (auto simp: Connect_def split: option.splits)
  let ?c1 = "c\<lparr>k_conn := Some w, k_channels := [], k_udpChannels := [], k_connInfos := [], k_closeCh := Some False\<rparr>"
  obtain r c2 where sd: "k_sendControl (register_msg ?c1) ?c1 = (r, c2)" by force
  obtain q rest' where rd: "readControl input = (q, rest')" by force
  from assms w sd rd obtain c0 resp where r: "r = Ret c0" "q = Ret resp" "rest' = rest" and ok: "c_Type resp = ''ok''"
    and c': "c' = (let c3 = (if has_feature (c_Features resp) then c2\<lparr>k_serverSupportsCompression := True\<rparr> else c2)
      in if k_Compressor c3 \<noteq> None \<and> \<not> k_serverSupportsCompression c3 then c3\<lparr>k_Compressor := None\<rparr> else c3)"
    by (auto simp: Connect_def Let_def split: go.splits if_splits)
  have reg: "register_msg ?c1 = register_msg c" by (simp add: register_msg_def)
  from sd r(1) have wf: "k_writeFrame frameControl 0 (marshal_msg (register_msg c)) ?c1 = (Ret c0, c2)"
    by (simp add: k_sendControl_def reg)
  have "k_conn ?c1 = Some w" by simp
  from k_writeFrame_Ret [OF wf this] obtain w' where w': "k_conn c2 = Some w'"
      "w_sent w' = w_sent w @ enc_frame \<lparr>f_type = frameControl, f_chan = 0, f_payload = marshal_msg (register_msg c)\<rparr>" by auto
  have c2: "k_channels c2 = []" "k_udpChannels c2 = []" "k_closeCh c2 = Some False" "k_Compressor c2 = k_Compressor c"
    using k_writeFrame_fields [of frameControl 0 "marshal_msg (register_msg c)" ?c1] by (simp_all add: wf)
  show ?thesis
    using w rd r ok w' c2 by (auto simp: c' Let_def has_feature_iff)
qed

definition demo_k :: Client where
  "demo_k = \<lparr>k_AuthKey = [], k_Services = [], k_Compressor = Some (NewCompression 1 128), k_IPAllow = [], k_IPDeny = [],
     k_MaxConns = 0, k_RateLimit = 0, k_conn = None, k_channels = [], k_udpChannels = [], k_connInfos = [],
     k_totalConns = 0, k_closeCh = None, k_serverSupportsCompression = False, k_locals = Map.empty, k_pipes = [],
     k_activeChan = 0, k_bytesIn = 0, k_bytesOut = 0\<rparr>"

lemma readControl_msg:
  assumes "control_ok m" and "length (marshal_msg m) \<le> unat maxFrameSize"
  shows "readControl (map RByte (enc_frame \<lparr>f_type = frameControl, f_chan = 0, f_payload = marshal_msg m\<rparr>) @ s) = (Ret m, s)"
  using down.rd_frame [of "\<lparr>f_type = frameControl, f_chan = 0, f_payload = marshal_msg m\<rparr>" s] assms(2)
  by (simp add: readControl_def frame_ok_def unmarshal_marshal [OF assms(1)])

definition demo_ok :: controlMsg where
  "demo_ok = zero_msg\<lparr>c_Type := ''ok'', c_PublicAddr := ''h''\<rparr>"

lemma demo_ok_read:
  "readControl (map RByte (enc_frame \<lparr>f_type = frameControl, f_chan = 0, f_payload = marshal_msg demo_ok\<rparr>)) = (Ret demo_ok, [])"
proof -
  have "length (marshal_msg demo_ok) \<le> 400"
    by (simp add: marshal_msg_def text_bytes_def controlMsg_json_def demo_ok_def zero_msg_def omit_def print_string_def esc_char_def)
  then have "length (marshal_msg demo_ok) \<le> unat maxFrameSize" by (simp add: maxFrameSize_def)
  moreover have "control_ok demo_ok" by (simp add: demo_ok_def control_ok_def zero_msg_def)
  ultimately show ?thesis using readControl_msg [of demo_ok "[]"] by simp
qed

text \<open>A server without compression: the client drops its compressor.\<close>

theorem connect_registers_witness:
  "\<exists>c'. Connect (Some \<lparr>w_sent = [], w_room = None\<rparr>)
      (map RByte (enc_frame \<lparr>f_type = frameControl, f_chan = 0, f_payload = marshal_msg demo_ok\<rparr>)) demo_k = (None, c', [])
    \<and> k_Compressor c' = None \<and> k_closeCh c' = Some False"
proof -
  let ?in = "map RByte (enc_frame \<lparr>f_type = frameControl, f_chan = 0, f_payload = marshal_msg demo_ok\<rparr>)"
  obtain r c' rest where k: "Connect (Some \<lparr>w_sent = [], w_room = None\<rparr>) ?in demo_k = (r, c', rest)"
    by (cases "Connect (Some \<lparr>w_sent = [], w_room = None\<rparr>) ?in demo_k") auto
  then have "r = None" "rest = []" "k_Compressor c' = None"
    by (auto simp: Connect_def demo_ok_read k_sendControl_def k_writeFrame_room Let_def)
      (auto simp: demo_ok_def demo_k_def zero_msg_def split: if_splits)
  with connect_registers [of "Some \<lparr>w_sent = [], w_room = None\<rparr>" ?in demo_k c' rest] k show ?thesis by auto
qed

text \<open>
  Closing a client whose \<open>Connect\<close> could not reach
  the server panics: the close channel is still nil.
\<close>

theorem close_without_connect_panics:
  assumes "k_closeCh c = None"
  shows "\<exists>c' rest. Connect None input c = (Some DialFailed, c', rest) \<and> Client_Close c' = Panic"
  using assms by (simp add: Connect_def Client_Close_def)

theorem close_without_connect_panics_witness:
  "\<exists>c' rest. Connect None [] demo_k = (Some DialFailed, c', rest) \<and> Client_Close c' = Panic"
  by (rule close_without_connect_panics) (simp add: demo_k_def)

section \<open>A read that times out inside a frame\<close>

lemma cli_readFrame_timeout_header:
  assumes "k < frameHeaderSize"
  shows "cli_readFrame (map RByte (take k (enc_frame f)) @ RTimeout # s) = (Err Timeout, s)"
proof -
  have "length (take k (enc_frame f)) < frameHeaderSize" using assms by simp
  from read_full_timeout [OF this, of "[]" s] show ?thesis by (simp add: cli_readFrame_def)
qed

lemma cli_readFrame_timeout_payload:
  assumes "frame_ok f" and "frameHeaderSize \<le> k" and "k < length (enc_frame f)"
  shows "cli_readFrame (map RByte (take k (enc_frame f)) @ RTimeout # s) = (Err Timeout, s)"
proof -
  let ?p = "take (k - frameHeaderSize) (f_payload f)"
  have "take k (enc_frame f) = enc_header (f_type f) (f_chan f) (of_nat (length (f_payload f))) @ ?p"
    using assms(2) by (simp add: enc_frame_header)
  then have "cli_readFrame (map RByte (take k (enc_frame f)) @ RTimeout # s)
      = read_payload (f_type f) (f_chan f) (of_nat (length (f_payload f))) (map RByte ?p @ RTimeout # s)"
    by (simp add: cli_readFrame_eq srv_readFrame_header)
  also have "\<dots> = (Err Timeout, s)"
  proof -
    have "length ?p < length (f_payload f)" using assms(2,3) by simp
    from read_full_timeout [OF this, of "[]" s] show ?thesis
      using frame_ok_len [OF assms(1)] unat_frame_len [OF assms(1)] by (simp add: read_payload_def)
  qed
  finally show ?thesis .
qed

text \<open>
  Claim C35 (timeout_loses_framing): if the server's bytes pause for the read timeout inside a
  frame, the client throws away what it had read of the frame, sends a ping and goes on
  reading as if a frame began there. When the pause falls between the header and the
  payload of a data frame, the payload, which is whatever the external peer sent, is
  parsed as frames: a peer that embeds a frame in its data makes the client obey it.
\<close>

theorem timeout_loses_framing:
  assumes "frame_ok f" and "k < length (enc_frame f)" and "k_conn c = Some w" and "w_room w = None"
    and "k_closeCh c = Some False" and "frame_ok g"
  shows "\<exists>c1. k_iter z e (map RByte (take k (enc_frame f)) @ RTimeout # map RByte (drop k (enc_frame f)) @ s) c
      = ((Continue, c1), map RByte (drop k (enc_frame f)) @ s)
    \<and> c1 = c\<lparr>k_conn := k_conn c1\<rparr>
    \<and> (k = frameHeaderSize \<and> f_payload f = enc_frame g \<longrightarrow>
        k_iter z e (map RByte (drop k (enc_frame f)) @ s) c1 = ((Continue, k_frame z e g c1), s))"
proof -
  have to: "cli_readFrame (map RByte (take k (enc_frame f)) @ RTimeout # t) = (Err Timeout, t)" for t
    using cli_readFrame_timeout_header [of k f t] cli_readFrame_timeout_payload [OF assms(1) _ assms(2), of t] not_le by blast
  obtain c1 where sd: "k_sendControl (zero_msg\<lparr>c_Type := ''ping''\<rparr>) c = (Ret c1, c1)"
    and c1: "c1 = c\<lparr>k_conn := k_conn c1\<rparr>"
    using assms(3,4) by (simp add: k_sendControl_def k_writeFrame_room)
  have "k_closeCh c1 = k_closeCh c" by (subst c1) simp
  moreover have "k_iter z e (map RByte (drop k (enc_frame f)) @ s) c1 = ((Continue, k_frame z e g c1), s)"
    if "k = frameHeaderSize" "f_payload f = enc_frame g" "k_closeCh c1 = Some False"
    using that down.rd_frame [OF assms(6), of s] by (simp add: k_iter_def enc_frame_header)
  ultimately show ?thesis
    using assms(5) c1 sd by (intro exI [of _ c1]) (simp add: k_iter_def to isClosedErr_def)
qed

text \<open>The peer's data is a close frame for channel 9, which is not its own.\<close>

theorem timeout_loses_framing_witness:
  "\<exists>c1. k_iter toy_lz4 \<lparr>ce_now = 0, ce_dial = True, ce_new = 0, ce_write_ok = True\<rparr>
      (map RByte (drop 9 (enc_frame \<lparr>f_type = frameData, f_chan = 7,
        f_payload = enc_frame \<lparr>f_type = frameClose, f_chan = 9, f_payload = []\<rparr>\<rparr>)) @ []) c1
    = ((Continue, k_frame toy_lz4 \<lparr>ce_now = 0, ce_dial = True, ce_new = 0, ce_write_ok = True\<rparr>
      \<lparr>f_type = frameClose, f_chan = 9, f_payload = []\<rparr> c1), [])"
proof -
  let ?g = "\<lparr>f_type = frameClose, f_chan = 9, f_payload = []\<rparr>"
  let ?f = "\<lparr>f_type = frameData, f_chan = 7, f_payload = enc_frame ?g\<rparr>"
  let ?c = "demo_k\<lparr>k_conn := Some \<lparr>w_sent = [], w_room = None\<rparr>, k_closeCh := Some False\<rparr>"
  have "frame_ok ?f" "frame_ok ?g" by (simp_all add: frame_ok_def maxFrameSize_def frameHeaderSize_def)
  moreover have "9 < length (enc_frame ?f)" by (simp add: frameHeaderSize_def)
  ultimately show ?thesis
    using timeout_loses_framing [of ?f 9 ?c "\<lparr>w_sent = [], w_room = None\<rparr>" ?g toy_lz4 "\<lparr>ce_now = 0, ce_dial = True, ce_new = 0, ce_write_ok = True\<rparr>" "[]"] by (auto simp: frameHeaderSize_def)
qed

section \<open>Delivery and accounting\<close>

text \<open>
  A data frame for a channel the client has open is
  written, unchanged, as one write to the local connection of that channel and to no other,
  and is counted once in the totals and once in the connection's own record; a data frame
  for any other channel changes nothing.
\<close>

theorem client_data_delivered:
  assumes "f_type f = frameData"
  shows "case lookup_local (f_chan f) c of
      None \<Rightarrow> k_frame z e f c = c
    | Some x \<Rightarrow> (\<forall>l. ce_write_ok e \<and> k_locals c x = Some l \<and> \<not> lc_closed l \<longrightarrow>
          k_locals (k_frame z e f c) = (k_locals c)(x \<mapsto> l\<lparr>lc_writes := lc_writes l @ [f_payload f]\<rparr>)
          \<and> k_bytesIn (k_frame z e f c) = k_bytesIn c + int (length (f_payload f))
          \<and> map_of (k_connInfos (k_frame z e f c)) (f_chan f)
              = map_option (\<lambda>i. i\<lparr>in_BytesIn := in_BytesIn i + of_nat (length (f_payload f))\<rparr>) (map_of (k_connInfos c) (f_chan f)))"
  using assms by (auto simp: k_frame_def frame_consts k_data_def Let_def write_local_def local_open_def map_of_map_entry
      split: option.splits)

theorem client_data_delivered_witness:
  "k_locals (k_frame toy_lz4 \<lparr>ce_now = 0, ce_dial = True, ce_new = 0, ce_write_ok = True\<rparr>
      \<lparr>f_type = frameData, f_chan = 7, f_payload = [1, 2]\<rparr>
      (demo_k\<lparr>k_channels := [(7, 3)], k_locals := [3 \<mapsto> \<lparr>lc_addr = [], lc_writes = [[0]], lc_closed = False\<rparr>]\<rparr>))
    = [3 \<mapsto> \<lparr>lc_addr = [], lc_writes = [[0], [1, 2]], lc_closed = False\<rparr>]"
  using client_data_delivered [where f = "\<lparr>f_type = frameData, f_chan = 7, f_payload = [1, 2]\<rparr>"
        and c = "demo_k\<lparr>k_channels := [(7, 3)], k_locals := [3 \<mapsto> \<lparr>lc_addr = [], lc_writes = [[0]], lc_closed = False\<rparr>]\<rparr>"
        and z = toy_lz4 and e = "\<lparr>ce_now = 0, ce_dial = True, ce_new = 0, ce_write_ok = True\<rparr>"]
  by (simp add: lookup_local_def)

text \<open>The events of a connected client after which its channel table can differ.\<close>

datatype k_event =
    KFrame cli_env frame
  | KPipe u32 nat "io_err + bytes"
  | KUdpPipe u32 nat "io_err + bytes"

fun k_step :: "lz4 \<Rightarrow> k_event \<Rightarrow> Client \<Rightarrow> Client" where
  "k_step z (KFrame e f) c = k_frame z e f c"
| "k_step z (KPipe ch x r) c = snd (k_pipe_step z ch x r c)"
| "k_step z (KUdpPipe ch x r) c = snd (k_udp_pipe_step z ch x r c)"

text \<open>The server does not announce a channel id that is still in use.\<close>

fun k_fresh :: "k_event \<Rightarrow> Client \<Rightarrow> bool" where
  "k_fresh (KFrame e f) c =
     (case unmarshal_msg (f_payload f) of
        Some msg \<Rightarrow> f_type f = frameControl \<longrightarrow>
          (c_Type msg = ''new_conn'' \<longrightarrow> c_ChannelID msg \<notin> fst ` set (k_channels c)) \<and>
          (c_Type msg = ''new_udp_conn'' \<longrightarrow> c_ChannelID msg \<notin> fst ` set (k_udpChannels c))
      | None \<Rightarrow> True)"
| "k_fresh _ c = True"

fun k_run :: "lz4 \<Rightarrow> k_event list \<Rightarrow> Client \<Rightarrow> Client" where
  "k_run z [] c = c"
| "k_run z (ev # evs) c = k_run z evs (k_step z ev c)"

fun k_run_fresh :: "lz4 \<Rightarrow> k_event list \<Rightarrow> Client \<Rightarrow> bool" where
  "k_run_fresh z [] c = True"
| "k_run_fresh z (ev # evs) c = (k_fresh ev c \<and> k_run_fresh z evs (k_step z ev c))"

definition counted :: "int \<Rightarrow> Client \<Rightarrow> bool" where
  "counted base c \<longleftrightarrow> k_activeChan c = base + int (length (k_channels c) + length (k_udpChannels c))
     \<and> distinct (map fst (k_channels c)) \<and> distinct (map fst (k_udpChannels c))"

lemma length_delete_key:
  "distinct (map fst l) \<Longrightarrow> map_of l k = Some v \<Longrightarrow> int (length (AList.delete k l)) = int (length l) - 1"
proof (induction l)
  case (Cons p l)
  then show ?case by (cases p) (auto simp: AList.delete_idem split: if_splits)
qed simp

lemma update_fresh: "k \<notin> fst ` set l \<Longrightarrow> AList.update k v l = l @ [(k, v)]"
  by (induction l) auto

lemma distinct_fst_delete: "distinct (map fst l) \<Longrightarrow> distinct (map fst (AList.delete k l))"
  by (simp add: distinct_delete)

lemma counted_fields:
  "counted b c \<Longrightarrow> k_channels c' = k_channels c \<Longrightarrow> k_udpChannels c' = k_udpChannels c \<Longrightarrow>
    k_activeChan c' = k_activeChan c \<Longrightarrow> counted b c'"
  by (simp add: counted_def)

lemma k_sendControl_fields [simp]:
  "k_channels (snd (k_sendControl m c)) = k_channels c" "k_udpChannels (snd (k_sendControl m c)) = k_udpChannels c"
  "k_activeChan (snd (k_sendControl m c)) = k_activeChan c"
  by (simp_all add: k_sendControl_def)

lemma counted_new_conn:
  assumes "counted b c" and "ch \<notin> fst ` set (k_channels c)"
  shows "counted b (handleNewConn e ch port addr c)"
proof (cases "ce_dial e")
  case False
  with assms(1) show ?thesis by (auto simp: handleNewConn_def intro: counted_fields)
next
  case True
  let ?c1 = "c\<lparr>k_locals := (k_locals c)(ce_new e \<mapsto> \<lparr>lc_addr = local_addr port, lc_writes = [], lc_closed = False\<rparr>),
       k_channels := AList.update ch (ce_new e) (k_channels c),
       k_connInfos := AList.update ch (new_info e ch port ''tcp'' addr) (k_connInfos c),
       k_totalConns := k_totalConns c + 1, k_activeChan := k_activeChan c + 1\<rparr>"
  obtain r c2 where sd: "k_sendControl (ready_msg ch) ?c1 = (r, c2)" by force
  have "counted b ?c1" using assms by (auto simp: counted_def update_fresh)
  then have "counted b c2" using k_sendControl_fields [of "ready_msg ch" ?c1] sd by (auto intro: counted_fields)
  then show ?thesis using True sd by (auto simp: handleNewConn_def Let_def intro: counted_fields split: go.splits)
qed

lemma counted_new_udp_conn:
  assumes "counted b c" and "ch \<notin> fst ` set (k_udpChannels c)"
  shows "counted b (handleNewUDPConn e ch port addr c)"
proof (cases "ce_dial e")
  case False
  with assms(1) show ?thesis by (auto simp: handleNewUDPConn_def intro: counted_fields)
next
  case True
  let ?c1 = "c\<lparr>k_locals := (k_locals c)(ce_new e \<mapsto> \<lparr>lc_addr = local_addr port, lc_writes = [], lc_closed = False\<rparr>),
       k_udpChannels := AList.update ch (ce_new e) (k_udpChannels c),
       k_connInfos := AList.update ch (new_info e ch port ''udp'' addr) (k_connInfos c),
       k_totalConns := k_totalConns c + 1, k_activeChan := k_activeChan c + 1\<rparr>"
  obtain r c2 where sd: "k_sendControl (ready_msg ch) ?c1 = (r, c2)" by force
  have "counted b ?c1" using assms by (auto simp: counted_def update_fresh)
  then have "counted b c2" using k_sendControl_fields [of "ready_msg ch" ?c1] sd by (auto intro: counted_fields)
  then show ?thesis using True sd by (auto simp: handleNewUDPConn_def Let_def intro: counted_fields split: go.splits)
qed

lemma close_local_fields [simp]:
  "k_channels (close_local x c) = k_channels c" "k_udpChannels (close_local x c) = k_udpChannels c"
  "k_activeChan (close_local x c) = k_activeChan c"
  by (simp_all add: close_local_def)

lemma counted_drop_channel:
  assumes "counted b c"
  shows "counted b (if map_of (k_channels c) ch \<noteq> None
     then c\<lparr>k_channels := AList.delete ch (k_channels c), k_activeChan := k_activeChan c - 1\<rparr> else c)"
  using assms by (auto simp: counted_def length_delete_key distinct_fst_delete)

lemma counted_drop_udp:
  assumes "counted b c"
  shows "counted b (if map_of (k_udpChannels c) ch \<noteq> None
     then c\<lparr>k_udpChannels := AList.delete ch (k_udpChannels c), k_activeChan := k_activeChan c - 1\<rparr> else c)"
  using assms by (auto simp: counted_def length_delete_key distinct_fst_delete)

lemma counted_close: "counted b c \<Longrightarrow> counted b (k_close ch c)"
  by (auto simp: k_close_def Let_def counted_def length_delete_key distinct_fst_delete split: option.splits)

lemma counted_data: "counted b c \<Longrightarrow> counted b (k_data e ch d c)"
  by (auto simp: k_data_def Let_def write_local_def intro: counted_fields split: option.splits)

lemma counted_pipe_exit: "counted b c \<Longrightarrow> counted b (snd (k_pipe_exit ch x c))"
  using counted_drop_channel [of b "snd (k_writeFrame frameClose ch [] c)" ch]
  by (auto simp: k_pipe_exit_def Let_def counted_def)

lemma counted_udp_pipe_exit: "counted b c \<Longrightarrow> counted b (snd (k_udp_pipe_exit ch x c))"
  using counted_drop_udp [of b "snd (k_writeFrame frameClose ch [] c)" ch]
  by (auto simp: k_udp_pipe_exit_def Let_def counted_def)

lemma counted_write: "k_writeFrame ft ch p c = (r, c1) \<Longrightarrow> counted b c \<Longrightarrow> counted b c1 \<and> counted b (k_count_out ch n c1)"
  using k_writeFrame_fields [of ft ch p c] by (auto simp: k_count_out_def counted_def)

lemma k_writeFrame_Ret_same: "k_writeFrame ft ch p c = (Ret c0, c1) \<Longrightarrow> c0 = c1"
  by (auto simp: k_writeFrame_def Let_def split: option.splits prod.splits)

lemma counted_step: "counted b c \<Longrightarrow> k_fresh ev c \<Longrightarrow> counted b (k_step z ev c)"
proof (cases ev)
  case (KFrame e f)
  assume "counted b c" "k_fresh ev c"
  with KFrame show ?thesis
    by (auto simp: k_frame_def handleControl_def counted_new_conn counted_new_udp_conn counted_data counted_close
        split: option.splits)
next
  case (KPipe ch x r)
  assume c: "counted b c"
  show ?thesis
    using c counted_pipe_exit [of b c ch x] KPipe
    by (auto simp: k_pipe_step_def split: sum.splits prod.splits go.splits dest: counted_write intro: counted_pipe_exit)
next
  case (KUdpPipe ch x r)
  assume c: "counted b c"
  show ?thesis
    using c counted_udp_pipe_exit [of b c ch x] KUdpPipe
    by (auto simp: k_udp_pipe_step_def split: sum.splits prod.splits go.splits dest: counted_write intro: counted_udp_pipe_exit)
qed

lemma counted_run: "counted b c \<Longrightarrow> k_run_fresh z evs c \<Longrightarrow> counted b (k_run z evs c)"
  by (induction z evs c rule: k_run_fresh.induct) (auto simp: counted_step)

text \<open>
  Through any sequence of frames and pipe steps the
  active-channel counter stays exactly the number of TCP and UDP channels the client has,
  whichever side closed a channel, if the server does not reuse an id in use.
\<close>

theorem active_channels_exact:
  assumes "k_channels c = []" and "k_udpChannels c = []" and "k_run_fresh z evs c"
  shows "k_activeChan (k_run z evs c) = k_activeChan c
    + int (length (k_channels (k_run z evs c)) + length (k_udpChannels (k_run z evs c)))"
proof -
  have "counted (k_activeChan c) c" using assms(1,2) by (simp add: counted_def)
  then have "counted (k_activeChan c) (k_run z evs c)"
    using assms(3) by (rule counted_run)
  then show ?thesis by (simp add: counted_def)
qed

definition demo_new_conn :: frame where
  "demo_new_conn = \<lparr>f_type = frameControl, f_chan = 0,
     f_payload = marshal_msg (zero_msg\<lparr>c_Type := ''new_conn'', c_ChannelID := 5, c_LocalPort := 80\<rparr>)\<rparr>"

theorem active_channels_exact_witness:
  "k_activeChan (k_run toy_lz4 [KFrame \<lparr>ce_now = 0, ce_dial = True, ce_new = 0, ce_write_ok = True\<rparr> demo_new_conn,
      KPipe 5 0 (Inl EOF)] demo_k) = k_activeChan demo_k
    + int (length (k_channels (k_run toy_lz4 [KFrame \<lparr>ce_now = 0, ce_dial = True, ce_new = 0, ce_write_ok = True\<rparr> demo_new_conn,
      KPipe 5 0 (Inl EOF)] demo_k)) + length (k_udpChannels (k_run toy_lz4 [KFrame \<lparr>ce_now = 0, ce_dial = True, ce_new = 0, ce_write_ok = True\<rparr> demo_new_conn,
      KPipe 5 0 (Inl EOF)] demo_k)))"
proof (rule active_channels_exact)
  have "unmarshal_msg (f_payload demo_new_conn) = Some (zero_msg\<lparr>c_Type := ''new_conn'', c_ChannelID := 5, c_LocalPort := 80\<rparr>)"
    unfolding demo_new_conn_def frame.select_convs
    by (rule unmarshal_marshal) (simp add: control_ok_def zero_msg_def int64_def)
  then show "k_run_fresh toy_lz4 [KFrame \<lparr>ce_now = 0, ce_dial = True, ce_new = 0, ce_write_ok = True\<rparr> demo_new_conn,
      KPipe 5 0 (Inl EOF)] demo_k"
    by (simp add: demo_k_def)
qed (simp_all add: demo_k_def)

end
