(* ===== verification/EndToEnd.thy ===== *)
theory EndToEnd
  imports ServerSystem RelayClient
begin

text \<open>
  The server and the client together: what an external connection sends reaches the local
  service, and what the local service answers reaches the external connection, through
  compression, framing and the channel tables of both sides; and a registration that an
  early external connection spoils.
\<close>

section \<open>From the external connection to the local service\<close>

text \<open>The server's pipe reads the given chunks one after another; None if it ends.\<close>

fun srv_pump :: "lz4 \<Rightarrow> u32 \<Rightarrow> nat \<Rightarrow> (srv_env \<times> bytes) list \<Rightarrow> relayClient \<Rightarrow> shared \<Rightarrow> (relayClient \<times> shared) option" where
  "srv_pump z ch x [] c s = Some (c, s)"
| "srv_pump z ch x ((e, d) # eds) c s =
     (case pipe_step z e ch x (Inr d) c s of
        (Continue, c1, s1) \<Rightarrow> srv_pump z ch x eds c1 s1
      | _ \<Rightarrow> None)"

text \<open>The client's read loop, one iteration per environment.\<close>

fun k_loop :: "lz4 \<Rightarrow> cli_env list \<Rightarrow> rd list \<Rightarrow> Client \<Rightarrow> (Client \<times> rd list) option" where
  "k_loop z [] input k = Some (k, input)"
| "k_loop z (e # es) input k =
     (case k_iter z e input k of
        ((Continue, k1), rest) \<Rightarrow> k_loop z es rest k1
      | _ \<Rightarrow> None)"

definition mk_frame :: "u32 \<Rightarrow> byte \<times> bytes \<Rightarrow> frame" where
  "mk_frame ch p = \<lparr>f_type = fst p, f_chan = ch, f_payload = snd p\<rparr>"

lemma pipe_step_continues:
  assumes "w_room (cl_wconn c) = None"
  shows "\<exists>c' s'. pipe_step z e ch x (Inr d) c s = (Continue, c', s') \<and> w_room (cl_wconn c') = None"
proof -
  obtain a m where od: "mgr_OnData ch ''rx'' (int (length d)) (sh_mgr s) = (a, m)" by force
  obtain c1 s2 where rw: "rate_wait e (length d) c (s\<lparr>sh_mgr := m\<rparr>) = (c1, s2)" by force
  have "\<not> act_Close a" using mgr_OnData_no_close [of ch "''rx''" "int (length d)" "sh_mgr s"] od by simp
  moreover have "w_room (cl_wconn c1) = None" using rate_wait_fields(4) [of e "length d" c "s\<lparr>sh_mgr := m\<rparr>"] rw assms by simp
  moreover obtain ft data where pk: "pack z c1 (sh_mgr s2) d = (ft, data)" by force
  moreover obtain r c2 where w: "writeFrameLocked ft ch data c1 = (r, c2)" by force
  ultimately show ?thesis
    using od rw writeFrameLocked_open [of c1 ft ch data] by (simp add: pipe_step_def)
qed

lemma srv_pump_wire:
  assumes "w_room (cl_wconn c) = None"
  shows "\<exists>c' s'. srv_pump z ch x eds c s = Some (c', s') \<and> w_sent (cl_wconn c') = w_sent (cl_wconn c)
    @ concat (map (\<lambda>d. enc_frame (mk_frame ch (pack z c (sh_mgr s) d))) (map snd eds))"
  using assms
proof (induction eds arbitrary: c s)
  case (Cons ed eds)
  obtain e d where ed: "ed = (e, d)" by (cases ed)
  obtain c1 s1 where st: "pipe_step z e ch x (Inr d) c s = (Continue, c1, s1)" and room: "w_room (cl_wconn c1) = None"
    using pipe_step_continues [OF Cons.prems] by blast
  note data = pipe_step_data [OF st]
  have "pack z c1 (sh_mgr s1) d' = pack z c (sh_mgr s) d'" for d'
    using data by (intro pack_cong) simp_all
  with Cons.IH [OF room, of s1] st data ed show ?case by (auto simp: mk_frame_def)
qed simp

lemma pack_small: "length d \<le> 65536 \<Longrightarrow> length (snd (pack z c m d)) \<le> 65536"
  by (auto simp: pack_def mgr_Compress_def comp_Compress_def split: option.splits prod.splits if_splits)

text \<open>Decoding what the server packed.\<close>

lemma k_frame_pack:
  assumes "lz4_sound z" and "clientSupportsCompression c \<longrightarrow> k_Compressor k \<noteq> None"
  shows "k_frame z e (mk_frame ch (pack z c m d)) k = k_data e ch d k"
proof (cases "HasCompressor m \<and> clientSupportsCompression c \<and> snd (mgr_Compress z m d)")
  case True
  then obtain out where out: "mgr_Compress z m d = (out, True)" by (cases "mgr_Compress z m d") auto
  with True assms obtain cp where "k_Compressor k = Some cp" by auto
  with True out mgr_Compress_True [OF assms(1) out] show ?thesis
    by (simp add: pack_def mk_frame_def k_frame_def frame_consts)
next
  case False
  then have "pack z c m d = (frameData, d)" by (auto simp: pack_def split: prod.splits)
  then show ?thesis by (simp add: mk_frame_def k_frame_def frame_consts)
qed

lemma k_data_open:
  assumes "lookup_local ch k = Some x" and "k_locals k x = Some l" and "\<not> lc_closed l" and "ce_write_ok e"
  shows "k_locals (k_data e ch d k) x = Some (l\<lparr>lc_writes := lc_writes l @ [d]\<rparr>)"
    and "lookup_local ch (k_data e ch d k) = Some x" and "k_closeCh (k_data e ch d k) = k_closeCh k"
    and "k_Compressor (k_data e ch d k) = k_Compressor k"
  using assms by (simp_all add: k_data_def local_open_def write_local_def lookup_local_def Let_def split: option.splits)

lemma k_loop_delivers:
  assumes "lz4_sound z" and "clientSupportsCompression c \<longrightarrow> k_Compressor k \<noteq> None"
    and "list_all (\<lambda>d. length d \<le> 65536) ds" and "list_all ce_write_ok es" and "length es = length ds"
    and "k_closeCh k = Some False" and "lookup_local ch k = Some x" and "k_locals k x = Some l" and "\<not> lc_closed l"
  shows "\<exists>k'. k_loop z es (map RByte (concat (map (\<lambda>d. enc_frame (mk_frame ch (pack z c m d))) ds))) k = Some (k', [])
    \<and> k_locals k' x = Some (l\<lparr>lc_writes := lc_writes l @ ds\<rparr>)"
  using assms
proof (induction ds arbitrary: es k l)
  case (Cons d ds)
  then obtain e es' where es: "es = e # es'" by (cases es) auto
  let ?f = "mk_frame ch (pack z c m d)" and ?k = "k_data e ch d k"
  have ok: "frame_ok ?f" using pack_small [of d z c m] Cons.prems(3) by (simp add: frame_ok_def mk_frame_def maxFrameSize_def)
  have it: "k_iter z e (map RByte (enc_frame ?f) @ s) k = ((Continue, ?k), s)" for s
    using Cons.prems(6) down.rd_frame [OF ok] k_frame_pack [OF Cons.prems(1,2)] by (simp add: k_iter_def)
  note kd = k_data_open [OF Cons.prems(7-9), of e d]
  have "\<exists>k'. k_loop z es' (map RByte (concat (map (\<lambda>d. enc_frame (mk_frame ch (pack z c m d))) ds))) ?k = Some (k', [])
    \<and> k_locals k' x = Some ((l\<lparr>lc_writes := lc_writes l @ [d]\<rparr>)\<lparr>lc_writes := lc_writes (l\<lparr>lc_writes := lc_writes l @ [d]\<rparr>) @ ds\<rparr>)"
    by (rule Cons.IH) (use Cons.prems kd es in simp_all)
  then show ?case by (simp add: es it)
qed simp

text \<open>
  Whatever an external connection sends, in whatever chunks
  of at most 64 KiB, compressed or not, reaches the local service of its channel as the same
  chunks in the same order, if the relay connection takes the writes, the client has the
  channel open and a client that announced compression has a compressor.
\<close>

theorem downstream_delivery:
  assumes "lz4_sound z" and "w_room (cl_wconn c) = None" and "w_sent (cl_wconn c) = []"
    and "clientSupportsCompression c \<longrightarrow> k_Compressor k \<noteq> None"
    and "list_all (\<lambda>d. length d \<le> 65536) (map snd eds)" and "list_all ce_write_ok es" and "length es = length eds"
    and "k_closeCh k = Some False" and "lookup_local ch k = Some x" and "k_locals k x = Some l" and "\<not> lc_closed l"
  shows "\<exists>c' s' k'. srv_pump z ch y eds c s = Some (c', s')
    \<and> k_loop z es (map RByte (w_sent (cl_wconn c'))) k = Some (k', [])
    \<and> k_locals k' x = Some (l\<lparr>lc_writes := lc_writes l @ map snd eds\<rparr>)"
proof -
  obtain c' s' where p: "srv_pump z ch y eds c s = Some (c', s')"
      "w_sent (cl_wconn c') = concat (map (\<lambda>d. enc_frame (mk_frame ch (pack z c (sh_mgr s) d))) (map snd eds))"
    using srv_pump_wire [OF assms(2), of z ch y eds s] assms(3) by auto
  have "length es = length (map snd eds)" using assms(7) by simp
  from k_loop_delivers [OF assms(1,4,5,6) this assms(8-11), of "sh_mgr s"] p show ?thesis by auto
qed

definition demo_k_open :: Client where
  "demo_k_open = demo_k\<lparr>k_closeCh := Some False, k_conn := Some \<lparr>w_sent = [], w_room = None\<rparr>,
     k_serverSupportsCompression := True, k_channels := [(7, 3)],
     k_locals := [3 \<mapsto> \<lparr>lc_addr = ''127.0.0.1:80'', lc_writes = [], lc_closed = False\<rparr>]\<rparr>"

definition demo_cli_env :: cli_env where
  "demo_cli_env = \<lparr>ce_now = 0, ce_dial = True, ce_new = 0, ce_write_ok = True\<rparr>"

text \<open>Two chunks, the second one compressed on the way.\<close>

theorem downstream_delivery_witness:
  "\<exists>c' s' k'. srv_pump toy_lz4 7 0 [(demo_env, [1, 2]), (demo_env, replicate 200 65)] (demo_client\<lparr>cl_features := [''compression'']\<rparr>)
      (demo_shared\<lparr>sh_mgr := SetCompressor (NewCompression 1 128) mgr_NewManager\<rparr>) = Some (c', s')
    \<and> k_loop toy_lz4 [demo_cli_env, demo_cli_env] (map RByte (w_sent (cl_wconn c'))) demo_k_open = Some (k', [])
    \<and> k_locals k' 3 = Some \<lparr>lc_addr = ''127.0.0.1:80'', lc_writes = [[1, 2], replicate 200 65], lc_closed = False\<rparr>"
  using downstream_delivery [OF toy_lz4_sound, of "demo_client\<lparr>cl_features := [''compression'']\<rparr>" demo_k_open
      "[(demo_env, [1, 2]), (demo_env, replicate 200 65)]" "[demo_cli_env, demo_cli_env]" 7 3
      "\<lparr>lc_addr = ''127.0.0.1:80'', lc_writes = [], lc_closed = False\<rparr>" 0
      "demo_shared\<lparr>sh_mgr := SetCompressor (NewCompression 1 128) mgr_NewManager\<rparr>"]
  by (simp add: demo_client_def new_client_def demo_k_open_def demo_k_def demo_cli_env_def lookup_local_def)

section \<open>From the local service to the external connection\<close>

fun k_pump :: "lz4 \<Rightarrow> u32 \<Rightarrow> nat \<Rightarrow> bytes list \<Rightarrow> Client \<Rightarrow> Client option" where
  "k_pump z ch x [] k = Some k"
| "k_pump z ch x (d # ds) k =
     (case k_pipe_step z ch x (Inr d) k of
        (Continue, k1) \<Rightarrow> k_pump z ch x ds k1
      | _ \<Rightarrow> None)"

fun r_loop :: "lz4 \<Rightarrow> srv_env list \<Rightarrow> rd list \<Rightarrow> relayClient \<Rightarrow> shared \<Rightarrow> (relayClient \<times> shared \<times> rd list) option" where
  "r_loop z [] input c s = Some (c, s, input)"
| "r_loop z (e # es) input c s =
     (case relay_iter z e input c s of
        ((Continue, c1, s1), rest) \<Rightarrow> r_loop z es rest c1 s1
      | _ \<Rightarrow> None)"

lemma k_pump_wire:
  assumes "k_conn k = Some w" and "w_room w = None" and "k_closeCh k = Some False"
  shows "\<exists>k' w'. k_pump z ch x ds k = Some k' \<and> k_conn k' = Some w' \<and>
    w_sent w' = w_sent w @ concat (map (\<lambda>d. enc_frame (mk_frame ch (k_pack z k d))) ds)"
  using assms
proof (induction ds arbitrary: k w)
  case (Cons d ds)
  let ?f = "mk_frame ch (k_pack z k d)"
  let ?w = "w\<lparr>w_sent := w_sent w @ enc_frame ?f\<rparr>"
  let ?k = "k_count_out ch (length d) (k\<lparr>k_conn := Some ?w\<rparr>)"
  obtain ft data where pk: "k_pack z k d = (ft, data)" by force
  have st: "k_pipe_step z ch x (Inr d) k = (Continue, ?k)"
    using Cons.prems pk k_writeFrame_room [OF Cons.prems(1,2), of ft ch data]
    by (simp add: k_pipe_step_def mk_frame_def)
  have eq: "k_pack z ?k d' = k_pack z k d'" for d' by (simp add: k_pack_def k_count_out_def split: option.split)
  have "k_conn ?k = Some ?w" "w_room ?w = None" "k_closeCh ?k = Some False"
    using Cons.prems by (simp_all add: k_count_out_def)
  from Cons.IH [OF this] st show ?case by (simp add: eq)
qed simp

lemma k_pack_small: "length d \<le> 65536 \<Longrightarrow> length (snd (k_pack z k d)) \<le> 65536"
  by (auto simp: k_pack_def comp_Compress_def split: option.splits prod.splits if_splits)

lemma relay_frame_pack:
  assumes "lz4_sound z" and "k_serverSupportsCompression k \<longrightarrow> CanDecompress (sh_mgr s)"
  shows "relay_frame z e (mk_frame ch (k_pack z k d)) c s = relay_data e ch d c s"
proof (cases "fst (k_pack z k d) = frameDataCompressed")
  case True
  then obtain cp out where out: "k_Compressor k = Some cp" "k_serverSupportsCompression k" "comp_Compress z cp d = (out, True)"
      "k_pack z k d = (frameDataCompressed, out)"
    by (auto simp: k_pack_def frame_consts split: option.splits if_splits prod.splits)
  have "lz4_read z out = Some d"
    using comp_roundtrip [OF assms(1) out(3), of cp] by (simp add: comp_Decompress_def)
  with out assms(2) show ?thesis
    by (simp add: mk_frame_def relay_frame_def frame_consts mgr_Decompress_any)
next
  case False
  then have "k_pack z k d = (frameData, d)" by (auto simp: k_pack_def split: option.splits if_splits prod.splits)
  then show ?thesis by (simp add: mk_frame_def relay_frame_def frame_consts)
qed

lemma relay_data_open:
  assumes "map_of (cl_channelConns c) ch = Some x" and "sh_exts s x = Some k" and "\<not> x_closed k" and "se_ext_write e = None"
  shows "\<exists>c1 s1. relay_data e ch d c s = (Continue, c1, s1) \<and> map_of (cl_channelConns c1) ch = Some x
    \<and> sh_exts s1 x = Some (k\<lparr>x_sent := x_sent k @ d\<rparr>) \<and> CanDecompress (sh_mgr s1) = CanDecompress (sh_mgr s)"
proof -
  obtain a m where od: "mgr_OnData ch ''tx'' (int (length d)) (sh_mgr s) = (a, m)" by force
  obtain c1 s2 where rw: "rate_wait e (length d) c (s\<lparr>sh_mgr := m\<rparr>) = (c1, s2)" by force
  have "cl_channelConns c1 = cl_channelConns c" "sh_exts s2 = sh_exts s" "sh_mgr s2 = m"
    using rate_wait_fields [of e "length d" c "s\<lparr>sh_mgr := m\<rparr>"] rw by simp_all
  moreover have "CanDecompress m = CanDecompress (sh_mgr s)"
    using mgr_OnData_fields [of ch "''tx''" "int (length d)" "sh_mgr s"] od by (simp add: CanDecompress_def)
  ultimately show ?thesis using relay_data_no_plugin [OF od rw] assms by (simp add: write_ext_def)
qed

lemma r_loop_delivers:
  assumes "lz4_sound z" and "k_serverSupportsCompression k \<longrightarrow> CanDecompress (sh_mgr s)"
    and "list_all (\<lambda>d. length d \<le> 65536) ds" and "list_all (\<lambda>e. se_ext_write e = None) es" and "length es = length ds"
    and "map_of (cl_channelConns c) ch = Some x" and "sh_exts s x = Some b" and "\<not> x_closed b"
  shows "\<exists>c' s'. r_loop z es (map RByte (concat (map (\<lambda>d. enc_frame (mk_frame ch (k_pack z k d))) ds))) c s = Some (c', s', [])
    \<and> sh_exts s' x = Some (b\<lparr>x_sent := x_sent b @ concat ds\<rparr>)"
  using assms
proof (induction ds arbitrary: es c s b)
  case (Cons d ds)
  then obtain e es' where es: "es = e # es'" by (cases es) auto
  let ?f = "mk_frame ch (k_pack z k d)"
  have ok: "frame_ok ?f" using k_pack_small [of d z k] Cons.prems(3) by (simp add: frame_ok_def mk_frame_def maxFrameSize_def)
  obtain c1 s1 where rd: "relay_data e ch d c s = (Continue, c1, s1)" and c1: "map_of (cl_channelConns c1) ch = Some x"
    and s1: "sh_exts s1 x = Some (b\<lparr>x_sent := x_sent b @ d\<rparr>)" "CanDecompress (sh_mgr s1) = CanDecompress (sh_mgr s)"
    using relay_data_open [OF Cons.prems(6-8), of e d] Cons.prems(4) es by auto
  have it: "relay_iter z e (map RByte (enc_frame ?f) @ t) c s = ((Continue, c1, s1), t)" for t
    using srv_readFrame_enc [OF ok] relay_frame_pack [OF Cons.prems(1,2)] rd by (simp add: relay_iter_def)
  have "\<exists>c' s'. r_loop z es' (map RByte (concat (map (\<lambda>d. enc_frame (mk_frame ch (k_pack z k d))) ds))) c1 s1 = Some (c', s', [])
    \<and> sh_exts s' x = Some ((b\<lparr>x_sent := x_sent b @ d\<rparr>)\<lparr>x_sent := x_sent (b\<lparr>x_sent := x_sent b @ d\<rparr>) @ concat ds\<rparr>)"
    by (rule Cons.IH) (use Cons.prems c1 s1 es in simp_all)
  then show ?case by (simp add: es it)
qed simp

text \<open>
  What a local service sends, in whatever chunks of at most
  64 KiB, compressed or not, is written to the external connection of its channel as the
  same byte sequence, if the relay connection takes the writes, the channel is open on the
  server, and the server can decompress if the client was told so.
\<close>

theorem upstream_delivery:
  assumes "lz4_sound z" and "k_conn k = Some \<lparr>w_sent = [], w_room = None\<rparr>" and "k_closeCh k = Some False"
    and "k_serverSupportsCompression k \<longrightarrow> CanDecompress (sh_mgr s)"
    and "list_all (\<lambda>d. length d \<le> 65536) ds" and "list_all (\<lambda>e. se_ext_write e = None) es" and "length es = length ds"
    and "map_of (cl_channelConns c) ch = Some x" and "sh_exts s x = Some b" and "\<not> x_closed b"
  shows "\<exists>k' w' c' s'. k_pump z ch y ds k = Some k' \<and> k_conn k' = Some w'
    \<and> r_loop z es (map RByte (w_sent w')) c s = Some (c', s', [])
    \<and> sh_exts s' x = Some (b\<lparr>x_sent := x_sent b @ concat ds\<rparr>)"
proof -
  obtain k' w' where p: "k_pump z ch y ds k = Some k'" "k_conn k' = Some w'"
      "w_sent w' = concat (map (\<lambda>d. enc_frame (mk_frame ch (k_pack z k d))) ds)"
    using k_pump_wire [OF assms(2) _ assms(3), of z ch y ds] by auto
  with r_loop_delivers [OF assms(1,4-10)] show ?thesis by auto
qed

theorem upstream_delivery_witness:
  "\<exists>k' w' c' s'. k_pump toy_lz4 7 3 [[1, 2], replicate 200 65] demo_k_open = Some k' \<and> k_conn k' = Some w'
    \<and> r_loop toy_lz4 [demo_env, demo_env] (map RByte (w_sent w')) (demo_client\<lparr>cl_channelConns := [(7, 0)]\<rparr>)
        (demo_shared\<lparr>sh_mgr := SetDecompressor (NewCompression 1 128) mgr_NewManager,
           sh_exts := [0 \<mapsto> \<lparr>x_addr = [], x_sent = [], x_closed = False\<rparr>]\<rparr>) = Some (c', s', [])
    \<and> sh_exts s' 0 = Some \<lparr>x_addr = [], x_sent = [1, 2] @ replicate 200 65, x_closed = False\<rparr>"
  using upstream_delivery [OF toy_lz4_sound, of demo_k_open
      "demo_shared\<lparr>sh_mgr := SetDecompressor (NewCompression 1 128) mgr_NewManager,
           sh_exts := [0 \<mapsto> \<lparr>x_addr = [], x_sent = [], x_closed = False\<rparr>]\<rparr>"
      "[[1, 2], replicate 200 65]" "[demo_env, demo_env]" "demo_client\<lparr>cl_channelConns := [(7, 0)]\<rparr>" 7 0
      "\<lparr>x_addr = [], x_sent = [], x_closed = False\<rparr>" 3]
  by (simp add: demo_client_def new_client_def demo_k_open_def demo_k_def demo_env_def SetDecompressor_def CanDecompress_def)

section \<open>A connection before the reply\<close>

lemma accept_writes:
  assumes "tcp_accept e svc x c s = (Continue, c1, s1)" and "cl_pipes c1 \<noteq> cl_pipes c"
  shows "w_sent (cl_wconn c1) = w_sent (cl_wconn c)
    @ enc_frame \<lparr>f_type = frameControl, f_chan = 0, f_payload = marshal_msg (new_conn_msg (sh_nextCID s + 1) svc (ext_addr x s))\<rparr>"
proof -
  let ?m = "new_conn_msg (sh_nextCID s + 1) svc (ext_addr x s)"
  obtain ok m where oa: "mgr_OnAccept (se_hook e) ''tcp'' (ext_addr x s) (sh_mgr s) = (ok, m)" by force
  obtain b c0 where la: "limiter_accept c = (b, c0)" by force
  have pipes0: "cl_pipes c0 = cl_pipes c" and w0: "cl_wconn c0 = cl_wconn c"
    using limiter_accept_fields [of c] la by simp_all
  have op: "tcp_open e svc x c0 (s\<lparr>sh_mgr := m\<rparr>) = (Continue, c1, s1)"
    using assms oa la pipes0 by (auto simp: tcp_accept_def Let_def split: if_splits bool.splits)
  have ex: "ext_addr x (s\<lparr>sh_mgr := m\<rparr>) = ext_addr x s" by (simp add: ext_addr_def)
  let ?c = "c0\<lparr>cl_channelConns := AList.update (sh_nextCID s + 1) x (cl_channelConns c0)\<rparr>"
  obtain r c3 where sd: "rc_sendControl ?m ?c = (r, c3)" by force
  from op sd ex have "r = None" and c1: "cl_wconn c1 = cl_wconn c3"
    by (auto simp: tcp_open_def next_cid_def Let_def split_beta split: option.splits if_splits)
  then show ?thesis
    using writeFrameLocked_None [of frameControl 0 "marshal_msg ?m" ?c c3] sd w0 by (simp add: rc_sendControl_def)
qed

text \<open>
  Claim C37 (early_connection_spoils_registration): the services listen before the \<open>ok\<close> reply
  is written. If an external connection is accepted in between, its \<open>new_conn\<close> is the first
  message the client reads, \<open>Connect\<close> takes it for the reply and gives up with
  "register rejected: new_conn", although the server has registered the client.
\<close>

theorem early_connection_spoils_registration:
  assumes "w_sent (cl_wconn c) = []" and "w_room (cl_wconn c) = None"
    and "tcp_accept e svc x c s = (Continue, c1, s1)" and "cl_pipes c1 \<noteq> cl_pipes c"
    and "handle_reply lns failed pub c1 s1 = (True, c2, s2)"
    and "control_ok (new_conn_msg (sh_nextCID s + 1) svc (ext_addr x s))"
    and "length (marshal_msg (new_conn_msg (sh_nextCID s + 1) svc (ext_addr x s))) \<le> unat maxFrameSize"
    and "w_room w = None"
  shows "\<exists>k' rest. Connect (Some w) (map RByte (w_sent (cl_wconn c2))) k = (Some (Rejected ''new_conn''), k', rest)"
proof -
  let ?m = "new_conn_msg (sh_nextCID s + 1) svc (ext_addr x s)"
  let ?f = "\<lparr>f_type = frameControl, f_chan = 0, f_payload = marshal_msg ?m\<rparr>"
  have "w_sent (cl_wconn c1) = enc_frame ?f" using accept_writes [OF assms(3,4)] assms(1) by simp
  moreover have "\<exists>t. w_sent (cl_wconn c2) = w_sent (cl_wconn c1) @ t"
  proof -
    obtain q c4 where rs: "rc_sendControl (ok_msg pub failed (sh_mgr s1)) c1 = (q, c4)" by force
    with assms(5) have "q = None" "c2 = c4" by (auto simp: handle_reply_eq reply_failed_def split: option.splits)
    with rs writeFrameLocked_None [of frameControl 0 "marshal_msg (ok_msg pub failed (sh_mgr s1))" c1 c4]
    show ?thesis by (auto simp: rc_sendControl_def)
  qed
  ultimately obtain t where t: "w_sent (cl_wconn c2) = enc_frame ?f @ t" by auto
  have rd: "readControl (map RByte (w_sent (cl_wconn c2))) = (Ret ?m, map RByte t)"
    using readControl_msg [OF assms(6,7), of "map RByte t"] by (simp add: t)
  have "c_Type ?m = ''new_conn''" by (simp add: new_conn_msg_def)
  with rd assms(8) show ?thesis
    by (simp add: Connect_def k_sendControl_def k_writeFrame_room Let_def)
qed

theorem early_connection_spoils_registration_witness:
  "\<exists>c1 s1 c2 s2 k' rest. tcp_accept demo_env run_svc 0 demo_client (with_ext 0 ''6.6.6.6:6'' demo_shared) = (Continue, c1, s1)
    \<and> handle_reply [0] [] ''h'' c1 s1 = (True, c2, s2)
    \<and> Connect (Some \<lparr>w_sent = [], w_room = None\<rparr>) (map RByte (w_sent (cl_wconn c2))) demo_k
        = (Some (Rejected ''new_conn''), k', rest)"
proof -
  let ?s = "with_ext 0 ''6.6.6.6:6'' demo_shared"
  obtain c1 s1 where a: "tcp_accept demo_env run_svc 0 demo_client ?s = (Continue, c1, s1)"
    and c1: "cl_pipes c1 = [(2, 0)]" "w_room (cl_wconn c1) = None"
    by (simp add: tcp_accept_def tcp_open_def with_ext_def ext_addr_def demo_shared_def mgr_NewManager_def
        mgr_OnAccept_def filter_refuses_def limiter_accept_def demo_client_def new_client_def Let_def next_cid_def
        mgr_OnOpen_def no_action_def rc_sendControl_room)
  obtain c2 s2 where h: "handle_reply [0] [] ''h'' c1 s1 = (True, c2, s2)"
    using rc_sendControl_room [OF c1(2)] by (simp add: handle_reply_eq)
  let ?m = "new_conn_msg (sh_nextCID ?s + 1) run_svc (ext_addr 0 ?s)"
  have m: "?m = zero_msg\<lparr>c_Type := ''new_conn'', c_ChannelID := 2, c_LocalPort := 22, c_RemoteAddr := ''6.6.6.6:6''\<rparr>"
    by (simp add: new_conn_msg_def run_svc_def with_ext_def ext_addr_def demo_shared_def)
  have ok: "control_ok ?m" unfolding m by (simp add: control_ok_def zero_msg_def int64_def)
  have "length (marshal_msg ?m) \<le> 400"
    unfolding m by (simp add: marshal_msg_def text_bytes_def controlMsg_json_def zero_msg_def omit_def
        j_int_def itoa_def dec_digits.simps print_string_def esc_char_def)
  then have small: "length (marshal_msg ?m) \<le> unat maxFrameSize" by (simp add: maxFrameSize_def)
  have "w_sent (cl_wconn demo_client) = []" "w_room (cl_wconn demo_client) = None" "cl_pipes c1 \<noteq> cl_pipes demo_client"
    by (simp_all add: c1 demo_client_def new_client_def)
  from early_connection_spoils_registration [OF this(1,2) a this(3) h ok small, of "\<lparr>w_sent = [], w_room = None\<rparr>" demo_k]
  show ?thesis using a h by auto
qed

text \<open>
  The reply is not written under \<open>writeMu\<close>, so a \<open>new_conn\<close> message can also get between its
  header and its payload. The client then takes the beginning of that message's frame for
  the payload of the reply, finds no JSON in it, and gives up.
\<close>

lemma unmarshal_zero: "bs \<noteq> [] \<Longrightarrow> hd bs = 0 \<Longrightarrow> unmarshal_msg bs = None"
proof -
  assume "bs \<noteq> []" "hd bs = 0"
  then obtain r where bs: "bs = 0 # r" by (cases bs) auto
  have c: "char_of (0 :: nat) = CHR 0x00" by (simp add: char_of_def)
  show ?thesis
    by (simp add: bs unmarshal_msg_def bytes_text_def parse_json_def c json_ws_def num_char_def valid_number_def digits1_def is_digit_def)
qed

theorem split_reply_spoils_registration:
  assumes "w_sent (cl_wconn c) = []"
    and "p = marshal_msg (ok_msg pub failed m)" and "length p \<le> unat maxFrameSize"
    and "reply_write lns (reply_header p) c s = (True, c1, s1)"
    and "tcp_accept e svc x c1 s2 = (Continue, c2, s3)" and "cl_pipes c2 \<noteq> cl_pipes c1"
    and "reply_write lns p c2 s4 = (True, c3, s5)" and "w_room w = None"
  shows "\<exists>k' rest. Connect (Some w) (map RByte (w_sent (cl_wconn c3))) k = (Some (ReadResponse BadJSON), k', rest)"
proof -
  have sent: "w_sent (cl_wconn d') = w_sent (cl_wconn d) @ b" if "reply_write lns b d q = (True, d', q')" for b d q d' q'
    using that by (auto simp: reply_write_def reply_failed_def dest: conn_write_None split: option.splits prod.splits)
  obtain f where c2: "w_sent (cl_wconn c2) = reply_header p @ enc_frame f" "f_type f = frameControl"
    using accept_writes [OF assms(5,6)] sent [OF assms(4)] assms(1) by auto
  have c3: "w_sent (cl_wconn c3) = reply_header p @ enc_frame f @ p"
    using sent [OF assms(7)] c2(1) by simp
  let ?r = "enc_frame f @ p" and ?n = "length p"
  let ?g = "\<lparr>f_type = frameControl, f_chan = 0, f_payload = take ?n ?r\<rparr>"
  have n: "p \<noteq> []" by (simp add: assms(2) marshal_msg_def text_bytes_def controlMsg_json_def)
  have eq: "reply_header p @ ?r = enc_frame ?g @ drop ?n ?r" by (simp add: enc_frame_def reply_header_def)
  have "frame_ok ?g" using assms(3) by (simp add: frame_ok_def)
  then have rd: "cli_readFrame (map RByte (reply_header p @ ?r)) = (Ret ?g, map RByte (drop ?n ?r))"
    unfolding eq using down.rd_frame [of ?g "map RByte (drop ?n ?r)"] by simp
  have "unmarshal_msg (take ?n ?r) = None"
    by (rule unmarshal_zero) (use n c2(2) in \<open>simp_all add: enc_frame_def frame_consts\<close>)
  then have "readControl (map RByte (w_sent (cl_wconn c3))) = (Err BadJSON, map RByte (drop ?n ?r))"
    using rd by (simp add: readControl_def c3)
  then show ?thesis using assms(8) by (simp add: Connect_def k_sendControl_def k_writeFrame_room Let_def)
qed

end
