(* ===== verification/WireLog.thy ===== *)
theory WireLog
  imports EndToEnd
begin

text \<open>
  One direction of the relay connection as a log of frames: what a writer attempted, what of
  it is on the wire, and what a reader has in front of it. The lemmas say how one write and
  one read move along the log; the theories of the two writers (\<open>ServerWire\<close>, \<open>ClientWire\<close>)
  and of the composed system (\<open>Composed\<close>) rest on them.
\<close>

section \<open>What frames carry\<close>

text \<open>The data of a frame, decompressed; the reader drops what it cannot decompress.\<close>

definition carried :: "lz4 \<Rightarrow> frame \<Rightarrow> bytes option" where
  "carried z f = (if f_type f = frameData then Some (f_payload f)
     else if f_type f = frameDataCompressed then lz4_read z (f_payload f) else None)"

text \<open>The chunks of one channel, in order.\<close>

fun chunks :: "lz4 \<Rightarrow> u32 \<Rightarrow> frame list \<Rightarrow> bytes list" where
  "chunks z ch [] = []"
| "chunks z ch (f # fs) =
     (case carried z f of
        Some d \<Rightarrow> if f_chan f = ch then d # chunks z ch fs else chunks z ch fs
      | None \<Rightarrow> chunks z ch fs)"

text \<open>The channel a control frame opens at the client.\<close>

definition opens_ch :: "frame \<Rightarrow> u32 option" where
  "opens_ch f = (if f_type f \<noteq> frameControl then None
     else (case unmarshal_msg (f_payload f) of
             None \<Rightarrow> None
           | Some m \<Rightarrow> if c_Type m = ''new_conn'' \<or> c_Type m = ''new_udp_conn'' then Some (c_ChannelID m) else None))"

text \<open>The channel ids a frame mentions as opened or carrying data.\<close>

definition mentions :: "lz4 \<Rightarrow> frame \<Rightarrow> u32 set" where
  "mentions z f = (case opens_ch f of Some ch \<Rightarrow> {ch} | None \<Rightarrow> if carried z f = None then {} else {f_chan f})"

definition seen :: "lz4 \<Rightarrow> frame list \<Rightarrow> u32 set" where
  "seen z fs = (\<Union>f \<in> set fs. mentions z f)"

text \<open>No channel is opened after it was mentioned.\<close>

fun opened_once :: "lz4 \<Rightarrow> u32 set \<Rightarrow> frame list \<Rightarrow> bool" where
  "opened_once z S [] = True"
| "opened_once z S (f # fs) =
     ((case opens_ch f of Some ch \<Rightarrow> ch \<notin> S | None \<Rightarrow> True) \<and> opened_once z (S \<union> mentions z f) fs)"

lemma chunks_append [simp]: "chunks z ch (fs @ gs) = chunks z ch fs @ chunks z ch gs"
  by (induction fs) (auto split: option.split)

lemma seen_simps [simp]:
  "seen z [] = {}" "seen z (f # fs) = mentions z f \<union> seen z fs" "seen z (fs @ gs) = seen z fs \<union> seen z gs"
  by (auto simp: seen_def)

lemma opened_once_append:
  "opened_once z S (fs @ gs) \<longleftrightarrow> opened_once z S fs \<and> opened_once z (S \<union> seen z fs) gs"
  by (induction fs arbitrary: S) (auto simp: Un_assoc)

lemma carried_not_control: "carried z f = Some d \<Longrightarrow> f_type f \<noteq> frameControl"
  by (auto simp: carried_def frame_consts split: if_splits)

lemma carried_control [simp]: "f_type f = frameControl \<Longrightarrow> carried z f = None"
  by (simp add: carried_def frame_consts)

lemma chunks_unseen: "ch \<notin> seen z fs \<Longrightarrow> chunks z ch fs = []"
proof (induction fs)
  case (Cons f fs)
  then show ?case
    by (auto simp: mentions_def opens_ch_def split: option.splits if_splits)
qed simp

text \<open>The kinds of frames the two sides write.\<close>

text \<open>\<open>b\<close> says whether the writer may compress for the other side.\<close>

definition packed_ok :: "bool \<Rightarrow> frame \<Rightarrow> bool" where
  "packed_ok b f \<longleftrightarrow> (f_type f = frameDataCompressed \<longrightarrow> b)"

definition data_frame :: "lz4 \<Rightarrow> bool \<Rightarrow> u32 \<Rightarrow> bytes \<Rightarrow> frame \<Rightarrow> bool" where
  "data_frame z b ch d f \<longleftrightarrow> f_chan f = ch \<and> carried z f = Some d \<and> packed_ok b f"

text \<open>Frames that neither carry data nor open a channel.\<close>

definition plain :: "frame \<Rightarrow> bool" where
  "plain f \<longleftrightarrow> opens_ch f = None \<and> f_type f \<noteq> frameData \<and> f_type f \<noteq> frameDataCompressed"

definition ctl_frame :: "controlMsg \<Rightarrow> frame" where
  "ctl_frame m = \<lparr>f_type = frameControl, f_chan = 0, f_payload = marshal_msg m\<rparr>"

definition close_frame :: "u32 \<Rightarrow> frame" where
  "close_frame ch = \<lparr>f_type = frameClose, f_chan = ch, f_payload = []\<rparr>"

text \<open>A message that fits a frame and survives the JSON round trip.\<close>

definition msg_ok :: "controlMsg \<Rightarrow> bool" where
  "msg_ok m \<longleftrightarrow> control_ok m \<and> length (marshal_msg m) \<le> unat maxFrameSize"

lemma plain_frame: "plain f \<Longrightarrow> carried z f = None \<and> opens_ch f = None \<and> mentions z f = {} \<and> packed_ok b f"
  by (simp add: plain_def carried_def mentions_def packed_ok_def)

lemma data_frame_simps:
  assumes "data_frame z b ch d f"
  shows "chunks z c [f] = (if c = ch then [d] else [])" "opens_ch f = None" "mentions z f = {ch}"
  using assms by (auto simp: data_frame_def mentions_def opens_ch_def dest: carried_not_control)

lemma close_frame_simps [simp]:
  "carried z (close_frame ch) = None" "opens_ch (close_frame ch) = None" "mentions z (close_frame ch) = {}" "frame_ok (close_frame ch)"
  "plain (close_frame ch)"
  by (simp_all add: plain_def close_frame_def carried_def opens_ch_def mentions_def frame_ok_def frame_consts)

lemma ctl_frame_simps [simp]:
  "carried z (ctl_frame m) = None" "packed_ok b (ctl_frame m)" "f_type (ctl_frame m) = frameControl"
  "msg_ok m \<Longrightarrow> frame_ok (ctl_frame m)"
  "msg_ok m \<Longrightarrow> opens_ch (ctl_frame m) = (if c_Type m = ''new_conn'' \<or> c_Type m = ''new_udp_conn'' then Some (c_ChannelID m) else None)"
  by (simp_all add: packed_ok_def ctl_frame_def carried_def frame_ok_def opens_ch_def msg_ok_def unmarshal_marshal frame_consts)

lemma zero_msg_ok:
  "msg_ok (zero_msg\<lparr>c_Type := ''pong''\<rparr>)" "msg_ok (zero_msg\<lparr>c_Type := ''ping''\<rparr>)"
  by (simp_all add: msg_ok_def control_ok_def zero_msg_def maxFrameSize_def marshal_msg_def text_bytes_def controlMsg_json_def
      omit_def print_string_def esc_char_def)

lemma pack_data_frame:
  assumes "lz4_sound z"
  shows "data_frame z (clientSupportsCompression c) ch d (mk_frame ch (pack z c m d))"
proof (cases "HasCompressor m \<and> clientSupportsCompression c \<and> snd (mgr_Compress z m d)")
  case True
  then obtain out where out: "mgr_Compress z m d = (out, True)" by (cases "mgr_Compress z m d") auto
  have "lz4_read z out = Some d"
    using mgr_Compress_True [OF assms out, of "NewCompression 0 0"] by (simp add: comp_Decompress_def)
  with True out show ?thesis by (simp add: pack_def mk_frame_def data_frame_def carried_def packed_ok_def frame_consts)
next
  case False
  then have "pack z c m d = (frameData, d)" by (auto simp: pack_def split: prod.splits)
  then show ?thesis by (simp add: mk_frame_def data_frame_def carried_def packed_ok_def frame_consts)
qed

lemma k_pack_data_frame:
  assumes "lz4_sound z"
  shows "data_frame z (k_serverSupportsCompression k) ch d (mk_frame ch (k_pack z k d))"
proof (cases "fst (k_pack z k d) = frameDataCompressed")
  case True
  then obtain cp out where out: "comp_Compress z cp d = (out, True)" "k_serverSupportsCompression k" "k_pack z k d = (frameDataCompressed, out)"
    by (auto simp: k_pack_def frame_consts split: option.splits if_splits prod.splits)
  with comp_roundtrip [OF assms out(1), of cp] show ?thesis
    by (simp add: mk_frame_def data_frame_def carried_def packed_ok_def frame_consts comp_Decompress_def)
next
  case False
  then have "k_pack z k d = (frameData, d)" by (auto simp: k_pack_def split: option.splits if_splits prod.splits)
  then show ?thesis by (simp add: mk_frame_def data_frame_def carried_def packed_ok_def frame_consts)
qed

section \<open>The log of a writer\<close>

text \<open>
  \<open>wire_log B A w\<close>: after the bytes \<open>B\<close> the writer attempted the frames \<open>A\<close>, all within the
  size limit. Either all of them are on the wire, or the connection is broken for good, the
  wire holds some of them in full, then perhaps a part of the next one, and nothing else.
\<close>

definition wire_log :: "bytes \<Rightarrow> frame list \<Rightarrow> wconn \<Rightarrow> bool" where
  "wire_log B A w \<longleftrightarrow> list_all frame_ok A \<and>
     (w_sent w = B @ concat (map enc_frame A) \<or>
      (w_room w = Some 0 \<and> (\<exists>n < length A. \<exists>k < length (enc_frame (A ! n)).
         w_sent w = B @ concat (map enc_frame (take n A)) @ take k (enc_frame (A ! n)))))"

text \<open>\<open>attempts G w w'\<close>: between \<open>w\<close> and \<open>w'\<close> the writer attempted the frames \<open>G\<close>.\<close>

definition attempts :: "frame list \<Rightarrow> wconn \<Rightarrow> wconn \<Rightarrow> bool" where
  "attempts G w w' \<longleftrightarrow> list_all frame_ok G \<and> prefix (w_sent w) (w_sent w')
     \<and> (\<forall>B A. wire_log B A w \<longrightarrow> wire_log B (A @ G) w')"

lemma attempts_log: "attempts G w w' \<Longrightarrow> wire_log B A w \<Longrightarrow> wire_log B (A @ G) w'"
  by (simp add: attempts_def)

lemma attempts_refl [simp]: "attempts [] w w"
  by (simp add: attempts_def)

lemma attempts_trans: "attempts F w w1 \<Longrightarrow> attempts G w1 w' \<Longrightarrow> attempts (F @ G) w w'"
  unfolding attempts_def by (metis append_assoc list_all_append prefix_order.trans)

lemma wire_log_start: "wire_log (w_sent w) [] w"
  by (simp add: wire_log_def)

lemma attempts_break: "attempts [] w (w\<lparr>w_room := Some 0\<rparr>)"
  by (auto simp: attempts_def wire_log_def)

text \<open>A write on a broken connection changes nothing; a write that fails breaks it.\<close>

lemma conn_write_broken: "w_room w = Some 0 \<Longrightarrow> bs \<noteq> [] \<Longrightarrow> conn_write bs w = (Some (ConnErr ''broken pipe''), w)"
  by (cases w) (simp add: conn_write_def)

lemma conn_write_breaks: "conn_write bs w = (Some e, w') \<Longrightarrow> w_room w' = Some 0"
  by (auto simp: conn_write_def split: option.splits if_splits)

lemma srv_writeFrame_broken: "w_room w = Some 0 \<Longrightarrow> srv_writeFrame t ch p w = (Some (ConnErr ''broken pipe''), w)"
  by (simp add: srv_writeFrame_def conn_write_broken Let_def)

lemma srv_writeFrame_breaks: "srv_writeFrame t ch p w = (Some e, w') \<Longrightarrow> w_room w' = Some 0"
  by (auto simp: srv_writeFrame_def Let_def dest: conn_write_breaks split: option.splits prod.splits if_splits)

lemma attempts_write:
  assumes "frame_ok f"
  shows "attempts [f] w (snd (srv_writeFrame (f_type f) (f_chan f) (f_payload f) w))"
proof -
  obtain r w' where w': "srv_writeFrame (f_type f) (f_chan f) (f_payload f) w = (r, w')" by force
  have "wire_log B (A @ [f]) w'" if log: "wire_log B A w" for B A
  proof (cases "w_room w = Some 0 \<and> w_sent w \<noteq> B @ concat (map enc_frame A)")
    case True
    then have "w' = w" using srv_writeFrame_broken w' by simp
    moreover obtain n k where n: "n < length A" "k < length (enc_frame (A ! n))"
        "w_sent w = B @ concat (map enc_frame (take n A)) @ take k (enc_frame (A ! n))"
      using log True by (auto simp: wire_log_def)
    ultimately show ?thesis
      using log assms True unfolding wire_log_def
      by (intro conjI disjI2 exI [of _ n] exI [of _ k]) (simp_all add: nth_append)
  next
    case False
    then have sent: "w_sent w = B @ concat (map enc_frame A)" using log by (auto simp: wire_log_def)
    have A: "list_all frame_ok (A @ [f])" using log assms by (simp add: wire_log_def)
    show ?thesis
    proof (cases r)
      case None
      with w' sent srv_writeFrame_None [of "f_type f" "f_chan f" "f_payload f" w w'] A show ?thesis
        by (simp add: wire_log_def)
    next
      case (Some e)
      with w' obtain k where "k < length (enc_frame f)" "w_sent w' = w_sent w @ take k (enc_frame f)" "w_room w' = Some 0"
        using srv_writeFrame_Some [of "f_type f" "f_chan f" "f_payload f" w e w'] srv_writeFrame_breaks by fastforce
      with A sent show ?thesis unfolding wire_log_def
        by (intro conjI disjI2 exI [of _ "length A"] exI [of _ k]) simp_all
    qed
  qed
  moreover have "prefix (w_sent w) (w_sent w')"
    using w' srv_writeFrame_None [of "f_type f" "f_chan f" "f_payload f" w w']
      srv_writeFrame_Some [of "f_type f" "f_chan f" "f_payload f" w _ w']
    by (cases r) (auto simp: prefix_def)
  ultimately show ?thesis using assms w' by (simp add: attempts_def)
qed

section \<open>The reader's position\<close>

text \<open>
  \<open>read_upto B A m q w\<close>: the reader has consumed \<open>q\<close> bytes, which are \<open>B\<close> and the first \<open>m\<close>
  frames of the log.
\<close>

definition read_upto :: "bytes \<Rightarrow> frame list \<Rightarrow> nat \<Rightarrow> nat \<Rightarrow> wconn \<Rightarrow> bool" where
  "read_upto B A m q w \<longleftrightarrow> m \<le> length A \<and> q \<le> length (w_sent w)
     \<and> take q (w_sent w) = B @ concat (map enc_frame (take m A))"

lemma read_upto_start: "read_upto (w_sent w) [] 0 (length (w_sent w)) w"
  by (simp add: read_upto_def)

lemma read_upto_attempts: "attempts G w w' \<Longrightarrow> read_upto B A m q w \<Longrightarrow> read_upto B (A @ G) m q w'"
  by (auto simp: read_upto_def attempts_def prefix_def)

text \<open>A frame cut short, also before its first byte.\<close>

definition cut_frame :: "bytes \<Rightarrow> bool" where
  "cut_frame t \<longleftrightarrow> (\<exists>f k. frame_ok f \<and> k < length (enc_frame f) \<and> t = take k (enc_frame f))"

lemma wire_log_read:
  assumes "wire_log B A w" and "read_upto B A m q w"
  obtains F t where "drop q (w_sent w) = concat (map enc_frame F) @ t" "prefix F (drop m A)"
    "F = drop m A \<and> t = [] \<or> w_room w = Some 0 \<and> cut_frame t"
proof -
  let ?e = "\<lambda>fs. concat (map enc_frame fs)"
  obtain d where d: "drop q (w_sent w) = d" by simp
  have m: "m \<le> length A" and sent: "w_sent w = (B @ ?e (take m A)) @ d"
    using assms(2) d append_take_drop_id [of q "w_sent w"] by (auto simp: read_upto_def)
  from assms(1) consider "w_sent w = B @ ?e A"
    | n k where "w_room w = Some 0" "n < length A" "k < length (enc_frame (A ! n))"
        "w_sent w = B @ ?e (take n A) @ take k (enc_frame (A ! n))"
    by (auto simp: wire_log_def simp del: length_enc_frame)
  then show thesis
  proof cases
    case 1
    have "?e A = ?e (take m A) @ ?e (drop m A)" by (simp flip: concat_append map_append)
    with 1 sent have "d = ?e (drop m A) @ []" by simp
    then show thesis by (intro that [of "drop m A" "[]"]) (simp_all add: d)
  next
    case (2 n k)
    have ok: "frame_ok (A ! n)" using assms(1) 2(2) by (simp add: wire_log_def list_all_iff)
    have "m \<le> n"
    proof (rule ccontr)
      assume "\<not> m \<le> n"
      then have "take m A = take n A @ A ! n # drop (Suc n) (take m A)"
        using 2(2) m id_take_nth_drop [of n "take m A"] by (simp add: min_def)
      from arg_cong [OF this, of ?e]
      have "?e (take m A) = ?e (take n A) @ enc_frame (A ! n) @ ?e (drop (Suc n) (take m A))"
        by (simp only: map_append list.map concat_append concat.simps)
      with sent 2(4) have "take k (enc_frame (A ! n)) = enc_frame (A ! n) @ ?e (drop (Suc n) (take m A)) @ d"
        by simp
      from arg_cong [OF this, of length] 2(3) show False by (simp del: length_enc_frame)
    qed
    then obtain j where n: "n = m + j" by (auto simp: le_iff_add)
    have "take n A = take m A @ take j (drop m A)" by (simp add: n take_add)
    with sent 2(4) have "d = ?e (take j (drop m A)) @ take k (enc_frame (A ! n))" by simp
    moreover have "cut_frame (take k (enc_frame (A ! n)))" using ok 2(3) unfolding cut_frame_def by blast
    ultimately show thesis
      using 2(1) by (intro that [of "take j (drop m A)" "take k (enc_frame (A ! n))"]) (auto simp: d take_is_prefix)
  qed
qed

lemma read_cut: "cut_frame t \<Longrightarrow> \<exists>e. srv_readFrame (map RByte t) = (Err e, [])"
  using srv_readFrame_cut by (auto simp: cut_frame_def simp del: length_enc_frame)

text \<open>A frame that is read is the next one of the log.\<close>

lemma read_next:
  assumes log: "wire_log B A w" and at: "read_upto B A m q w"
    and rd: "srv_readFrame (map RByte (drop q (w_sent w))) = (Ret f, rest)"
  shows "m < length A" and "A ! m = f" and "read_upto B A (Suc m) (length (w_sent w) - length rest) w"
proof -
  obtain F t where ft: "drop q (w_sent w) = concat (map enc_frame F) @ t" "prefix F (drop m A)"
      "F = drop m A \<and> t = [] \<or> w_room w = Some 0 \<and> cut_frame t"
    by (rule wire_log_read [OF log at])
  have "F \<noteq> []" using ft rd read_cut [of t] srv_readFrame_nil by auto
  then obtain g F' where F: "F = g # F'" by (cases F) auto
  then have m: "m < length A" and g: "A ! m = g"
    using ft(2) by (auto simp: prefix_def) (metis drop_all list.distinct(1) not_le, metis Cons_nth_drop_Suc drop_all list.inject list.distinct(1) not_le)
  have ok: "frame_ok g" using log m g by (auto simp: wire_log_def list_all_iff)
  let ?r = "concat (map enc_frame F') @ t"
  have "f = g \<and> rest = map RByte ?r"
    using rd srv_readFrame_enc [OF ok, of "map RByte ?r"] ft(1) F by simp
  moreover have sent: "w_sent w = (B @ concat (map enc_frame (take m A)) @ enc_frame g) @ ?r"
    using at ft(1) F append_take_drop_id [of q "w_sent w"] by (simp add: read_upto_def)
  moreover have "take (Suc m) A = take m A @ [g]" using m g by (simp add: take_Suc_conv_app_nth)
  ultimately show "m < length A" "A ! m = f" "read_upto B A (Suc m) (length (w_sent w) - length rest) w"
    using m g by (auto simp: read_upto_def simp del: length_enc_frame)
qed

section \<open>What is in flight\<close>

text \<open>The frames that can be read from the bytes on the way; fuel: each takes a byte at least.\<close>

definition frames_in :: "bytes \<Rightarrow> frame list" where
  "frames_in bs = fst (recv_all srv_readFrame (Suc (length bs)) (map RByte bs))"

lemma frames_in_enc:
  assumes "list_all frame_ok F" and "t = [] \<or> cut_frame t"
  shows "frames_in (concat (map enc_frame F) @ t) = F"
proof -
  let ?bs = "concat (map enc_frame F) @ t"
  have "length F \<le> length ?bs" by (induction F) (auto simp: frameHeaderSize_def)
  then obtain n where n: "Suc (length ?bs) = length F + Suc n" by (metis add_Suc_right le_iff_add)
  have "fst (recv_all srv_readFrame (Suc n) (map RByte t)) = []"
    using assms(2) read_cut [of t] srv_readFrame_nil by auto
  with up.recv_encoded [OF assms(1), of "Suc n" "map RByte t"] show ?thesis
    unfolding frames_in_def n by simp
qed

text \<open>What is in flight is what the log has beyond the reader, all of it while the writer can write.\<close>

lemma frames_in_log:
  assumes "wire_log B A w" and "read_upto B A m q w"
  shows "prefix (frames_in (drop q (w_sent w))) (drop m A)"
    and "w_room w \<noteq> Some 0 \<Longrightarrow> frames_in (drop q (w_sent w)) = drop m A"
proof -
  obtain F t where ft: "drop q (w_sent w) = concat (map enc_frame F) @ t" "prefix F (drop m A)"
      "F = drop m A \<and> t = [] \<or> w_room w = Some 0 \<and> cut_frame t"
    by (rule wire_log_read [OF assms])
  have "set F \<subseteq> set A" using ft(2) set_drop_subset [of m A] by (auto simp: prefix_def)
  then have "list_all frame_ok F" using assms(1) by (auto simp: wire_log_def list_all_iff)
  then have "frames_in (drop q (w_sent w)) = F" using ft by (auto intro: frames_in_enc)
  with ft show "prefix (frames_in (drop q (w_sent w))) (drop m A)"
    and "w_room w \<noteq> Some 0 \<Longrightarrow> frames_in (drop q (w_sent w)) = drop m A" by auto
qed

end
