(* ===== verification/ServerWire.thy ===== *)
theory ServerWire
  imports WireLog
begin

text \<open>
  What each handler of the server attempts to write to its client, as frames of the log, and
  what it leaves alone: the bytes written to external connections (only a data frame of the
  owner adds any), the pipes, the features and the ability to decompress.
\<close>

section \<open>The form of the lemmas\<close>

definition sent_of :: "shared \<Rightarrow> nat \<Rightarrow> bytes option" where
  "sent_of s x = map_option x_sent (sh_exts s x)"

definition shut :: "shared \<Rightarrow> nat set" where
  "shut s = {x. \<exists>b. sh_exts s x = Some b \<and> x_closed b}"

definition calm :: "shared \<Rightarrow> shared \<Rightarrow> bool" where
  "calm s s' \<longleftrightarrow> CanDecompress (sh_mgr s') = CanDecompress (sh_mgr s) \<and> sent_of s' = sent_of s \<and> shut s \<subseteq> shut s'"

definition wires :: "frame list \<Rightarrow> relayClient \<Rightarrow> shared \<Rightarrow> relayClient \<Rightarrow> shared \<Rightarrow> bool" where
  "wires G c s c' s' \<longleftrightarrow> attempts G (cl_wconn c) (cl_wconn c') \<and> cl_features c' = cl_features c
     \<and> cl_pipes c' = cl_pipes c \<and> map_of (cl_channelConns c') \<subseteq>\<^sub>m map_of (cl_channelConns c) \<and> calm s s'"

lemma shut_simps [simp]:
  "shut (close_ext x s) = (if sh_exts s x = None then shut s else insert x (shut s))"
  "shut (on_close e ch s) = shut s" "shut (tcp_loop_exit svc s) = shut s"
  "shut (s\<lparr>sh_mgr := m\<rparr>) = shut s" "shut (s\<lparr>sh_nextCID := i\<rparr>) = shut s" "shut (snd (rate_wait e n c s)) = shut s"
  "shut (s\<lparr>sh_clients := cs\<rparr>) = shut s" "shut (s\<lparr>sh_listeners := ls\<rparr>) = shut s" "shut (s\<lparr>sh_lnext := k\<rparr>) = shut s"
  "shut (write_udp us d c s) = shut s"
  by (auto simp: shut_def close_ext_def on_close_def tcp_loop_exit_def)

lemma sent_of_simps [simp]:
  "sent_of (close_ext x s) = sent_of s" "sent_of (on_close e ch s) = sent_of s" "sent_of (tcp_loop_exit svc s) = sent_of s"
  "sent_of (s\<lparr>sh_mgr := m\<rparr>) = sent_of s" "sent_of (s\<lparr>sh_nextCID := i\<rparr>) = sent_of s" "sent_of (snd (rate_wait e n c s)) = sent_of s"
  "sent_of (s\<lparr>sh_clients := cs\<rparr>) = sent_of s" "sent_of (s\<lparr>sh_listeners := ls\<rparr>) = sent_of s" "sent_of (s\<lparr>sh_lnext := k\<rparr>) = sent_of s"
  "sent_of (write_udp us d c s) = sent_of s"
  by (auto simp: sent_of_def close_ext_def on_close_def tcp_loop_exit_def fun_eq_iff option.map_comp o_def map_option.identity
      intro!: option.map_cong)

lemma decompress_simps [simp]:
  "CanDecompress (mgr_OnClose e ch m) = CanDecompress m" "CanDecompress (snd (mgr_OnData ch d n m)) = CanDecompress m"
  "CanDecompress (snd (mgr_OnOpen e p a ch lp m)) = CanDecompress m" "CanDecompress (snd (mgr_OnAccept e p a m)) = CanDecompress m"
  by (simp_all add: CanDecompress_def)

lemma calm_refl [simp]: "calm s s"
  by (simp add: calm_def)

lemma calm_trans: "calm s s1 \<Longrightarrow> calm s1 s' \<Longrightarrow> calm s s'"
  by (auto simp: calm_def)

lemma wires_refl: "calm s s' \<Longrightarrow> wires [] c s c s'"
  by (simp add: wires_def)

lemma wires_trans: "wires F c s c1 s1 \<Longrightarrow> wires G c1 s1 c' s' \<Longrightarrow> wires (F @ G) c s c' s'"
  by (auto simp: wires_def intro: attempts_trans calm_trans map_le_trans)

text \<open>Steps that write nothing to the client.\<close>

lemma wires_quiet:
  "cl_wconn c' = cl_wconn c \<Longrightarrow> cl_features c' = cl_features c \<Longrightarrow> cl_pipes c' = cl_pipes c
    \<Longrightarrow> map_of (cl_channelConns c') \<subseteq>\<^sub>m map_of (cl_channelConns c) \<Longrightarrow> calm s s' \<Longrightarrow> wires [] c s c' s'"
  by (simp add: wires_def)

lemma delete_le: "map_of (AList.delete k l) \<subseteq>\<^sub>m map_of l"
  by (auto simp: AList.delete_conv map_le_def)

lemma attempts_locked:
  assumes "writeFrameLocked t ch p c = (r, c')" and "length p \<le> unat maxFrameSize"
  shows "attempts [\<lparr>f_type = t, f_chan = ch, f_payload = p\<rparr>] (cl_wconn c) (cl_wconn c')"
  using attempts_write [of "\<lparr>f_type = t, f_chan = ch, f_payload = p\<rparr>" "cl_wconn c"] assms
  by (auto simp: writeFrameLocked_def frame_ok_def split: prod.splits)

lemma wires_locked:
  assumes "writeFrameLocked t ch p c = (r, c')" and "length p \<le> unat maxFrameSize" and "calm s s'"
  shows "wires [\<lparr>f_type = t, f_chan = ch, f_payload = p\<rparr>] c s c' s'"
  using attempts_locked [OF assms(1,2)] writeFrameLocked_fields [of t ch p c] assms by (simp add: wires_def)

lemma wires_control:
  assumes "rc_sendControl m c = (r, c')" and "msg_ok m"
  shows "wires [ctl_frame m] c s c' s"
  using wires_locked [of frameControl 0 "marshal_msg m" c r c'] assms
  by (simp add: rc_sendControl_def ctl_frame_def msg_ok_def)

lemma wires_close_frame:
  "writeFrameLocked frameClose ch [] c = (r, c') \<Longrightarrow> wires [close_frame ch] c s c' s"
  using wires_locked [of frameClose ch "[]" c r c'] by (simp add: close_frame_def)

lemma limiter_wconn [simp]:
  "cl_pipes (limiter_close c) = cl_pipes c"
  by (simp add: limiter_close_def)

lemma session_fields [simp]:
  "cl_wconn (delete_session k c) = cl_wconn c" "cl_features (delete_session k c) = cl_features c" "cl_pipes (delete_session k c) = cl_pipes c"
  "cl_channelConns (delete_session k c) = cl_channelConns c" "cl_channelConns (touch_session k t c) = cl_channelConns c"
  "cl_wconn (touch_session k t c) = cl_wconn c" "cl_features (touch_session k t c) = cl_features c" "cl_pipes (touch_session k t c) = cl_pipes c"
  by (simp_all add: delete_session_def touch_session_def)

lemma pack_fits: "length d \<le> 65536 \<Longrightarrow> length (snd (pack z c m d)) \<le> unat maxFrameSize"
  using pack_small by (simp add: maxFrameSize_def)

lemma supports_cong: "cl_features c' = cl_features c \<Longrightarrow> clientSupportsCompression c' = clientSupportsCompression c"
  by (simp add: clientSupportsCompression_def)

lemma supports_touch [simp]: "clientSupportsCompression (touch_session k t c) = clientSupportsCompression c"
  by (rule supports_cong) simp

lemma wires_pack:
  assumes "lz4_sound z" and "length d \<le> 65536" and "calm s s'"
    and "writeFrameLocked (fst (pack z c0 m d)) ch (snd (pack z c0 m d)) c = (r, c')"
  shows "\<exists>f. data_frame z (clientSupportsCompression c0) ch d f \<and> wires [f] c s c' s'"
  using wires_locked [OF assms(4) pack_fits [OF assms(2)] assms(3)] pack_data_frame [OF assms(1), of c0 ch d m]
  by (auto simp: mk_frame_def)

section \<open>Pipes\<close>

lemma pipe_exit_wires: "pipe_exit e ch x c s = (fl, c', s') \<Longrightarrow> wires [] c s c' s'"
  by (auto simp: pipe_exit_def Let_def calm_def delete_le intro!: wires_quiet split: if_splits)

lemma pipe_error_wires:
  assumes "pipe_step z e ch x (Inl er) c s = (fl, c', s')"
  shows "wires [close_frame ch] c s c' s'"
proof -
  obtain r c1 where w: "writeFrameLocked frameClose ch [] c = (r, c1)" by force
  with assms have "pipe_exit e ch x c1 s = (fl, c', s')" by (simp add: pipe_step_def)
  with wires_trans [OF wires_close_frame [OF w] pipe_exit_wires] show ?thesis by simp
qed

lemma pipe_data_wires:
  assumes "lz4_sound z" and "length d \<le> 65536" and "pipe_step z e ch x (Inr d) c s = (fl, c', s')"
  shows "\<exists>f. data_frame z (clientSupportsCompression c) ch d f \<and> wires [f] c s c' s'"
proof -
  obtain a m where od: "mgr_OnData ch ''rx'' (int (length d)) (sh_mgr s) = (a, m)" by force
  obtain c1 s2 where rw: "rate_wait e (length d) c (s\<lparr>sh_mgr := m\<rparr>) = (c1, s2)" by force
  obtain r c2 where w: "writeFrameLocked (fst (pack z c1 (sh_mgr s2) d)) ch (snd (pack z c1 (sh_mgr s2) d)) c1 = (r, c2)" by force
  have a: "\<not> act_Close a" and m: "CanDecompress m = CanDecompress (sh_mgr s)"
    using mgr_OnData_no_close [of ch "''rx''" "int (length d)" "sh_mgr s"]
      decompress_simps(2) [of ch "''rx''" "int (length d)" "sh_mgr s"] by (simp_all add: od)
  have "wires [] c s c1 s2"
    using rate_wait_fields [of e "length d" c "s\<lparr>sh_mgr := m\<rparr>"] sent_of_simps(6) [of e "length d" c "s\<lparr>sh_mgr := m\<rparr>"]
      shut_simps(6) [of e "length d" c "s\<lparr>sh_mgr := m\<rparr>"] m
    by (intro wires_quiet) (simp_all add: rw calm_def)
  moreover obtain f where "data_frame z (clientSupportsCompression c) ch d f" "wires [f] c1 s2 c2 s2"
    using wires_pack [OF assms(1,2) calm_refl w] rate_wait_fields(5) [of e "length d" c "s\<lparr>sh_mgr := m\<rparr>"]
      supports_cong [of c1 c] by (auto simp: rw)
  moreover have "wires [] c2 s2 c' s'"
  proof (cases r)
    case None
    with assms(3) od rw w a show ?thesis by (simp add: pipe_step_def Let_def split_beta wires_refl)
  next
    case (Some er)
    with assms(3) od rw w a have "pipe_exit e ch x c2 s2 = (fl, c', s')" by (simp add: pipe_step_def Let_def split_beta)
    then show ?thesis by (rule pipe_exit_wires)
  qed
  ultimately show ?thesis by (metis append_Cons append_Nil wires_trans)
qed

section \<open>Frames of the client\<close>

lemma relay_control_wires:
  assumes "relay_control p c s = (fl, c', s')"
  shows "\<exists>G. wires G c s c' s' \<and> (\<forall>f \<in> set G. plain f)"
proof -
  obtain r c1 where sd: "rc_sendControl (zero_msg\<lparr>c_Type := ''pong''\<rparr>) c = (r, c1)" by force
  note pong = wires_control [OF sd zero_msg_ok(1), of s]
  have o: "plain (ctl_frame (zero_msg\<lparr>c_Type := ''pong''\<rparr>))" using zero_msg_ok(1) by (simp add: plain_def frame_consts)
  show ?thesis
  proof (cases "\<exists>m. unmarshal_msg p = Some m \<and> c_Type m = ''ping''")
    case True
    with assms sd have "c' = c1" "s' = s" by (auto simp: relay_control_def)
    with pong o show ?thesis by (intro exI [of _ "[ctl_frame (zero_msg\<lparr>c_Type := ''pong''\<rparr>)]"]) simp
  next
    case False
    with assms have "c' = c" "s' = s" by (auto simp: relay_control_def split: option.splits if_splits)
    then show ?thesis by (intro exI [of _ "[]"]) (simp add: wires_refl)
  qed
qed

lemma relay_close_wires:
  assumes "relay_close e ch c s = (fl, c', s')"
  shows "wires [] c s c' s'"
  using assms
  by (auto simp: relay_close_def Let_def calm_def delete_le intro!: wires_quiet split: option.splits if_splits)

text \<open>A data frame writes to the external connection of its channel and nowhere else.\<close>

lemma relay_data_wires:
  assumes "relay_data e ch d c s = (fl, c', s')"
  shows "cl_wconn c' = cl_wconn c \<and> cl_features c' = cl_features c \<and> cl_pipes c' = cl_pipes c
    \<and> cl_channelConns c' = cl_channelConns c \<and> CanDecompress (sh_mgr s') = CanDecompress (sh_mgr s)
    \<and> sh_exts s' = (case map_of (cl_channelConns c) ch of Some x \<Rightarrow> sh_exts (write_ext e x d s) | None \<Rightarrow> sh_exts s)"
proof -
  obtain a m where od: "mgr_OnData ch ''tx'' (int (length d)) (sh_mgr s) = (a, m)" by force
  obtain c1 s2 where rw: "rate_wait e (length d) c (s\<lparr>sh_mgr := m\<rparr>) = (c1, s2)" by force
  have m: "CanDecompress m = CanDecompress (sh_mgr s)"
    using decompress_simps(2) [of ch "''tx''" "int (length d)" "sh_mgr s"] by (simp add: od)
  note rf = rate_wait_fields [of e "length d" c "s\<lparr>sh_mgr := m\<rparr>", unfolded rw, simplified]
  have "c' = c1 \<and> sh_mgr s' = sh_mgr s2" using assms relay_data_no_plugin [OF od rw]
    by (auto split: option.splits if_splits)
  with rf m relay_data_exts [OF assms] show ?thesis by simp
qed

section \<open>The accept loop\<close>

lemma tcp_accept_wires:
  assumes "tcp_accept e svc x c s = (fl, c', s')" and "no_dyn (sh_mgr s)"
    and "msg_ok (new_conn_msg (sh_nextCID s + 1) svc (ext_addr x s))"
  shows "calm s s' \<and> cl_features c' = cl_features c \<and>
    (attempts [] (cl_wconn c) (cl_wconn c') \<and> cl_pipes c' = cl_pipes c \<and> cl_channelConns c' = cl_channelConns c
       \<and> sh_nextCID s' = sh_nextCID s
     \<or> attempts [ctl_frame (new_conn_msg (sh_nextCID s + 1) svc (ext_addr x s))] (cl_wconn c) (cl_wconn c')
       \<and> sh_nextCID s' = sh_nextCID s + 1 \<and> cl_pipes c' \<in> {cl_pipes c, cl_pipes c @ [(sh_nextCID s + 1, x)]}
       \<and> cl_channelConns c' \<in> {AList.update (sh_nextCID s + 1) x (cl_channelConns c),
            AList.delete (sh_nextCID s + 1) (AList.update (sh_nextCID s + 1) x (cl_channelConns c))})"
proof -
  let ?addr = "ext_addr x s" and ?ch = "sh_nextCID s + 1"
  obtain ok m where oa: "mgr_OnAccept (se_hook e) ''tcp'' ?addr (sh_mgr s) = (ok, m)" by force
  have m: "no_dyn m" "CanDecompress m = CanDecompress (sh_mgr s)"
    using no_dyn_OnAccept [of "se_hook e" "''tcp''" ?addr "sh_mgr s"] decompress_simps(4) [of "se_hook e" "''tcp''" ?addr "sh_mgr s"]
      assms(2) by (simp_all add: oa)
  obtain b c1 where la: "limiter_accept c = (b, c1)" by force
  have c1: "cl_wconn c1 = cl_wconn c" "cl_features c1 = cl_features c" "cl_pipes c1 = cl_pipes c" "cl_channelConns c1 = cl_channelConns c"
    using la by (auto simp: limiter_accept_def split: option.splits prod.splits)
  have refuse: ?thesis if "c' = c \<or> c' = c1" "s' = close_ext x (s\<lparr>sh_mgr := m\<rparr>)"
    using that c1 m by (auto simp: calm_def)
  show ?thesis
  proof (cases "ok \<and> \<not> filter_refuses ''tcp'' ?addr c \<and> b")
    case False
    with assms(1) oa la refuse show ?thesis by (auto simp: tcp_accept_def Let_def split: if_splits)
  next
    case True
    let ?c2 = "limiter_open (c1\<lparr>cl_channelConns := AList.update ?ch x (cl_channelConns c1)\<rparr>)"
    obtain ac m2 where op: "mgr_OnOpen (se_hook e) ''tcp'' ?addr ?ch (sm_LocalPort svc) m = (ac, m2)" by force
    have m2: "\<not> act_Close ac" "CanDecompress m2 = CanDecompress (sh_mgr s)"
      using no_dyn_open [OF m(1), of "se_hook e" "''tcp''" ?addr ?ch "sm_LocalPort svc"]
        decompress_simps(3) [of "se_hook e" "''tcp''" ?addr ?ch "sm_LocalPort svc" m] m by (simp_all add: op)
    obtain r c3 where sd: "rc_sendControl (new_conn_msg ?ch svc ?addr) ?c2 = (r, c3)" by force
    have "ext_addr x (s\<lparr>sh_mgr := m\<rparr>) = ?addr" by (simp add: ext_addr_def)
    with assms(1) True oa la op m2 sd have res: "case r of
          Some err \<Rightarrow> c' = limiter_close (c3\<lparr>cl_channelConns := AList.delete ?ch (cl_channelConns c3)\<rparr>)
            \<and> s' = tcp_loop_exit svc (close_ext x (on_close e ?ch (s\<lparr>sh_nextCID := ?ch, sh_mgr := m2\<rparr>)))
        | None \<Rightarrow> c' = c3\<lparr>cl_pipes := cl_pipes c3 @ [(?ch, x)]\<rparr> \<and> s' = s\<lparr>sh_nextCID := ?ch, sh_mgr := m2\<rparr>"
      by (auto simp: tcp_accept_def tcp_open_def Let_def next_cid_def split: option.splits)
    have w: "attempts [ctl_frame (new_conn_msg ?ch svc ?addr)] (cl_wconn c) (cl_wconn c3)"
      using wires_control [OF sd assms(3), of s] c1 by (simp add: wires_def limiter_open_def)
    have "cl_features c3 = cl_features c" "cl_pipes c3 = cl_pipes c" "cl_channelConns c3 = AList.update ?ch x (cl_channelConns c)"
      using rc_sendControl_fields [of "new_conn_msg ?ch svc ?addr" ?c2, unfolded sd] c1 by (simp_all add: limiter_open_def)
    with res w m2 show ?thesis by (cases r) (auto simp: calm_def on_close_def)
  qed
qed

section \<open>UDP\<close>

text \<open>The datagram passes the filters; it is forwarded if its sender then has a session.\<close>

definition datagram_admitted :: "srv_env \<Rightarrow> string \<Rightarrow> relayClient \<Rightarrow> shared \<Rightarrow> bool" where
  "datagram_admitted e addr c s \<longleftrightarrow> fst (mgr_OnAccept (se_hook e) ''udp'' addr (sh_mgr s))
     \<and> \<not> filter_refuses ''udp'' addr c \<and> \<not> cl_udpLocked c"

lemma udp_forward_wires:
  assumes "lz4_sound z" and "length d \<le> 65536" and "udp_forward z e addr ch d c s = (fl, c', s')"
  shows "\<exists>f. data_frame z (clientSupportsCompression c) ch d f \<and> wires [f] c s c' s'"
    and "cl_channelConns c' = cl_channelConns c" and "lookup_session a c' = lookup_session a c"
    and "sh_nextCID s' = sh_nextCID s"
proof -
  obtain c1 s2 r c2 where
    f: "udp_forward z e addr ch d c s = (if r = None then Continue else Return, c2, s2)"
    and w: "writeFrameLocked (fst (pack z c (sh_mgr s) d)) ch (snd (pack z c (sh_mgr s) d)) c1 = (r, c2)"
    and c1: "c1 = fst (rate_wait e (length d) c (s\<lparr>sh_mgr := snd (mgr_OnData ch ''rx'' (int (length d)) (sh_mgr s))\<rparr>))"
    and s2: "s2 = snd (rate_wait e (length d) c (s\<lparr>sh_mgr := snd (mgr_OnData ch ''rx'' (int (length d)) (sh_mgr s))\<rparr>))"
    by (rule udp_forward_cases)
  have "wires [] c s c1 s2" by (rule wires_quiet) (simp_all add: c1 s2 calm_def)
  moreover obtain f where "data_frame z (clientSupportsCompression c) ch d f" "wires [f] c1 s2 c2 s2"
    using wires_pack [OF assms(1,2) calm_refl w] by blast
  ultimately show "\<exists>f. data_frame z (clientSupportsCompression c) ch d f \<and> wires [f] c s c' s'"
    using f assms(3) by (metis append_Nil prod.inject wires_trans)
  show "cl_channelConns c' = cl_channelConns c" "lookup_session a c' = lookup_session a c" "sh_nextCID s' = sh_nextCID s"
    using f assms(3) writeFrameLocked_fields [of "fst (pack z c (sh_mgr s) d)" ch "snd (pack z c (sh_mgr s) d)" c1, unfolded w]
    by (auto simp: c1 s2 lookup_session_def)
qed

lemma lookup_touch:
  "lookup_session a (touch_session a t c) = map_option (\<lambda>u. u\<lparr>us_lastActive := t\<rparr>) (lookup_session a c)"
  by (auto simp: lookup_session_def touch_session_def AList.map_of_map_entry split: option.split)

lemma udp_datagram_wires:
  assumes "lz4_sound z" and "length d \<le> 65536" and st: "udp_datagram z e svc conn addr d c s = (fl, c', s')"
    and "no_dyn (sh_mgr s)" and "msg_ok (new_udp_conn_msg (sh_nextCID s + 1) svc addr)" and "fl \<noteq> Crash"
  shows "calm s s' \<and> cl_features c' = cl_features c \<and> cl_pipes c' = cl_pipes c \<and> cl_channelConns c' = cl_channelConns c
    \<and> (if datagram_admitted e addr c s \<and> lookup_session addr c' \<noteq> None
       then \<exists>f u. data_frame z (clientSupportsCompression c) (us_channelID u) d f \<and> map_option us_channelID (lookup_session addr c') = Some (us_channelID u)
         \<and> (lookup_session addr c = Some u \<and> attempts [f] (cl_wconn c) (cl_wconn c') \<and> sh_nextCID s' = sh_nextCID s
            \<or> us_channelID u = sh_nextCID s + 1 \<and> sh_nextCID s' = sh_nextCID s + 1
              \<and> attempts [ctl_frame (new_udp_conn_msg (sh_nextCID s + 1) svc addr), f] (cl_wconn c) (cl_wconn c'))
       else cl_wconn c' = cl_wconn c \<and> sh_nextCID s' = sh_nextCID s)"
proof -
  let ?now = "he_now (se_hook e)" and ?ch = "sh_nextCID s + 1"
  obtain ok m where oa: "mgr_OnAccept (se_hook e) ''udp'' addr (sh_mgr s) = (ok, m)" by force
  have m: "no_dyn m" "calm s (s\<lparr>sh_mgr := m\<rparr>)"
    using no_dyn_OnAccept [of "se_hook e" "''udp''" addr "sh_mgr s"] decompress_simps(4) [of "se_hook e" "''udp''" addr "sh_mgr s"]
      assms(4) by (simp_all add: oa calm_def)
  show ?thesis
  proof (cases "datagram_admitted e addr c s")
    case False
    with st oa m show ?thesis by (auto simp: udp_datagram_def datagram_admitted_def Let_def split: if_splits)
  next
    case True
    then have ok: "ok" "\<not> filter_refuses ''udp'' addr c" "\<not> cl_udpLocked c" using oa by (simp_all add: datagram_admitted_def)
    show ?thesis
    proof (cases "lookup_session addr c")
      case (Some u)
      let ?c = "touch_session addr ?now c"
      have fw: "udp_forward z e addr (us_channelID u) d ?c (s\<lparr>sh_mgr := m\<rparr>) = (fl, c', s')"
        using st oa ok Some by (simp add: udp_datagram_def Let_def)
      note f = udp_forward_wires [OF assms(1,2) fw]
      from f(1) obtain g where "data_frame z (clientSupportsCompression c) (us_channelID u) d g" "wires [g] ?c (s\<lparr>sh_mgr := m\<rparr>) c' s'" by auto
      with f(2-4) m Some True show ?thesis
        by (auto simp: wires_def calm_def lookup_touch intro!: exI [of _ g] exI [of _ u])
    next
      case None
      obtain b c1 where la: "limiter_accept c = (b, c1)" by force
      show ?thesis
      proof (cases b)
        case False
        with la limiter_accept_False have "c1 = c" by simp
        with st oa la ok False None m show ?thesis by (auto simp: udp_datagram_def Let_def)
      next
        case b: True
        note a = limiter_accept_True [OF la [unfolded eqTrueI [OF b]]]
        have c1: "cl_wconn c1 = cl_wconn c" "cl_features c1 = cl_features c" "cl_pipes c1 = cl_pipes c"
          using la by (auto simp: limiter_accept_def split: option.splits prod.splits)
        obtain l where l: "cl_udpSessions c1 = Some l"
          using st assms(6) oa ok None la b by (cases "cl_udpSessions c1") (auto simp: udp_datagram_def Let_def next_cid_def)
        let ?u = "\<lparr>us_channelID = ?ch, us_localPort = sm_LocalPort svc, us_remoteAddr = addr,
            us_udpConn = conn, us_lastActive = ?now\<rparr>"
        let ?c2 = "limiter_open (c1\<lparr>cl_udpSessions := Some (AList.update addr ?u l)\<rparr>)"
        obtain ac m2 where op: "mgr_OnOpen (se_hook e) ''udp'' addr ?ch (sm_LocalPort svc) m = (ac, m2)" by force
        have m2: "\<not> act_Close ac" "CanDecompress m2 = CanDecompress (sh_mgr s)"
          using no_dyn_open [OF m(1), of "se_hook e" "''udp''" addr ?ch "sm_LocalPort svc"]
            decompress_simps(3) [of "se_hook e" "''udp''" addr ?ch "sm_LocalPort svc" m] m by (simp_all add: op calm_def)
        obtain r c3 where sd: "rc_sendControl (new_udp_conn_msg ?ch svc addr) ?c2 = (r, c3)" by force
        let ?c4 = "touch_session addr ?now c3" and ?s3 = "s\<lparr>sh_nextCID := ?ch, sh_mgr := m2\<rparr>"
        have fw: "udp_forward z e addr ?ch d ?c4 ?s3 = (fl, c', s')"
          using st oa ok None la b l op m2 sd by (simp add: udp_datagram_def Let_def next_cid_def)
        note f = udp_forward_wires [OF assms(1,2) fw]
        have w1: "attempts [ctl_frame (new_udp_conn_msg ?ch svc addr)] (cl_wconn c) (cl_wconn ?c4)"
          using wires_control [OF sd assms(5), of s] c1 by (simp add: wires_def limiter_open_def)
        have c3: "cl_features c3 = cl_features c" "cl_pipes c3 = cl_pipes c" "cl_channelConns c3 = cl_channelConns c"
            "cl_udpSessions c3 = Some (AList.update addr ?u l)"
          using rc_sendControl_fields [of "new_udp_conn_msg ?ch svc addr" ?c2, unfolded sd] c1 a(3) by (simp_all add: limiter_open_def)
        from f(1) obtain g where g: "data_frame z (clientSupportsCompression c) ?ch d g" "wires [g] ?c4 ?s3 c' s'"
          using supports_cong [OF c3(1)] by auto
        from c3 have "lookup_session addr c3 = Some ?u" by (simp add: lookup_session_def AList.update_conv)
        moreover have "attempts [ctl_frame (new_udp_conn_msg ?ch svc addr), g] (cl_wconn c) (cl_wconn c')"
          using attempts_trans [OF w1, of "[g]"] g(2) by (simp add: wires_def)
        ultimately show ?thesis
          using f(2-4) g m2 c3 True None
          by (auto simp: wires_def calm_def lookup_touch intro!: exI [of _ g] exI [of _ ?u])
      qed
    qed
  qed
qed

lemma cleanup_sessions_wires:
  "cleanup_sessions e l c s = (l', c', s') \<Longrightarrow>
    \<exists>G. wires G c s c' s' \<and> (\<forall>f \<in> set G. plain f)"
proof (induction e l c s arbitrary: l' c' s' rule: cleanup_sessions.induct)
  case (1 e c s)
  then show ?case by (intro exI [of _ "[]"]) (simp add: wires_refl)
next
  case (2 e k u us c s)
  show ?case
  proof (cases "he_now (se_hook e) - us_lastActive u > udp_idle_limit")
    case True
    obtain r c1 where w: "writeFrameLocked frameClose (us_channelID u) [] c = (r, c1)" by force
    let ?s = "on_close e (us_channelID u) s"
    have "cleanup_sessions e us (limiter_close c1) ?s = (l', c', s')" using 2(3) True w by simp
    then obtain G where G: "wires G (limiter_close c1) ?s c' s'" "\<forall>f \<in> set G. plain f"
      using 2(1) [OF True, of l' c' s'] w by auto
    have "wires [close_frame (us_channelID u)] c s c1 s" by (rule wires_close_frame [OF w])
    moreover have "wires [] c1 s (limiter_close c1) ?s" by (rule wires_quiet) (simp_all add: calm_def on_close_def)
    ultimately have "wires ([close_frame (us_channelID u)] @ [] @ G) c s c' s'" using G(1) wires_trans by blast
    with G(2) show ?thesis by (intro exI [of _ "[close_frame (us_channelID u)] @ [] @ G"]) simp
  next
    case False
    with 2 show ?thesis by (auto split: prod.splits)
  qed
qed

lemma udp_cleanup_wires:
  assumes "udp_cleanup e c s = (fl, c', s')"
  shows "\<exists>G. wires G c s c' s' \<and> (\<forall>f \<in> set G. plain f)"
proof (cases "cl_udpLocked c \<or> cl_udpSessions c = None")
  case True
  with assms show ?thesis by (intro exI [of _ "[]"]) (auto simp: udp_cleanup_def wires_refl split: if_splits)
next
  case False
  then obtain l where l: "\<not> cl_udpLocked c" "cl_udpSessions c = Some l" by auto
  obtain l' c1 s1 where cs: "cleanup_sessions e l c s = (l', c1, s1)" by (cases "cleanup_sessions e l c s") auto
  with assms l have r: "c' = c1\<lparr>cl_udpSessions := Some l'\<rparr>" "s' = s1" by (auto simp: udp_cleanup_def)
  from cleanup_sessions_wires [OF cs] r show ?thesis by (auto simp: wires_def)
qed

lemma cleanup_sessions_conns: "cleanup_sessions e l c s = (l', c', s') \<Longrightarrow> cl_channelConns c' = cl_channelConns c"
  by (induction e l c s arbitrary: l' c' s' rule: cleanup_sessions.induct) (auto split: if_splits prod.splits)

lemma udp_cleanup_conns: "udp_cleanup e c s = (fl, c', s') \<Longrightarrow> cl_channelConns c' = cl_channelConns c"
  by (auto simp: udp_cleanup_def dest: cleanup_sessions_conns split: if_splits option.splits prod.splits)

section \<open>The end of a client\<close>

lemma close_exts_shut: "shut s \<subseteq> shut (close_exts cs s)"
  by (induction cs s rule: close_exts.induct) (auto split: if_splits)

lemma close_exts_fields [simp]:
  "sent_of (close_exts cs s) = sent_of s" "sh_mgr (close_exts cs s) = sh_mgr s"
  by (induction cs s rule: close_exts.induct) simp_all

lemma relay_teardown_wires:
  assumes "relay_teardown lns c s = (fl, c', s')"
  shows "wires [] c s c' s' \<and> cl_channelConns c' = cl_channelConns c"
proof -
  have "calm s s'" using assms
    by (auto simp: relay_teardown_def Let_def drop_client_def client_stop_def calm_def close_listeners_eq split: if_splits)
      (use close_exts_shut in fastforce)+
  moreover have "cl_wconn c' = cl_wconn c \<or> cl_wconn c' = (cl_wconn c)\<lparr>w_room := Some 0\<rparr>"
    and "cl_features c' = cl_features c \<and> cl_pipes c' = cl_pipes c \<and> cl_channelConns c' = cl_channelConns c"
    using assms by (auto simp: relay_teardown_def Let_def drop_client_def client_stop_def close_conn_def split: if_splits)
  ultimately show ?thesis using attempts_break by (auto simp: wires_def)
qed

end
