(* ===== verification/ClientWire.thy ===== *)
theory ClientWire
  imports WireLog
begin

text \<open>
  The client's side of the connection: what each of its steps attempts to write to the
  server, and how its channel table and local connections follow the log of the frames it
  has read.
\<close>

section \<open>What the client writes\<close>

definition kwires :: "frame list \<Rightarrow> Client \<Rightarrow> Client \<Rightarrow> bool" where
  "kwires G k k' \<longleftrightarrow> (\<exists>w w'. k_conn k = Some w \<and> k_conn k' = Some w' \<and> attempts G w w')
     \<and> k_Compressor k' = k_Compressor k \<and> k_serverSupportsCompression k' = k_serverSupportsCompression k"

lemma kwires_refl: "k_conn k' = k_conn k \<Longrightarrow> k_conn k \<noteq> None \<Longrightarrow> k_Compressor k' = k_Compressor k
    \<Longrightarrow> k_serverSupportsCompression k' = k_serverSupportsCompression k \<Longrightarrow> kwires [] k k'"
  by (auto simp: kwires_def)

lemma kwires_trans: "kwires F k k1 \<Longrightarrow> kwires G k1 k' \<Longrightarrow> kwires (F @ G) k k'"
  by (auto simp: kwires_def intro: attempts_trans)

lemma kwires_connected: "kwires G k k' \<Longrightarrow> k_conn k \<noteq> None \<and> k_conn k' \<noteq> None"
  by (auto simp: kwires_def)

lemma kwires_write:
  assumes "k_writeFrame t ch p k = (r, k')" and "k_conn k \<noteq> None" and "length p \<le> unat maxFrameSize"
  shows "kwires [\<lparr>f_type = t, f_chan = ch, f_payload = p\<rparr>] k k' \<and> r \<noteq> Panic"
proof -
  obtain w where w: "k_conn k = Some w" using assms(2) by auto
  obtain q w' where wr: "srv_writeFrame t ch p w = (q, w')" by force
  have "k_conn k' = Some w' \<and> r \<noteq> Panic"
    using assms(1) w wr by (cases q) (auto simp: k_writeFrame_def cli_writeFrame_eq Let_def)
  moreover have "attempts [\<lparr>f_type = t, f_chan = ch, f_payload = p\<rparr>] w w'"
    using attempts_write [of "\<lparr>f_type = t, f_chan = ch, f_payload = p\<rparr>" w] wr assms(3) by (simp add: frame_ok_def)
  ultimately show ?thesis using w k_writeFrame_fields [of t ch p k, unfolded assms(1)] by (simp add: kwires_def)
qed

lemma kwires_close: "k_conn k \<noteq> None \<Longrightarrow> kwires [close_frame ch] k (snd (k_writeFrame frameClose ch [] k))"
  using kwires_write [of frameClose ch "[]" k] by (cases "k_writeFrame frameClose ch [] k") (simp add: close_frame_def)

lemma kwires_break: "k_conn k \<noteq> None \<Longrightarrow> kwires [] k (k_closeConn k)"
  using attempts_break by (auto simp: kwires_def k_closeConn_def)

lemma kwires_loop_exit: "k_conn k \<noteq> None \<Longrightarrow> loop_exit k = (fl, k') \<Longrightarrow> kwires [] k k'"
  using kwires_break [of k] kwires_break [of "k\<lparr>k_closeCh := Some True\<rparr>"]
  by (auto simp: loop_exit_def Client_Close_def kwires_def split: option.splits if_splits)

text \<open>The one control message a channel makes the client send is small.\<close>

lemma length_dec_digits: "n < 10 ^ Suc k \<Longrightarrow> length (dec_digits n) \<le> Suc k"
proof (induction k arbitrary: n)
  case 0
  then show ?case by (subst dec_digits.simps) simp
next
  case (Suc k)
  show ?case
  proof (cases "n < 10")
    case True
    then show ?thesis by (subst dec_digits.simps) simp
  next
    case False
    have "n div 10 < 10 ^ Suc k" using Suc.prems by (simp add: less_mult_imp_div_less)
    with Suc.IH False show ?thesis by (subst dec_digits.simps) simp
  qed
qed

lemma ready_msg_ok: "msg_ok (ready_msg ch)"
proof -
  have "unat ch < 2 ^ 32" using unsigned_less [of ch] by simp
  then have "unat ch < 10 ^ Suc 9" by (rule less_trans) simp
  then have "length (dec_digits (unat ch)) \<le> Suc 9" by (rule length_dec_digits)
  then have "length (marshal_msg (ready_msg ch)) \<le> 100"
    by (simp add: ready_msg_def marshal_msg_def text_bytes_def controlMsg_json_def zero_msg_def omit_def j_int_def itoa_def
        print_string_def esc_char_def)
  then show ?thesis by (simp add: msg_ok_def maxFrameSize_def ready_msg_def control_ok_def zero_msg_def)
qed

lemma kwires_control:
  assumes "k_sendControl m k = (r, k')" and "k_conn k \<noteq> None" and "msg_ok m"
  shows "kwires [ctl_frame m] k k' \<and> r \<noteq> Panic"
  using kwires_write [of frameControl 0 "marshal_msg m" k r k'] assms by (simp add: k_sendControl_def ctl_frame_def msg_ok_def)

text \<open>Frames without data: every message and every close frame.\<close>

definition no_data :: "frame list \<Rightarrow> bool" where
  "no_data G \<longleftrightarrow> (\<forall>f \<in> set G. f_type f \<noteq> frameData \<and> f_type f \<noteq> frameDataCompressed)"

lemma no_data_simps [simp]:
  "no_data []" "no_data (fs @ gs) \<longleftrightarrow> no_data fs \<and> no_data gs" "no_data (ctl_frame m # fs) \<longleftrightarrow> no_data fs"
  "no_data (close_frame ch # fs) \<longleftrightarrow> no_data fs"
  by (auto simp: no_data_def close_frame_def frame_consts)

lemma chunks_no_data: "no_data G \<Longrightarrow> chunks z ch G = [] \<and> (\<forall>f \<in> set G. packed_ok b f)"
  by (induction G) (auto simp: no_data_def carried_def packed_ok_def)

lemma k_pack_fits: "length d \<le> 65536 \<Longrightarrow> length (snd (k_pack z k d)) \<le> unat maxFrameSize"
  using k_pack_small by (simp add: maxFrameSize_def)

lemma kwires_pack:
  assumes "lz4_sound z" and "length d \<le> 65536" and "k_conn k \<noteq> None"
    and "k_writeFrame (fst (k_pack z k d)) ch (snd (k_pack z k d)) k = (r, k')"
  shows "\<exists>f. data_frame z (k_serverSupportsCompression k) ch d f \<and> kwires [f] k k' \<and> r \<noteq> Panic"
  using kwires_write [OF assms(4,3) k_pack_fits [OF assms(2)]] k_pack_data_frame [OF assms(1), of k ch d]
  by (auto simp: mk_frame_def)

subsection \<open>The two pipes\<close>

lemma kwires_local:
  "kwires G k k' \<Longrightarrow> k_conn k'' = k_conn k' \<Longrightarrow> k_Compressor k'' = k_Compressor k'
    \<Longrightarrow> k_serverSupportsCompression k'' = k_serverSupportsCompression k' \<Longrightarrow> kwires G k k''"
  by (auto simp: kwires_def)

lemma kwires_pipe_exit:
  assumes "k_conn k \<noteq> None" and "k_pipe_exit ch x k = (fl, k') \<or> k_udp_pipe_exit ch x k = (fl, k')"
  shows "kwires [close_frame ch] k k'"
  using kwires_close [OF assms(1), of ch] assms(2)
  by (elim kwires_local) (auto simp: k_pipe_exit_def k_udp_pipe_exit_def close_local_def Let_def split: if_splits)

lemma kwires_count: "kwires G k k' \<Longrightarrow> kwires G k (k_count_out ch n k')"
  by (erule kwires_local) (simp_all add: k_count_out_def)

text \<open>Data the pipe reads before the client is closed is attempted as one frame.\<close>

lemma kwires_step:
  assumes "lz4_sound z" and "k_conn k \<noteq> None" and "\<And>d. r = Inr d \<Longrightarrow> length d \<le> 65536"
    and st: "k_pipe_step z ch x r k = (fl, k') \<or> k_udp_pipe_step z ch x r k = (fl, k')"
  shows "\<exists>G. kwires G k k' \<and> (case r of
      Inr d \<Rightarrow> if k_closeCh k = Some True then no_data G else \<exists>f H. G = f # H \<and> data_frame z (k_serverSupportsCompression k) ch d f \<and> no_data H
    | Inl er \<Rightarrow> no_data G)"
proof (cases "k_closeCh k = Some True \<or> (\<exists>er. r = Inl er)")
  case True
  then have "k_pipe_exit ch x k = (fl, k') \<or> k_udp_pipe_exit ch x k = (fl, k') \<or> k' = k"
    using st by (auto simp: k_pipe_step_def k_udp_pipe_step_def split: if_splits)
  then have "kwires [close_frame ch] k k' \<or> kwires [] k k'"
    using kwires_pipe_exit [OF assms(2)] kwires_refl [of k k] assms(2) by blast
  then obtain G where "kwires G k k'" "no_data G" by auto
  then show ?thesis using True by (intro exI [of _ G]) (auto split: sum.splits)
next
  case False
  then obtain d where d: "r = Inr d" by (cases r) auto
  obtain q k1 where w: "k_writeFrame (fst (k_pack z k d)) ch (snd (k_pack z k d)) k = (q, k1)" by force
  obtain f where f: "data_frame z (k_serverSupportsCompression k) ch d f" "kwires [f] k k1" "q \<noteq> Panic"
    using kwires_pack [OF assms(1) assms(3) [OF d] assms(2) w] by blast
  have "\<exists>H. no_data H \<and> kwires ([f] @ H) k k'"
  proof (cases "\<exists>k2. q = Ret k2")
    case True
    with st d w False have "k' = k_count_out ch (length d) k1"
      using k_writeFrame_Ret_same by (fastforce simp: k_pipe_step_def k_udp_pipe_step_def split_beta)
    with kwires_count [OF f(2)] show ?thesis by (intro exI [of _ "[]"]) simp
  next
    case err: False
    with f(3) obtain er where "q = Err er" by (cases q) auto
    with st d w False have "k_pipe_exit ch x k1 = (fl, k') \<or> k_udp_pipe_exit ch x k1 = (fl, k')"
      by (auto simp: k_pipe_step_def k_udp_pipe_step_def split_beta)
    moreover have "k_conn k1 \<noteq> None" using kwires_connected [OF f(2)] by simp
    ultimately have "kwires [close_frame ch] k1 k'" using kwires_pipe_exit by blast
    with kwires_trans [OF f(2)] show ?thesis by (intro exI [of _ "[close_frame ch]"]) simp
  qed
  then show ?thesis using False d f(1) by auto
qed

subsection \<open>The read loop\<close>

lemma kwires_new_conn:
  assumes "k_conn k \<noteq> None"
  shows "\<exists>G. no_data G \<and> kwires G k (handleNewConn e ch port addr k)"
    and "\<exists>G. no_data G \<and> kwires G k (handleNewUDPConn e ch port addr k)"
proof -
  have *: "\<exists>G. no_data G \<and> kwires G k (case k_sendControl (ready_msg ch) k1 of
      (Ret _, k2) \<Rightarrow> k2\<lparr>k_pipes := k_pipes k2 @ [(ch, x)]\<rparr> | (_, k2) \<Rightarrow> k2)"
    if "k_conn k1 = k_conn k" "k_Compressor k1 = k_Compressor k" "k_serverSupportsCompression k1 = k_serverSupportsCompression k" for k1 x
  proof -
    obtain r k2 where sd: "k_sendControl (ready_msg ch) k1 = (r, k2)" by force
    have "kwires [ctl_frame (ready_msg ch)] k1 k2" using kwires_control [OF sd _ ready_msg_ok] that assms by simp
    then have "kwires [ctl_frame (ready_msg ch)] k k2" using that by (auto simp: kwires_def)
    then show ?thesis
      by (intro exI [of _ "[ctl_frame (ready_msg ch)]"]) (auto simp: sd elim: kwires_local split: go.split)
  qed
  show "\<exists>G. no_data G \<and> kwires G k (handleNewConn e ch port addr k)"
    using kwires_close [OF assms, of ch]
    by (auto simp: handleNewConn_def Let_def intro!: * intro: exI [of _ "[close_frame ch]"])
  show "\<exists>G. no_data G \<and> kwires G k (handleNewUDPConn e ch port addr k)"
    using kwires_close [OF assms, of ch]
    by (auto simp: handleNewUDPConn_def Let_def intro!: * intro: exI [of _ "[close_frame ch]"])
qed

lemma k_data_fields [simp]:
  "k_conn (k_data e ch d k) = k_conn k" "k_Compressor (k_data e ch d k) = k_Compressor k"
  "k_serverSupportsCompression (k_data e ch d k) = k_serverSupportsCompression k" "k_closeCh (k_data e ch d k) = k_closeCh k"
  "k_channels (k_data e ch d k) = k_channels k" "k_udpChannels (k_data e ch d k) = k_udpChannels k" "k_pipes (k_data e ch d k) = k_pipes k"
  by (simp_all add: k_data_def write_local_def Let_def split: option.split)

lemma k_close_fields [simp]:
  "k_conn (k_close ch k) = k_conn k" "k_Compressor (k_close ch k) = k_Compressor k"
  "k_serverSupportsCompression (k_close ch k) = k_serverSupportsCompression k" "k_pipes (k_close ch k) = k_pipes k"
  by (auto simp: k_close_def close_local_def Let_def split: option.split)

lemma kwires_frame:
  assumes "k_conn k \<noteq> None"
  shows "\<exists>G. no_data G \<and> kwires G k (k_frame z e f k)"
proof -
  have id: "\<exists>G. no_data G \<and> kwires G k k" using kwires_refl [of k k] assms by (intro exI [of _ "[]"]) simp
  have data: "\<exists>G. no_data G \<and> kwires G k (k_data e ch d k)" for ch d
    using kwires_refl [of "k_data e ch d k" k] assms by (intro exI [of _ "[]"]) simp
  have close: "\<exists>G. no_data G \<and> kwires G k (k_close ch k)" for ch
    using kwires_refl [of "k_close ch k" k] assms by (intro exI [of _ "[]"]) simp
  show ?thesis
    using id data close kwires_new_conn [OF assms]
    by (auto simp: k_frame_def handleControl_def split: option.split)
qed

lemma kwires_iter:
  assumes "k_conn k \<noteq> None" and "k_iter z e input k = ((fl, k'), rest)"
  shows "\<exists>G. no_data G \<and> kwires G k k'"
proof -
  have ex: "\<exists>G. no_data G \<and> kwires G k k'" if "loop_exit k = (fl, k')"
    using kwires_loop_exit [OF assms(1) that] by (intro exI [of _ "[]"]) simp
  obtain r k1 where sd: "k_sendControl (zero_msg\<lparr>c_Type := ''ping''\<rparr>) k = (r, k1)" by force
  note ping = kwires_control [OF sd assms(1) zero_msg_ok(2)]
  have same: "r = Ret k2 \<Longrightarrow> k2 = k1" for k2 using sd k_writeFrame_Ret_same by (fastforce simp: k_sendControl_def)
  obtain q s1 where rd: "cli_readFrame input = (q, s1)" by force
  show ?thesis
  proof (cases "k_closeCh k = Some True")
    case True
    with assms(2) ex show ?thesis by (simp add: k_iter_def)
  next
    case False
    show ?thesis
    proof (cases q)
      case (Ret f)
      with assms(2) False rd kwires_frame [OF assms(1), of z e f] show ?thesis by (simp add: k_iter_def)
    next
      case Panic
      with assms(2) False rd kwires_refl [of k k] assms(1) show ?thesis by (auto simp: k_iter_def intro!: exI [of _ "[]"])
    next
      case (Err er)
      show ?thesis
      proof (cases "\<not> isClosedErr er \<and> er = Timeout")
        case False
        with assms(2) \<open>k_closeCh k \<noteq> Some True\<close> rd Err ex show ?thesis by (auto simp: k_iter_def)
      next
        case True
        with assms(2) \<open>k_closeCh k \<noteq> Some True\<close> rd Err sd ping same have "(fl, k') = (case r of Ret _ \<Rightarrow> (Continue, k1) | _ \<Rightarrow> loop_exit k1)"
          by (cases r) (simp_all add: k_iter_def isClosedErr_def)
        then have "k' = k1 \<or> loop_exit k1 = (fl, k')" by (cases r) auto
        then have "kwires [] k1 k'"
          using kwires_loop_exit [of k1 fl k'] kwires_refl [of k1 k1] kwires_connected ping by blast
        with kwires_trans [OF ping [THEN conjunct1] this] show ?thesis
          by (intro exI [of _ "[ctl_frame (zero_msg\<lparr>c_Type := ''ping''\<rparr>)]"]) simp
      qed
    qed
  qed
qed

section \<open>The channel table and the log\<close>

text \<open>
  The local connections the client has made, with the channel each was made for and whether
  it is a UDP one. \<open>cli_inv z P lch k\<close>: after the frames \<open>P\<close> every local connection has got a
  prefix of its channel's data, and exactly that data while the channel is open.
\<close>

definition note_local :: "cli_env \<Rightarrow> frame \<Rightarrow> Client \<Rightarrow> (nat \<Rightarrow> (u32 \<times> bool) option) \<Rightarrow> nat \<Rightarrow> (u32 \<times> bool) option" where
  "note_local e f k' lch = (case opens_ch f of
       None \<Rightarrow> lch
     | Some ch \<Rightarrow>
         if map_of (k_channels k') ch = Some (ce_new e) then lch(ce_new e \<mapsto> (ch, False))
         else if map_of (k_udpChannels k') ch = Some (ce_new e) then lch(ce_new e \<mapsto> (ch, True))
         else lch)"

definition tables :: "Client \<Rightarrow> u32 \<Rightarrow> nat \<Rightarrow> bool" where
  "tables k ch x \<longleftrightarrow> map_of (k_channels k) ch = Some x \<or> map_of (k_udpChannels k) ch = Some x"

definition exact :: "lz4 \<Rightarrow> frame list \<Rightarrow> Client \<Rightarrow> u32 \<Rightarrow> nat \<Rightarrow> bool" where
  "exact z P k ch x \<longleftrightarrow> (\<exists>l. k_locals k x = Some l \<and> prefix (lc_writes l) (chunks z ch P)
     \<and> (tables k ch x \<and> \<not> lc_closed l \<longrightarrow> lc_writes l = chunks z ch P))"

definition cli_inv :: "lz4 \<Rightarrow> frame list \<Rightarrow> (nat \<Rightarrow> (u32 \<times> bool) option) \<Rightarrow> Client \<Rightarrow> bool" where
  "cli_inv z P lch k \<longleftrightarrow> (\<forall>x ch u. lch x = Some (ch, u) \<longrightarrow> exact z P k ch x)
     \<and> (\<forall>ch x. tables k ch x \<longrightarrow> ch \<in> seen z P \<and> (\<exists>u. lch x = Some (ch, u)))
     \<and> (\<forall>ch. map_of (k_channels k) ch = None \<or> map_of (k_udpChannels k) ch = None)
     \<and> (\<forall>ch x. (ch, x) \<in> set (k_pipes k) \<longrightarrow> ch \<in> seen z P \<and> (\<exists>u. lch x = Some (ch, u)))"

lemma cli_invD:
  assumes "cli_inv z P lch k"
  shows "lch x = Some (ch, u) \<Longrightarrow> exact z P k ch x" "tables k ch x \<Longrightarrow> ch \<in> seen z P" "tables k ch x \<Longrightarrow> \<exists>u. lch x = Some (ch, u)"
    "map_of (k_channels k) ch = None \<or> map_of (k_udpChannels k) ch = None"
    "(ch, x) \<in> set (k_pipes k) \<Longrightarrow> ch \<in> seen z P" "(ch, x) \<in> set (k_pipes k) \<Longrightarrow> \<exists>u. lch x = Some (ch, u)"
proof -
  note c = assms [unfolded cli_inv_def]
  note c2 = c [THEN conjunct2] and c3 = c [THEN conjunct2, THEN conjunct2]
  show "lch x = Some (ch, u) \<Longrightarrow> exact z P k ch x" using c [THEN conjunct1] by blast
  show "tables k ch x \<Longrightarrow> ch \<in> seen z P" "tables k ch x \<Longrightarrow> \<exists>u. lch x = Some (ch, u)" using c2 [THEN conjunct1] by blast+
  show "map_of (k_channels k) ch = None \<or> map_of (k_udpChannels k) ch = None" using c3 [THEN conjunct1] by (rule spec)
  show "(ch, x) \<in> set (k_pipes k) \<Longrightarrow> ch \<in> seen z P" "(ch, x) \<in> set (k_pipes k) \<Longrightarrow> \<exists>u. lch x = Some (ch, u)"
    using c3 [THEN conjunct2] by blast+
qed

text \<open>Steps that keep the writes and at most shrink the tables, close connections or end pipes.\<close>

definition shrinks :: "Client \<Rightarrow> Client \<Rightarrow> bool" where
  "shrinks k k' \<longleftrightarrow> map_of (k_channels k') \<subseteq>\<^sub>m map_of (k_channels k) \<and> map_of (k_udpChannels k') \<subseteq>\<^sub>m map_of (k_udpChannels k)
     \<and> set (k_pipes k') \<subseteq> set (k_pipes k)
     \<and> (\<forall>x l. k_locals k x = Some l \<longrightarrow> (\<exists>l'. k_locals k' x = Some l' \<and> lc_writes l' = lc_writes l \<and> (lc_closed l \<longrightarrow> lc_closed l')))"

lemma shrinks_refl [simp]: "shrinks k k"
  by (simp add: shrinks_def)

lemma shrinks_trans: "shrinks k k1 \<Longrightarrow> shrinks k1 k' \<Longrightarrow> shrinks k k'"
  unfolding shrinks_def by (intro conjI allI impI; (elim conjE)?) (blast intro: map_le_trans, blast intro: map_le_trans, blast, metis)

lemma shrinks_tables: "shrinks k k' \<Longrightarrow> tables k' ch x \<Longrightarrow> tables k ch x"
  by (auto simp: shrinks_def tables_def map_le_def dom_def)

lemma shrinks_exact: "shrinks k k' \<Longrightarrow> exact z P k ch x \<Longrightarrow> exact z P k' ch x"
  using shrinks_tables [of k k' ch x] unfolding exact_def shrinks_def by metis

lemma shrinks_inv:
  assumes "cli_inv z P lch k" and "shrinks k k'"
  shows "cli_inv z P lch k'"
proof -
  note d = cli_invD [OF assms(1)]
  have "map_of (k_channels k') ch = None \<or> map_of (k_udpChannels k') ch = None" for ch
    using d(4) [of ch] assms(2) by (auto simp: shrinks_def map_le_def dom_def)
  moreover have "set (k_pipes k') \<subseteq> set (k_pipes k)" using assms(2) by (simp add: shrinks_def)
  ultimately show ?thesis
    using d(1-3,5,6) shrinks_exact [OF assms(2)] shrinks_tables [OF assms(2)] unfolding cli_inv_def by blast
qed

lemma map_of_delete_le: "map_of (AList.delete k l) \<subseteq>\<^sub>m map_of l"
  by (auto simp: AList.delete_conv map_le_def)

lemma shrinks_close_local: "shrinks k (close_local x k)"
  by (auto simp: shrinks_def close_local_def)

lemma shrinks_same:
  "k_channels k' = k_channels k \<Longrightarrow> k_udpChannels k' = k_udpChannels k \<Longrightarrow> k_pipes k' = k_pipes k \<Longrightarrow> k_locals k' = k_locals k
    \<Longrightarrow> shrinks k k'"
  by (simp add: shrinks_def)

lemma shrinks_write: "k_writeFrame t ch p k = (r, k') \<Longrightarrow> shrinks k k'"
  using k_writeFrame_fields [of t ch p k] by (intro shrinks_same) simp_all

lemma shrinks_close: "shrinks k (k_close ch k)"
  using map_of_delete_le
  by (auto simp: shrinks_def k_close_def close_local_def Let_def split: option.split)

lemma shrinks_pipe_exit:
  "k_pipe_exit ch x k = (fl, k') \<Longrightarrow> shrinks k k'"
  "k_udp_pipe_exit ch x k = (fl, k') \<Longrightarrow> shrinks k k'"
  using map_of_delete_le
  by (auto simp: shrinks_def k_pipe_exit_def k_udp_pipe_exit_def close_local_def Let_def split: if_splits)

lemma shrinks_count: "shrinks k (k_count_out ch n k)"
  by (simp add: shrinks_def k_count_out_def)

lemma shrinks_pipe:
  assumes "k_pipe_step z ch x r k = (fl, k') \<or> k_udp_pipe_step z ch x r k = (fl, k')"
  shows "shrinks k k'"
proof -
  have exit: "shrinks k k'" if "shrinks k k1" "k_pipe_exit ch x k1 = (fl, k') \<or> k_udp_pipe_exit ch x k1 = (fl, k')" for k1
    using that shrinks_pipe_exit shrinks_trans by blast
  show ?thesis
  proof (cases "k_closeCh k = Some True \<or> (\<exists>er. r = Inl er)")
    case True
    then have "k_pipe_exit ch x k = (fl, k') \<or> k_udp_pipe_exit ch x k = (fl, k') \<or> k' = k"
      using assms by (auto simp: k_pipe_step_def k_udp_pipe_step_def split: if_splits)
    with exit [OF shrinks_refl] show ?thesis by auto
  next
    case False
    then obtain d where d: "r = Inr d" by (cases r) auto
    obtain q k1 where w: "k_writeFrame (fst (k_pack z k d)) ch (snd (k_pack z k d)) k = (q, k1)" by force
    have s1: "shrinks k k1" by (rule shrinks_write [OF w])
    have "k' = k_count_out ch (length d) k1 \<or> k' = k1 \<or> k_pipe_exit ch x k1 = (fl, k') \<or> k_udp_pipe_exit ch x k1 = (fl, k')"
      using assms d w False k_writeFrame_Ret_same
      by (cases q) (fastforce simp: k_pipe_step_def k_udp_pipe_step_def split_beta)+
    with s1 exit [OF s1] shrinks_trans [OF s1 shrinks_count] show ?thesis by auto
  qed
qed

lemma shrinks_loop_exit: "loop_exit k = (fl, k') \<Longrightarrow> shrinks k k'"
  by (auto simp: loop_exit_def Client_Close_def k_closeConn_def shrinks_def split: option.splits if_splits)

subsection \<open>Reading one frame\<close>

lemma handleNewConn_dialed:
  assumes "ce_dial e"
  shows "\<exists>l. k_locals (handleNewConn e ch port addr k) = (k_locals k)(ce_new e \<mapsto> l) \<and> lc_writes l = [] \<and>
      k_channels (handleNewConn e ch port addr k) = AList.update ch (ce_new e) (k_channels k) \<and>
      k_udpChannels (handleNewConn e ch port addr k) = k_udpChannels k \<and>
      set (k_pipes (handleNewConn e ch port addr k)) \<subseteq> insert (ch, ce_new e) (set (k_pipes k))"
    and "\<exists>l. k_locals (handleNewUDPConn e ch port addr k) = (k_locals k)(ce_new e \<mapsto> l) \<and> lc_writes l = [] \<and>
      k_udpChannels (handleNewUDPConn e ch port addr k) = AList.update ch (ce_new e) (k_udpChannels k) \<and>
      k_channels (handleNewUDPConn e ch port addr k) = k_channels k \<and>
      set (k_pipes (handleNewUDPConn e ch port addr k)) \<subseteq> insert (ch, ce_new e) (set (k_pipes k))"
proof -
  have sent: "k_locals k2 = k_locals k1 \<and> k_channels k2 = k_channels k1 \<and> k_udpChannels k2 = k_udpChannels k1 \<and> k_pipes k2 = k_pipes k1"
    if "k_sendControl (ready_msg ch) k1 = (r, k2)" for r k1 k2
    using that k_writeFrame_fields [of frameControl 0 "marshal_msg (ready_msg ch)" k1] by (auto simp: k_sendControl_def)
  show "\<exists>l. k_locals (handleNewConn e ch port addr k) = (k_locals k)(ce_new e \<mapsto> l) \<and> lc_writes l = [] \<and>
      k_channels (handleNewConn e ch port addr k) = AList.update ch (ce_new e) (k_channels k) \<and>
      k_udpChannels (handleNewConn e ch port addr k) = k_udpChannels k \<and>
      set (k_pipes (handleNewConn e ch port addr k)) \<subseteq> insert (ch, ce_new e) (set (k_pipes k))"
    using assms by (auto simp: handleNewConn_def Let_def dest!: sent split: prod.split go.split)
  show "\<exists>l. k_locals (handleNewUDPConn e ch port addr k) = (k_locals k)(ce_new e \<mapsto> l) \<and> lc_writes l = [] \<and>
      k_udpChannels (handleNewUDPConn e ch port addr k) = AList.update ch (ce_new e) (k_udpChannels k) \<and>
      k_channels (handleNewUDPConn e ch port addr k) = k_channels k \<and>
      set (k_pipes (handleNewUDPConn e ch port addr k)) \<subseteq> insert (ch, ce_new e) (set (k_pipes k))"
    using assms by (auto simp: handleNewUDPConn_def Let_def dest!: sent split: prod.split go.split)
qed

lemma handleNewConn_refused:
  "\<not> ce_dial e \<Longrightarrow> shrinks k (handleNewConn e ch port addr k) \<and> k_channels (handleNewConn e ch port addr k) = k_channels k
    \<and> k_udpChannels (handleNewConn e ch port addr k) = k_udpChannels k"
  "\<not> ce_dial e \<Longrightarrow> shrinks k (handleNewUDPConn e ch port addr k) \<and> k_channels (handleNewUDPConn e ch port addr k) = k_channels k
    \<and> k_udpChannels (handleNewUDPConn e ch port addr k) = k_udpChannels k"
  by (simp_all add: handleNewConn_def handleNewUDPConn_def shrinks_def)

lemma opens_ch_handler:
  assumes "opens_ch f = Some ch"
  shows "\<exists>port addr. k_frame z e f k = handleNewConn e ch port addr k \<or> k_frame z e f k = handleNewUDPConn e ch port addr k"
  using assms by (auto simp: opens_ch_def k_frame_def handleControl_def split: if_splits option.splits)

text \<open>A frame that neither opens nor carries leaves the log's view unchanged.\<close>

lemma cli_inv_mono:
  assumes "cli_inv z P lch k" and "carried z f = None"
  shows "cli_inv z (P @ [f]) lch k"
  using assms by (simp add: cli_inv_def exact_def)

lemma cli_inv_untabled:
  "cli_inv z P lch k \<Longrightarrow> ch \<notin> seen z P \<Longrightarrow> map_of (k_channels k) ch = None \<and> map_of (k_udpChannels k) ch = None"
  by (metis cli_invD(2) option.exhaust tables_def)

text \<open>A new local connection, for a channel that was never mentioned.\<close>

lemma cli_inv_open:
  assumes inv: "cli_inv z P lch k" and new: "ch \<notin> seen z P" and fresh: "k_locals k x = None"
    and f: "opens_ch f = Some ch"
    and loc: "k_locals k' = (k_locals k)(x \<mapsto> l)" "lc_writes l = []" "set (k_pipes k') \<subseteq> insert (ch, x) (set (k_pipes k))"
    and tab: "k_channels k' = AList.update ch x (k_channels k) \<and> k_udpChannels k' = k_udpChannels k
      \<or> k_udpChannels k' = AList.update ch x (k_udpChannels k) \<and> k_channels k' = k_channels k"
  shows "cli_inv z (P @ [f]) (lch(x \<mapsto> (ch, u))) k'"
proof -
  note d = cli_invD [OF inv]
  have cr: "carried z f = None" using f by (auto simp: opens_ch_def split: if_splits)
  have m: "mentions z f = {ch}" using f by (simp add: mentions_def)
  note untab = cli_inv_untabled [OF inv new]
  then have notab: "\<not> tables k ch y" for y by (simp add: tables_def)
  have lx: "lch y = Some p \<Longrightarrow> y \<noteq> x" for y p
    using d(1) [of y "fst p" "snd p"] fresh by (auto simp: exact_def)
  have tabs: "tables k' c y \<longleftrightarrow> (if c = ch then y = x else tables k c y)" for c y
    using tab notab by (auto simp: tables_def AList.update_conv)
  have e: "exact z (P @ [f]) k' ch x"
    using loc chunks_unseen [OF new] cr by (simp add: exact_def)
  have o: "exact z (P @ [f]) k' c y" if "lch y = Some (c, v)" for c y v
    using d(1) [OF that] lx [OF that] loc tabs [of c y] cr by (auto simp: exact_def)
  have dj: "map_of (k_channels k') c = None \<or> map_of (k_udpChannels k') c = None" for c
  proof (cases "c = ch")
    case True
    with tab untab show ?thesis by (auto simp: AList.update_conv)
  next
    case False
    with tab d(4) [of c] show ?thesis by (auto simp: AList.update_conv)
  qed
  have t: "c \<in> seen z (P @ [f]) \<and> (\<exists>v. (lch(x \<mapsto> (ch, u))) y = Some (c, v))" if "tables k' c y" for c y
    using that tabs [of c y] d(2,3) [of c y] m lx by (auto split: if_splits)
  have p: "c \<in> seen z (P @ [f]) \<and> (\<exists>v. (lch(x \<mapsto> (ch, u))) y = Some (c, v))" if "(c, y) \<in> set (k_pipes k')" for c y
  proof (cases "(c, y) = (ch, x)")
    case True
    with m show ?thesis by simp
  next
    case False
    with loc(3) that have "(c, y) \<in> set (k_pipes k)" by auto
    then obtain v where "lch y = Some (c, v)" "c \<in> seen z P" using d(5,6) by blast
    with lx [of y "(c, v)"] show ?thesis by simp
  qed
  have eo: "exact z (P @ [f]) k' c y" if "(lch(x \<mapsto> (ch, u))) y = Some (c, v)" for c y v
    using that e o [of y c v] by (auto split: if_splits)
  show ?thesis unfolding cli_inv_def using eo dj t p by (intro conjI allI impI) metis+
qed

lemma cli_inv_data:
  assumes inv: "cli_inv z P lch k" and "carried z f = Some d" and "ce_write_ok e"
  shows "cli_inv z (P @ [f]) lch (k_data e (f_chan f) d k)"
proof -
  let ?k = "k_data e (f_chan f) d k" and ?ch = "f_chan f"
  note i = cli_invD [OF inv]
  have tab: "tables ?k = tables k" by (simp add: tables_def fun_eq_iff)
  have look: "lookup_local ?ch k = Some x \<longleftrightarrow> tables k ?ch x" for x
    using i(4) [of ?ch] by (auto simp: lookup_local_def tables_def split: option.splits)
  have loc: "k_locals ?k x = (if tables k ?ch x then map_option (\<lambda>l. if lc_closed l then l else l\<lparr>lc_writes := lc_writes l @ [d]\<rparr>) (k_locals k x)
      else k_locals k x)" for x
    using assms(3) unfolding look [symmetric]
    by (cases "k_locals k x") (auto simp: k_data_def Let_def local_open_def write_local_def split: option.splits)
  have e: "exact z (P @ [f]) ?k c x" if lx: "lch x = Some (c, u)" for c x u
  proof -
    obtain l where l: "k_locals k x = Some l" "prefix (lc_writes l) (chunks z c P)"
        "tables k c x \<and> \<not> lc_closed l \<Longrightarrow> lc_writes l = chunks z c P"
      using i(1) [OF lx] by (auto simp: exact_def)
    have "tables k ?ch x \<Longrightarrow> c = ?ch" using i(3) [of ?ch x] lx by auto
    show ?thesis
    proof (cases "c = ?ch")
      case False
      with \<open>tables k ?ch x \<Longrightarrow> c = ?ch\<close> have "k_locals ?k x = Some l" using l(1) loc [of x] by auto
      with l(2,3) False assms(2) show ?thesis unfolding exact_def tab by simp
    next
      case True
      show ?thesis
      proof (cases "tables k ?ch x \<and> \<not> lc_closed l")
        case t: True
        with l True have "lc_writes l = chunks z ?ch P" by simp
        with t l(1) loc [of x] True assms(2) show ?thesis unfolding exact_def tab by simp
      next
        case t: False
        with l(1) loc [of x] have "k_locals ?k x = Some l" by auto
        with t l(2) True assms(2) show ?thesis unfolding exact_def tab by (auto simp: prefix_def)
      qed
    qed
  qed
  have t: "c \<in> seen z (P @ [f]) \<and> (\<exists>u. lch x = Some (c, u))" if "tables ?k c x" for c x
    using that i(2,3) [of c x] by (simp add: tab)
  have p: "c \<in> seen z (P @ [f]) \<and> (\<exists>u. lch x = Some (c, u))" if "(c, x) \<in> set (k_pipes ?k)" for c x
    using that i(5,6) [of c x] by simp
  show ?thesis
    unfolding cli_inv_def using e t p i(4) by (intro conjI allI impI) (blast, blast, blast, simp, blast, blast)
qed

lemma cli_inv_frame:
  assumes inv: "cli_inv z P lch k" and new: "\<And>ch. opens_ch f = Some ch \<Longrightarrow> ch \<notin> seen z P"
    and cp: "f_type f = frameDataCompressed \<longrightarrow> k_Compressor k \<noteq> None"
    and "ce_write_ok e" and fresh: "k_locals k (ce_new e) = None"
  shows "cli_inv z (P @ [f]) (note_local e f (k_frame z e f k) lch) (k_frame z e f k)"
proof (cases "opens_ch f")
  case (Some ch)
  then have cr: "carried z f = None" by (auto simp: opens_ch_def split: if_splits)
  have ns: "ch \<notin> seen z P" by (rule new [OF Some])
  then have notab: "map_of (k_channels k) ch = None" "map_of (k_udpChannels k) ch = None"
    using cli_inv_untabled [OF inv] by simp_all
  obtain port addr where h: "k_frame z e f k = handleNewConn e ch port addr k \<or> k_frame z e f k = handleNewUDPConn e ch port addr k"
    using opens_ch_handler [OF Some] by blast
  show ?thesis
  proof (cases "ce_dial e")
    case False
    have "shrinks k (k_frame z e f k)" "note_local e f (k_frame z e f k) lch = lch"
      using h handleNewConn_refused [OF False] notab Some by (auto simp: note_local_def)
    with cli_inv_mono [OF shrinks_inv [OF inv] cr] show ?thesis by simp
  next
    case True
    then obtain l u where "k_locals (k_frame z e f k) = (k_locals k)(ce_new e \<mapsto> l)" "lc_writes l = []"
        "set (k_pipes (k_frame z e f k)) \<subseteq> insert (ch, ce_new e) (set (k_pipes k))"
        "k_channels (k_frame z e f k) = AList.update ch (ce_new e) (k_channels k) \<and> k_udpChannels (k_frame z e f k) = k_udpChannels k
          \<or> k_udpChannels (k_frame z e f k) = AList.update ch (ce_new e) (k_udpChannels k) \<and> k_channels (k_frame z e f k) = k_channels k"
      and "note_local e f (k_frame z e f k) lch = lch(ce_new e \<mapsto> (ch, u))"
      using h handleNewConn_dialed [of e ch port addr k] notab Some
      by (elim disjE) (auto simp: note_local_def AList.update_conv)
    with cli_inv_open [OF inv ns fresh Some] show ?thesis by metis
  qed
next
  case None
  then have nl: "note_local e f (k_frame z e f k) lch = lch" by (simp add: note_local_def)
  show ?thesis
  proof (cases "carried z f")
    case (Some d)
    with cp have "k_frame z e f k = k_data e (f_chan f) d k"
      by (auto simp: k_frame_def carried_def frame_consts comp_Decompress_def split: if_splits)
    with cli_inv_data [OF inv Some assms(4)] nl show ?thesis by simp
  next
    case cr: None
    have "k_frame z e f k = k \<or> k_frame z e f k = k_close (f_chan f) k"
      using None cr by (auto simp: k_frame_def opens_ch_def carried_def comp_Decompress_def handleControl_def frame_consts split: option.splits if_splits)
    then have "shrinks k (k_frame z e f k)" using shrinks_close by auto
    with cli_inv_mono [OF shrinks_inv [OF inv] cr] nl show ?thesis by simp
  qed
qed

end
