(* ===== verification/NoDeadlock.thy ===== *)
theory NoDeadlock
  imports ServerSystem
begin

text \<open>
  Without dynamic plugins no goroutine of the server waits for ever on a client's UDP
  mutex, and one event only can panic the server: a datagram for a client whose teardown
  has run. \<open>UdpService\<close> shows that both go wrong as soon as a plugin may close a session.
\<close>

section \<open>Handlers\<close>

definition nonstop :: "relayClient \<Rightarrow> flow \<Rightarrow> relayClient \<Rightarrow> bool" where
  "nonstop c fl c' \<longleftrightarrow> fl \<noteq> Blocked \<and> (fl = Crash \<longrightarrow> cl_udpSessions c = None) \<and> \<not> cl_udpLocked c'
     \<and> (cl_udpSessions c \<noteq> None \<longrightarrow> cl_udpSessions c' \<noteq> None)"

lemma nonstop_same:
  "\<not> cl_udpLocked c \<Longrightarrow> fl \<noteq> Blocked \<Longrightarrow> fl \<noteq> Crash \<Longrightarrow> cl_udpLocked c' = cl_udpLocked c
    \<Longrightarrow> cl_udpSessions c' = cl_udpSessions c \<Longrightarrow> fl \<noteq> Crash \<and> nonstop c fl c'"
  by (simp add: nonstop_def)

lemma nonstop_refl: "\<not> cl_udpLocked c \<Longrightarrow> nonstop c Continue c"
  by (simp add: nonstop_def)

lemma written_free:
  "writeFrameLocked t ch p c = (r, c') \<Longrightarrow> cl_udpLocked c' = cl_udpLocked c \<and> cl_udpSessions c' = cl_udpSessions c \<and> cl_udpClosed c' = cl_udpClosed c"
  "rc_sendControl m c = (r, c') \<Longrightarrow> cl_udpLocked c' = cl_udpLocked c \<and> cl_udpSessions c' = cl_udpSessions c \<and> cl_udpClosed c' = cl_udpClosed c"
  "limiter_accept c = (b, c') \<Longrightarrow> cl_udpLocked c' = cl_udpLocked c \<and> cl_udpSessions c' = cl_udpSessions c \<and> cl_udpClosed c' = cl_udpClosed c"
  "rate_wait e n c s = (c', s') \<Longrightarrow> cl_udpLocked c' = cl_udpLocked c \<and> cl_udpSessions c' = cl_udpSessions c \<and> cl_udpClosed c' = cl_udpClosed c"
  using writeFrameLocked_fields [of t ch p c] rc_sendControl_fields [of m c] limiter_accept_fields [of c] rate_wait_fields [of e n c s]
  by simp_all

lemma pipe_exit_free:
  "pipe_exit e ch x c s = (fl, c', s') \<Longrightarrow> fl = Return \<and> cl_udpLocked c' = cl_udpLocked c \<and> cl_udpSessions c' = cl_udpSessions c \<and> cl_udpClosed c' = cl_udpClosed c"
  by (auto simp: pipe_exit_def Let_def split: if_splits)

lemma pipe_step_udp:
  "pipe_step z e ch x r c s = (fl, c', s') \<Longrightarrow>
    fl \<noteq> Blocked \<and> fl \<noteq> Crash \<and> cl_udpLocked c' = cl_udpLocked c \<and> cl_udpSessions c' = cl_udpSessions c \<and> cl_udpClosed c' = cl_udpClosed c"
  by (intro conjI) (auto simp: pipe_step_def Let_def dest!: pipe_exit_free written_free split: sum.splits prod.splits option.splits if_splits)

lemma tcp_accept_udp:
  "tcp_accept e svc x c s = (fl, c', s') \<Longrightarrow>
    fl \<noteq> Blocked \<and> fl \<noteq> Crash \<and> cl_udpLocked c' = cl_udpLocked c \<and> cl_udpSessions c' = cl_udpSessions c \<and> cl_udpClosed c' = cl_udpClosed c"
  by (intro conjI) (auto simp: tcp_accept_def tcp_open_def Let_def dest!: written_free split: prod.splits option.splits if_splits bool.splits)

lemma pipe_step_free: "pipe_step z e ch x r c s = (fl, c', s') \<Longrightarrow> \<not> cl_udpLocked c \<Longrightarrow> fl \<noteq> Crash \<and> nonstop c fl c'"
  by (rule nonstop_same) (drule pipe_step_udp, simp)+

lemma tcp_accept_free: "tcp_accept e svc x c s = (fl, c', s') \<Longrightarrow> \<not> cl_udpLocked c \<Longrightarrow> fl \<noteq> Crash \<and> nonstop c fl c'"
  by (rule nonstop_same) (drule tcp_accept_udp, simp)+

lemma udp_forward_free:
  "udp_forward z e addr ch d c s = (fl, c', s') \<Longrightarrow> \<not> cl_udpLocked c \<Longrightarrow> fl \<noteq> Crash \<and> nonstop c fl c'"
  by (auto simp: nonstop_def udp_forward_def delete_session_def Let_def dest!: written_free split: prod.splits option.splits if_splits)

lemma udp_datagram_free:
  assumes st: "udp_datagram z e svc conn addr d c s = (fl, c', s')" and free: "\<not> cl_udpLocked c" and m: "no_dyn (sh_mgr s)"
  shows "nonstop c fl c'"
proof -
  have fw: "nonstop c fl c'" if "udp_forward z e addr ch d' c2 s2 = (fl, c', s')" "\<not> cl_udpLocked c2" "cl_udpSessions c2 \<noteq> None" for ch d' c2 s2
    using udp_forward_free [OF that(1,2)] that(3) by (simp add: nonstop_def)
  obtain ok m1 where oa: "mgr_OnAccept (se_hook e) ''udp'' addr (sh_mgr s) = (ok, m1)" by force
  have m1: "no_dyn m1" using no_dyn_OnAccept [of "se_hook e" "''udp''" addr "sh_mgr s"] m oa by simp
  consider "c' = c" "fl = Continue" | u where "lookup_session addr c = Some u"
      "udp_forward z e addr (us_channelID u) d (touch_session addr (he_now (se_hook e)) c) (s\<lparr>sh_mgr := m1\<rparr>) = (fl, c', s')"
    | "lookup_session addr c = None" "ok" "\<not> filter_refuses ''udp'' addr c"
    using st oa free by (auto simp: udp_datagram_def Let_def split: if_splits option.splits)
  then show ?thesis
  proof cases
    case 1
    with free show ?thesis by (simp add: nonstop_def)
  next
    case 2
    then show ?thesis
      by (intro fw [OF 2(2)]) (use free in \<open>auto simp: touch_session_def lookup_session_def split: option.splits\<close>)
  next
    case 3
    obtain b c1 where la: "limiter_accept c = (b, c1)" by force
    note c1 = written_free(3) [OF la]
    show ?thesis
    proof (cases "b \<and> cl_udpSessions c \<noteq> None")
      case False
      with st oa 3 free la c1 show ?thesis by (auto simp: udp_datagram_def Let_def next_cid_def nonstop_def split: bool.splits)
    next
      case True
      then obtain l where l: "cl_udpSessions c = Some l" by blast
      obtain ac m2 where op: "mgr_OnOpen (se_hook e) ''udp'' addr (sh_nextCID s + 1) (sm_LocalPort svc) m1 = (ac, m2)" by force
      then have ac: "\<not> act_Close ac" using no_dyn_open [OF m1, of "se_hook e" "''udp''" addr "sh_nextCID s + 1" "sm_LocalPort svc"] by simp
      from st oa 3 free la True c1 l op ac obtain ch d' c2 s2 where "udp_forward z e addr ch d' c2 s2 = (fl, c', s')"
          "cl_udpLocked c2 = cl_udpLocked c1" "cl_udpSessions c2 \<noteq> None"
        by (simp add: udp_datagram_def Let_def next_cid_def touch_session_def)
      with fw c1 free show ?thesis by simp
    qed
  qed
qed

lemma cleanup_free:
  "cl_udpLocked (fst (snd (cleanup_sessions e l c s))) = cl_udpLocked c"
  by (induction e l c s rule: cleanup_sessions.induct) (auto split: prod.splits)

lemma udp_cleanup_free:
  "udp_cleanup e c s = (fl, c', s') \<Longrightarrow> \<not> cl_udpLocked c \<Longrightarrow> fl \<noteq> Crash \<and> nonstop c fl c'"
  using cleanup_free [of e "the (cl_udpSessions c)" c s]
  by (auto simp: nonstop_def udp_cleanup_def split: option.splits prod.splits)

lemma relay_frame_free:
  assumes "relay_frame z e f c s = (fl, c', s')" and "\<not> cl_udpLocked c"
  shows "fl = Continue \<and> nonstop c fl c'"
proof -
  have data: ?thesis if "relay_data e ch d c s = (fl, c', s')" for ch d
    using that assms(2) mgr_OnData_no_close [of ch "''tx''" "int (length d)" "sh_mgr s"]
    by (auto simp: nonstop_def relay_data_def Let_def dest!: written_free split: prod.splits option.splits if_splits)
  have ctl: ?thesis if "relay_control p c s = (fl, c', s')" for p
    using that assms(2) by (auto simp: nonstop_def relay_control_def Let_def split: option.splits if_split_asm)
  have close: ?thesis if "relay_close e ch c s = (fl, c', s')" for ch
    using that assms(2) by (auto simp: nonstop_def relay_close_def delete_session_def Let_def split: option.splits prod.splits if_splits)
  have same: ?thesis if "fl = Continue" "c' = c" using that assms(2) by (simp add: nonstop_def)
  from assms(1) show ?thesis unfolding relay_frame_def
    by (simp split: if_splits option.splits) (use ctl close data same in \<open>blast+\<close>)
qed

lemma teardown_free:
  "relay_teardown lns c s = (fl, c', s') \<Longrightarrow> \<not> cl_udpLocked c \<Longrightarrow> fl = Return \<and> \<not> cl_udpLocked c'"
  by (auto simp: relay_teardown_def client_stop_def drop_client_def close_conn_def Let_def split: if_splits)

lemma hello_free:
  assumes "handle_hello e ip input c s = (r, c', s')"
  shows "cl_udpLocked c' = cl_udpLocked c \<and> cl_udpSessions c' = cl_udpSessions c \<and> cl_udpClosed c' = cl_udpClosed c"
proof -
  have set: "cl_udpLocked (apply_settings now msg c) = cl_udpLocked c \<and> cl_udpSessions (apply_settings now msg c) = cl_udpSessions c
      \<and> cl_udpClosed (apply_settings now msg c) = cl_udpClosed c" for now msg
    by (simp add: apply_settings_def Let_def split: sum.split)
  show ?thesis
  proof (cases r)
    case (Refused_at why)
    then show ?thesis using assms
      by (auto simp: handle_hello_def drop_client_def close_conn_def Let_def split: go.splits prod.splits if_splits option.splits)
  next
    case (Listening lns failed pub)
    then obtain msg where "start_services e (c_Services msg) (apply_settings (he_now (se_hook e)) msg c) s = (lns, failed, c', s')"
      using assms by (auto elim: handle_hello_Listening)
    from start_services_frame [OF this] obtain a b d
      where "c' = (apply_settings (he_now (se_hook e)) msg c)\<lparr>cl_udpConns := a, cl_udpLoops := b, cl_tcpLoops := d\<rparr>" by blast
    then show ?thesis using set by simp
  qed
qed

lemma reply_failed_free:
  "reply_failed lns c s = (b, c', s') \<Longrightarrow> cl_udpLocked c' = cl_udpLocked c \<and> cl_udpSessions c' = cl_udpSessions c \<and> cl_udpClosed c' = cl_udpClosed c"
  by (auto simp: reply_failed_def drop_client_def close_conn_def client_stop_def)

lemma reply_free:
  "handle_reply lns failed pub c s = (b, c', s') \<Longrightarrow>
    cl_udpLocked c' = cl_udpLocked c \<and> cl_udpSessions c' = cl_udpSessions c \<and> cl_udpClosed c' = cl_udpClosed c"
  "reply_write lns bs c s = (b, c', s') \<Longrightarrow>
    cl_udpLocked c' = cl_udpLocked c \<and> cl_udpSessions c' = cl_udpSessions c \<and> cl_udpClosed c' = cl_udpClosed c"
  by (auto simp: handle_reply_def reply_write_def dest!: reply_failed_free split: option.splits prod.splits)

section \<open>The system\<close>

text \<open>
  Every UDP mutex is free, no client and not the plugin checker is stuck, and only a client
  whose teardown has run has no session map.
\<close>

definition all_free :: "sys \<Rightarrow> bool" where
  "all_free y \<longleftrightarrow> sy_checker y \<and> (\<forall>cid. sy_phase y cid \<noteq> PStuck)
     \<and> (\<forall>cid c. sv_objs (sy_srv y) cid = Some c \<longrightarrow> \<not> cl_udpLocked c \<and> (sy_phase y cid \<noteq> PDone \<longrightarrow> cl_udpSessions c \<noteq> None))"

lemma all_freeD:
  assumes "all_free y"
  shows "sy_checker y" "sy_phase y cid \<noteq> PStuck" "sv_objs (sy_srv y) cid = Some c \<Longrightarrow> \<not> cl_udpLocked c"
    "sv_objs (sy_srv y) cid = Some c \<Longrightarrow> sy_phase y cid \<noteq> PDone \<Longrightarrow> cl_udpSessions c \<noteq> None"
  using assms unfolding all_free_def by blast+

lemma all_free_put:
  assumes "all_free y" and "\<not> cl_udpLocked c'" and "p \<noteq> PStuck" and "p \<noteq> PDone \<Longrightarrow> cl_udpSessions c' \<noteq> None"
  shows "all_free (set_phase cid p (put cid (fl, c', s) y))"
  using assms unfolding all_free_def by (auto simp: put_def set_phase_def)

lemma crashed_put: "sy_crashed (put cid (fl, c, s) y) = (fl = Crash)" "sy_crashed (set_phase a p y) = sy_crashed y"
  by (simp_all add: put_def set_phase_def)

lemma all_free_step:
  assumes inv: "all_free y" and o: "live cid y = Some c" and "nonstop c fl c'" and "c2 = c' \<or> cl_udpLocked c2 = cl_udpLocked c' \<and> cl_udpSessions c2 = cl_udpSessions c'"
  shows "all_free (put cid (fl, c2, s) y) \<and> (sy_crashed (put cid (fl, c2, s) y) \<longrightarrow> sy_phase y cid = PDone \<and> cl_udpSessions c = None)"
proof -
  have "sv_objs (sy_srv y) cid = Some c" using live_Some [OF o] by blast
  with all_freeD(4) [OF inv this] have "sy_phase y cid \<noteq> PDone \<Longrightarrow> cl_udpSessions c2 \<noteq> None" "\<not> cl_udpLocked c2"
      "sy_phase y cid \<noteq> PDone \<Longrightarrow> cl_udpSessions c \<noteq> None"
    using assms(3,4) by (auto simp: nonstop_def)
  moreover from calculation assms(3) have "fl = Crash \<Longrightarrow> sy_phase y cid = PDone \<and> cl_udpSessions c = None" by (auto simp: nonstop_def)
  ultimately show ?thesis using inv unfolding all_free_def by (simp add: put_def)
qed

lemma all_free_go:
  assumes "all_free y" and "live cid y = Some c" and "fl \<noteq> Crash \<and> nonstop c fl c'"
    and "c2 = c' \<or> cl_udpLocked c2 = cl_udpLocked c' \<and> cl_udpSessions c2 = cl_udpSessions c'"
  shows "all_free (put cid (fl, c2, s) y) \<and> (sy_crashed (put cid (fl, c2, s) y) \<longrightarrow> P)"
  using all_free_step [OF assms(1,2) _ assms(4)] assms(3) by (simp add: crashed_put)

text \<open>The one event that can panic.\<close>

definition late_datagram :: "srv_event \<Rightarrow> sys \<Rightarrow> bool" where
  "late_datagram ev y \<longleftrightarrow> (\<exists>cid svc conn addr d e c. ev = EvDatagram cid svc conn addr d e \<and> live cid y = Some c
     \<and> sy_phase y cid = PDone \<and> cl_udpSessions c = None)"

lemma srv_exec_free:
  assumes inv: "all_free y" and m: "no_dyn (sh_mgr (sv_sh (sy_srv y)))" and st: "srv_exec z ev y = Some y'"
    and ok: "\<not> sy_crashed y"
  shows "all_free y' \<and> (sy_crashed y' \<longrightarrow> late_datagram ev y)"
proof -
  note free = all_freeD(3) [OF inv live_Some [THEN conjunct1]]
  show ?thesis
  proof (cases ev)
    case (EvConnect w)
    with st obtain i c s1 where "y' = set_phase i PNew (put i (Continue, c, s1) y)" "c = new_client i w"
      by (auto simp: handle_connect_def next_cid_def) (simp add: new_client_def)
    then show ?thesis using all_free_put [OF inv, of c] by (simp add: new_client_def crashed_put)
  next
    case (EvHello cid e ip input)
    with st obtain c where o: "sy_phase y cid = PNew" "sv_objs (sy_srv y) cid = Some c"
      by (auto split: phase.splits option.splits)
    obtain r c1 s1 where h: "handle_hello e ip input c (sv_sh (sy_srv y)) = (r, c1, s1)"
      by (cases "handle_hello e ip input c (sv_sh (sy_srv y))") auto
    with st EvHello o have "\<exists>p fl. y' = set_phase cid p (put cid (fl, c1, s1) y) \<and> p \<noteq> PStuck \<and> fl \<noteq> Crash"
      by (cases r) auto
    with hello_free [OF h] all_freeD(3,4) [OF inv o(2)] o(1) all_free_put [OF inv, of c1] show ?thesis
      by (fastforce simp: crashed_put)
  next
    case (EvReply cid)
    with st obtain c lns failed pub b c1 s1 where o: "live cid y = Some c" and p: "sy_phase y cid = PListening lns failed pub"
        and h: "handle_reply lns failed pub c (sv_sh (sy_srv y)) = (b, c1, s1)"
        and y': "y' = set_phase cid (if b then PServing lns else PDone) (put cid (Continue, c1, s1) y)"
      by (auto split: phase.splits option.splits prod.splits)
    have "\<not> cl_udpLocked c1" "cl_udpSessions c1 \<noteq> None"
      using reply_free(1) [OF h] free [OF o] all_freeD(4) [OF inv live_Some [OF o, THEN conjunct1]] p by simp_all
    then show ?thesis using all_free_put [OF inv, of c1] by (simp add: y' crashed_put)
  next
    case (EvReplyWrite cid)
    from st [unfolded EvReplyWrite] obtain c lns bs b c1 s1 p where o: "live cid y = Some c"
        and h: "reply_write lns bs c (sv_sh (sy_srv y)) = (b, c1, s1)"
        and y': "y' = set_phase cid p (put cid (Continue, c1, s1) y)" "p \<noteq> PStuck" and ph: "sy_phase y cid \<noteq> PDone"
      by (rule reply_write_event) auto
    have "\<not> cl_udpLocked c1" "cl_udpSessions c1 \<noteq> None"
      using reply_free(2) [OF h] free [OF o] all_freeD(4) [OF inv live_Some [OF o, THEN conjunct1] ph] by simp_all
    then show ?thesis using all_free_put [OF inv, of c1] y' by (simp add: crashed_put)
  next
    case (EvAccept cid svc x addr e)
    with st obtain c fl c1 s1 where o: "live cid y = Some c" and h: "tcp_accept e svc x c (with_ext x addr (sv_sh (sy_srv y))) = (fl, c1, s1)"
        and y': "y' = put cid (fl, if goes_on fl then c1 else c1\<lparr>cl_tcpLoops := remove1 svc (cl_tcpLoops c1)\<rparr>, s1) y"
      by (auto split: option.splits prod.splits if_splits)
    show ?thesis unfolding y' by (rule all_free_go [OF inv o tcp_accept_free [OF h free [OF o]]]) simp
  next
    case (EvAcceptError cid svc)
    with st obtain c where o: "live cid y = Some c" and y': "y' = put cid (Return, c\<lparr>cl_tcpLoops := remove1 svc (cl_tcpLoops c)\<rparr>,
        tcp_loop_exit svc (sv_sh (sy_srv y))) y"
      by (auto simp: tcp_accept_error_def split: option.splits if_splits)
    show ?thesis unfolding y' by (rule all_free_go [OF inv o, of Return c]) (use free [OF o] in \<open>simp_all add: nonstop_def\<close>)
  next
    case (EvPipe cid ch x r e)
    with st obtain c fl c1 s1 where o: "live cid y = Some c" and h: "pipe_step z e ch x r c (sv_sh (sy_srv y)) = (fl, c1, s1)"
        and y': "y' = put cid (fl, if goes_on fl then c1 else c1\<lparr>cl_pipes := remove1 (ch, x) (cl_pipes c1)\<rparr>, s1) y"
      by (auto split: option.splits prod.splits if_splits)
    show ?thesis unfolding y' by (rule all_free_go [OF inv o pipe_step_free [OF h free [OF o]]]) simp
  next
    case (EvDatagram cid svc conn addr d e)
    with st obtain c fl c1 s1 where o: "live cid y = Some c" and h: "udp_datagram z e svc conn addr d c (sv_sh (sy_srv y)) = (fl, c1, s1)"
        and y': "y' = put cid (fl, udp_loop_end svc conn fl c1, s1) y"
      by (auto split: option.splits prod.splits if_splits)
    from udp_datagram_free [OF h free [OF o] m] have "all_free y' \<and> (sy_crashed y' \<longrightarrow> sy_phase y cid = PDone \<and> cl_udpSessions c = None)"
      unfolding y' by (rule all_free_step [OF inv o]) simp
    with o EvDatagram show ?thesis by (auto simp: late_datagram_def)
  next
    case (EvUdpError cid svc conn err)
    with st obtain c c2 where o: "live cid y = Some c" and y': "y' = put cid (Continue, c2, sv_sh (sy_srv y)) y"
        and "cl_udpLocked c2 = cl_udpLocked c" "cl_udpSessions c2 = cl_udpSessions c"
      by (auto split: option.splits if_splits)
    then show ?thesis unfolding y' by (intro all_free_go [OF inv o, of Continue c]) (use free [OF o] in \<open>simp_all add: nonstop_def\<close>)
  next
    case (EvCleanup cid e)
    with st obtain c fl c1 s1 where o: "live cid y = Some c" and h: "udp_cleanup e c (sv_sh (sy_srv y)) = (fl, c1, s1)"
        and y': "y' = put cid (fl, c1, s1) y"
      by (cases "udp_cleanup e (the (live cid y)) (sv_sh (sy_srv y))") (auto split: option.splits if_splits)
    show ?thesis unfolding y' by (rule all_free_go [OF inv o udp_cleanup_free [OF h free [OF o]]]) simp
  next
    case (EvFrame cid e f)
    with st obtain c lns fl c1 s1 where o: "live cid y = Some c" and p: "sy_phase y cid = PServing lns"
        and h: "relay_frame z e f c (sv_sh (sy_srv y)) = (fl, c1, s1)"
        and y': "y' = set_phase cid (if goes_on fl then PServing lns else PStuck) (put cid (fl, c1, s1) y)"
      by (auto split: phase.splits option.splits prod.splits)
    from relay_frame_free [OF h free [OF o]] have "fl = Continue" "nonstop c Continue c1" by blast+
    then show ?thesis using all_free_put [OF inv, of c1] all_freeD(4) [OF inv live_Some [OF o, THEN conjunct1]] p
      by (simp add: y' goes_on_def nonstop_def crashed_put)
  next
    case (EvEnd cid)
    with st obtain c lns fl c1 s1 where o: "live cid y = Some c" and h: "relay_teardown lns c (sv_sh (sy_srv y)) = (fl, c1, s1)"
        and y': "y' = set_phase cid (if fl = Return then PDone else PStuck) (put cid (fl, c1, s1) y)"
      by (auto split: phase.splits option.splits prod.splits)
    from teardown_free [OF h free [OF o]] have "fl = Return" "\<not> cl_udpLocked c1" by blast+
    then show ?thesis using all_free_put [OF inv, of c1 PDone] by (simp add: y' crashed_put)
  next
    case (EvCheck e)
    have "plugin_check e (sy_srv y) = (Continue, sy_srv y)" using no_dyn_check [OF m] by (simp add: plugin_check_def)
    with st EvCheck have "y' = y" by (auto simp: goes_on_def split: if_splits)
    with inv ok show ?thesis by simp
  qed
qed

lemma all_free_reach:
  assumes "srv_reach z (sys_init cfg m r) n y" and "no_dyn m" and "n < 2 ^ 32" and "\<not> sy_crashed y"
  shows "all_free y"
  using assms(1,3,4)
proof (induction rule: srv_reach.induct)
  case reach_start
  show ?case by (simp add: all_free_def sys_init_def)
next
  case (reach_event n y ev y')
  then have "no_dyn (sh_mgr (sv_sh (sy_srv y)))" using sys_inv_mgr [OF srv_reach_inv [OF reach_event(1) assms(2)]] by simp
  with srv_exec_free [of y z ev y'] reach_event show ?case by simp
qed



end
