(* ===== verification/UdpWire.thy ===== *)
theory UdpWire
  imports NoDeadlock WireLog
begin

text \<open>
  The UDP sessions of a client through every event of the server, and the datagrams the
  client's frames become: what the way from the client to a UDP peer rests on.
\<close>

section \<open>Sessions and their sockets\<close>

definition sess_socks :: "relayClient \<Rightarrow> (u32 \<times> nat) set" where
  "sess_socks c = (case cl_udpSessions c of None \<Rightarrow> {} | Some l \<Rightarrow> (\<lambda>(k, u). (us_channelID u, us_udpConn u)) ` set l)"

text \<open>The channels of the sessions that can still be sent to.\<close>

definition open_ids :: "relayClient \<Rightarrow> u32 set" where
  "open_ids c = {ch. \<exists>x. (ch, x) \<in> sess_socks c \<and> x \<notin> set (cl_udpClosed c)}"

lemma sess_socks_same: "cl_udpSessions c' = cl_udpSessions c \<Longrightarrow> sess_socks c' = sess_socks c"
  by (simp add: sess_socks_def)

lemma sess_socks_None [simp]: "cl_udpSessions c = None \<Longrightarrow> sess_socks c = {}"
  by (simp add: sess_socks_def)

lemma sess_socks_Some: "cl_udpSessions c = Some l \<Longrightarrow> sess_socks c = (\<lambda>(k, u). (us_channelID u, us_udpConn u)) ` set l"
  by (simp add: sess_socks_def)

lemma open_ids_None [simp]: "cl_udpSessions c = None \<Longrightarrow> open_ids c = {}"
  by (simp add: open_ids_def)

lemma open_ids_same: "cl_udpSessions c' = cl_udpSessions c \<Longrightarrow> cl_udpClosed c' = cl_udpClosed c \<Longrightarrow> open_ids c' = open_ids c"
  by (simp add: open_ids_def sess_socks_def)

lemma open_ids_sub:
  "sess_socks c' \<subseteq> sess_socks c \<Longrightarrow> set (cl_udpClosed c) \<subseteq> set (cl_udpClosed c') \<Longrightarrow> open_ids c' \<subseteq> open_ids c"
  by (auto simp: open_ids_def)

lemma open_ids_insert:
  "sess_socks c' \<subseteq> insert (i, x) (sess_socks c) \<Longrightarrow> set (cl_udpClosed c) \<subseteq> set (cl_udpClosed c') \<Longrightarrow>
    open_ids c' \<subseteq> insert i (open_ids c)"
  by (auto simp: open_ids_def)

lemma open_ids_session: "ch \<in> open_ids c \<Longrightarrow> ch \<in> snd ` set (sess_list (skeys c))"
  by (force simp: open_ids_def sess_socks_def skeys_def split: option.splits)

lemma sess_socks_delete: "sess_socks (delete_session k c) \<subseteq> sess_socks c"
proof (cases "cl_udpSessions c")
  case (Some l)
  moreover have "set (AList.delete k l) \<subseteq> set l" by (auto simp: AList.delete_eq)
  ultimately show ?thesis by (auto simp: delete_session_def sess_socks_Some)
qed (simp add: delete_session_def)

lemma delete_session_closed [simp]: "cl_udpClosed (delete_session k c) = cl_udpClosed c"
  by (simp add: delete_session_def)

lemma touch_session_closed [simp]: "cl_udpClosed (touch_session k t c) = cl_udpClosed c"
  by (simp add: touch_session_def)

lemma sess_socks_touch: "sess_socks (touch_session k now c) = sess_socks c"
proof (cases "cl_udpSessions c")
  case (Some l)
  have "(\<lambda>(k, u). (us_channelID u, us_udpConn u)) ` set (AList.map_entry k (\<lambda>u. u\<lparr>us_lastActive := now\<rparr>) l)
      = (\<lambda>(k, u). (us_channelID u, us_udpConn u)) ` set l"
    by (induction l) (auto simp: image_iff)
  with Some show ?thesis by (simp add: touch_session_def sess_socks_Some)
qed (simp add: touch_session_def)

lemma forward_sessions:
  assumes "udp_forward z e addr ch d c s = (fl, c', s')"
  shows "sess_socks c' \<subseteq> sess_socks c \<and> cl_udpClosed c' = cl_udpClosed c"
proof -
  have "c' = limiter_close (delete_session addr c) \<or> cl_udpSessions c' = cl_udpSessions c \<and> cl_udpClosed c' = cl_udpClosed c"
    using assms by (auto simp: udp_forward_def Let_def dest!: written_free split: prod.splits option.splits if_splits)
  with sess_socks_delete [of addr c] sess_socks_same [of c' c] sess_socks_same [of "limiter_close (delete_session addr c)" "delete_session addr c"]
  show ?thesis by auto
qed

lemma datagram_sessions:
  assumes "udp_datagram z e svc conn addr d c s = (fl, c', s')"
  shows "sess_socks c' \<subseteq> insert (sh_nextCID s + 1, conn) (sess_socks c) \<and> cl_udpClosed c' = cl_udpClosed c"
proof -
  obtain ok m1 where oa: "mgr_OnAccept (se_hook e) ''udp'' addr (sh_mgr s) = (ok, m1)" by force
  obtain b c1 where la: "limiter_accept c = (b, c1)" by force
  note c1 = written_free(3) [OF la]
  let ?ch = "sh_nextCID s + 1"
  let ?u = "\<lparr>us_channelID = ?ch, us_localPort = sm_LocalPort svc, us_remoteAddr = addr,
    us_udpConn = conn, us_lastActive = he_now (se_hook e)\<rparr>"
  let ?c2 = "\<lambda>l. c1\<lparr>cl_udpSessions := Some (AList.update addr ?u l)\<rparr>"
  have new: "sess_socks (?c2 l) \<subseteq> insert (?ch, conn) (sess_socks c)" if "cl_udpSessions c = Some l" for l
  proof -
    have "set (AList.update addr ?u l) \<subseteq> insert (addr, ?u) (set l)" by (induction l) auto
    with that c1 show ?thesis by (auto simp: sess_socks_Some)
  qed
  show ?thesis
  proof (cases "ok \<and> \<not> filter_refuses ''udp'' addr c \<and> \<not> cl_udpLocked c")
    case False
    with assms oa have "c' = c" by (auto simp: udp_datagram_def Let_def split: if_splits)
    then show ?thesis by blast
  next
    case True
    show ?thesis
    proof (cases "lookup_session addr c")
      case (Some u)
      with assms oa True have "udp_forward z e addr (us_channelID u) d (touch_session addr (he_now (se_hook e)) c) (s\<lparr>sh_mgr := m1\<rparr>) = (fl, c', s')"
        by (simp add: udp_datagram_def)
      from forward_sessions [OF this] show ?thesis by (auto simp: sess_socks_touch)
    next
      case None
      obtain ac m2 where op: "mgr_OnOpen (se_hook e) ''udp'' addr ?ch (sm_LocalPort svc) m1 = (ac, m2)" by force
      show ?thesis
      proof (cases "b \<and> cl_udpSessions c \<noteq> None")
        case False
        with assms oa True None la c1 have "cl_udpSessions c' = cl_udpSessions c" "cl_udpClosed c' = cl_udpClosed c"
          by (auto simp: udp_datagram_def Let_def next_cid_def split: bool.splits)
        with sess_socks_same [OF this(1)] show ?thesis by blast
      next
        case b: True
        then obtain l where l: "cl_udpSessions c = Some l" by blast
        show ?thesis
        proof (cases "act_Close ac")
          case close: True
          with assms oa True None la b c1 l op have "cl_udpSessions c' = cl_udpSessions (delete_session addr (?c2 l))" "cl_udpClosed c' = cl_udpClosed c"
            by (auto simp: udp_datagram_def Let_def next_cid_def)
          with sess_socks_same [OF this(1)] sess_socks_delete [of addr "?c2 l"] new [OF l] show ?thesis by blast
        next
          case False
          with assms oa True None la b c1 l op obtain s2 where
            "udp_forward z e addr ?ch d (touch_session addr (he_now (se_hook e)) (snd (rc_sendControl (new_udp_conn_msg ?ch svc addr) (?c2 l)))) s2 = (fl, c', s')"
            by (simp add: udp_datagram_def Let_def next_cid_def)
          from forward_sessions [OF this] c1 have cl: "cl_udpClosed c' = cl_udpClosed c"
            and "sess_socks c' \<subseteq> sess_socks (snd (rc_sendControl (new_udp_conn_msg ?ch svc addr) (?c2 l)))"
            by (simp_all add: sess_socks_touch)
          note this(2)
          also have "\<dots> = sess_socks (?c2 l)" by (rule sess_socks_same) simp
          finally show ?thesis using new [OF l] cl by blast
        qed
      qed
    qed
  qed
qed

lemma cleanup_kept: "set (fst (cleanup_sessions e l c s)) \<subseteq> set l"
  by (simp add: cleanup_sessions_kept)

lemma cleanup_closed: "cl_udpClosed (fst (snd (cleanup_sessions e l c s))) = cl_udpClosed c"
  by (induction e l c s rule: cleanup_sessions.induct) (auto split: prod.splits)

lemma udp_cleanup_sessions: "udp_cleanup e c s = (fl, c', s') \<Longrightarrow> sess_socks c' \<subseteq> sess_socks c \<and> cl_udpClosed c' = cl_udpClosed c"
  using image_mono [OF cleanup_kept [of e "the (cl_udpSessions c)" c s], of "\<lambda>(k, u). (us_channelID u, us_udpConn u)"]
    cleanup_closed [of e "the (cl_udpSessions c)" c s]
  by (auto simp: udp_cleanup_def sess_socks_Some simp del: image_subset_iff split: option.splits prod.splits if_splits)

lemma relay_close_sessions:
  assumes "relay_close e ch c s = (fl, c', s')"
  shows "open_ids c' \<subseteq> open_ids c \<and> sh_udp_out s' = sh_udp_out s"
proof -
  have d: "cl_udpSessions c' = cl_udpSessions c \<or> (\<exists>k. cl_udpSessions c' = cl_udpSessions (delete_session k c))"
      "cl_udpClosed c' = cl_udpClosed c" "sh_udp_out s' = sh_udp_out s"
    using assms by (auto simp: relay_close_def delete_session_def close_ext_def on_close_def split: option.splits prod.splits if_splits)
  from d(1) have "sess_socks c' \<subseteq> sess_socks c"
  proof
    assume "\<exists>k. cl_udpSessions c' = cl_udpSessions (delete_session k c)"
    then obtain k where "cl_udpSessions c' = cl_udpSessions (delete_session k c)" ..
    from sess_socks_same [OF this] sess_socks_delete [of k c] show ?thesis by simp
  next
    assume "cl_udpSessions c' = cl_udpSessions c"
    from sess_socks_same [OF this] show ?thesis by simp
  qed
  with open_ids_sub d(2,3) show ?thesis by simp
qed

lemma teardown_sessions: "relay_teardown lns c s = (fl, c', s') \<Longrightarrow> \<not> cl_udpLocked c \<Longrightarrow> cl_udpSessions c' = None"
  by (auto simp: relay_teardown_def client_stop_def drop_client_def close_conn_def Let_def split: if_splits)

text \<open>A frame sends one datagram, for data on the channel of a session whose socket is open, or none.\<close>

definition udp_sent :: "shared \<Rightarrow> shared \<Rightarrow> bytes list" where
  "udp_sent s s' = map (snd \<circ> snd) (drop (length (sh_udp_out s)) (sh_udp_out s'))"

lemma find_open:
  assumes "cl_wf c"
  shows "ch \<in> open_ids c \<longleftrightarrow> (\<exists>k u. find_session ch (cl_udpSessions c) = Some (k, u) \<and> us_udpConn u \<notin> set (cl_udpClosed c))"
proof (cases "cl_udpSessions c")
  case (Some l)
  then have d: "distinct (map (us_channelID \<circ> snd) l)"
    using assms by (auto simp: cl_wf_def core_wf_def skeys_def comp_def case_prod_beta)
  have "find (\<lambda>(k, u). us_channelID u = ch) l = Some (k, u)" if "(k, u) \<in> set l" "us_channelID u = ch" for k u
    using d that by (induction l) (auto simp: image_iff)
  then show ?thesis
    using Some by (fastforce simp: open_ids_def sess_socks_Some find_session_def dest: find_session_Some [of ch l, unfolded find_session_def, simplified])
qed (simp add: find_session_def)

lemma relay_data_sessions:
  assumes st: "relay_data e ch d c s = (fl, c', s')" and free: "\<not> cl_udpLocked c" and wf: "cl_wf c"
  shows "open_ids c' = open_ids c
    \<and> udp_sent s s' = (if map_of (cl_channelConns c) ch = None \<and> ch \<in> open_ids c then [d] else [])"
proof -
  obtain ac m where od: "mgr_OnData ch ''tx'' (int (length d)) (sh_mgr s) = (ac, m)" by force
  obtain c1 s2 where rw: "rate_wait e (length d) c (s\<lparr>sh_mgr := m\<rparr>) = (c1, s2)" by force
  have out: "sh_udp_out s2 = sh_udp_out s" using rate_wait_fields [of e "length d" c "s\<lparr>sh_mgr := m\<rparr>"] rw by simp
  note eq = relay_data_no_plugin [OF od rw, unfolded st]
  have "udp_sent s s' = (if map_of (cl_channelConns c) ch = None \<and> ch \<in> open_ids c then [d] else [])"
  proof (cases "map_of (cl_channelConns c) ch")
    case (Some x)
    with eq have "s' = write_ext e x d s2" by simp
    with Some out show ?thesis by (simp add: udp_sent_def write_ext_def)
  next
    case no: None
    show ?thesis
    proof (cases "find_session ch (cl_udpSessions c)")
      case None
      with eq no free have "s' = s2" by simp
      moreover have "ch \<notin> open_ids c" using find_open [OF wf] None by simp
      ultimately show ?thesis using out by (simp add: udp_sent_def)
    next
      case (Some p)
      obtain k u where p: "p = (k, u)" by force
      with eq no free Some have "s' = write_udp u d c s2" by simp
      moreover have "ch \<in> open_ids c \<longleftrightarrow> us_udpConn u \<notin> set (cl_udpClosed c)" using find_open [OF wf] Some p by simp
      ultimately show ?thesis using no out by (simp add: udp_sent_def write_udp_def)
    qed
  qed
  moreover have "open_ids c' = open_ids c" by (rule open_ids_same) (use relay_data_client [OF st] in simp_all)
  ultimately show ?thesis by simp
qed

lemma relay_frame_sessions:
  assumes st: "relay_frame z e f c s = (fl, c', s')" and free: "\<not> cl_udpLocked c" and wf: "cl_wf c"
  shows "open_ids c' \<subseteq> open_ids c"
    and "f_type f = frameDataCompressed \<longrightarrow> CanDecompress (sh_mgr s) \<Longrightarrow>
      udp_sent s s' = (case carried z f of Some d \<Rightarrow> if map_of (cl_channelConns c) (f_chan f) = None \<and> f_chan f \<in> open_ids c then [d] else []
        | None \<Rightarrow> [])"
proof -
  have quiet: "udp_sent s s' = []" if "sh_udp_out s' = sh_udp_out s" using that by (simp add: udp_sent_def)
  have ctl: "open_ids c' \<subseteq> open_ids c \<and> sh_udp_out s' = sh_udp_out s" if "relay_control p c s = (fl, c', s')" for p
    using that open_ids_same [of c' c] by (auto simp: relay_control_def Let_def split: option.splits if_split_asm)
  show "open_ids c' \<subseteq> open_ids c"
    using st relay_data_sessions [OF _ free wf] relay_close_sessions ctl unfolding relay_frame_def
    by (simp split: if_splits option.splits)
  assume cp: "f_type f = frameDataCompressed \<longrightarrow> CanDecompress (sh_mgr s)"
  consider (ctl) "f_type f = frameControl" | (close) "f_type f = frameClose" | (raw) "f_type f = frameData"
    | (cmp) "f_type f = frameDataCompressed" | (junk) "f_type f \<notin> {frameControl, frameClose, frameData, frameDataCompressed}"
    by blast
  then show "udp_sent s s' = (case carried z f of Some d \<Rightarrow>
      if map_of (cl_channelConns c) (f_chan f) = None \<and> f_chan f \<in> open_ids c then [d] else [] | None \<Rightarrow> [])"
  proof cases
    case ctl
    with st have "relay_control (f_payload f) c s = (fl, c', s')" by (simp add: relay_frame_def)
    with \<open>\<And>p. relay_control p c s = (fl, c', s') \<Longrightarrow> _\<close> quiet ctl show ?thesis by simp
  next
    case close
    with st have "relay_close e (f_chan f) c s = (fl, c', s')" by (simp add: relay_frame_def frame_consts)
    with relay_close_sessions [OF this] quiet close show ?thesis by (simp add: carried_def frame_consts)
  next
    case raw
    with st have "relay_data e (f_chan f) (f_payload f) c s = (fl, c', s')" by (simp add: relay_frame_def frame_consts)
    with relay_data_sessions [OF this free wf] raw show ?thesis by (simp add: carried_def)
  next
    case cmp
    show ?thesis
    proof (cases "lz4_read z (f_payload f)")
      case None
      with st cmp cp have "s' = s" by (auto simp: relay_frame_def frame_consts mgr_Decompress_any)
      then show ?thesis using quiet cmp None by (simp add: carried_def frame_consts)
    next
      case (Some d)
      with st cmp cp have "relay_data e (f_chan f) d c s = (fl, c', s')" by (simp add: relay_frame_def frame_consts mgr_Decompress_any)
      with relay_data_sessions [OF this free wf] cmp Some show ?thesis by (simp add: carried_def frame_consts)
    qed
  next
    case junk
    with st have "s' = s" by (auto simp: relay_frame_def)
    then show ?thesis using quiet junk by (simp add: carried_def)
  qed
qed

section \<open>Events\<close>

lemma srv_event_sessions:
  assumes inv: "sys_inv n y" and n: "Suc n < 2 ^ 32" and free: "all_free y"
    and obj: "sv_objs (sy_srv y) cid = Some c" and st: "srv_exec z ev y = Some y'" and obj': "sv_objs (sy_srv y') cid = Some c'"
  shows "open_ids c' \<subseteq> insert (sh_nextCID (sv_sh (sy_srv y)) + 1) (open_ids c)"
proof -
  have same: ?thesis if "c' = c \<or> cl_udpSessions c' = cl_udpSessions c \<and> cl_udpClosed c' = cl_udpClosed c"
    using that open_ids_same [of c' c] by blast
  have fewer: ?thesis if "sess_socks c' \<subseteq> sess_socks c" "set (cl_udpClosed c) \<subseteq> set (cl_udpClosed c')"
    using open_ids_sub [OF that] by blast
  have none: ?thesis if "cl_udpSessions c' = None" using that by simp
  have put: "c' = (if cid = a then c1 else c)" if "y' = put a (fl, c1, s1) y \<or> y' = set_phase p q (put a (fl, c1, s1) y)" for a fl c1 s1 p q
    using that obj obj' by (auto simp: put_def set_phase_def)
  have own: "c2 = c" if "live cid y = Some c2" for c2 using live_Some [OF that] obj by simp
  show ?thesis
  proof (cases ev)
    case (EvConnect w)
    have "cid \<noteq> sh_nextCID (sv_sh (sy_srv y)) + 1"
      using sys_invD(3) [OF inv obj] next_fresh(2,3) [of "sh_nextCID (sv_sh (sy_srv y))" n] inv n by (auto simp: sys_inv_def)
    with st EvConnect obj obj' show ?thesis
      by (intro same) (auto simp: handle_connect_def next_cid_def put_def set_phase_def new_client_def)
  next
    case (EvHello a e ip input)
    with st obtain c2 where o: "sv_objs (sy_srv y) a = Some c2" by (auto split: phase.splits option.splits)
    obtain r c1 s1 where h: "handle_hello e ip input c2 (sv_sh (sy_srv y)) = (r, c1, s1)"
      by (cases "handle_hello e ip input c2 (sv_sh (sy_srv y))") auto
    with st EvHello o obtain fl p q where "y' = set_phase p q (put a (fl, c1, s1) y)"
      by (cases r) (auto split: phase.splits)
    from put [OF disjI2 [OF this]] hello_free [OF h] o obj show ?thesis by (intro same) (auto split: if_splits)
  next
    case (EvReply a)
    with st obtain c2 lns failed pub b c1 s1 where o: "live a y = Some c2"
        and h: "handle_reply lns failed pub c2 (sv_sh (sy_srv y)) = (b, c1, s1)"
        and y': "y' = set_phase a (if b then PServing lns else PDone) (put a (Continue, c1, s1) y)"
      by (auto split: phase.splits option.splits prod.splits)
    show ?thesis using put [OF disjI2 [OF y']] reply_free(1) [OF h] own o by (intro same) (auto split: if_splits)
  next
    case (EvReplyWrite a)
    from st [unfolded EvReplyWrite] obtain c2 lns bs b c1 s1 p where o: "live a y = Some c2"
        and h: "reply_write lns bs c2 (sv_sh (sy_srv y)) = (b, c1, s1)" and y': "y' = set_phase a p (put a (Continue, c1, s1) y)"
      by (rule reply_write_event)
    show ?thesis using put [OF disjI2 [OF y']] reply_free(2) [OF h] own o by (intro same) (auto split: if_splits)
  next
    case (EvAccept a svc x addr e)
    with st obtain c2 fl c1 s1 where o: "live a y = Some c2" and h: "tcp_accept e svc x c2 (with_ext x addr (sv_sh (sy_srv y))) = (fl, c1, s1)"
        and y': "y' = put a (fl, if goes_on fl then c1 else c1\<lparr>cl_tcpLoops := remove1 svc (cl_tcpLoops c1)\<rparr>, s1) y"
      by (auto split: option.splits prod.splits if_splits)
    show ?thesis using put [OF disjI1 [OF y']] tcp_accept_udp [OF h] own o by (intro same) (auto split: if_splits)
  next
    case (EvAcceptError a svc)
    with st obtain c2 where o: "live a y = Some c2" and y': "y' = put a (Return, c2\<lparr>cl_tcpLoops := remove1 svc (cl_tcpLoops c2)\<rparr>,
        tcp_loop_exit svc (sv_sh (sy_srv y))) y"
      by (auto simp: tcp_accept_error_def split: option.splits if_splits)
    show ?thesis using put [OF disjI1 [OF y']] own o by (intro same) (auto split: if_splits)
  next
    case (EvPipe a ch x r e)
    with st obtain c2 fl c1 s1 where o: "live a y = Some c2" and h: "pipe_step z e ch x r c2 (sv_sh (sy_srv y)) = (fl, c1, s1)"
        and y': "y' = put a (fl, if goes_on fl then c1 else c1\<lparr>cl_pipes := remove1 (ch, x) (cl_pipes c1)\<rparr>, s1) y"
      by (auto split: option.splits prod.splits if_splits)
    show ?thesis using put [OF disjI1 [OF y']] pipe_step_udp [OF h] own o by (intro same) (auto split: if_splits)
  next
    case (EvDatagram a svc conn addr d e)
    with st obtain c2 fl c1 s1 where o: "live a y = Some c2" and h: "udp_datagram z e svc conn addr d c2 (sv_sh (sy_srv y)) = (fl, c1, s1)"
        and y': "y' = put a (fl, udp_loop_end svc conn fl c1, s1) y"
      by (auto split: option.splits prod.splits if_splits)
    show ?thesis
    proof (cases "cid = a")
      case True
      then have "c' = udp_loop_end svc conn fl c1" "c2 = c" using put [OF disjI1 [OF y']] own o by simp_all
      with datagram_sessions [OF h] sess_socks_same [of c' c1] have "sess_socks c' \<subseteq> insert (sh_nextCID (sv_sh (sy_srv y)) + 1, conn) (sess_socks c)"
          "set (cl_udpClosed c) \<subseteq> set (cl_udpClosed c')"
        by (auto simp: udp_loop_end_closed)
      then show ?thesis by (rule open_ids_insert)
    next
      case False
      then show ?thesis using put [OF disjI1 [OF y']] same by simp
    qed
  next
    case (EvUdpError a svc conn err)
    with st obtain c2 where o: "live a y = Some c2"
        and y': "y' = put a (Continue, udp_loop_end svc conn (udp_read_error err) c2, sv_sh (sy_srv y)) y"
      by (auto split: option.splits if_splits)
    show ?thesis
    proof (cases "cid = a")
      case True
      then have "c' = udp_loop_end svc conn (udp_read_error err) c" using put [OF disjI1 [OF y']] own o by simp
      then show ?thesis by (intro fewer) (auto simp: udp_loop_end_closed sess_socks_def)
    next
      case False
      then show ?thesis using put [OF disjI1 [OF y']] same by simp
    qed
  next
    case (EvCleanup a e)
    with st obtain c2 fl c1 s1 where o: "live a y = Some c2" and h: "udp_cleanup e c2 (sv_sh (sy_srv y)) = (fl, c1, s1)"
        and y': "y' = put a (fl, c1, s1) y"
      by (cases "udp_cleanup e (the (live a y)) (sv_sh (sy_srv y))") (auto split: option.splits if_splits)
    show ?thesis
    proof (cases "cid = a")
      case True
      then show ?thesis using put [OF disjI1 [OF y']] own o udp_cleanup_sessions [OF h] by (intro fewer) auto
    next
      case False
      then show ?thesis using put [OF disjI1 [OF y']] same by simp
    qed
  next
    case (EvFrame a e f)
    with st obtain c2 fl c1 s1 p where o: "live a y = Some c2" and h: "relay_frame z e f c2 (sv_sh (sy_srv y)) = (fl, c1, s1)"
        and y': "y' = set_phase a p (put a (fl, c1, s1) y)"
      by (auto split: phase.splits option.splits prod.splits)
    show ?thesis
    proof (cases "cid = a")
      case True
      then show ?thesis using put [OF disjI2 [OF y']] own o relay_frame_sessions(1) [OF h] all_freeD(3) [OF free obj]
          sys_invD(1) [OF inv obj] by auto
    next
      case False
      then show ?thesis using put [OF disjI2 [OF y']] same by simp
    qed
  next
    case (EvEnd a)
    with st obtain c2 lns fl c1 s1 p where o: "live a y = Some c2" and h: "relay_teardown lns c2 (sv_sh (sy_srv y)) = (fl, c1, s1)"
        and y': "y' = set_phase a p (put a (fl, c1, s1) y)"
      by (auto split: phase.splits option.splits prod.splits)
    have "cl_udpSessions c1 = None" if "c2 = c"
      using teardown_sessions [OF h] all_freeD(3) [OF free obj] that by simp
    then show ?thesis using put [OF disjI2 [OF y']] own o same none by (cases "cid = a") auto
  next
    case (EvCheck e)
    have "plugin_check e (sy_srv y) = (Continue, sy_srv y)"
      using no_dyn_check [OF sys_inv_mgr [OF inv]] by (simp add: plugin_check_def)
    with st EvCheck have "y' = y" by (auto simp: goes_on_def split: if_splits)
    with obj obj' show ?thesis by (intro same) simp
  qed
qed

end
