(* ===== verification/Composed.thy ===== *)
theory Composed
  imports ServerWire ClientWire UdpWire
begin

text \<open>
  The whole tunnel as one transition system: a server with any number of clients, one client
  process connected to it, and the two directions of their connection with bytes in flight.
  The server's goroutines, the client's read loop and its pipes take their steps in any
  order. The two directions implement one queue per channel.
\<close>

section \<open>The system\<close>

text \<open>
  \<open>tn_down\<close> and \<open>tn_up\<close> are the numbers of bytes the client and the server have read from
  each other. The last five fields record what the steps did: the data read from external
  connections and from local connections, by channel, for which channel a local or an external
  connection was made, and the datagrams a channel's frames became. Of these only \<open>tn_locals\<close> is
  looked at: it tells which of the two pipes a local connection has.
\<close>

record tunnel =
  tn_sys :: sys
  tn_k :: Client
  tn_reading :: bool
  tn_down :: nat
  tn_up :: nat
  tn_fed :: "u32 \<Rightarrow> bytes list"
  tn_sent :: "u32 \<Rightarrow> bytes list"
  tn_locals :: "nat \<Rightarrow> (u32 \<times> bool) option"
  tn_exts :: "nat \<Rightarrow> u32 option"
  tn_udp :: "u32 \<Rightarrow> bytes list"

datatype tun_event =
    TSrv srv_event
  | TSrvRead srv_env
  | TCliRead cli_env
  | TCliTimeout cli_env
  | TCliPipe u32 nat "io_err + bytes"
  | TCliUdpPipe u32 nat "io_err + bytes"
  | TCliClose

text \<open>
  The events of the server that may happen beside the client \<open>cid\<close>: its frames come from the
  client process only, reads return at most the size of their buffers, and the addresses of
  external peers are short ASCII texts.
\<close>

fun tame :: "u32 \<Rightarrow> srv_event \<Rightarrow> sys \<Rightarrow> bool" where
  "tame cid (EvFrame cid' e f) y = (cid' \<noteq> cid)"
| "tame cid (EvPipe cid' ch x r e) y = (case r of Inl er \<Rightarrow> True | Inr d \<Rightarrow> length d \<le> 65536)"
| "tame cid (EvAccept cid' svc x addr e) y = msg_ok (new_conn_msg (sh_nextCID (sv_sh (sy_srv y)) + 1) svc addr)"
| "tame cid (EvDatagram cid' svc conn addr d e) y =
     (length d \<le> 65536 \<and> msg_ok (new_udp_conn_msg (sh_nextCID (sv_sh (sy_srv y)) + 1) svc addr))"
| "tame cid _ y = True"

definition at_channel :: "u32 \<Rightarrow> bytes \<Rightarrow> u32 \<Rightarrow> bytes list" where
  "at_channel ch d c = (if c = ch then [d] else [])"

text \<open>The data an event of the server reads for a channel of the client.\<close>

fun fed_by :: "u32 \<Rightarrow> srv_event \<Rightarrow> sys \<Rightarrow> sys \<Rightarrow> u32 \<Rightarrow> bytes list" where
  "fed_by cid (EvPipe cid' ch x r e) y y' =
     (case r of Inr d \<Rightarrow> if cid' = cid then at_channel ch d else (\<lambda>_. []) | Inl er \<Rightarrow> (\<lambda>_. []))"
| "fed_by cid (EvDatagram cid' svc conn addr d e) y y' =
     (case (live cid y, live cid y') of
        (Some c, Some c') \<Rightarrow>
          if cid' = cid \<and> datagram_admitted e addr c (sv_sh (sy_srv y))
          then (case lookup_session addr c' of Some u \<Rightarrow> at_channel (us_channelID u) d | None \<Rightarrow> (\<lambda>_. []))
          else (\<lambda>_. [])
      | _ \<Rightarrow> (\<lambda>_. []))"
| "fed_by cid _ y y' = (\<lambda>_. [])"

text \<open>The channel an accepted connection gets.\<close>

fun note_ext :: "u32 \<Rightarrow> srv_event \<Rightarrow> sys \<Rightarrow> sys \<Rightarrow> (nat \<Rightarrow> u32 option) \<Rightarrow> nat \<Rightarrow> u32 option" where
  "note_ext cid (EvAccept cid' svc x addr e) y y' m =
     (case sv_objs (sy_srv y') cid of
        Some c \<Rightarrow>
          if cid' = cid \<and> map_of (cl_channelConns c) (sh_nextCID (sv_sh (sy_srv y)) + 1) = Some x
          then m(x \<mapsto> sh_nextCID (sv_sh (sy_srv y)) + 1) else m
      | None \<Rightarrow> m)"
| "note_ext cid _ y y' m = m"

text \<open>The datagrams a frame became.\<close>

definition datagrams :: "u32 \<Rightarrow> sys \<Rightarrow> sys \<Rightarrow> u32 \<Rightarrow> bytes list" where
  "datagrams ch y y' c = (if c = ch then udp_sent (sv_sh (sy_srv y)) (sv_sh (sy_srv y')) else [])"

definition add_data :: "(u32 \<Rightarrow> bytes list) \<Rightarrow> (u32 \<Rightarrow> bytes list) \<Rightarrow> u32 \<Rightarrow> bytes list" where
  "add_data m n ch = m ch @ n ch"

text \<open>What a pipe of the client reads; it looks at \<open>closeCh\<close> first.\<close>

definition sent_by :: "Client \<Rightarrow> u32 \<Rightarrow> io_err + bytes \<Rightarrow> u32 \<Rightarrow> bytes list" where
  "sent_by k ch r = (case r of
       Inr d \<Rightarrow> if k_closeCh k = Some True then (\<lambda>_. []) else at_channel ch d
     | Inl er \<Rightarrow> (\<lambda>_. []))"

definition short_read :: "io_err + bytes \<Rightarrow> bool" where
  "short_read r = (case r of Inr d \<Rightarrow> length d \<le> 65536 | Inl er \<Rightarrow> True)"

definition end_pipe :: "flow \<Rightarrow> u32 \<Rightarrow> nat \<Rightarrow> Client \<Rightarrow> Client" where
  "end_pipe fl ch x k = (if goes_on fl then k else k\<lparr>k_pipes := remove1 (ch, x) (k_pipes k)\<rparr>)"

definition is_frame :: "(io_err, frame) go \<Rightarrow> bool" where
  "is_frame r = (case r of Ret f \<Rightarrow> True | _ \<Rightarrow> False)"

text \<open>
  The client's read loop takes a frame when one is complete; otherwise it waits, unless the
  server's side is broken or the client itself was closed. A read times out only when
  nothing is in flight, and a write to a local or an external connection takes all bytes.
\<close>

fun tun_exec :: "lz4 \<Rightarrow> u32 \<Rightarrow> tun_event \<Rightarrow> tunnel \<Rightarrow> tunnel option" where
  "tun_exec z cid (TSrv ev) t =
     (if \<not> tame cid ev (tn_sys t) then None
      else (case srv_exec z ev (tn_sys t) of
              None \<Rightarrow> None
            | Some y \<Rightarrow> Some (t\<lparr>tn_sys := y, tn_fed := add_data (tn_fed t) (fed_by cid ev (tn_sys t) y),
                                tn_exts := note_ext cid ev (tn_sys t) y (tn_exts t)\<rparr>)))"
| "tun_exec z cid (TSrvRead e) t =
     (case k_conn (tn_k t) of
        None \<Rightarrow> None
      | Some w \<Rightarrow>
          if se_ext_write e \<noteq> None then None
          else (case srv_readFrame (map RByte (drop (tn_up t) (w_sent w))) of
                  (Ret f, rest) \<Rightarrow>
                    (case srv_exec z (EvFrame cid e f) (tn_sys t) of
                       None \<Rightarrow> None
                     | Some y \<Rightarrow> Some (t\<lparr>tn_sys := y, tn_up := length (w_sent w) - length rest,
                           tn_udp := add_data (tn_udp t) (datagrams (f_chan f) (tn_sys t) y)\<rparr>))
                | _ \<Rightarrow> None))"
| "tun_exec z cid (TCliRead e) t =
     (case sv_objs (sy_srv (tn_sys t)) cid of
        None \<Rightarrow> None
      | Some c \<Rightarrow>
          (let k = tn_k t;
               sent = w_sent (cl_wconn c);
               input = map RByte (drop (tn_down t) sent);
               r = fst (cli_readFrame input)
           in if \<not> tn_reading t \<or> \<not> ce_write_ok e \<or> k_locals k (ce_new e) \<noteq> None then None
              else if k_closeCh k \<noteq> Some True \<and> \<not> is_frame r \<and> w_room (cl_wconn c) \<noteq> Some 0 then None
              else (case k_iter z e input k of
                      ((fl, k1), rest) \<Rightarrow>
                        Some (if fl \<noteq> Continue then t\<lparr>tn_k := k1, tn_reading := False\<rparr>
                              else t\<lparr>tn_k := k1, tn_down := length sent - length rest,
                                     tn_locals := (case r of Ret f \<Rightarrow> note_local e f k1 (tn_locals t) | _ \<Rightarrow> tn_locals t)\<rparr>))))"
| "tun_exec z cid (TCliTimeout e) t =
     (case sv_objs (sy_srv (tn_sys t)) cid of
        None \<Rightarrow> None
      | Some c \<Rightarrow>
          if \<not> tn_reading t \<or> drop (tn_down t) (w_sent (cl_wconn c)) \<noteq> [] then None
          else (case k_iter z e [RTimeout] (tn_k t) of
                  ((fl, k1), rest) \<Rightarrow> Some (t\<lparr>tn_k := k1, tn_reading := (fl = Continue)\<rparr>)))"
| "tun_exec z cid (TCliPipe ch x r) t =
     (if (ch, x) \<in> set (k_pipes (tn_k t)) \<and> tn_locals t x = Some (ch, False) \<and> short_read r
      then (case k_pipe_step z ch x r (tn_k t) of
              (fl, k1) \<Rightarrow> Some (t\<lparr>tn_k := end_pipe fl ch x k1, tn_sent := add_data (tn_sent t) (sent_by (tn_k t) ch r)\<rparr>))
      else None)"
| "tun_exec z cid (TCliUdpPipe ch x r) t =
     (if (ch, x) \<in> set (k_pipes (tn_k t)) \<and> tn_locals t x = Some (ch, True) \<and> short_read r
      then (case k_udp_pipe_step z ch x r (tn_k t) of
              (fl, k1) \<Rightarrow> Some (t\<lparr>tn_k := end_pipe fl ch x k1, tn_sent := add_data (tn_sent t) (sent_by (tn_k t) ch r)\<rparr>))
      else None)"
| "tun_exec z cid TCliClose t =
     (case Client_Close (tn_k t) of
        Ret k1 \<Rightarrow> Some (t\<lparr>tn_k := k1\<rparr>)
      | _ \<Rightarrow> None)"

text \<open>
  The start: \<open>cid\<close> is registered and has no channels yet, the client has read the reply, and
  neither side has anything in flight. A server that compresses, or a client that was told
  it may, has a peer that can decompress.
\<close>

definition registered :: "sys \<Rightarrow> u32 \<Rightarrow> bool" where
  "registered y cid \<longleftrightarrow> (case sy_phase y cid of PServing lns \<Rightarrow> True | PStuck \<Rightarrow> True | PDone \<Rightarrow> True | _ \<Rightarrow> False)"

definition tun_init :: "sys \<Rightarrow> relayClient \<Rightarrow> wconn \<Rightarrow> Client \<Rightarrow> tunnel" where
  "tun_init y c w k = \<lparr>tn_sys = y, tn_k = k, tn_reading = True, tn_down = length (w_sent (cl_wconn c)), tn_up = length (w_sent w),
     tn_fed = (\<lambda>_. []), tn_sent = (\<lambda>_. []), tn_locals = Map.empty, tn_exts = Map.empty,
     tn_udp = (\<lambda>_. [])\<rparr>"

definition just_registered :: "u32 \<Rightarrow> sys \<Rightarrow> relayClient \<Rightarrow> wconn \<Rightarrow> Client \<Rightarrow> bool" where
  "just_registered cid y c w k \<longleftrightarrow> registered y cid \<and> sv_objs (sy_srv y) cid = Some c
     \<and> cl_channelConns c = [] \<and> cl_udpSessions c = Some [] \<and> cl_pipes c = []
     \<and> k_conn k = Some w \<and> k_channels k = [] \<and> k_udpChannels k = [] \<and> k_pipes k = []
     \<and> (clientSupportsCompression c \<longrightarrow> k_Compressor k \<noteq> None)
     \<and> (k_serverSupportsCompression k \<longrightarrow> CanDecompress (sh_mgr (sv_sh (sy_srv y))))"

inductive tun_reach :: "lz4 \<Rightarrow> u32 \<Rightarrow> nat \<Rightarrow> tunnel \<Rightarrow> nat \<Rightarrow> tunnel \<Rightarrow> bool" for z cid n0 t0 where
  tun_start: "tun_reach z cid n0 t0 n0 t0"
| tun_event: "tun_reach z cid n0 t0 n t \<Longrightarrow> \<not> sy_crashed (tn_sys t) \<Longrightarrow> tun_exec z cid ev t = Some t'
    \<Longrightarrow> tun_reach z cid n0 t0 (Suc n) t'"

section \<open>What an event of the server does to the client's log\<close>

text \<open>
  \<open>fed\<close> is the data the frames carry; \<open>i\<close> and \<open>i'\<close> are the last channel ids before and after.
\<close>

definition log_adds :: "lz4 \<Rightarrow> bool \<Rightarrow> (u32 \<Rightarrow> bytes list) \<Rightarrow> u32 \<Rightarrow> u32 \<Rightarrow> wconn \<Rightarrow> wconn \<Rightarrow> bool" where
  "log_adds z b fed i i' w w' \<longleftrightarrow> (\<exists>G. attempts G w w' \<and> (\<forall>ch. chunks z ch G = fed ch) \<and> (\<forall>f \<in> set G. packed_ok b f)
     \<and> (\<forall>S. (\<forall>j \<in> S. j \<le> i) \<longrightarrow> opened_once z S G) \<and> (\<forall>j \<in> seen z G. j \<le> i'))"

lemma plain_log:
  assumes "\<forall>f \<in> set G. plain f"
  shows "chunks z ch G = [] \<and> opened_once z S G \<and> seen z G = {} \<and> (\<forall>f \<in> set G. packed_ok b f)"
  using assms by (induction G arbitrary: S) (auto simp: plain_frame)

lemma logs_plain:
  "attempts G w w' \<Longrightarrow> \<forall>f \<in> set G. plain f \<Longrightarrow> log_adds z b (\<lambda>_. []) i i' w w'"
  using plain_log [of G z] unfolding log_adds_def by (intro exI [of _ G]) simp

lemma logs_none: "w' = w \<Longrightarrow> log_adds z b (\<lambda>_. []) i i' w w'"
  by (rule logs_plain [of "[]"]) simp_all

lemma logs_data:
  assumes "attempts [f] w w'" and "data_frame z b ch d f" and "ch \<le> i'"
  shows "log_adds z b (at_channel ch d) i i' w w'"
  using assms data_frame_simps [OF assms(2)] unfolding log_adds_def
  by (intro exI [of _ "[f]"]) (simp add: at_channel_def data_frame_def)

lemma opens_ch_control: "opens_ch f = Some ch \<Longrightarrow> carried z f = None \<and> packed_ok b f \<and> mentions z f = {ch}"
  by (auto simp: opens_ch_def mentions_def packed_ok_def frame_consts split: if_splits)

lemma logs_open:
  assumes "attempts [f] w w'" and "opens_ch f = Some (i + 1)" and "\<not> i + 1 \<le> i"
  shows "log_adds z b (\<lambda>_. []) i (i + 1) w w'"
  using assms opens_ch_control [OF assms(2)] unfolding log_adds_def
  by (intro exI [of _ "[f]"]) auto

lemma logs_open_data:
  assumes "attempts [g, f] w w'" and "opens_ch g = Some (i + 1)" and "\<not> i + 1 \<le> i" and "data_frame z b (i + 1) d f"
  shows "log_adds z b (at_channel (i + 1) d) i (i + 1) w w'"
  using assms data_frame_simps [OF assms(4)] opens_ch_control [OF assms(2)] unfolding log_adds_def
  by (intro exI [of _ "[g, f]"]) (auto simp: at_channel_def data_frame_def)

text \<open>The effect of one event on the client it belongs to and on what all clients share.\<close>

fun actor :: "srv_event \<Rightarrow> u32 option" where
  "actor (EvAccept a svc x addr e) = Some a"
| "actor (EvAcceptError a svc) = Some a"
| "actor (EvPipe a ch x r e) = Some a"
| "actor (EvDatagram a svc conn addr d e) = Some a"
| "actor (EvUdpError a svc conn err) = Some a"
| "actor (EvCleanup a e) = Some a"
| "actor (EvEnd a) = Some a"
| "actor _ = None"

definition last_id :: "sys \<Rightarrow> u32" where
  "last_id y = sh_nextCID (sv_sh (sy_srv y))"

definition pipes_below :: "u32 \<Rightarrow> relayClient \<Rightarrow> bool" where
  "pipes_below i c \<longleftrightarrow> (\<forall>p \<in> set (cl_pipes c). fst p \<le> i)"

definition steady :: "shared \<Rightarrow> shared \<Rightarrow> bool" where
  "steady s s' \<longleftrightarrow> CanDecompress (sh_mgr s') = CanDecompress (sh_mgr s) \<and> shut s \<subseteq> shut s'
     \<and> (\<forall>x \<in> dom (sh_exts s). sent_of s' x = sent_of s x)"

lemma calm_steady: "calm s s' \<Longrightarrow> steady s s'"
  by (simp add: calm_def steady_def)

lemma steady_refl [simp]: "steady s s"
  by (simp add: steady_def)

lemma steady_with_ext:
  assumes "sh_exts s x = None" and "calm (with_ext x addr s) s'"
  shows "steady s s'"
proof -
  have "sent_of (with_ext x addr s) y = sent_of s y" if "y \<in> dom (sh_exts s)" for y
    using that assms(1) by (auto simp: sent_of_def with_ext_def)
  moreover have "shut s \<subseteq> shut (with_ext x addr s)" using assms(1) by (auto simp: shut_def with_ext_def)
  moreover have "sh_mgr (with_ext x addr s) = sh_mgr s" by (simp add: with_ext_def)
  ultimately show ?thesis using assms(2) by (auto simp: calm_def steady_def)
qed

text \<open>The tables of external connections: they shrink, or a new connection gets the next id.\<close>

definition conns_step :: "u32 \<Rightarrow> u32 \<Rightarrow> shared \<Rightarrow> shared \<Rightarrow> (u32 \<rightharpoonup> nat) \<Rightarrow> (u32 \<rightharpoonup> nat) \<Rightarrow> (nat \<rightharpoonup> u32) \<Rightarrow> (nat \<rightharpoonup> u32) \<Rightarrow> bool" where
  "conns_step i i' s s' m m' o1 o2 \<longleftrightarrow> (m' \<subseteq>\<^sub>m m \<and> o2 = o1)
     \<or> (\<exists>x. sh_exts s x = None \<and> sent_of s' x = Some [] \<and> i' = i + 1 \<and> m' = m(i + 1 \<mapsto> x) \<and> o2 = o1(x \<mapsto> i + 1))"

definition conns_ok :: "u32 \<Rightarrow> srv_event \<Rightarrow> sys \<Rightarrow> sys \<Rightarrow> relayClient \<Rightarrow> relayClient \<Rightarrow> bool" where
  "conns_ok a ev y y' c c' \<longleftrightarrow> (\<forall>m. conns_step (last_id y) (last_id y') (sv_sh (sy_srv y)) (sv_sh (sy_srv y'))
     (map_of (cl_channelConns c)) (map_of (cl_channelConns c')) m (note_ext a ev y y' m))"

lemma conns_shrink:
  "map_of (cl_channelConns c') \<subseteq>\<^sub>m map_of (cl_channelConns c) \<Longrightarrow> (\<And>m. note_ext a ev y y' m = m) \<Longrightarrow> conns_ok a ev y y' c c'"
  by (simp add: conns_ok_def conns_step_def)

definition own_step :: "lz4 \<Rightarrow> u32 \<Rightarrow> srv_event \<Rightarrow> sys \<Rightarrow> sys \<Rightarrow> relayClient \<Rightarrow> relayClient \<Rightarrow> bool" where
  "own_step z a ev y y' c c' \<longleftrightarrow> log_adds z (clientSupportsCompression c) (fed_by a ev y y') (last_id y) (last_id y') (cl_wconn c) (cl_wconn c')
     \<and> cl_features c' = cl_features c \<and> pipes_below (last_id y') c'"

lemma put_simps [simp]:
  "sv_sh (sy_srv (put a (fl, c, s) y)) = s" "sv_objs (sy_srv (put a (fl, c, s) y)) = (sv_objs (sy_srv y))(a \<mapsto> c)"
  "sy_phase (put a (fl, c, s) y) = sy_phase y" "sy_srv (set_phase a p y) = sy_srv y" "sy_phase (set_phase a p y) = (sy_phase y)(a := p)"
  by (simp_all add: put_def set_phase_def)

text \<open>Steps that write nothing that matters to the log and open nothing.\<close>

lemma own_plain:
  assumes "wires G c s c1 s'" and "\<forall>f \<in> set G. plain f"
    and "fed_by a ev y y' = (\<lambda>_. [])" and "pipes_below (last_id y) c" and "last_id y \<le> last_id y'"
    and "cl_wconn c' = cl_wconn c1" and "cl_features c' = cl_features c1" and "set (cl_pipes c') \<subseteq> set (cl_pipes c1)"
  shows "own_step z a ev y y' c c'"
proof -
  have "pipes_below (last_id y') c'" using assms(1,4,5,8) by (fastforce simp: pipes_below_def wires_def)
  with assms logs_plain [of G "cl_wconn c" "cl_wconn c1" z "clientSupportsCompression c" "last_id y" "last_id y'"] show ?thesis
    by (simp add: own_step_def wires_def)
qed

lemma opens_new_conn:
  "msg_ok (new_conn_msg ch svc addr) \<Longrightarrow> opens_ch (ctl_frame (new_conn_msg ch svc addr)) = Some ch"
  "msg_ok (new_udp_conn_msg ch svc addr) \<Longrightarrow> opens_ch (ctl_frame (new_udp_conn_msg ch svc addr)) = Some ch"
  by (simp_all add: new_conn_msg_def new_udp_conn_msg_def)

lemma fresh_id:
  assumes "sys_inv n y" and "Suc n < 2 ^ 32"
  shows "\<not> last_id y + 1 \<le> last_id y" and "last_id y \<le> last_id y + 1"
  using next_fresh(2,3) [of "last_id y" n] assms by (auto simp: sys_inv_def last_id_def)

lemma fresh_conn:
  assumes "sys_inv n y" and "Suc n < 2 ^ 32" and "sv_objs (sy_srv y) a = Some c"
  shows "map_of (cl_channelConns c) (last_id y + 1) = None"
proof -
  have "last_id y + 1 \<notin> ids c" using sys_invD(4) [OF assms(1,3)] fresh_id(1) [OF assms(1,2)] by (auto simp: last_id_def)
  then show ?thesis by (simp add: ids_def core_ids_def map_of_eq_None_iff)
qed

lemma own_accept:
  assumes inv: "sys_inv n y" and n: "Suc n < 2 ^ 32" and obj: "sv_objs (sy_srv y) a = Some c"
    and x: "sh_exts (sv_sh (sy_srv y)) x = None"
    and h: "tcp_accept e svc x c (with_ext x addr (sv_sh (sy_srv y))) = (fl, c1, s1)"
    and m: "msg_ok (new_conn_msg (last_id y + 1) svc addr)"
    and y': "sv_objs (sy_srv y') a = Some c'" "sv_sh (sy_srv y') = s1"
    and c': "cl_wconn c' = cl_wconn c1" "cl_features c' = cl_features c1" "cl_pipes c' = cl_pipes c1" "cl_channelConns c' = cl_channelConns c1"
  shows "pipes_below (last_id y) c \<Longrightarrow> own_step z a (EvAccept a svc x addr e) y y' c c'"
    and "conns_ok a (EvAccept a svc x addr e) y y' c c'"
    and "last_id y \<le> last_id y'" and "steady (sv_sh (sy_srv y)) (sv_sh (sy_srv y'))"
proof -
  let ?s = "with_ext x addr (sv_sh (sy_srv y))" and ?i = "last_id y"
  have s: "sh_nextCID ?s = ?i" "ext_addr x ?s = addr" "no_dyn (sh_mgr ?s)"
    using sys_inv_mgr [OF inv] by (simp_all add: with_ext_def last_id_def ext_addr_def)
  have l: "last_id y' = sh_nextCID s1" using y'(2) by (simp add: last_id_def)
  note fc = fresh_conn [OF inv n obj] and fi = fresh_id [OF inv n]
  have nt: "note_ext a (EvAccept a svc x addr e) y y' m = (if map_of (cl_channelConns c1) (?i + 1) = Some x then m(x \<mapsto> ?i + 1) else m)" for m
    using y'(1) c'(4) by (simp add: last_id_def)
  note w = tcp_accept_wires [OF h s(3), unfolded s(1,2), OF m]
  then have calm: "calm ?s s1" and feat: "cl_features c' = cl_features c" using c' by simp_all
  then show "steady (sv_sh (sy_srv y)) (sv_sh (sy_srv y'))" using steady_with_ext [OF x] y'(2) by simp
  have new: "sent_of s1 x = Some []" using calm by (simp add: calm_def sent_of_def with_ext_def)
  from w consider "attempts [] (cl_wconn c) (cl_wconn c1)" "cl_pipes c1 = cl_pipes c" "cl_channelConns c1 = cl_channelConns c" "sh_nextCID s1 = ?i"
    | "attempts [ctl_frame (new_conn_msg (?i + 1) svc addr)] (cl_wconn c) (cl_wconn c1)" "sh_nextCID s1 = ?i + 1"
      "cl_pipes c1 \<in> {cl_pipes c, cl_pipes c @ [(?i + 1, x)]}"
      "cl_channelConns c1 \<in> {AList.update (?i + 1) x (cl_channelConns c), AList.delete (?i + 1) (AList.update (?i + 1) x (cl_channelConns c))}"
    by blast
  then have "(pipes_below (last_id y) c \<longrightarrow> own_step z a (EvAccept a svc x addr e) y y' c c')
    \<and> conns_ok a (EvAccept a svc x addr e) y y' c c' \<and> last_id y \<le> last_id y'"
  proof cases
    case 1
    moreover have "conns_ok a (EvAccept a svc x addr e) y y' c c'"
      by (rule conns_shrink) (use 1 c' fc nt in simp_all)
    ultimately show ?thesis
      using feat c' l logs_plain [of "[]" "cl_wconn c" "cl_wconn c1" z "clientSupportsCompression c"]
      by (simp add: own_step_def pipes_below_def)
  next
    case 2
    have "conns_ok a (EvAccept a svc x addr e) y y' c c'"
      using 2(4)
    proof
      assume "cl_channelConns c1 = AList.update (?i + 1) x (cl_channelConns c)"
      then have "map_of (cl_channelConns c1) = (map_of (cl_channelConns c))(?i + 1 \<mapsto> x)" by (simp add: AList.update_conv')
      with x new l y'(2) 2(2) c'(4) show ?thesis unfolding nt conns_ok_def conns_step_def by (intro allI disjI2 exI [of _ x]) simp
    next
      assume "cl_channelConns c1 \<in> {AList.delete (?i + 1) (AList.update (?i + 1) x (cl_channelConns c))}"
      then have "map_of (cl_channelConns c1) = (map_of (cl_channelConns c))(?i + 1 := None)" by (simp add: AList.update_conv' AList.delete_conv')
      with c'(4) show ?thesis by (intro conns_shrink) (auto simp: map_le_def nt simp del: note_ext.simps)
    qed
    moreover have "pipes_below (?i + 1) c1" if "pipes_below ?i c"
      using 2(3) that fi(2) by (auto simp: pipes_below_def intro: order_trans)
    ultimately show ?thesis using 2 feat c' l fi logs_open [OF 2(1) opens_new_conn(1) [OF m] fi(1)]
      by (simp add: own_step_def pipes_below_def)
  qed
  then show "pipes_below (last_id y) c \<Longrightarrow> own_step z a (EvAccept a svc x addr e) y y' c c'"
    and "conns_ok a (EvAccept a svc x addr e) y y' c c'" and "last_id y \<le> last_id y'" by blast+
qed

lemma own_datagram:
  assumes z: "lz4_sound z" and inv: "sys_inv n y" and n: "Suc n < 2 ^ 32" and obj: "live a y = Some c"
    and pb: "pipes_below (last_id y) c"
    and h: "udp_datagram z e svc conn addr d c (sv_sh (sy_srv y)) = (fl, c1, s1)" and "fl \<noteq> Crash"
    and m: "length d \<le> 65536" "msg_ok (new_udp_conn_msg (last_id y + 1) svc addr)"
    and y': "live a y' = Some c'" "last_id y' = sh_nextCID s1"
    and c': "cl_wconn c' = cl_wconn c1" "cl_features c' = cl_features c1" "cl_pipes c' = cl_pipes c1"
      "cl_channelConns c' = cl_channelConns c1" "cl_udpSessions c' = cl_udpSessions c1"
  shows "own_step z a (EvDatagram a svc conn addr d e) y y' c c' \<and> last_id y \<le> last_id y'"
proof -
  let ?s = "sv_sh (sy_srv y)" and ?i = "last_id y"
  note o = live_Some [OF obj, THEN conjunct1] and fi = fresh_id [OF inv n]
  have ls: "lookup_session addr c' = lookup_session addr c1" using c'(5) by (simp add: lookup_session_def)
  have fb: "fed_by a (EvDatagram a svc conn addr d e) y y' = (if datagram_admitted e addr c ?s
      then (case lookup_session addr c1 of Some u \<Rightarrow> at_channel (us_channelID u) d | None \<Rightarrow> (\<lambda>_. [])) else (\<lambda>_. []))"
    using obj y'(1) ls by simp
  note w = udp_datagram_wires [OF z m(1) h sys_inv_mgr [OF inv] m(2) [unfolded last_id_def] assms(7)]
  have pipes: "pipes_below i c'" if "?i \<le> i" for i
    using pb w c'(3) that by (fastforce simp: pipes_below_def)
  have rest: "cl_features c' = cl_features c" using w c' by simp
  show ?thesis
  proof (cases "datagram_admitted e addr c ?s \<and> lookup_session addr c1 \<noteq> None")
    case False
    with w have "cl_wconn c1 = cl_wconn c" "sh_nextCID s1 = ?i" by (simp_all add: last_id_def)
    moreover have "fed_by a (EvDatagram a svc conn addr d e) y y' = (\<lambda>_. [])" using False fb by auto
    ultimately show ?thesis using pipes rest c'(1) y'(2) by (simp add: own_step_def logs_none del: fed_by.simps)
  next
    case True
    with w obtain f u where f: "data_frame z (clientSupportsCompression c) (us_channelID u) d f" "map_option us_channelID (lookup_session addr c1) = Some (us_channelID u)"
      and alt: "lookup_session addr c = Some u \<and> attempts [f] (cl_wconn c) (cl_wconn c1) \<and> sh_nextCID s1 = ?i
        \<or> us_channelID u = ?i + 1 \<and> sh_nextCID s1 = ?i + 1
          \<and> attempts [ctl_frame (new_udp_conn_msg (?i + 1) svc addr), f] (cl_wconn c) (cl_wconn c1)"
      by (auto simp: last_id_def)
    have fed: "fed_by a (EvDatagram a svc conn addr d e) y y' = at_channel (us_channelID u) d" using fb True f(2) by auto
    from alt show ?thesis
    proof
      assume k: "lookup_session addr c = Some u \<and> attempts [f] (cl_wconn c) (cl_wconn c1) \<and> sh_nextCID s1 = ?i"
      then have "us_channelID u \<in> ids c"
        by (force simp: lookup_session_def ids_def core_ids_def skeys_def dest!: map_of_SomeD split: option.splits)
      then have "us_channelID u \<le> ?i" using sys_invD(4) [OF inv o] by (simp add: last_id_def)
      with k pipes rest c'(1) y'(2) fed logs_data [OF _ f(1), of "cl_wconn c" "cl_wconn c1" ?i ?i] show ?thesis
        by (simp add: own_step_def del: fed_by.simps)
    next
      assume k: "us_channelID u = ?i + 1 \<and> sh_nextCID s1 = ?i + 1
          \<and> attempts [ctl_frame (new_udp_conn_msg (?i + 1) svc addr), f] (cl_wconn c) (cl_wconn c1)"
      then have "log_adds z (clientSupportsCompression c) (at_channel (?i + 1) d) ?i (?i + 1) (cl_wconn c) (cl_wconn c1)"
        using f(1) opens_new_conn(2) [OF m(2)] fi(1) by (intro logs_open_data) auto
      with k pipes rest c'(1) y'(2) fed fi(2) show ?thesis by (simp add: own_step_def del: fed_by.simps)
    qed
  qed
qed

text \<open>One event of a running goroutine, whichever client it belongs to.\<close>

definition acts :: "lz4 \<Rightarrow> u32 \<Rightarrow> srv_event \<Rightarrow> sys \<Rightarrow> sys \<Rightarrow> bool" where
  "acts z a ev y y' \<longleftrightarrow> (\<exists>c c'. live a y = Some c \<and> sv_objs (sy_srv y') = (sv_objs (sy_srv y))(a \<mapsto> c')
     \<and> (\<forall>b. b \<noteq> a \<longrightarrow> sy_phase y' b = sy_phase y b) \<and> (registered y a \<longrightarrow> registered y' a)
     \<and> steady (sv_sh (sy_srv y)) (sv_sh (sy_srv y')) \<and> last_id y \<le> last_id y'
     \<and> conns_ok a ev y y' c c' \<and> (pipes_below (last_id y) c \<longrightarrow> own_step z a ev y y' c c'))"

lemma actsI:
  assumes "live a y = Some c" and "sv_objs (sy_srv y') = (sv_objs (sy_srv y))(a \<mapsto> c')"
    and "\<And>b. b \<noteq> a \<Longrightarrow> sy_phase y' b = sy_phase y b" and "registered y a \<Longrightarrow> registered y' a"
    and "steady (sv_sh (sy_srv y)) (sv_sh (sy_srv y'))" and "last_id y \<le> last_id y'"
    and "conns_ok a ev y y' c c'" and "pipes_below (last_id y) c \<Longrightarrow> own_step z a ev y y' c c'"
  shows "acts z a ev y y'"
  using assms by (auto simp: acts_def)

text \<open>The common shape: a handler, then a loop that goes on or ends.\<close>

lemma acts_plain:
  assumes "live a y = Some c" and "wires G c (sv_sh (sy_srv y)) c1 s1" and "\<forall>f \<in> set G. plain f"
    and "sv_objs (sy_srv y') = (sv_objs (sy_srv y))(a \<mapsto> c')" and "sv_sh (sy_srv y') = s1" and "sh_nextCID s1 = last_id y"
    and "\<And>b. b \<noteq> a \<Longrightarrow> sy_phase y' b = sy_phase y b" and "registered y a \<Longrightarrow> registered y' a"
    and "fed_by a ev y y' = (\<lambda>_. [])" and "\<And>m. note_ext a ev y y' m = m"
    and "cl_wconn c' = cl_wconn c1" and "cl_features c' = cl_features c1" and "set (cl_pipes c') \<subseteq> set (cl_pipes c1)"
    and "cl_channelConns c' = cl_channelConns c1"
  shows "acts z a ev y y'"
proof (rule actsI [OF assms(1,4,7,8)])
  have l: "last_id y' = last_id y" using assms(5,6) by (simp add: last_id_def)
  then show "last_id y \<le> last_id y'" by simp
  show "steady (sv_sh (sy_srv y)) (sv_sh (sy_srv y'))" using assms(2,5) by (simp add: wires_def calm_steady)
  show "own_step z a ev y y' c c'" if "pipes_below (last_id y) c"
    by (rule own_plain [OF assms(2,3,9) that _ assms(11-13)]) (simp add: l)
  show "conns_ok a ev y y' c c'" by (rule conns_shrink) (use assms(2,10,14) in \<open>simp_all add: wires_def\<close>)
qed

lemma registered_simps [simp]:
  "registered (put a r y) b = registered y b"
  by (cases r) (auto simp: registered_def put_def)

lemma cleanup_nextCID: "udp_cleanup e c s = (fl, c', s') \<Longrightarrow> sh_nextCID s' = sh_nextCID s"
proof -
  have "cleanup_sessions e l c s = (l', c', s') \<Longrightarrow> sh_nextCID s' = sh_nextCID s" for l l' c s c' s'
    by (induction e l c s arbitrary: l' c' s' rule: cleanup_sessions.induct) (auto split: if_splits prod.splits)
  then show "udp_cleanup e c s = (fl, c', s') \<Longrightarrow> sh_nextCID s' = sh_nextCID s"
    by (auto simp: udp_cleanup_def split: if_splits option.splits prod.splits)
qed

lemma pipe_nextCID: "pipe_step z e ch x r c s = (fl, c', s') \<Longrightarrow> sh_nextCID s' = sh_nextCID s"
  using rate_wait_fields [of e _ c]
  by (auto simp: pipe_step_def pipe_exit_def Let_def split_beta split: sum.splits option.splits if_splits)

lemma teardown_nextCID: "relay_teardown lns c s = (fl, c', s') \<Longrightarrow> sh_nextCID s' = sh_nextCID s"
proof -
  have "sh_nextCID (close_exts cs s) = sh_nextCID s" for cs s by (induction cs s rule: close_exts.induct) simp_all
  then show "relay_teardown lns c s = (fl, c', s') \<Longrightarrow> sh_nextCID s' = sh_nextCID s"
    by (auto simp: relay_teardown_def Let_def drop_client_def close_listeners_eq split: if_splits)
qed

lemma actor_acts:
  assumes z: "lz4_sound z" and inv: "sys_inv n y" and n: "Suc n < 2 ^ 32" and act: "actor ev = Some a"
    and tame: "tame cid ev y" and st: "srv_exec z ev y = Some y'" and ok: "\<not> sy_crashed y'"
  shows "acts z a ev y y'"
proof (cases ev)
  case (EvAccept b svc x addr e)
  with act have b: "b = a" by simp
  from st EvAccept b obtain c fl c1 s1 where o: "live a y = Some c" and x: "sh_exts (sv_sh (sy_srv y)) x = None"
      and h: "tcp_accept e svc x c (with_ext x addr (sv_sh (sy_srv y))) = (fl, c1, s1)"
      and y': "y' = put a (fl, if goes_on fl then c1 else c1\<lparr>cl_tcpLoops := remove1 svc (cl_tcpLoops c1)\<rparr>, s1) y"
    by (auto split: option.splits prod.splits if_splits)
  note o' = live_Some [OF o, THEN conjunct1]
  let ?c = "if goes_on fl then c1 else c1\<lparr>cl_tcpLoops := remove1 svc (cl_tcpLoops c1)\<rparr>"
  have m: "msg_ok (new_conn_msg (last_id y + 1) svc addr)" using tame EvAccept by (simp add: last_id_def)
  note w = own_accept [OF inv n o' x h m, of y' ?c]
  show ?thesis
    by (rule actsI [OF o, of y' ?c]) (use w y' EvAccept b in \<open>simp_all del: fed_by.simps note_ext.simps\<close>)
next
  case (EvAcceptError b svc)
  with act have b: "b = a" by simp
  from st EvAcceptError b obtain c where o: "live a y = Some c"
      and y': "y' = put a (Return, c\<lparr>cl_tcpLoops := remove1 svc (cl_tcpLoops c)\<rparr>, tcp_loop_exit svc (sv_sh (sy_srv y))) y"
    by (auto simp: tcp_accept_error_def split: option.splits prod.splits if_splits)
  have "wires [] c (sv_sh (sy_srv y)) c (tcp_loop_exit svc (sv_sh (sy_srv y)))" by (rule wires_refl) (simp add: calm_def)
  from acts_plain [OF o this, where z = z and y' = y' and c' = "c\<lparr>cl_tcpLoops := remove1 svc (cl_tcpLoops c)\<rparr>" and ev = ev] show ?thesis
    by (simp add: y' EvAcceptError last_id_def)
next
  case (EvPipe b ch x r e)
  with act have b: "b = a" by simp
  from st EvPipe b obtain c fl c1 s1 where o: "live a y = Some c" and p: "(ch, x) \<in> set (cl_pipes c)"
      and h: "pipe_step z e ch x r c (sv_sh (sy_srv y)) = (fl, c1, s1)"
      and y': "y' = put a (fl, if goes_on fl then c1 else c1\<lparr>cl_pipes := remove1 (ch, x) (cl_pipes c1)\<rparr>, s1) y"
    by (auto split: option.splits prod.splits if_splits)
  let ?c = "if goes_on fl then c1 else c1\<lparr>cl_pipes := remove1 (ch, x) (cl_pipes c1)\<rparr>"
  have c: "cl_wconn ?c = cl_wconn c1" "cl_features ?c = cl_features c1" "set (cl_pipes ?c) \<subseteq> set (cl_pipes c1)"
      "cl_channelConns ?c = cl_channelConns c1" using set_remove1_subset [of "(ch, x)" "cl_pipes c1"] by auto
  have l: "last_id y' = last_id y" using pipe_nextCID [OF h] y' by (simp add: last_id_def)
  show ?thesis
  proof (cases r)
    case (Inl er)
    with h have "wires [close_frame ch] c (sv_sh (sy_srv y)) c1 s1" by (simp add: pipe_error_wires)
    from acts_plain [OF o this _ _ _ _ _ _ _ _ c, where z = z and y' = y' and ev = ev] show ?thesis
      using l by (simp add: y' EvPipe Inl last_id_def b)
  next
    case (Inr d)
    with h tame EvPipe obtain f where f: "data_frame z (clientSupportsCompression c) ch d f" "wires [f] c (sv_sh (sy_srv y)) c1 s1"
      using pipe_data_wires [OF z, of d e ch x c "sv_sh (sy_srv y)" fl c1 s1] by auto
    show ?thesis
    proof (rule actsI [OF o])
      show "sv_objs (sy_srv y') = (sv_objs (sy_srv y))(a \<mapsto> ?c)" by (simp add: y')
      show "steady (sv_sh (sy_srv y)) (sv_sh (sy_srv y'))" using f(2) by (simp add: y' wires_def calm_steady)
      assume pb: "pipes_below (last_id y) c"
      then have "ch \<le> last_id y'" using p l by (auto simp: pipes_below_def)
      then have "log_adds z (clientSupportsCompression c) (at_channel ch d) (last_id y) (last_id y') (cl_wconn c) (cl_wconn ?c)"
        using f by (intro logs_data) (auto simp: wires_def)
      moreover have "pipes_below (last_id y') ?c" using pb c(3) f(2) l by (auto simp: pipes_below_def wires_def)
      ultimately show "own_step z a ev y y' c ?c"
        using f(2) c by (simp add: own_step_def EvPipe Inr b wires_def)
    next
      show "conns_ok a ev y y' c ?c" by (rule conns_shrink) (use f(2) c in \<open>simp_all add: wires_def EvPipe\<close>)
    next
      show "last_id y \<le> last_id y'" by (simp add: l)
    qed (simp_all add: y')
  qed
next
  case (EvDatagram b svc conn addr d e)
  with act have b: "b = a" by simp
  from st EvDatagram b obtain c fl c1 s1 where o: "live a y = Some c"
      and h: "udp_datagram z e svc conn addr d c (sv_sh (sy_srv y)) = (fl, c1, s1)"
      and y': "y' = put a (fl, udp_loop_end svc conn fl c1, s1) y"
    by (auto split: option.splits prod.splits if_splits)
  let ?c = "udp_loop_end svc conn fl c1"
  have fl: "fl \<noteq> Crash" using ok y' by (auto simp: put_def)
  have m: "length d \<le> 65536" "msg_ok (new_udp_conn_msg (last_id y + 1) svc addr)" using tame EvDatagram by (simp_all add: last_id_def)
  have lv: "live a y' = Some ?c" using o by (auto simp: live_def y' split: if_splits)
  note w = udp_datagram_wires [OF z m(1) h sys_inv_mgr [OF inv] m(2) [unfolded last_id_def] fl]
  have nx: "last_id y' = last_id y \<or> last_id y' = last_id y + 1" using w by (auto simp: y' last_id_def split: if_splits)
  have "own_step z a ev y y' c ?c" if "pipes_below (last_id y) c"
    using own_datagram [OF z inv n o that h fl m lv] by (simp add: y' EvDatagram b last_id_def del: fed_by.simps)
  moreover have "conns_ok a ev y y' c ?c" by (rule conns_shrink) (use w in \<open>simp_all add: EvDatagram\<close>)
  ultimately show ?thesis
    using y' nx fresh_id [OF inv n] w by (intro actsI [OF o, of y' ?c]) (auto simp: calm_steady)
next
  case (EvUdpError b svc conn err)
  with act have b: "b = a" by simp
  from st EvUdpError b obtain c where o: "live a y = Some c"
      and y': "y' = put a (Continue, udp_loop_end svc conn (udp_read_error err) c, sv_sh (sy_srv y)) y"
    by (auto split: option.splits if_splits)
  have "wires [] c (sv_sh (sy_srv y)) c (sv_sh (sy_srv y))" by (rule wires_refl) simp
  from acts_plain [OF o this, where z = z and y' = y' and ev = ev
      and c' = "udp_loop_end svc conn (udp_read_error err) c"] show ?thesis
    by (simp add: y' EvUdpError last_id_def)
next
  case (EvCleanup b e)
  with act have b: "b = a" by simp
  from st EvCleanup b obtain c fl c1 s1 where o: "live a y = Some c" and h: "udp_cleanup e c (sv_sh (sy_srv y)) = (fl, c1, s1)"
      and y': "y' = put a (fl, c1, s1) y"
    by (cases "udp_cleanup e (the (live a y)) (sv_sh (sy_srv y))") (auto split: option.splits if_splits)
  obtain G where "wires G c (sv_sh (sy_srv y)) c1 s1" "\<forall>f \<in> set G. plain f"
    using udp_cleanup_wires [OF h] by blast
  from acts_plain [OF o this, where y' = y' and c' = c1 and ev = ev and z = z] cleanup_nextCID [OF h] show ?thesis
    by (simp add: y' EvCleanup last_id_def)
next
  case (EvEnd b)
  with act have b: "b = a" by simp
  from st EvEnd b obtain c lns fl c1 s1 p where o: "live a y = Some c" and h: "relay_teardown lns c (sv_sh (sy_srv y)) = (fl, c1, s1)"
      and y': "y' = set_phase a p (put a (fl, c1, s1) y)" and p: "p = PDone \<or> p = PStuck"
    by (auto split: phase.splits option.splits prod.splits)
  have "wires [] c (sv_sh (sy_srv y)) c1 s1" using relay_teardown_wires [OF h] by simp
  moreover have "registered y' a" using p by (auto simp: y' registered_def)
  ultimately show ?thesis using acts_plain [OF o, where G = "[]" and y' = y' and c' = c1 and ev = ev and z = z] teardown_nextCID [OF h]
    by (simp add: y' EvEnd last_id_def)
qed (use act in simp_all)

subsection \<open>The same for a registered client, whoever acts\<close>

definition shared_step :: "u32 \<Rightarrow> sys \<Rightarrow> sys \<Rightarrow> bool" where
  "shared_step cid y y' \<longleftrightarrow> CanDecompress (sh_mgr (sv_sh (sy_srv y'))) = CanDecompress (sh_mgr (sv_sh (sy_srv y)))
     \<and> shut (sv_sh (sy_srv y)) \<subseteq> shut (sv_sh (sy_srv y'))
     \<and> (\<forall>x \<in> dom (sh_exts (sv_sh (sy_srv y))). (\<forall>b cb. b \<noteq> cid \<and> sv_objs (sy_srv y) b = Some cb \<longrightarrow> x \<notin> owned cb)
          \<longrightarrow> sent_of (sv_sh (sy_srv y')) x = sent_of (sv_sh (sy_srv y)) x)"

lemma steady_shared: "steady (sv_sh (sy_srv y)) (sv_sh (sy_srv y')) \<Longrightarrow> shared_step cid y y'"
  by (simp add: steady_def shared_step_def)

lemma same_exts_steady: "sh_exts s' = sh_exts s \<Longrightarrow> CanDecompress (sh_mgr s') = CanDecompress (sh_mgr s) \<Longrightarrow> steady s s'"
  by (simp add: steady_def shut_def sent_of_def)

lemma own_other:
  assumes "pipes_below (last_id y) c" and "last_id y \<le> last_id y'" and "fed_by cid ev y y' = (\<lambda>_. [])"
  shows "own_step z cid ev y y' c c"
proof -
  have "pipes_below (last_id y') c" using assms(1,2) by (auto simp: pipes_below_def)
  with assms(3) show ?thesis by (simp add: own_step_def logs_none)
qed

lemma hello_shared:
  assumes "handle_hello e ip input c s = (r, c', s')"
  shows "sh_exts s' = sh_exts s \<and> sh_mgr s' = sh_mgr s \<and> sh_nextCID s' = sh_nextCID s"
proof (cases r)
  case (Refused_at why)
  then show ?thesis using handle_hello_refused assms by fastforce
next
  case (Listening lns failed pub)
  then obtain msg where "start_services e (c_Services msg) (apply_settings (he_now (se_hook e)) msg c) s = (lns, failed, c', s')"
    using assms by (auto elim: handle_hello_Listening)
  from start_services_core [OF this] show ?thesis by simp
qed

lemma reply_shared:
  "reply_failed lns c s = (b, c', s') \<Longrightarrow> sh_exts s' = sh_exts s \<and> sh_mgr s' = sh_mgr s \<and> sh_nextCID s' = sh_nextCID s"
  "handle_reply lns failed pub c s = (b, c', s') \<Longrightarrow> sh_exts s' = sh_exts s \<and> sh_mgr s' = sh_mgr s \<and> sh_nextCID s' = sh_nextCID s"
  "reply_write lns bs c s = (b, c', s') \<Longrightarrow> sh_exts s' = sh_exts s \<and> sh_mgr s' = sh_mgr s \<and> sh_nextCID s' = sh_nextCID s"
  by (auto simp: handle_reply_def reply_write_def reply_failed_def drop_client_def close_listeners_eq split: option.splits prod.splits)

text \<open>A frame touches only external connections of its client.\<close>

lemma write_ext_shut: "shut (write_ext e x d s) = shut s"
  by (auto simp: shut_def write_ext_def)

lemma shut_cong: "sh_exts s' = sh_exts s \<Longrightarrow> shut s' = shut s"
  by (simp add: shut_def)

lemma data_shared:
  assumes "relay_data e ch d c s = (fl, c', s')"
  shows "CanDecompress (sh_mgr s') = CanDecompress (sh_mgr s) \<and> shut s \<subseteq> shut s'
    \<and> (\<forall>x. x \<notin> owned c \<longrightarrow> sent_of s' x = sent_of s x) \<and> sh_nextCID s' = sh_nextCID s"
proof -
  note w = relay_data_wires [OF assms]
  have nx: "sh_nextCID s' = sh_nextCID s"
    using frame_isolated [of z e "\<lparr>f_type = frameData, f_chan = ch, f_payload = d\<rparr>" c s fl c' s'] assms
    by (simp add: relay_frame_def frame_consts)
  show ?thesis
  proof (cases "map_of (cl_channelConns c) ch")
    case None
    with w nx show ?thesis using shut_cong [of s' s] by (simp add: sent_of_def)
  next
    case (Some x)
    then have "x \<in> owned c" by (rule map_of_owned)
    then have "sh_exts (write_ext e x d s) y = sh_exts s y" if "y \<notin> owned c" for y
      using that by (intro write_ext_other) auto
    with w Some nx show ?thesis
      using shut_cong [of s' "write_ext e x d s"] by (auto simp: write_ext_shut sent_of_def)
  qed
qed

lemma frame_shared:
  assumes "relay_frame z e f c s = (fl, c', s')"
  shows "CanDecompress (sh_mgr s') = CanDecompress (sh_mgr s) \<and> shut s \<subseteq> shut s'
    \<and> (\<forall>x. x \<notin> owned c \<longrightarrow> sent_of s' x = sent_of s x) \<and> sh_nextCID s' = sh_nextCID s"
proof -
  have nx: "sh_nextCID s' = sh_nextCID s" using frame_isolated [OF assms] by simp
  have calm: ?thesis if "calm s s'" using that nx by (simp add: calm_def)
  have ctl: ?thesis if "relay_control p c s = (fl, c', s')" for p
    using relay_control_wires [OF that] calm by (auto simp: wires_def)
  have close: ?thesis if "relay_close e ch c s = (fl, c', s')" for ch
    using relay_close_wires [OF that] calm by (simp add: wires_def)
  have same: ?thesis if "s' = s" using that by simp
  from assms show ?thesis unfolding relay_frame_def
    by (auto simp only: split: if_splits option.splits dest: ctl close data_shared intro: same)
qed

lemma srv_event_for:
  assumes z: "lz4_sound z" and inv: "sys_inv n y" and n: "Suc n < 2 ^ 32"
    and obj: "sv_objs (sy_srv y) cid = Some c" and reg: "registered y cid" and pb: "pipes_below (last_id y) c"
    and tame: "tame cid ev y" and st: "srv_exec z ev y = Some y'" and ok: "\<not> sy_crashed y'"
  shows "\<exists>c'. sv_objs (sy_srv y') cid = Some c' \<and> registered y' cid \<and> last_id y \<le> last_id y'
    \<and> own_step z cid ev y y' c c' \<and> conns_ok cid ev y y' c c' \<and> shared_step cid y y'"
proof -
  have other: ?thesis if "sv_objs (sy_srv y') cid = Some c" "sy_phase y' cid = sy_phase y cid" "last_id y \<le> last_id y'"
      "fed_by cid ev y y' = (\<lambda>_. [])" "\<And>m. note_ext cid ev y y' m = m" "shared_step cid y y'"
    using that own_other [OF pb that(3,4)] conns_shrink [OF map_le_refl that(5)] reg by (auto simp: registered_def)
  show ?thesis
  proof (cases "actor ev")
    case (Some a)
    from actor_acts [OF z inv n Some tame st ok] obtain c2 c' where o: "live a y = Some c2"
        and objs: "sv_objs (sy_srv y') = (sv_objs (sy_srv y))(a \<mapsto> c')" and ph: "\<And>b. b \<noteq> a \<Longrightarrow> sy_phase y' b = sy_phase y b"
        and rg: "registered y a \<Longrightarrow> registered y' a" and sd: "steady (sv_sh (sy_srv y)) (sv_sh (sy_srv y'))"
        and l: "last_id y \<le> last_id y'" and cn: "conns_ok a ev y y' c2 c'" and own: "pipes_below (last_id y) c2 \<Longrightarrow> own_step z a ev y y' c2 c'"
      unfolding acts_def by blast
    show ?thesis
    proof (cases "a = cid")
      case True
      with live_Some [OF o] obj have "c2 = c" by simp
      with own cn pb objs rg reg l steady_shared [OF sd] True show ?thesis by (intro exI [of _ c']) simp
    next
      case False
      with Some have "fed_by cid ev y y' = (\<lambda>_. [])" "\<And>m. note_ext cid ev y y' m = m"
        by (cases ev; auto split: sum.split option.split)+
      with other objs obj ph False l steady_shared [OF sd] show ?thesis by simp
    qed
  next
    case None
    then have no: "fed_by cid ev y y' = (\<lambda>_. [])" "\<And>m. note_ext cid ev y y' m = m" by (cases ev; simp)+
    from None consider (connect) w where "ev = EvConnect w" | (hello) a e ip input where "ev = EvHello a e ip input"
      | (reply) a where "ev = EvReply a" | (part) a where "ev = EvReplyWrite a" | (frame) a e f where "ev = EvFrame a e f" | (check) e where "ev = EvCheck e"
      by (cases ev) auto
    then show ?thesis
    proof cases
      case connect
      have "cid \<noteq> last_id y + 1" using sys_invD(3) [OF inv obj] fresh_id(1) [OF inv n] by (auto simp: last_id_def)
      with st connect no obj fresh_id(2) [OF inv n] show ?thesis
        by (intro other) (auto simp: handle_connect_def next_cid_def new_client_def last_id_def
            intro!: steady_shared same_exts_steady split: prod.splits)
    next
      case hello
      with st obtain c2 where o: "sy_phase y a = PNew" "sv_objs (sy_srv y) a = Some c2"
        by (auto split: phase.splits option.splits)
      obtain r c1 s1 where h: "handle_hello e ip input c2 (sv_sh (sy_srv y)) = (r, c1, s1)"
        by (cases "handle_hello e ip input c2 (sv_sh (sy_srv y))") auto
      have "a \<noteq> cid" using o reg by (auto simp: registered_def)
      moreover obtain fl p where "y' = set_phase a p (put a (fl, c1, s1) y)" using st hello o h by (cases r) auto
      ultimately show ?thesis using hello_shared [OF h] obj no
        by (intro other) (auto simp: last_id_def intro!: steady_shared same_exts_steady)
    next
      case reply
      with st obtain c2 lns failed pub b c1 s1 where o: "sy_phase y a = PListening lns failed pub"
          and h: "handle_reply lns failed pub c2 (sv_sh (sy_srv y)) = (b, c1, s1)"
          and y': "y' = set_phase a (if b then PServing lns else PDone) (put a (Continue, c1, s1) y)"
        by (auto split: phase.splits option.splits prod.splits)
      have "a \<noteq> cid" using o reg by (auto simp: registered_def)
      with y' reply_shared(2) [OF h] obj no show ?thesis
        by (intro other) (auto simp: last_id_def intro!: steady_shared same_exts_steady)
    next
      case part
      from st [unfolded part] obtain c2 lns bs b c1 s1 p where h: "reply_write lns bs c2 (sv_sh (sy_srv y)) = (b, c1, s1)"
          and y': "y' = set_phase a p (put a (Continue, c1, s1) y)" and "\<not> registered y a"
        by (rule reply_write_event) (auto simp: registered_def)
      with reg have "a \<noteq> cid" by blast
      with y' reply_shared(3) [OF h] obj no show ?thesis
        by (intro other) (auto simp: last_id_def intro!: steady_shared same_exts_steady)
    next
      case frame
      with st obtain c2 fl c1 s1 p where o: "live a y = Some c2" and h: "relay_frame z e f c2 (sv_sh (sy_srv y)) = (fl, c1, s1)"
          and y': "y' = set_phase a p (put a (fl, c1, s1) y)"
        by (auto split: phase.splits option.splits prod.splits)
      have a: "a \<noteq> cid" using tame frame by simp
      have "shared_step cid y y'"
        using frame_shared [OF h] live_Some [OF o] a by (auto simp: shared_step_def y')
      with a y' frame_shared [OF h] obj no show ?thesis by (intro other) (auto simp: last_id_def)
    next
      case check
      have "plugin_check e (sy_srv y) = (Continue, sy_srv y)"
        using no_dyn_check [OF sys_inv_mgr [OF inv]] by (simp add: plugin_check_def)
      with st check have "y' = y" by (auto simp: goes_on_def split: if_splits)
      with no obj show ?thesis by (intro other) (simp_all add: steady_shared)
    qed
  qed
qed

text \<open>What other clients own was theirs before or is new.\<close>

lemma srv_event_foreign:
  assumes z: "lz4_sound z" and inv: "sys_inv n y" and n: "Suc n < 2 ^ 32"
    and tame: "tame cid ev y" and st: "srv_exec z ev y = Some y'" and ok: "\<not> sy_crashed y'"
    and b: "sv_objs (sy_srv y') b = Some cb'" and x: "x \<in> owned cb'"
  shows "sh_exts (sv_sh (sy_srv y)) x = None \<or> (\<exists>cb. sv_objs (sy_srv y) b = Some cb \<and> x \<in> owned cb)"
proof (cases "actor ev")
  case (Some a)
  from actor_acts [OF z inv n Some tame st ok] obtain c2 c' where o: "live a y = Some c2"
      and objs: "sv_objs (sy_srv y') = (sv_objs (sy_srv y))(a \<mapsto> c')" and cn: "conns_ok a ev y y' c2 c'"
    unfolding acts_def by blast
  show ?thesis
  proof (cases "a = b")
    case False
    with objs b x show ?thesis by auto
  next
    case True
    with objs b have "cb' = c'" by simp
    have "distinct (map fst (cl_channelConns cb'))"
      using sys_invD(1) [OF srv_exec_inv [OF inv n st ok] b] by (simp add: cl_wf_def core_wf_def)
    then obtain ch where ch: "map_of (cl_channelConns cb') ch = Some x" using x by (force simp: owned_def)
    have "conns_step (last_id y) (last_id y') (sv_sh (sy_srv y)) (sv_sh (sy_srv y')) (map_of (cl_channelConns c2))
        (map_of (cl_channelConns cb')) Map.empty (note_ext a ev y y' Map.empty)"
      using cn \<open>cb' = c'\<close> unfolding conns_ok_def by blast
    with ch have "map_of (cl_channelConns c2) ch = Some x \<or> sh_exts (sv_sh (sy_srv y)) x = None"
      unfolding conns_step_def by (auto simp: map_le_def dom_def split: if_splits)
    with map_of_owned live_Some [OF o] True show ?thesis by blast
  qed
next
  case None
  then consider (connect) w where "ev = EvConnect w" | (hello) a e ip input where "ev = EvHello a e ip input"
    | (reply) a where "ev = EvReply a" | (part) a where "ev = EvReplyWrite a" | (frame) a e f where "ev = EvFrame a e f" | (check) e where "ev = EvCheck e"
    by (cases ev) auto
  then show ?thesis
  proof cases
    case connect
    have "owned (new_client i w) = {}" for i by (simp add: owned_def new_client_def)
    with st connect b x show ?thesis
      by (auto simp: handle_connect_def next_cid_def split: prod.splits if_splits)
  next
    case hello
    with st obtain c2 where o: "sy_phase y a = PNew" "sv_objs (sy_srv y) a = Some c2"
      by (auto split: phase.splits option.splits)
    obtain r c1 s1 where h: "handle_hello e ip input c2 (sv_sh (sy_srv y)) = (r, c1, s1)"
      by (cases "handle_hello e ip input c2 (sv_sh (sy_srv y))") auto
    have "owned c1 \<subseteq> owned c2"
      using kept_hello [OF h sys_invD(6) [OF inv o(2,1)] sys_inv_mgr [OF inv]] by (simp add: kept_def)
    moreover obtain fl p where "y' = set_phase a p (put a (fl, c1, s1) y)" using st hello o h by (cases r) auto
    ultimately show ?thesis using o b x by (auto split: if_splits)
  next
    case reply
    with st obtain c2 lns failed pub q c1 s1 where o: "live a y = Some c2"
        and h: "handle_reply lns failed pub c2 (sv_sh (sy_srv y)) = (q, c1, s1)"
        and y': "y' = set_phase a (if q then PServing lns else PDone) (put a (Continue, c1, s1) y)"
      by (auto split: phase.splits option.splits prod.splits)
    note o' = live_Some [OF o, THEN conjunct1]
    have "owned c1 \<subseteq> owned c2"
      using kept_reply [OF h sys_invD(1) [OF inv o'] sys_inv_mgr [OF inv]] by (simp add: kept_def)
    with y' o' b x show ?thesis by (auto split: if_splits)
  next
    case part
    from st [unfolded part] obtain c2 lns bs q c1 s1 p where o: "live a y = Some c2"
        and h: "reply_write lns bs c2 (sv_sh (sy_srv y)) = (q, c1, s1)"
        and y': "y' = set_phase a p (put a (Continue, c1, s1) y)"
      by (rule reply_write_event)
    note o' = live_Some [OF o, THEN conjunct1]
    have "owned c1 \<subseteq> owned c2"
      using kept_reply_write [OF h sys_invD(1) [OF inv o'] sys_inv_mgr [OF inv]] by (simp add: kept_def)
    with y' o' b x show ?thesis by (auto split: if_splits)
  next
    case frame
    with st obtain c2 fl c1 s1 p where o: "live a y = Some c2" and h: "relay_frame z e f c2 (sv_sh (sy_srv y)) = (fl, c1, s1)"
        and y': "y' = set_phase a p (put a (fl, c1, s1) y)"
      by (auto split: phase.splits option.splits prod.splits)
    have "owned c1 \<subseteq> owned c2" using frame_isolated [OF h] by (auto simp: owned_def)
    with y' live_Some [OF o] b x show ?thesis by (auto split: if_splits)
  next
    case check
    have "plugin_check e (sy_srv y) = (Continue, sy_srv y)"
      using no_dyn_check [OF sys_inv_mgr [OF inv]] by (simp add: plugin_check_def)
    with st check have "y' = y" by (auto simp: goes_on_def split: if_splits)
    with b x show ?thesis by auto
  qed
qed

end
