(* ===== verification/Handshake.thy ===== *)
theory Handshake
  imports Composed
begin

text \<open>
  How a tunnel starts: a client dials, registers and reads the reply, the server registers it and
  starts its services. What both sides are afterwards is where the composed tunnel begins.
\<close>

section \<open>The server's side\<close>

text \<open>A connection that was accepted and has not sent its first frame.\<close>

definition greeted :: "u32 \<Rightarrow> sys \<Rightarrow> bool" where
  "greeted cid y \<longleftrightarrow> sy_phase y cid = PNew \<and> sv_objs (sy_srv y) cid = Some (new_client cid \<lparr>w_sent = [], w_room = None\<rparr>)
     \<and> \<not> sy_crashed y"

lemma connect_greets:
  assumes "\<not> sy_crashed y"
  shows "\<exists>y1. srv_exec z (EvConnect \<lparr>w_sent = [], w_room = None\<rparr>) y = Some y1 \<and> greeted (sh_nextCID (sv_sh (sy_srv y)) + 1) y1
    \<and> sh_mgr (sv_sh (sy_srv y1)) = sh_mgr (sv_sh (sy_srv y)) \<and> sh_cfg (sv_sh (sy_srv y1)) = sh_cfg (sv_sh (sy_srv y))"
  using assms by (simp add: handle_connect_def next_cid_def greeted_def new_client_def put_def set_phase_def)

lemma failing_subset: "set (failing e P Q svcs) \<subseteq> set svcs \<and> length (failing e P Q svcs) \<le> length svcs"
  by (induction svcs arbitrary: P Q) (auto simp: le_SucI)

text \<open>What the registration leaves in the client's object.\<close>

definition registered_as :: "controlMsg \<Rightarrow> bytes \<Rightarrow> relayClient \<Rightarrow> bool" where
  "registered_as msg sent c \<longleftrightarrow> cl_channelConns c = [] \<and> cl_udpSessions c = Some [] \<and> cl_pipes c = []
     \<and> cl_features c = c_Features msg \<and> cl_wconn c = \<lparr>w_sent = sent, w_room = None\<rparr>"

lemma apply_settings_registered:
  "registered_as msg [] (apply_settings now msg (new_client cid \<lparr>w_sent = [], w_room = None\<rparr>))"
  by (simp add: registered_as_def apply_settings_def new_client_def Let_def split: sum.split)

lemma start_services_registered:
  assumes "start_services e svcs c s = (lns, failed, c1, s1)" and "registered_as msg b c"
  shows "registered_as msg b c1"
proof -
  obtain p q r where "c1 = c\<lparr>cl_udpConns := p, cl_udpLoops := q, cl_tcpLoops := r\<rparr>" using start_services_frame [OF assms(1)] by blast
  with assms(2) show ?thesis by (simp add: registered_as_def)
qed

definition key_accepted :: "Config \<Rightarrow> string \<Rightarrow> bool" where
  "key_accepted cfg key \<longleftrightarrow> cfg_AuthKey cfg = [] \<or> key = cfg_AuthKey cfg"

lemma hello_registers:
  assumes "greeted cid y" and "msg_ok msg" and "c_Type msg = ''register''" and "key_accepted (sh_cfg (sv_sh (sy_srv y))) (c_AuthKey msg)"
  obtains lns failed c1 y1 where "srv_exec z (EvHello cid e ip (map RByte (enc_frame (ctl_frame msg)))) y = Some y1"
    and "sy_phase y1 cid = PListening lns failed (getPublicIP ip (sh_cfg (sv_sh (sy_srv y))))"
    and "sv_objs (sy_srv y1) cid = Some c1" "registered_as msg [] c1" "\<not> sy_crashed y1"
    and "sh_mgr (sv_sh (sy_srv y1)) = sh_mgr (sv_sh (sy_srv y))" "set failed \<subseteq> set (c_Services msg)" "length failed \<le> length (c_Services msg)"
proof -
  let ?s = "sv_sh (sy_srv y)" and ?c = "new_client cid \<lparr>w_sent = [], w_room = None\<rparr>"
  let ?c1 = "apply_settings (he_now (se_hook e)) msg ?c"
  obtain lns failed c1 s1 where st: "start_services e (c_Services msg) ?c1 ?s = (lns, failed, c1, s1)" by (metis prod.exhaust)
  have rd: "srv_readFrame (map RByte (enc_frame (ctl_frame msg))) = (Ret (ctl_frame msg), [])"
    using srv_readFrame_enc [OF ctl_frame_simps(4) [OF assms(2)], of "[]"] by simp
  have "unmarshal_msg (marshal_msg msg) = Some msg" using assms(2) by (simp add: msg_ok_def unmarshal_marshal)
  then have "handle_hello e ip (map RByte (enc_frame (ctl_frame msg))) ?c ?s = (Listening lns failed (getPublicIP ip (sh_cfg ?s)), c1, s1)"
    using st rd assms(3,4) by (auto simp: handle_hello_def ctl_frame_def key_accepted_def)
  moreover have "registered_as msg [] c1" by (rule start_services_registered [OF st apply_settings_registered])
  moreover have "cl_udpConns ?c1 \<noteq> None" by (simp add: apply_settings_def new_client_def Let_def split: sum.split)
  then have "failed = failing e (dom (sh_listeners ?s)) (udp_ports ?c1) (c_Services msg)" by (rule start_services_failing [OF st])
  moreover have "sh_mgr s1 = sh_mgr ?s" using start_services_core [OF st] by simp
  ultimately show thesis
    using assms(1) failing_subset [of e "dom (sh_listeners ?s)" "udp_ports ?c1" "c_Services msg"]
    by (intro that [of "set_phase cid (PListening lns failed (getPublicIP ip (sh_cfg ?s))) (put cid (Continue, c1, s1) y)" lns failed c1])
      (simp_all add: greeted_def put_def set_phase_def)
qed

lemma reply_serves:
  assumes "sy_phase y cid = PListening lns failed pub" and "sv_objs (sy_srv y) cid = Some c" and "registered_as msg [] c"
    and "\<not> sy_crashed y"
  obtains y1 c1 where "srv_exec z (EvReply cid) y = Some y1" and "sv_objs (sy_srv y1) cid = Some c1" and "sy_phase y1 cid = PServing lns"
    and "registered_as msg (enc_frame (ctl_frame (ok_msg pub failed (sh_mgr (sv_sh (sy_srv y)))))) c1"
    and "\<not> sy_crashed y1" and "sh_mgr (sv_sh (sy_srv y1)) = sh_mgr (sv_sh (sy_srv y))"
proof -
  let ?s = "sv_sh (sy_srv y)" and ?w = "\<lparr>w_sent = enc_frame (ctl_frame (ok_msg pub failed (sh_mgr (sv_sh (sy_srv y))))), w_room = None\<rparr>"
  have "cl_wconn c = \<lparr>w_sent = [], w_room = None\<rparr>" using assms(3) by (simp add: registered_as_def)
  then have h: "handle_reply lns failed pub c ?s = (True, c\<lparr>cl_wconn := ?w\<rparr>, ?s)"
    by (simp add: handle_reply_eq rc_sendControl_room ctl_frame_def)
  show thesis
    using assms h by (intro that [of "set_phase cid (PServing lns) (put cid (Continue, c\<lparr>cl_wconn := ?w\<rparr>, ?s) y)" "c\<lparr>cl_wconn := ?w\<rparr>"])
      (simp_all add: live_def put_def set_phase_def registered_as_def)
qed

section \<open>The client's side\<close>

lemma register_msg_type: "c_Type (register_msg k) = ''register''" "c_AuthKey (register_msg k) = k_AuthKey k"
  "c_Services (register_msg k) = k_Services k" "has_feature (c_Features (register_msg k)) = (k_Compressor k \<noteq> None)"
  by (simp_all add: register_msg_def)

lemma connect_ok:
  assumes "msg_ok m" and "c_Type m = ''ok''" and "has_feature (c_Features m)"
  obtains k' where "Connect (Some \<lparr>w_sent = [], w_room = None\<rparr>) (map RByte (enc_frame (ctl_frame m))) k = (None, k', [])"
    and "k_conn k' = Some \<lparr>w_sent = enc_frame (ctl_frame (register_msg k)), w_room = None\<rparr>"
    and "k_channels k' = []" "k_udpChannels k' = []" "k_pipes k' = k_pipes k" "k_Compressor k' = k_Compressor k"
    and "k_closeCh k' = Some False" "k_serverSupportsCompression k'"
proof -
  let ?w = "\<lparr>w_sent = [], w_room = None\<rparr>"
  let ?c1 = "k\<lparr>k_conn := Some ?w, k_channels := [], k_udpChannels := [], k_connInfos := [], k_closeCh := Some False\<rparr>"
  let ?c2 = "?c1\<lparr>k_conn := Some \<lparr>w_sent = enc_frame (ctl_frame (register_msg k)), w_room = None\<rparr>\<rparr>"
  have "register_msg ?c1 = register_msg k" by (simp add: register_msg_def)
  then have sd: "k_sendControl (register_msg ?c1) ?c1 = (Ret ?c2, ?c2)"
    using k_writeFrame_room [of ?c1 ?w frameControl 0 "marshal_msg (register_msg k)"] by (simp add: k_sendControl_def ctl_frame_def)
  have rd: "readControl (map RByte (enc_frame (ctl_frame m))) = (Ret m, [])"
    using readControl_msg [of m "[]"] assms(1) by (simp add: msg_ok_def ctl_frame_def)
  show thesis
    by (rule that [of "?c2\<lparr>k_serverSupportsCompression := True\<rparr>"]) (use assms(2,3) sd rd in \<open>simp_all add: Connect_def\<close>)
qed

section \<open>Other clients meanwhile\<close>

text \<open>The client an event belongs to, and the events that are not the client's own.\<close>

fun event_of :: "srv_event \<Rightarrow> u32 option" where
  "event_of (EvHello a e ip input) = Some a"
| "event_of (EvReply a) = Some a"
| "event_of (EvReplyWrite a) = Some a"
| "event_of (EvFrame a e f) = Some a"
| "event_of ev = actor ev"

inductive meanwhile :: "lz4 \<Rightarrow> u32 \<Rightarrow> sys \<Rightarrow> nat \<Rightarrow> sys \<Rightarrow> bool" for z cid y where
  none_meanwhile: "meanwhile z cid y 0 y"
| one_meanwhile: "meanwhile z cid y k y' \<Longrightarrow> \<not> sy_crashed y' \<Longrightarrow> event_of ev \<noteq> Some cid \<Longrightarrow> tame cid ev y' \<Longrightarrow>
    srv_exec z ev y' = Some y'' \<Longrightarrow> meanwhile z cid y (Suc k) y''"

definition untouched :: "u32 \<Rightarrow> sys \<Rightarrow> sys \<Rightarrow> bool" where
  "untouched cid y y' \<longleftrightarrow> sv_objs (sy_srv y') cid = sv_objs (sy_srv y) cid \<and> sy_phase y' cid = sy_phase y cid
     \<and> CanDecompress (sh_mgr (sv_sh (sy_srv y'))) = CanDecompress (sh_mgr (sv_sh (sy_srv y)))"

lemma event_untouched:
  assumes z: "lz4_sound z" and inv: "sys_inv n y" and n: "Suc n < 2 ^ 32" and obj: "sv_objs (sy_srv y) cid \<noteq> None"
    and ev: "event_of ev \<noteq> Some cid" and tame: "tame cid ev y" and st: "srv_exec z ev y = Some y'" and ok: "\<not> sy_crashed y'"
  shows "untouched cid y y'"
proof (cases "actor ev")
  case (Some a)
  then have a: "a \<noteq> cid" using ev by (cases ev) auto
  from actor_acts [OF z inv n Some tame st ok] a show ?thesis
    unfolding acts_def untouched_def steady_def by auto
next
  case None
  from obj obtain c where c: "sv_objs (sy_srv y) cid = Some c" by blast
  have put: ?thesis if "y' = set_phase a p (put a (fl, c1, s1) y)" "a \<noteq> cid" "CanDecompress (sh_mgr s1) = CanDecompress (sh_mgr (sv_sh (sy_srv y)))"
    for a p fl c1 s1
    using that by (simp add: untouched_def)
  from None consider (connect) w where "ev = EvConnect w" | (hello) a e ip input where "ev = EvHello a e ip input"
    | (reply) a where "ev = EvReply a" | (part) a where "ev = EvReplyWrite a" | (frame) a e f where "ev = EvFrame a e f" | (check) e where "ev = EvCheck e"
    by (cases ev) auto
  then show ?thesis
  proof cases
    case connect
    have "cid \<noteq> last_id y + 1" using sys_invD(3) [OF inv c] fresh_id(1) [OF inv n] by (auto simp: last_id_def)
    with st connect show ?thesis
      by (auto simp: untouched_def handle_connect_def next_cid_def new_client_def last_id_def split: prod.splits)
  next
    case hello
    with st obtain c2 where o: "sy_phase y a = PNew" "sv_objs (sy_srv y) a = Some c2"
      by (auto split: phase.splits option.splits)
    obtain r c1 s1 where h: "handle_hello e ip input c2 (sv_sh (sy_srv y)) = (r, c1, s1)"
      by (cases "handle_hello e ip input c2 (sv_sh (sy_srv y))") auto
    obtain fl p where y': "y' = set_phase a p (put a (fl, c1, s1) y)" using st hello o h by (cases r) auto
    show ?thesis by (rule put [OF y']) (use hello_shared [OF h] ev hello in simp_all)
  next
    case reply
    with st obtain c2 lns failed pub b c1 s1 where h: "handle_reply lns failed pub c2 (sv_sh (sy_srv y)) = (b, c1, s1)"
        and y': "y' = set_phase a (if b then PServing lns else PDone) (put a (Continue, c1, s1) y)"
      by (auto split: phase.splits option.splits prod.splits)
    show ?thesis by (rule put [OF y']) (use reply_shared(2) [OF h] ev reply in simp_all)
  next
    case part
    from st [unfolded part] obtain c2 lns bs b c1 s1 p where h: "reply_write lns bs c2 (sv_sh (sy_srv y)) = (b, c1, s1)"
        and y': "y' = set_phase a p (put a (Continue, c1, s1) y)"
      by (rule reply_write_event)
    show ?thesis by (rule put [OF y']) (use reply_shared(3) [OF h] ev part in simp_all)
  next
    case frame
    with st obtain c2 fl c1 s1 p where h: "relay_frame z e f c2 (sv_sh (sy_srv y)) = (fl, c1, s1)"
        and y': "y' = set_phase a p (put a (fl, c1, s1) y)"
      by (auto split: phase.splits option.splits prod.splits)
    show ?thesis by (rule put [OF y']) (use frame_shared [OF h] ev frame in simp_all)
  next
    case check
    have "plugin_check e (sy_srv y) = (Continue, sy_srv y)"
      using no_dyn_check [OF sys_inv_mgr [OF inv]] by (simp add: plugin_check_def)
    with st check have "y' = y" by (auto simp: goes_on_def split: if_splits)
    then show ?thesis by (simp add: untouched_def)
  qed
qed

lemma meanwhile_untouched:
  assumes "meanwhile z cid y k y'" and z: "lz4_sound z" and inv: "sys_inv n y" and obj: "sv_objs (sy_srv y) cid \<noteq> None"
    and "n + k < 2 ^ 32" and "\<not> sy_crashed y'"
  shows "untouched cid y y' \<and> sys_inv (n + k) y'"
  using assms(1,5,6)
proof (induction rule: meanwhile.induct)
  case none_meanwhile
  show ?case using inv by (simp add: untouched_def)
next
  case (one_meanwhile k y1 ev y2)
  then have IH: "untouched cid y y1" "sys_inv (n + k) y1" by simp_all
  have n: "Suc (n + k) < 2 ^ 32" using one_meanwhile.prems by simp
  have "sv_objs (sy_srv y1) cid \<noteq> None" using IH(1) obj by (simp add: untouched_def)
  from event_untouched [OF z IH(2) n this one_meanwhile.hyps(3-5) one_meanwhile.prems(2)] IH(1)
  have "untouched cid y y2" by (simp add: untouched_def)
  with srv_exec_inv [OF IH(2) n one_meanwhile.hyps(5) one_meanwhile.prems(2)] show ?case by simp
qed

lemma meanwhile_reach:
  "meanwhile z cid y k y' \<Longrightarrow> srv_reach z y0 n y \<Longrightarrow> srv_reach z y0 (n + k) y'"
  by (induction rule: meanwhile.induct) (auto intro: reach_event)

section \<open>Both sides\<close>


section \<open>An example\<close>

definition start_mgr :: Manager where
  "start_mgr = SetDecompressor (NewCompression 1 128) mgr_NewManager"

definition start_k :: Client where
  "start_k = demo_k\<lparr>k_Services := [run_svc]\<rparr>"

lemma start_msgs_ok: "msg_ok (register_msg start_k)" "fs = [] \<or> fs = [run_svc] \<Longrightarrow> msg_ok (ok_msg ''h'' fs start_mgr)"
  by (auto simp: msg_ok_def control_ok_def service_ok_def zero_msg_def register_msg_def ok_msg_def start_k_def demo_k_def run_svc_def
      start_mgr_def maxFrameSize_def marshal_msg_def text_bytes_def controlMsg_json_def omit_def service_json_def print_string_def
      esc_char_def int64_def j_int_def itoa_def dec_digits.simps)


end
