(* ===== verification/TunnelInv.thy ===== *)
theory TunnelInv
  imports Composed
begin

text \<open>
  The invariant of the composed tunnel and its consequences: in both directions, for every
  channel, what has been delivered and what is in flight is what was read, in order.
\<close>

section \<open>The invariant\<close>

text \<open>
  External connections: each has got a prefix of what its channel's frames carry, and all of
  it while it is open and its channel exists.
\<close>

definition ext_inv :: "lz4 \<Rightarrow> frame list \<Rightarrow> (nat \<rightharpoonup> u32) \<Rightarrow> (u32 \<rightharpoonup> nat) \<Rightarrow> shared \<Rightarrow> bool" where
  "ext_inv z P o1 m s \<longleftrightarrow> (\<forall>x ch. o1 x = Some ch \<longrightarrow> (\<exists>d. sent_of s x = Some d \<and> prefix d (concat (chunks z ch P))
       \<and> (m ch = Some x \<and> x \<notin> shut s \<longrightarrow> d = concat (chunks z ch P))))
     \<and> (\<forall>ch x. m ch = Some x \<longrightarrow> o1 x = Some ch)"

text \<open>
  UDP peers: a channel's datagrams are a prefix of what its frames carry, and all of it while
  its session exists and the session's socket is open.
\<close>

definition udp_inv :: "lz4 \<Rightarrow> frame list \<Rightarrow> (u32 \<Rightarrow> bytes list) \<Rightarrow> u32 set \<Rightarrow> bool" where
  "udp_inv z P out S \<longleftrightarrow> (\<forall>ch. prefix (out ch) (chunks z ch P) \<and> (ch \<in> S \<longrightarrow> out ch = chunks z ch P))"

text \<open>From the server to the client: the frames attempted \<open>A\<close>, the first \<open>m\<close> of them read.\<close>

definition down_inv :: "lz4 \<Rightarrow> tunnel \<Rightarrow> relayClient \<Rightarrow> bytes \<Rightarrow> frame list \<Rightarrow> nat \<Rightarrow> bool" where
  "down_inv z t c B A m \<longleftrightarrow> wire_log B A (cl_wconn c) \<and> read_upto B A m (tn_down t) (cl_wconn c)
     \<and> (\<forall>ch. chunks z ch A = tn_fed t ch) \<and> opened_once z {} A \<and> (\<forall>j \<in> seen z A. j \<le> last_id (tn_sys t))
     \<and> (\<forall>f \<in> set A. packed_ok (clientSupportsCompression c) f) \<and> cli_inv z (take m A) (tn_locals t) (tn_k t)"

text \<open>From the client to the server.\<close>

definition up_inv :: "lz4 \<Rightarrow> tunnel \<Rightarrow> relayClient \<Rightarrow> wconn \<Rightarrow> bytes \<Rightarrow> frame list \<Rightarrow> nat \<Rightarrow> bool" where
  "up_inv z t c w B M m \<longleftrightarrow> wire_log B M w \<and> read_upto B M m (tn_up t) w
     \<and> (\<forall>ch. chunks z ch M = tn_sent t ch) \<and> (\<forall>f \<in> set M. packed_ok (k_serverSupportsCompression (tn_k t)) f)
     \<and> (\<forall>ch. tn_sent t ch \<noteq> [] \<longrightarrow> ch \<le> last_id (tn_sys t))
     \<and> ext_inv z (take m M) (tn_exts t) (map_of (cl_channelConns c)) (sv_sh (sy_srv (tn_sys t)))
     \<and> udp_inv z (take m M) (tn_udp t) (open_ids c)"

definition base_inv :: "u32 \<Rightarrow> nat \<Rightarrow> tunnel \<Rightarrow> relayClient \<Rightarrow> wconn \<Rightarrow> bool" where
  "base_inv cid n t c w \<longleftrightarrow> sys_inv n (tn_sys t) \<and> all_free (tn_sys t) \<and> \<not> sy_crashed (tn_sys t) \<and> sv_objs (sy_srv (tn_sys t)) cid = Some c \<and> registered (tn_sys t) cid
     \<and> pipes_below (last_id (tn_sys t)) c \<and> k_conn (tn_k t) = Some w
     \<and> (clientSupportsCompression c \<longrightarrow> k_Compressor (tn_k t) \<noteq> None)
     \<and> (k_serverSupportsCompression (tn_k t) \<longrightarrow> CanDecompress (sh_mgr (sv_sh (sy_srv (tn_sys t)))))
     \<and> (\<forall>b cb. b \<noteq> cid \<and> sv_objs (sy_srv (tn_sys t)) b = Some cb \<longrightarrow> owned cb \<inter> dom (tn_exts t) = {})"

definition tun_inv :: "lz4 \<Rightarrow> u32 \<Rightarrow> nat \<Rightarrow> tunnel \<Rightarrow> bool" where
  "tun_inv z cid n t \<longleftrightarrow> (\<exists>c w B A m B' M m'. base_inv cid n t c w \<and> down_inv z t c B A m \<and> up_inv z t c w B' M m')"

lemma tun_invI: "base_inv cid n t c w \<Longrightarrow> down_inv z t c B A m \<Longrightarrow> up_inv z t c w B' M m' \<Longrightarrow> tun_inv z cid n t"
  unfolding tun_inv_def by blast

lemma tun_inv_init:
  assumes "sys_inv n y" and "all_free y" and "\<not> sy_crashed y" and "just_registered cid y c w k"
  shows "tun_inv z cid n (tun_init y c w k)"
proof (rule tun_invI)
  note j = assms(4) [unfolded just_registered_def]
  let ?t = "tun_init y c w k"
  show "base_inv cid n ?t c w"
    using assms(1-3) j by (simp add: base_inv_def tun_init_def pipes_below_def)
  have "cli_inv z [] Map.empty k" using j by (simp add: cli_inv_def tables_def)
  then show "down_inv z ?t c (w_sent (cl_wconn c)) [] 0"
    by (simp add: down_inv_def wire_log_start read_upto_start) (simp add: tun_init_def read_upto_start)
  show "up_inv z ?t c w (w_sent w) [] 0"
    using j by (simp add: up_inv_def wire_log_start ext_inv_def udp_inv_def) (simp add: tun_init_def read_upto_start)
qed

section \<open>External connections\<close>

lemma ext_inv_step:
  assumes inv: "ext_inv z P o1 m s" and cs: "conns_step i i' s s' m m' o1 o2" and sh: "shut s \<subseteq> shut s'"
    and keep: "\<And>x. x \<in> dom o1 \<Longrightarrow> sent_of s' x = sent_of s x" and new: "chunks z (i + 1) P = []"
  shows "ext_inv z P o2 m' s'"
proof -
  have old: "\<exists>d. sent_of s' x = Some d \<and> prefix d (concat (chunks z ch P)) \<and> (m ch = Some x \<and> x \<notin> shut s' \<longrightarrow> d = concat (chunks z ch P))"
    if "o1 x = Some ch" for x ch
    using inv that keep [of x] sh unfolding ext_inv_def by (metis domI subsetD)
  have ow: "m ch = Some x \<Longrightarrow> o1 x = Some ch" for ch x using inv unfolding ext_inv_def by blast
  from cs consider "m' \<subseteq>\<^sub>m m" "o2 = o1"
    | x where "sh_exts s x = None" "sent_of s' x = Some []" "m' = m(i + 1 \<mapsto> x)" "o2 = o1(x \<mapsto> i + 1)"
    unfolding conns_step_def by blast
  then show ?thesis
  proof cases
    case 1
    have "m ch = Some x" if "m' ch = Some x" for ch x using 1(1) that by (auto simp: map_le_def dom_def)
    with old ow show ?thesis unfolding ext_inv_def 1(2) by metis
  next
    case (2 x)
    have fresh: "o1 x = None"
    proof (rule ccontr)
      assume "o1 x \<noteq> None"
      then obtain ch where "o1 x = Some ch" by auto
      then obtain d where "sent_of s x = Some d" using inv unfolding ext_inv_def by blast
      with 2(1) show False by (simp add: sent_of_def)
    qed
    have "\<exists>d. sent_of s' y = Some d \<and> prefix d (concat (chunks z ch P)) \<and> (m' ch = Some y \<and> y \<notin> shut s' \<longrightarrow> d = concat (chunks z ch P))"
      if o2: "o2 y = Some ch" for y ch
    proof (cases "y = x")
      case True
      with o2 2(2,4) new show ?thesis by simp
    next
      case False
      with o2 2(4) have "o1 y = Some ch" by simp
      with old [OF this] False show ?thesis by (auto simp: 2(3))
    qed
    moreover have "o2 y = Some ch" if "m' ch = Some y" for ch y
      using that ow [of ch y] fresh by (auto simp: 2(3,4) split: if_splits)
    ultimately show ?thesis unfolding ext_inv_def by blast
  qed
qed

lemma ext_inv_quiet:
  assumes "ext_inv z P o1 m s" and "m' \<subseteq>\<^sub>m m" and "shut s \<subseteq> shut s'" and "sent_of s' = sent_of s" and "carried z f = None"
  shows "ext_inv z (P @ [f]) o1 m' s'"
proof -
  have "m ch = Some x" if "m' ch = Some x" for ch x using assms(2) that by (auto simp: map_le_def dom_def)
  with assms(1,3) show ?thesis unfolding ext_inv_def assms(4) by (simp add: assms(5)) (metis subsetD)
qed

lemma sent_of_write:
  assumes "se_ext_write e = None"
  shows "sent_of (write_ext e x d s) y = (if y = x \<and> x \<notin> shut s then map_option (\<lambda>b. b @ d) (sent_of s y) else sent_of s y)"
  using assms by (cases "sh_exts s x") (auto simp: sent_of_def write_ext_def shut_def)

lemma ext_inv_data:
  assumes inv: "ext_inv z P o1 m s" and f: "carried z f = Some d" "se_ext_write e = None"
    and s': "sh_exts s' = (case m (f_chan f) of Some x \<Rightarrow> sh_exts (write_ext e x d s) | None \<Rightarrow> sh_exts s)"
  shows "ext_inv z (P @ [f]) o1 m s'"
proof -
  let ?ch = "f_chan f"
  have ow: "m ch = Some x \<Longrightarrow> o1 x = Some ch" for ch x using inv unfolding ext_inv_def by blast
  have sent: "sent_of s' y = (if m ?ch = Some y \<and> y \<notin> shut s then map_option (\<lambda>b. b @ d) (sent_of s y) else sent_of s y)" for y
    using s' sent_of_write [OF f(2), of _ d s y] by (cases "m ?ch") (auto simp: sent_of_def)
  have shut: "shut s' = shut s"
    using s' write_ext_shut [of e _ d s] by (cases "m ?ch") (auto simp: shut_def)
  have "\<exists>b. sent_of s' x = Some b \<and> prefix b (concat (chunks z ch (P @ [f]))) \<and> (m ch = Some x \<and> x \<notin> shut s' \<longrightarrow> b = concat (chunks z ch (P @ [f])))"
    if o: "o1 x = Some ch" for x ch
  proof -
    obtain b where b: "sent_of s x = Some b" "prefix b (concat (chunks z ch P))" "m ch = Some x \<and> x \<notin> shut s \<Longrightarrow> b = concat (chunks z ch P)"
      using inv o unfolding ext_inv_def by blast
    show ?thesis
    proof (cases "m ?ch = Some x \<and> x \<notin> shut s")
      case True
      with ow o have "ch = ?ch" by fastforce
      with True b f(1) show ?thesis by (simp add: sent shut)
    next
      case False
      then show ?thesis
      proof (cases "ch = ?ch")
        case True
        with False b f(1) show ?thesis by (auto simp: sent shut prefix_def)
      next
        case ne: False
        with False b f(1) show ?thesis by (auto simp: sent shut)
      qed
    qed
  qed
  with ow show ?thesis unfolding ext_inv_def by blast
qed

section \<open>UDP sessions\<close>

lemma udp_inv_step:
  assumes "udp_inv z P out S" and "S' \<subseteq> insert j S" and "chunks z j P = []"
  shows "udp_inv z P out S'"
proof -
  have "out ch = chunks z ch P" if "ch \<in> S'" for ch
  proof (cases "ch = j")
    case True
    have "prefix (out j) (chunks z j P)" using assms(1) by (simp add: udp_inv_def)
    with True assms(3) show ?thesis by simp
  next
    case False
    with that assms(1,2) show ?thesis by (auto simp: udp_inv_def)
  qed
  with assms(1) show ?thesis by (simp add: udp_inv_def)
qed

lemma udp_inv_frame:
  assumes inv: "udp_inv z P out (open_ids c)" and wf: "cl_wf c" and sub: "open_ids c' \<subseteq> open_ids c"
    and u: "u = (case carried z f of Some d \<Rightarrow> if map_of (cl_channelConns c) (f_chan f) = None \<and> f_chan f \<in> open_ids c then [d] else []
      | None \<Rightarrow> [])"
  shows "udp_inv z (P @ [f]) (add_data out (\<lambda>ch. if ch = f_chan f then u else [])) (open_ids c')"
proof -
  let ?out = "add_data out (\<lambda>ch. if ch = f_chan f then u else [])"
  have no: "map_of (cl_channelConns c) ch = None" if "ch \<in> open_ids c" for ch
    using wf open_ids_session [OF that] by (auto simp: cl_wf_def core_wf_def map_of_eq_None_iff)
  have pre: "prefix (out ch) (chunks z ch P)" "ch \<in> open_ids c \<Longrightarrow> out ch = chunks z ch P" for ch
    using inv by (simp_all add: udp_inv_def)
  have "prefix (?out ch) (chunks z ch (P @ [f])) \<and> (ch \<in> open_ids c \<longrightarrow> ?out ch = chunks z ch (P @ [f]))" for ch
  proof (cases "ch \<in> open_ids c")
    case True
    then have "?out ch = chunks z ch (P @ [f])" using pre(2) [OF True] no [OF True] u by (auto simp: add_data_def split: option.split)
    then show ?thesis by simp
  next
    case False
    then have "?out ch = out ch" using u by (auto simp: add_data_def split: option.split)
    with False pre(1) [of ch] show ?thesis by (simp add: prefix_append)
  qed
  with sub show ?thesis unfolding udp_inv_def by blast
qed

section \<open>Events of the server\<close>

lemma chunks_take: "chunks z ch M = [] \<Longrightarrow> chunks z ch (take m M) = []"
  by (metis append_is_Nil_conv append_take_drop_id chunks_append)

lemma down_inv_logs:
  assumes d: "down_inv z t c B A m" and l: "log_adds z (clientSupportsCompression c) fed (last_id (tn_sys t)) (last_id y) (cl_wconn c) (cl_wconn c')"
    and i: "last_id (tn_sys t) \<le> last_id y" and feat: "cl_features c' = cl_features c"
    and t': "tn_sys t' = y" "tn_fed t' = add_data (tn_fed t) fed" "tn_down t' = tn_down t" "tn_locals t' = tn_locals t" "tn_k t' = tn_k t"
  shows "\<exists>A. down_inv z t' c' B A m"
proof -
  from l obtain G where G: "attempts G (cl_wconn c) (cl_wconn c')" "\<And>ch. chunks z ch G = fed ch"
      "\<forall>f \<in> set G. packed_ok (clientSupportsCompression c) f"
      "\<And>S. (\<forall>j \<in> S. j \<le> last_id (tn_sys t)) \<Longrightarrow> opened_once z S G" "\<forall>j \<in> seen z G. j \<le> last_id y"
    unfolding log_adds_def by blast
  note dd = d [unfolded down_inv_def]
  have m: "m \<le> length A" using dd by (simp add: read_upto_def)
  have "down_inv z t' c' B (A @ G) m"
    unfolding down_inv_def t' supports_cong [OF feat]
  proof (intro conjI)
    show "wire_log B (A @ G) (cl_wconn c')" using dd attempts_log [OF G(1)] by blast
    show "read_upto B (A @ G) m (tn_down t) (cl_wconn c')" using dd read_upto_attempts [OF G(1)] by blast
    show "\<forall>ch. chunks z ch (A @ G) = add_data (tn_fed t) fed ch" using dd G(2) by (simp add: add_data_def)
    show "opened_once z {} (A @ G)" using dd G(4) [of "seen z A"] by (simp add: opened_once_append)
    show "\<forall>j \<in> seen z (A @ G). j \<le> last_id y" using dd G(5) i by auto
    show "\<forall>f \<in> set (A @ G). packed_ok (clientSupportsCompression c) f" using dd G(3) by auto
    show "cli_inv z (take m (A @ G)) (tn_locals t) (tn_k t)" using dd m by simp
  qed
  then show ?thesis by blast
qed

lemma tun_inv_srv:
  assumes z: "lz4_sound z" and inv: "tun_inv z cid n t" and n: "Suc n < 2 ^ 32"
    and tame: "tame cid ev (tn_sys t)" and st: "srv_exec z ev (tn_sys t) = Some y" and ok: "\<not> sy_crashed y"
  shows "tun_inv z cid (Suc n) (t\<lparr>tn_sys := y, tn_fed := add_data (tn_fed t) (fed_by cid ev (tn_sys t) y),
     tn_exts := note_ext cid ev (tn_sys t) y (tn_exts t)\<rparr>)"
proof -
  let ?y = "tn_sys t" and ?o2 = "note_ext cid ev (tn_sys t) y (tn_exts t)"
  let ?t = "t\<lparr>tn_sys := y, tn_fed := add_data (tn_fed t) (fed_by cid ev (tn_sys t) y), tn_exts := ?o2\<rparr>"
  obtain c w B A m B' M m' where b: "base_inv cid n t c w" and d: "down_inv z t c B A m" and u: "up_inv z t c w B' M m'"
    using inv unfolding tun_inv_def by blast
  note bb = b [unfolded base_inv_def] and uu = u [unfolded up_inv_def]
  from srv_event_for [OF z _ n _ _ _ tame st ok, of c] bb obtain c' where obj: "sv_objs (sy_srv y) cid = Some c'"
      and reg: "registered y cid" and i: "last_id ?y \<le> last_id y" and own: "own_step z cid ev ?y y c c'"
      and cn: "conns_ok cid ev ?y y c c'" and sh: "shared_step cid ?y y"
    by blast
  note oo = own [unfolded own_step_def] and ss = sh [unfolded shared_step_def]
  have inv': "sys_inv (Suc n) y" using srv_exec_inv [OF _ n st ok] bb by blast
  have free: "all_free y" using srv_exec_free [OF _ _ st] sys_inv_mgr bb by blast
  have cs: "conns_step (last_id ?y) (last_id y) (sv_sh (sy_srv ?y)) (sv_sh (sy_srv y)) (map_of (cl_channelConns c))
      (map_of (cl_channelConns c')) (tn_exts t) ?o2"
    using cn unfolding conns_ok_def by blast
  have dom: "x \<in> dom (sh_exts (sv_sh (sy_srv ?y)))" if "x \<in> dom (tn_exts t)" for x
    using that uu unfolding ext_inv_def sent_of_def by (auto simp: dom_def) fastforce
  have keep: "sent_of (sv_sh (sy_srv y)) x = sent_of (sv_sh (sy_srv ?y)) x" if x: "x \<in> dom (tn_exts t)" for x
  proof -
    have "x \<notin> owned cb" if "b \<noteq> cid" "sv_objs (sy_srv ?y) b = Some cb" for b cb using bb that x by blast
    with ss dom [OF x] show ?thesis by blast
  qed
  have "tn_sent t (last_id ?y + 1) = []" using uu fresh_id(1) [OF _ n, of ?y] bb by blast
  then have "chunks z (last_id ?y + 1) (take m' M) = []" using uu by (intro chunks_take) simp
  with ext_inv_step [OF _ cs _ keep] uu ss
  have ext: "ext_inv z (take m' M) ?o2 (map_of (cl_channelConns c')) (sv_sh (sy_srv y))" by blast
  have "udp_inv z (take m' M) (tn_udp t) (open_ids c')"
  proof (rule udp_inv_step)
    show "open_ids c' \<subseteq> insert (last_id ?y + 1) (open_ids c)"
      using srv_event_sessions [OF _ n _ _ st obj] bb by (simp add: last_id_def)
    show "udp_inv z (take m' M) (tn_udp t) (open_ids c)" using uu by blast
  qed fact
  with uu ext i have up: "up_inv z ?t c' w B' M m'" by (auto simp: up_inv_def)
  have dn: "\<exists>A. down_inv z ?t c' B A m"
    by (rule down_inv_logs [OF d _ i]) (use oo in simp_all)
  have foreign: "owned cb \<inter> dom ?o2 = {}" if cb: "b \<noteq> cid" "sv_objs (sy_srv y) b = Some cb" for b cb
  proof -
    have "x \<notin> dom ?o2" if x: "x \<in> owned cb" for x
    proof
      assume "x \<in> dom ?o2"
      moreover from cs have "dom ?o2 = dom (tn_exts t) \<or> (\<exists>v. dom ?o2 = insert v (dom (tn_exts t)) \<and> map_of (cl_channelConns c') (last_id ?y + 1) = Some v)"
        unfolding conns_step_def by (auto simp del: note_ext.simps)
      ultimately have "x \<in> dom (tn_exts t) \<or> x \<in> owned c'" by (metis insertE map_of_owned)
      then show False
      proof
        assume "x \<in> owned c'"
        moreover have "owned c' \<inter> owned cb = {}" using inv' obj cb unfolding sys_inv_def by metis
        ultimately show False using x by blast
      next
        assume xo: "x \<in> dom (tn_exts t)"
        have "sys_inv n ?y" using bb by blast
        from srv_event_foreign [OF z this n tame st ok cb(2) x] dom [OF xo]
        obtain cb0 where "sv_objs (sy_srv ?y) b = Some cb0" "x \<in> owned cb0" by (auto simp: domIff)
        with bb cb(1) xo show False by blast
      qed
    qed
    then show ?thesis by blast
  qed
  have base: "base_inv cid (Suc n) ?t c' w"
    unfolding base_inv_def
  proof (intro conjI allI impI)
    show "clientSupportsCompression c' \<Longrightarrow> k_Compressor (tn_k ?t) \<noteq> None" using bb oo supports_cong [of c' c] by auto
    show "k_serverSupportsCompression (tn_k ?t) \<Longrightarrow> CanDecompress (sh_mgr (sv_sh (sy_srv (tn_sys ?t))))" using bb ss by simp
    show "owned cb \<inter> dom (tn_exts ?t) = {}" if "b \<noteq> cid \<and> sv_objs (sy_srv (tn_sys ?t)) b = Some cb" for b cb
      using foreign [of b cb] that by simp
  qed (use bb inv' free ok obj reg oo in simp_all)
  from dn obtain A' where "down_inv z ?t c' B A' m" ..
  from tun_invI [OF base this up] show ?thesis .
qed

section \<open>The server reads a frame\<close>

lemma frame_wires:
  assumes st: "relay_frame z e f c s = (fl, c', s')" and e: "se_ext_write e = None"
    and cp: "f_type f = frameDataCompressed \<longrightarrow> CanDecompress (sh_mgr s)"
    and P: "ext_inv z P o1 (map_of (cl_channelConns c)) s"
  shows "(\<exists>G. attempts G (cl_wconn c) (cl_wconn c') \<and> (\<forall>f \<in> set G. plain f)) \<and> cl_features c' = cl_features c \<and> cl_pipes c' = cl_pipes c
    \<and> ext_inv z (P @ [f]) o1 (map_of (cl_channelConns c')) s'"
proof -
  have quiet: ?thesis if "wires G c s c' s'" "\<forall>g \<in> set G. plain g" "carried z f = None" for G
    using that ext_inv_quiet [OF P] by (auto simp: wires_def calm_def)
  have data: ?thesis if "carried z f = Some d" "relay_data e (f_chan f) d c s = (fl, c', s')" for d
    using relay_data_wires [OF that(2)] ext_inv_data [OF P that(1) e] attempts_refl [of "cl_wconn c"]
    by (auto intro!: exI [of _ "[]"])
  consider (ctl) "f_type f = frameControl" | (close) "f_type f = frameClose" | (raw) "f_type f = frameData"
    | (cmp) "f_type f = frameDataCompressed" | (junk) "f_type f \<notin> {frameControl, frameClose, frameData, frameDataCompressed}"
    by blast
  then show ?thesis
  proof cases
    case ctl
    with st have "relay_control (f_payload f) c s = (fl, c', s')" by (simp add: relay_frame_def)
    with relay_control_wires quiet ctl show ?thesis by (metis carried_control)
  next
    case close
    with st have "relay_close e (f_chan f) c s = (fl, c', s')" by (simp add: relay_frame_def frame_consts)
    with relay_close_wires [OF this] quiet [of "[]"] close show ?thesis by (simp add: carried_def frame_consts)
  next
    case raw
    with st have "relay_data e (f_chan f) (f_payload f) c s = (fl, c', s')" by (simp add: relay_frame_def frame_consts)
    with data raw show ?thesis by (simp add: carried_def)
  next
    case cmp
    show ?thesis
    proof (cases "lz4_read z (f_payload f)")
      case None
      with st cmp cp have "c' = c" "s' = s" by (auto simp: relay_frame_def frame_consts mgr_Decompress_any)
      then show ?thesis using quiet [of "[]"] cmp None by (simp add: wires_refl carried_def frame_consts)
    next
      case (Some d)
      with st cmp cp have "relay_data e (f_chan f) d c s = (fl, c', s')" by (simp add: relay_frame_def frame_consts mgr_Decompress_any)
      with data [of d] cmp Some show ?thesis by (simp add: carried_def frame_consts)
    qed
  next
    case junk
    with st have "c' = c" "s' = s" by (auto simp: relay_frame_def)
    then show ?thesis using quiet [of "[]"] junk by (simp add: wires_refl carried_def)
  qed
qed

lemma tun_inv_srv_read:
  assumes z: "lz4_sound z" and inv: "tun_inv z cid n t" and n: "Suc n < 2 ^ 32"
    and st: "tun_exec z cid (TSrvRead e) t = Some t'" and ok: "\<not> sy_crashed (tn_sys t')"
  shows "tun_inv z cid (Suc n) t'"
proof -
  let ?y = "tn_sys t"
  obtain c w B A m B' M m' where b: "base_inv cid n t c w" and d: "down_inv z t c B A m" and u: "up_inv z t c w B' M m'"
    using inv unfolding tun_inv_def by blast
  note bb = b [unfolded base_inv_def] and uu = u [unfolded up_inv_def] and dd = d [unfolded down_inv_def]
  have w: "k_conn (tn_k t) = Some w" using bb by blast
  with st obtain f rest y where e: "se_ext_write e = None"
      and rd: "srv_readFrame (map RByte (drop (tn_up t) (w_sent w))) = (Ret f, rest)"
      and ex: "srv_exec z (EvFrame cid e f) ?y = Some y" and t': "t' = t\<lparr>tn_sys := y, tn_up := length (w_sent w) - length rest,
        tn_udp := add_data (tn_udp t) (datagrams (f_chan f) ?y y)\<rparr>"
    by (auto split: if_splits go.splits prod.splits option.splits)
  have log: "wire_log B' M w" "read_upto B' M m' (tn_up t) w" using uu by blast+
  note nx = read_next [OF log rd]
  from ex bb obtain lns fl c' s' where lv: "live cid ?y = Some c" and fr: "relay_frame z e f c (sv_sh (sy_srv ?y)) = (fl, c', s')"
      and y: "y = set_phase cid (if goes_on fl then PServing lns else PStuck) (put cid (fl, c', s') ?y)"
    by (auto split: phase.splits option.splits prod.splits dest: live_Some)
  have "packed_ok (k_serverSupportsCompression (tn_k t)) f" using uu nx(1,2) by (metis nth_mem)
  then have cp: "f_type f = frameDataCompressed \<longrightarrow> CanDecompress (sh_mgr (sv_sh (sy_srv ?y)))"
    using bb by (auto simp: packed_ok_def)
  have "ext_inv z (take m' M) (tn_exts t) (map_of (cl_channelConns c)) (sv_sh (sy_srv ?y))" using uu by blast
  from frame_wires [OF fr e cp this] obtain G where G: "attempts G (cl_wconn c) (cl_wconn c')" "\<forall>f \<in> set G. plain f"
    and c': "cl_features c' = cl_features c" "cl_pipes c' = cl_pipes c"
    and ext: "ext_inv z (take m' M @ [f]) (tn_exts t) (map_of (cl_channelConns c')) s'" by blast
  have fs: "CanDecompress (sh_mgr s') = CanDecompress (sh_mgr (sv_sh (sy_srv ?y)))" "sh_nextCID s' = last_id ?y"
    using frame_shared [OF fr] by (simp_all add: last_id_def)
  have id: "last_id y = last_id ?y" using fs(2) by (simp add: y last_id_def)
  have inv': "sys_inv (Suc n) y" using srv_exec_inv [OF _ n ex] ok t' bb by simp
  have free: "all_free y" using srv_exec_free [OF _ _ ex] sys_inv_mgr bb by blast
  have wf: "\<not> cl_udpLocked c" "cl_wf c" using all_freeD(3) sys_invD(1) bb by blast+
  note us = relay_frame_sessions [OF fr wf]
  note wf(2)
  moreover have "udp_inv z (take m' M) (tn_udp t) (open_ids c)" using uu by blast
  ultimately have "udp_inv z (take m' M @ [f]) (add_data (tn_udp t) (\<lambda>ch. if ch = f_chan f then udp_sent (sv_sh (sy_srv ?y)) s' else [])) (open_ids c')"
    using udp_inv_frame us(1) us(2) [OF cp] by blast
  moreover have "datagrams (f_chan f) ?y y = (\<lambda>ch. if ch = f_chan f then udp_sent (sv_sh (sy_srv ?y)) s' else [])"
    by (simp add: fun_eq_iff datagrams_def) (simp add: y)
  ultimately have udp: "udp_inv z (take m' M @ [f]) (add_data (tn_udp t) (datagrams (f_chan f) ?y y)) (open_ids c')"
    by (simp only:)
  have objs: "sv_objs (sy_srv y) b = (if b = cid then Some c' else sv_objs (sy_srv ?y) b)" "registered y cid"
      "sv_sh (sy_srv y) = s'" for b
    by (simp_all add: y registered_def)
  have "base_inv cid (Suc n) t' c' w"
    using bb inv' free ok c' id fs(1) unfolding base_inv_def t' pipes_below_def
    by (simp add: objs supports_cong [OF c'(1)])
  moreover have "\<exists>A. down_inv z t' c' B A m"
    by (rule down_inv_logs [OF d logs_plain [OF G] _ c'(1), of y]) (simp_all add: id t' add_data_def fun_eq_iff)
  moreover have "up_inv z t' c' w B' M (Suc m')"
    using uu nx ext udp id by (simp add: up_inv_def t' take_Suc_conv_app_nth) (simp add: y)
  ultimately show ?thesis using tun_invI by blast
qed

section \<open>Steps of the client\<close>

lemma tun_inv_client:
  assumes b: "base_inv cid n t c w" and d: "down_inv z t c B A m" and u: "up_inv z t c w B' M m'" and n: "sys_inv (Suc n) (tn_sys t)"
    and k: "kwires G (tn_k t) (tn_k t')" and t': "tn_sys t' = tn_sys t" "tn_up t' = tn_up t" "tn_fed t' = tn_fed t" "tn_exts t' = tn_exts t"
      "tn_udp t' = tn_udp t"
    and sent: "tn_sent t' = add_data (tn_sent t) snt" "\<And>ch. chunks z ch G = snt ch" "\<And>ch. snt ch \<noteq> [] \<Longrightarrow> ch \<le> last_id (tn_sys t)"
    and pk: "\<forall>f \<in> set G. packed_ok (k_serverSupportsCompression (tn_k t)) f"
    and rd: "read_upto B A m2 (tn_down t') (cl_wconn c)" "cli_inv z (take m2 A) (tn_locals t') (tn_k t')"
  shows "tun_inv z cid (Suc n) t'"
proof -
  note bb = b [unfolded base_inv_def] and uu = u [unfolded up_inv_def] and dd = d [unfolded down_inv_def]
  from k bb obtain w' where w': "k_conn (tn_k t') = Some w'" "attempts G w w'" and cp: "k_Compressor (tn_k t') = k_Compressor (tn_k t)"
      "k_serverSupportsCompression (tn_k t') = k_serverSupportsCompression (tn_k t)"
    by (auto simp: kwires_def)
  have m': "m' \<le> length M" using uu by (simp add: read_upto_def)
  have "base_inv cid (Suc n) t' c w'" using bb n w'(1) cp by (simp add: base_inv_def t')
  moreover have "down_inv z t' c B A m2" using dd rd by (simp add: down_inv_def t')
  moreover have "up_inv z t' c w' B' (M @ G) m'"
    unfolding up_inv_def t' cp sent(1)
  proof (intro conjI)
    show "wire_log B' (M @ G) w'" using uu attempts_log [OF w'(2)] by blast
    show "read_upto B' (M @ G) m' (tn_up t) w'" using uu read_upto_attempts [OF w'(2)] by blast
    show "\<forall>ch. chunks z ch (M @ G) = add_data (tn_sent t) snt ch" using uu sent(2) by (simp add: add_data_def)
    show "\<forall>f \<in> set (M @ G). packed_ok (k_serverSupportsCompression (tn_k t)) f" using uu pk by auto
    show "\<forall>ch. add_data (tn_sent t) snt ch \<noteq> [] \<longrightarrow> ch \<le> last_id (tn_sys t)" using uu sent(3) by (auto simp: add_data_def)
    show "ext_inv z (take m' (M @ G)) (tn_exts t) (map_of (cl_channelConns c)) (sv_sh (sy_srv (tn_sys t)))" using uu m' by simp
    show "udp_inv z (take m' (M @ G)) (tn_udp t) (open_ids c)" using uu m' by simp
  qed
  ultimately show ?thesis by (rule tun_invI)
qed

text \<open>The same for a step that sends no data and reads nothing.\<close>

lemma tun_inv_idle:
  assumes inv: "tun_inv z cid n t" and k: "kwires G (tn_k t) (tn_k t')" "no_data G" "shrinks (tn_k t) (tn_k t')"
    and t': "tn_sys t' = tn_sys t" "tn_up t' = tn_up t" "tn_fed t' = tn_fed t" "tn_exts t' = tn_exts t" "tn_sent t' = tn_sent t"
      "tn_down t' = tn_down t" "tn_locals t' = tn_locals t" "tn_udp t' = tn_udp t"
  shows "tun_inv z cid (Suc n) t'"
proof -
  obtain c w B A m B' M m' where b: "base_inv cid n t c w" and d: "down_inv z t c B A m" and u: "up_inv z t c w B' M m'"
    using inv unfolding tun_inv_def by blast
  have "sys_inv (Suc n) (tn_sys t)" using b sys_inv_Suc by (auto simp: base_inv_def)
  from tun_inv_client [OF b d u this k(1) t'(1-4,8), of "\<lambda>_. []" m] show ?thesis
    using t'(5-7) chunks_no_data [OF k(2)] d shrinks_inv [OF _ k(3)]
    by (auto simp: down_inv_def add_data_def fun_eq_iff)
qed

text \<open>Nothing but a whole frame can be read from the log, and the end of it is no timeout.\<close>

lemma read_none:
  assumes "wire_log B A w" and "read_upto B A m q w" and "\<not> is_frame (fst (srv_readFrame (map RByte (drop q (w_sent w)))))"
  shows "\<exists>e. srv_readFrame (map RByte (drop q (w_sent w))) = (Err e, []) \<and> e \<noteq> Timeout"
proof -
  obtain F t where ft: "drop q (w_sent w) = concat (map enc_frame F) @ t" "prefix F (drop m A)"
      "F = drop m A \<and> t = [] \<or> w_room w = Some 0 \<and> cut_frame t"
    by (rule wire_log_read [OF assms(1,2)])
  have "F = []"
  proof (cases F)
    case (Cons g F')
    have "set F \<subseteq> set A" using ft(2) set_drop_subset [of m A] by (auto simp: prefix_def)
    then have "frame_ok g" using assms(1) Cons by (auto simp: wire_log_def list_all_iff)
    from srv_readFrame_enc [OF this, of "map RByte (concat (map enc_frame F') @ t)"] ft(1) Cons assms(3) show ?thesis
      by (simp add: is_frame_def)
  qed simp
  with ft show ?thesis
    using srv_readFrame_cut srv_readFrame_nil by (auto simp: cut_frame_def cut_err_def simp del: length_enc_frame)
qed

text \<open>An iteration of the read loop handles a frame, or changes no table but for closing.\<close>

lemma shrinks_control: "k_sendControl m k = (r, k1) \<Longrightarrow> shrinks k k1"
  by (simp add: k_sendControl_def shrinks_write)

lemma k_iter_cases:
  assumes "k_iter z e input k = ((fl, k'), rest)"
  shows "(\<exists>f. cli_readFrame input = (Ret f, rest) \<and> k' = k_frame z e f k \<and> fl = Continue \<and> k_closeCh k \<noteq> Some True)
    \<or> shrinks k k' \<and> (fl = Continue \<longrightarrow> fst (cli_readFrame input) = Err Timeout)"
proof (cases "k_closeCh k = Some True")
  case True
  then show ?thesis using assms shrinks_loop_exit [of k fl k'] by (auto simp: k_iter_def loop_exit_def split: go.splits)
next
  case False
  obtain q s1 where rd: "cli_readFrame input = (q, s1)" by force
  obtain r k1 where sd: "k_sendControl (zero_msg\<lparr>c_Type := ''ping''\<rparr>) k = (r, k1)" by force
  note s1 = shrinks_control [OF sd]
  have ex: "shrinks k k'" if "loop_exit k2 = (fl, k')" "shrinks k k2" for k2
    using that shrinks_loop_exit shrinks_trans by blast
  have nc: "fl \<noteq> Continue" if "loop_exit k2 = (fl, k')" for k2 using that by (auto simp: loop_exit_def split: go.splits)
  show ?thesis
  proof (cases q)
    case (Ret f)
    with assms False rd show ?thesis by (simp add: k_iter_def)
  next
    case Panic
    with assms False rd show ?thesis by (simp add: k_iter_def)
  next
    case (Err er)
    show ?thesis
    proof (cases "er = Timeout")
      case False
      with assms \<open>k_closeCh k \<noteq> Some True\<close> rd Err have "loop_exit k = (fl, k')" by (auto simp: k_iter_def)
      with ex [OF this shrinks_refl] nc show ?thesis by blast
    next
      case True
      with assms \<open>k_closeCh k \<noteq> Some True\<close> rd Err sd have "k' = k1 \<or> loop_exit k1 = (fl, k')"
        using k_writeFrame_Ret_same by (cases r) (fastforce simp: k_iter_def isClosedErr_def k_sendControl_def)+
      then have "shrinks k k'" using ex [OF _ s1] s1 by blast
      with True rd Err show ?thesis by simp
    qed
  qed
qed

end
