(* ===== verification/TunnelRun.thy ===== *)
theory TunnelRun
  imports Composed
begin

text \<open>
  One run of the composed tunnel, from the registration to data in flight in both
  directions. The witnesses of the theorems about all runs use its last state.
\<close>

section \<open>The start\<close>

definition run_k :: Client where
  "run_k = demo_k\<lparr>k_conn := Some \<lparr>w_sent = [], w_room = None\<rparr>, k_closeCh := Some False\<rparr>"

definition run_ok :: bytes where
  "run_ok = enc_frame (ctl_frame (ok_msg ''h'' [] mgr_NewManager))"

definition run_serving :: relayClient where
  "run_serving = run_listening\<lparr>cl_wconn := \<lparr>w_sent = run_ok, w_room = None\<rparr>\<rparr>"

definition serving :: "sys \<Rightarrow> relayClient \<Rightarrow> shared \<Rightarrow> bool" where
  "serving y c s \<longleftrightarrow> \<not> sy_crashed y \<and> sv_objs (sy_srv y) 1 = Some c \<and> sy_phase y 1 = PServing [0] \<and> sv_sh (sy_srv y) = s"

lemma run_start: "\<exists>y. srv_reach toy_lz4 run_init 3 y \<and> serving y run_serving run_shared
    \<and> just_registered 1 y run_serving \<lparr>w_sent = [], w_room = None\<rparr> run_k"
proof -
  obtain y where r: "srv_reach toy_lz4 run_init 2 y" and y: "\<not> sy_crashed y" "sv_objs (sy_srv y) 1 = Some run_listening"
      "sy_phase y 1 = PListening [0] [] ''h''" "sv_sh (sy_srv y) = run_shared"
    using run_hello by blast
  have m: "sh_mgr run_shared = mgr_NewManager" by (simp add: run_shared_def run_init_def sys_init_def)
  have "cl_wconn run_listening = \<lparr>w_sent = [], w_room = None\<rparr>" by (simp add: run_listening_def new_client_def)
  then have h: "handle_reply [0] [] ''h'' run_listening run_shared = (True, run_serving, run_shared)"
    by (simp add: handle_reply_eq rc_sendControl_room run_serving_def m run_ok_def ctl_frame_def)
  obtain y3 where s: "srv_exec toy_lz4 (EvReply 1) y = Some y3" and y3: "serving y3 run_serving run_shared"
    using h y by (simp add: live_def serving_def put_def set_phase_def)
  have "just_registered 1 y3 run_serving \<lparr>w_sent = [], w_room = None\<rparr> run_k"
    using y3 by (simp add: just_registered_def serving_def registered_def)
      (simp add: run_serving_def run_listening_def new_client_def run_k_def demo_k_def clientSupportsCompression_def)
  with reach_event [OF r y(1) s] y3 show ?thesis by (auto simp: numeral_3_eq_3)
qed

section \<open>Steps\<close>

definition run_w :: "bytes \<Rightarrow> relayClient" where
  "run_w bs = run_client\<lparr>cl_wconn := \<lparr>w_sent = bs, w_room = None\<rparr>\<rparr>"

definition run_s :: "bytes \<Rightarrow> shared" where
  "run_s d = run_shared\<lparr>sh_exts := [0 \<mapsto> \<lparr>x_addr = ''6.6.6.6:6'', x_sent = d, x_closed = False\<rparr>], sh_nextCID := 2\<rparr>"

definition run_open :: "bytes \<Rightarrow> bytes list \<Rightarrow> Client" where
  "run_open bs ds = run_k\<lparr>k_conn := Some \<lparr>w_sent = bs, w_room = None\<rparr>, k_channels := [(2, 0)],
     k_locals := [0 \<mapsto> \<lparr>lc_addr = local_addr 22, lc_writes = ds, lc_closed = False\<rparr>], k_pipes := [(2, 0)]\<rparr>"

definition raw :: "bytes \<Rightarrow> frame" where
  "raw d = \<lparr>f_type = frameData, f_chan = 2, f_payload = d\<rparr>"

definition uncounted :: "Client \<Rightarrow> Client" where
  "uncounted k = k\<lparr>k_connInfos := [], k_totalConns := 0, k_activeChan := 0, k_bytesIn := 0, k_bytesOut := 0\<rparr>"

definition with_k :: "Client \<Rightarrow> Client \<Rightarrow> bool" where
  "with_k k k' \<longleftrightarrow> uncounted k' = uncounted k"

text \<open>The server's and the client's sides, what each has read, and the data of channel 2.\<close>

definition run_at :: "bytes \<Rightarrow> bytes \<Rightarrow> bytes \<Rightarrow> bytes list \<Rightarrow> nat \<Rightarrow> nat \<Rightarrow> bytes list \<Rightarrow> bytes list \<Rightarrow> tunnel \<Rightarrow> bool" where
  "run_at dn x up ds q p fed snt t \<longleftrightarrow> serving (tn_sys t) (run_w dn) (run_s x) \<and> with_k (run_open up ds) (tn_k t) \<and> tn_reading t
     \<and> tn_down t = q \<and> tn_up t = p \<and> tn_fed t 2 = fed \<and> tn_sent t 2 = snt \<and> tn_locals t = [0 \<mapsto> (2, False)] \<and> tn_exts t 0 = Some 2"

lemma run_conn_msg_ok: "msg_ok (new_conn_msg 2 run_svc ''6.6.6.6:6'')"
  by (simp add: msg_ok_def control_ok_def zero_msg_def new_conn_msg_def run_svc_def maxFrameSize_def marshal_msg_def text_bytes_def
      controlMsg_json_def omit_def print_string_def esc_char_def int64_def j_int_def itoa_def dec_digits.simps)

lemma run_accepts:
  assumes "serving y run_serving run_shared"
  shows "\<exists>t. tun_exec toy_lz4 1 (TSrv (EvAccept 1 run_svc 0 ''6.6.6.6:6'' demo_env)) (tun_init y run_serving w k) = Some t
    \<and> serving (tn_sys t) (run_w (run_ok @ run_wire)) (run_s []) \<and> tn_k t = k \<and> tn_reading t \<and> tn_down t = length run_ok
    \<and> tn_up t = length (w_sent w) \<and> tn_fed t = (\<lambda>_. []) \<and> tn_sent t = (\<lambda>_. []) \<and> tn_locals t = Map.empty \<and> tn_exts t 0 = Some 2"
proof -
  note m = run_conn_msg_ok
  have a: "tcp_accept demo_env run_svc 0 run_serving (with_ext 0 ''6.6.6.6:6'' run_shared)
      = (Continue, run_w (run_ok @ run_wire), run_s [])"
    using run_accept [of "\<lparr>w_sent = run_ok, w_room = None\<rparr>"]
    by (simp add: run_serving_def run_w_def run_s_def with_ext_def run_shared_def run_init_def sys_init_def)
  show ?thesis
    using assms m a by (simp add: tun_init_def serving_def live_def goes_on_def put_def add_data_def fun_eq_iff)
      (simp add: run_serving_def run_listening_def run_shared_def run_init_def sys_init_def run_w_def run_client_def)
qed

lemma raw_ok: "length d \<le> 65536 \<Longrightarrow> frame_ok (raw d)"
  by (simp add: raw_def frame_ok_def maxFrameSize_def)

lemma read_raw: "length d \<le> 65536 \<Longrightarrow> srv_readFrame (map RByte (enc_frame (raw d)) @ s) = (Ret (raw d), s)"
  by (rule srv_readFrame_enc [OF raw_ok])

lemma run_shared_fields: "sh_mgr run_shared = mgr_NewManager" "sh_rate run_shared = None"
  by (simp_all add: run_shared_def run_init_def sys_init_def)

lemma run_pipe:
  assumes "run_at dn x up ds q p fed snt t" and "length d \<le> 65536"
  shows "\<exists>t'. tun_exec toy_lz4 1 (TSrv (EvPipe 1 2 0 (Inr d) demo_env)) t = Some t'
    \<and> run_at (dn @ enc_frame (raw d)) x up ds q p (fed @ [d]) snt t'"
proof -
  have "pipe_step toy_lz4 demo_env 2 0 (Inr d) (run_w dn) (run_s x) = (Continue, run_w (dn @ enc_frame (raw d)), run_s x)"
    by (simp add: pipe_step_def run_w_def run_s_def run_shared_fields mgr_NewManager_def mgr_OnData_def no_action_def rate_wait_def
        run_client_def new_client_def pack_def HasCompressor_def writeFrameLocked_def srv_writeFrame_def conn_write_def enc_frame_def raw_def Let_def)
      (simp add: run_shared_def run_init_def sys_init_def mgr_NewManager_def Wait_nilable_def)
  then show ?thesis
    using assms by (simp add: run_at_def serving_def live_def goes_on_def put_def add_data_def at_channel_def)
      (simp add: run_w_def run_client_def)
qed

lemma run_data:
  assumes "run_at dn x up ds q p fed snt t" and "drop q dn = enc_frame (raw d)" and "length d \<le> 65536"
  shows "\<exists>t'. tun_exec toy_lz4 1 (TCliRead \<lparr>ce_now = 0, ce_dial = True, ce_new = 1, ce_write_ok = True\<rparr>) t = Some t'
    \<and> run_at dn x up (ds @ [d]) (length dn) p fed snt t'"
proof -
  let ?e = "\<lparr>ce_now = 0, ce_dial = True, ce_new = 1, ce_write_ok = True\<rparr>"
  obtain k where k: "tn_k t = k" "with_k (run_open up ds) k" using assms(1) by (simp add: run_at_def)
  have "k_closeCh k = Some False" "lookup_local 2 k = Some 0" "k_locals k = [0 \<mapsto> \<lparr>lc_addr = local_addr 22, lc_writes = ds, lc_closed = False\<rparr>]"
    using arg_cong [OF k(2) [unfolded with_k_def], of k_closeCh] arg_cong [OF k(2) [unfolded with_k_def], of k_channels]
      arg_cong [OF k(2) [unfolded with_k_def], of k_locals]
    by (simp_all add: uncounted_def run_open_def run_k_def lookup_local_def)
  note kk = this
  have "with_k (run_open up (ds @ [d])) (k_data ?e 2 d k)"
    using k(2) kk by (cases k) (simp add: with_k_def k_data_def local_open_def write_local_def uncounted_def run_open_def run_k_def demo_k_def)
  moreover have "k_iter toy_lz4 ?e (map RByte (enc_frame (raw d))) k = ((Continue, k_data ?e 2 d k), [])"
    using read_raw [OF assms(3), of "[]"] kk(1)
    by (simp add: k_iter_def cli_readFrame_eq k_frame_def) (simp add: raw_def frame_consts)
  moreover have "opens_ch (raw d) = None" by (simp add: opens_ch_def raw_def frame_consts)
  ultimately show ?thesis
    using assms k kk read_raw [OF assms(3), of "[]"]
    by (simp add: run_at_def serving_def run_w_def Let_def is_frame_def cli_readFrame_eq note_local_def)
qed

lemma run_k_pipe:
  assumes "run_at dn x up ds q p fed snt t" and "length d \<le> 65536"
  shows "\<exists>t'. tun_exec toy_lz4 1 (TCliPipe 2 0 (Inr d)) t = Some t' \<and> run_at dn x (up @ enc_frame (raw d)) ds q p fed (snt @ [d]) t'"
proof -
  obtain k where k: "tn_k t = k" "with_k (run_open up ds) k" using assms(1) by (simp add: run_at_def)
  note kk = k(2) [unfolded with_k_def]
  have c: "k_conn k = Some \<lparr>w_sent = up, w_room = None\<rparr>" "k_closeCh k = Some False" "k_pipes k = [(2, 0)]" "k_serverSupportsCompression k = False"
    using arg_cong [OF kk, of k_conn] arg_cong [OF kk, of k_closeCh] arg_cong [OF kk, of k_pipes] arg_cong [OF kk, of k_serverSupportsCompression]
    by (simp_all add: uncounted_def run_open_def run_k_def demo_k_def)
  let ?k = "k_count_out 2 (length d) (k\<lparr>k_conn := Some \<lparr>w_sent = up @ enc_frame (raw d), w_room = None\<rparr>\<rparr>)"
  have "k_pack toy_lz4 k d = (frameData, d)" using c(4) by (simp add: k_pack_def split: option.split)
  then have "k_pipe_step toy_lz4 2 0 (Inr d) k = (Continue, ?k)"
    using k_writeFrame_room [OF c(1), of frameData 2 d] c(2) by (simp add: k_pipe_step_def raw_def)
  moreover have "with_k (run_open (up @ enc_frame (raw d)) ds) ?k"
    using kk by (cases k) (simp add: with_k_def k_count_out_def uncounted_def run_open_def run_k_def demo_k_def)
  ultimately show ?thesis
    using assms k c by (simp add: run_at_def short_read_def end_pipe_def goes_on_def sent_by_def add_data_def at_channel_def)
qed

definition run_ready :: bytes where
  "run_ready = enc_frame (ctl_frame (ready_msg 2))"

lemma run_opens:
  assumes "serving (tn_sys t) (run_w (run_ok @ run_wire)) (run_s [])" and "tn_k t = run_k" and "tn_reading t"
    and "tn_down t = length run_ok" and "tn_up t = 0" and "tn_fed t 2 = []" and "tn_sent t 2 = []" and "tn_locals t = Map.empty" and "tn_exts t 0 = Some 2"
  shows "\<exists>t'. tun_exec toy_lz4 1 (TCliRead demo_cli_env) t = Some t'
    \<and> run_at (run_ok @ run_wire) [] run_ready [] (length (run_ok @ run_wire)) 0 [] [] t'"
proof -
  let ?m = "new_conn_msg 2 run_svc ''6.6.6.6:6''"
  have m: "msg_ok ?m" by (rule run_conn_msg_ok)
  then have rd: "cli_readFrame (map RByte run_wire) = (Ret (ctl_frame ?m), [])"
    using srv_readFrame_enc [of "ctl_frame ?m" "[]"] by (simp add: cli_readFrame_eq run_wire_def ctl_frame_def) (simp flip: ctl_frame_def)
  let ?k = "handleNewConn demo_cli_env 2 22 ''6.6.6.6:6'' run_k"
  have "unmarshal_msg (marshal_msg ?m) = Some ?m" using m by (simp add: msg_ok_def unmarshal_marshal)
  then have "k_iter toy_lz4 demo_cli_env (map RByte run_wire) run_k = ((Continue, ?k), [])"
    using rd by (simp add: k_iter_def run_k_def k_frame_def ctl_frame_def handleControl_def) (simp add: new_conn_msg_def run_svc_def)
  moreover have k: "with_k (run_open run_ready []) ?k"
    by (simp add: handleNewConn_def demo_cli_env_def k_sendControl_def k_writeFrame_room run_k_def with_k_def uncounted_def run_open_def
        run_ready_def ctl_frame_def demo_k_def Let_def)
  moreover have "k_channels ?k = [(2, 0)]"
    using arg_cong [OF k [unfolded with_k_def], of k_channels] by (simp add: uncounted_def run_open_def)
  moreover have "opens_ch (ctl_frame ?m) = Some 2" using opens_new_conn(1) [OF m] .
  ultimately show ?thesis
    using assms rd by (simp add: run_at_def serving_def run_w_def Let_def is_frame_def note_local_def)
      (simp add: run_k_def demo_k_def demo_cli_env_def)
qed

lemma run_serves:
  assumes "run_at dn x up ds q p fed snt t" and "srv_readFrame (map RByte (drop p up)) = (Ret f, map RByte s)"
    and "relay_frame toy_lz4 demo_env f (run_w dn) (run_s x) = (Continue, run_w dn, run_s x')"
  shows "\<exists>t'. tun_exec toy_lz4 1 (TSrvRead demo_env) t = Some t' \<and> run_at dn x' up ds q (length up - length s) fed snt t'"
proof -
  obtain k where k: "tn_k t = k" "with_k (run_open up ds) k" using assms(1) by (simp add: run_at_def)
  have "k_conn k = Some \<lparr>w_sent = up, w_room = None\<rparr>"
    using arg_cong [OF k(2) [unfolded with_k_def], of k_conn] by (simp add: uncounted_def run_open_def run_k_def)
  then show ?thesis
    using assms k by (simp add: run_at_def serving_def live_def goes_on_def put_def set_phase_def) (simp add: demo_env_def)
qed

lemma run_frames:
  "relay_frame toy_lz4 demo_env (ctl_frame (ready_msg 2)) (run_w dn) (run_s x) = (Continue, run_w dn, run_s x)"
  "relay_frame toy_lz4 demo_env (raw d) (run_w dn) (run_s x) = (Continue, run_w dn, run_s (x @ d))"
proof -
  have "unmarshal_msg (marshal_msg (ready_msg 2)) = Some (ready_msg 2)"
    by (rule unmarshal_marshal) (simp add: ready_msg_def control_ok_def zero_msg_def int64_def)
  then show "relay_frame toy_lz4 demo_env (ctl_frame (ready_msg 2)) (run_w dn) (run_s x) = (Continue, run_w dn, run_s x)"
    by (simp add: relay_frame_def ctl_frame_def relay_control_def) (simp add: ready_msg_def)
  show "relay_frame toy_lz4 demo_env (raw d) (run_w dn) (run_s x) = (Continue, run_w dn, run_s (x @ d))"
    by (simp add: relay_frame_def raw_def frame_consts relay_data_def run_s_def run_shared_fields mgr_NewManager_def mgr_OnData_def
        no_action_def rate_wait_def run_w_def run_client_def new_client_def write_ext_def demo_env_def Let_def)
      (simp add: run_shared_def run_init_def sys_init_def mgr_NewManager_def Wait_nilable_def)
qed

section \<open>The run\<close>

lemma run_ready_read: "srv_readFrame (map RByte run_ready @ s) = (Ret (ctl_frame (ready_msg 2)), s)"
  unfolding run_ready_def by (rule srv_readFrame_enc, rule ctl_frame_simps(4), rule ready_msg_ok)

definition run_wires :: "bytes \<times> bytes" where
  "run_wires = (run_ok @ run_wire @ enc_frame (raw [104, 105]) @ enc_frame (raw [33]),
     run_ready @ enc_frame (raw [1]) @ enc_frame (raw [2, 3]))"

text \<open>
  A connection, two chunks for the local service, of which it has got one, and two for the
  external connection, which has got one.
\<close>

lemma run_tunnel:
  "\<exists>y c w k t. srv_reach toy_lz4 run_init 3 y \<and> just_registered 1 y c w k \<and> tun_reach toy_lz4 1 3 (tun_init y c w k) 12 t
    \<and> run_at (fst run_wires) [1] (snd run_wires) [[104, 105]] (length (run_ok @ run_wire @ enc_frame (raw [104, 105])))
         (length (run_ready @ enc_frame (raw [1]))) [[104, 105], [33]] [[1], [2, 3]] t"
proof -
  let ?w = "\<lparr>w_sent = [], w_room = None\<rparr>"
  obtain y where y: "srv_reach toy_lz4 run_init 3 y" "serving y run_serving run_shared" "just_registered 1 y run_serving ?w run_k"
    using run_start by blast
  have up: "\<not> sy_crashed (tn_sys t)" if "run_at dn x u ds q p fed snt t" for dn x u ds q p fed snt t
    using that by (simp add: run_at_def serving_def)
  let ?t0 = "tun_init y run_serving ?w run_k"
  have r0: "tun_reach toy_lz4 1 3 ?t0 3 ?t0" by (rule tun_start)
  have u0: "\<not> sy_crashed (tn_sys ?t0)" using y(2) by (simp add: tun_init_def serving_def)
  obtain t1 where s1: "tun_exec toy_lz4 1 (TSrv (EvAccept 1 run_svc 0 ''6.6.6.6:6'' demo_env)) ?t0 = Some t1"
    and t1: "serving (tn_sys t1) (run_w (run_ok @ run_wire)) (run_s [])" "tn_k t1 = run_k" "tn_reading t1" "tn_down t1 = length run_ok"
      "tn_up t1 = 0" "tn_fed t1 2 = []" "tn_sent t1 2 = []" "tn_locals t1 = Map.empty" "tn_exts t1 0 = Some 2"
    using run_accepts [OF y(2), of ?w run_k] by (auto simp del: tun_exec.simps)
  note r1 = tun_event [OF r0 u0 s1]
  have u1: "\<not> sy_crashed (tn_sys t1)" using t1(1) by (simp add: serving_def)
  from run_opens [OF t1] obtain t2 where s2: "tun_exec toy_lz4 1 (TCliRead demo_cli_env) t1 = Some t2"
    and t2: "run_at (run_ok @ run_wire) [] run_ready [] (length (run_ok @ run_wire)) 0 [] [] t2" by blast
  note r2 = tun_event [OF r1 u1 s2]
  from run_pipe [OF t2, of "[104, 105]"] obtain t3 ev where s3: "tun_exec toy_lz4 1 ev t2 = Some t3"
    and t3: "run_at (run_ok @ run_wire @ enc_frame (raw [104, 105])) [] run_ready [] (length (run_ok @ run_wire)) 0 [[104, 105]] [] t3" by (auto simp del: tun_exec.simps)
  note r3 = tun_event [OF r2 up [OF t2] s3]
  from run_data [OF t3, of "[104, 105]"] obtain t4 ev where s4: "tun_exec toy_lz4 1 ev t3 = Some t4"
    and t4: "run_at (run_ok @ run_wire @ enc_frame (raw [104, 105])) [] run_ready [[104, 105]]
      (length (run_ok @ run_wire @ enc_frame (raw [104, 105]))) 0 [[104, 105]] [] t4" by (auto simp del: tun_exec.simps)
  note r4 = tun_event [OF r3 up [OF t3] s4]
  from run_pipe [OF t4, of "[33]"] obtain t5 ev where s5: "tun_exec toy_lz4 1 ev t4 = Some t5"
    and t5: "run_at (fst run_wires) [] run_ready [[104, 105]] (length (run_ok @ run_wire @ enc_frame (raw [104, 105]))) 0 [[104, 105], [33]] [] t5"
    by (auto simp: run_wires_def simp del: tun_exec.simps)
  note r5 = tun_event [OF r4 up [OF t4] s5]
  from run_k_pipe [OF t5, of "[1]"] obtain t6 ev where s6: "tun_exec toy_lz4 1 ev t5 = Some t6"
    and t6: "run_at (fst run_wires) [] (run_ready @ enc_frame (raw [1])) [[104, 105]]
      (length (run_ok @ run_wire @ enc_frame (raw [104, 105]))) 0 [[104, 105], [33]] [[1]] t6" by (auto simp del: tun_exec.simps)
  note r6 = tun_event [OF r5 up [OF t5] s6]
  from run_serves [OF t6 _ run_frames(1), of "enc_frame (raw [1])"] run_ready_read obtain t7 ev where s7: "tun_exec toy_lz4 1 ev t6 = Some t7"
    and t7: "run_at (fst run_wires) [] (run_ready @ enc_frame (raw [1])) [[104, 105]]
      (length (run_ok @ run_wire @ enc_frame (raw [104, 105]))) (length run_ready) [[104, 105], [33]] [[1]] t7" by (auto simp del: tun_exec.simps)
  note r7 = tun_event [OF r6 up [OF t6] s7]
  from run_serves [OF t7 _ run_frames(2), of "[1]" "[]"] read_raw [of "[1]" "[]"] obtain t8 ev where s8: "tun_exec toy_lz4 1 ev t7 = Some t8"
    and t8: "run_at (fst run_wires) [1] (run_ready @ enc_frame (raw [1])) [[104, 105]]
      (length (run_ok @ run_wire @ enc_frame (raw [104, 105]))) (length (run_ready @ enc_frame (raw [1]))) [[104, 105], [33]] [[1]] t8" by (auto simp del: tun_exec.simps)
  note r8 = tun_event [OF r7 up [OF t7] s8]
  from run_k_pipe [OF t8, of "[2, 3]"] obtain t9 ev where s9: "tun_exec toy_lz4 1 ev t8 = Some t9"
    and t9: "run_at (fst run_wires) [1] (snd run_wires) [[104, 105]] (length (run_ok @ run_wire @ enc_frame (raw [104, 105])))
      (length (run_ready @ enc_frame (raw [1]))) [[104, 105], [33]] [[1], [2, 3]] t9" by (auto simp: run_wires_def simp del: tun_exec.simps)
  note r9 = tun_event [OF r8 up [OF t8] s9]
  have "Suc (Suc (Suc (Suc (Suc (Suc (Suc (Suc (Suc 3)))))))) = 12" by simp
  with r9 y t9 show ?thesis by metis
qed

lemma run_at_facts:
  assumes "run_at dn x up ds q p fed snt t"
  shows "\<not> sy_crashed (tn_sys t)" "sv_objs (sy_srv (tn_sys t)) 1 = Some (run_w dn)" "sh_exts (sv_sh (sy_srv (tn_sys t))) 0
      = Some \<lparr>x_addr = ''6.6.6.6:6'', x_sent = x, x_closed = False\<rparr>"
    and "k_conn (tn_k t) = Some \<lparr>w_sent = up, w_room = None\<rparr>" "lookup_local 2 (tn_k t) = Some 0" "k_closeCh (tn_k t) = Some False"
      "k_locals (tn_k t) = [0 \<mapsto> \<lparr>lc_addr = local_addr 22, lc_writes = ds, lc_closed = False\<rparr>]"
    and "tn_reading t" "tn_down t = q" "tn_up t = p" "tn_fed t 2 = fed" "tn_sent t 2 = snt" "tn_locals t 0 = Some (2, False)" "tn_exts t 0 = Some 2"
proof -
  have k: "uncounted (tn_k t) = uncounted (run_open up ds)" using assms by (simp add: run_at_def with_k_def)
  have "k_channels (tn_k t) = [(2, 0)]" using arg_cong [OF k, of k_channels] by (simp add: uncounted_def run_open_def)
  then show "lookup_local 2 (tn_k t) = Some 0" by (simp add: lookup_local_def)
  show "k_conn (tn_k t) = Some \<lparr>w_sent = up, w_room = None\<rparr>" "k_closeCh (tn_k t) = Some False"
    "k_locals (tn_k t) = [0 \<mapsto> \<lparr>lc_addr = local_addr 22, lc_writes = ds, lc_closed = False\<rparr>]"
    using arg_cong [OF k, of k_conn] arg_cong [OF k, of k_closeCh] arg_cong [OF k, of k_locals]
    by (simp_all add: uncounted_def run_open_def run_k_def)
qed (use assms in \<open>simp_all add: run_at_def serving_def run_s_def\<close>)

lemma run_w_room: "w_room (cl_wconn (run_w bs)) = None" "w_sent (cl_wconn (run_w bs)) = bs" "map_of (cl_channelConns (run_w bs)) 2 = Some 0"
  by (simp_all add: run_w_def run_client_def)

lemma run_no_dyn: "no_dyn mgr_NewManager"
  by (simp add: no_dyn_def mgr_NewManager_def)

end
