(* ===== verification/UdpRun.thy ===== *)
theory UdpRun
  imports TunnelRun
begin

text \<open>
  A run of the composed tunnel over a UDP service: a datagram opens a session, the local
  service answers with two, and the server has sent the first of them. The witness of the
  property about datagrams uses its last state.
\<close>

definition udp_svc :: serviceMapping where
  "udp_svc = \<lparr>sm_LocalPort = 53, sm_RemotePort = 53, sm_Proto = ''udp''\<rparr>"

definition udp_register :: controlMsg where
  "udp_register = zero_msg\<lparr>c_Type := ''register'', c_MaxConns := 2, c_Services := [udp_svc]\<rparr>"

definition udp_client :: "bytes \<Rightarrow> relayClient" where
  "udp_client bs = (new_client 1 \<lparr>w_sent = bs, w_room = None\<rparr>)\<lparr>cl_services := [udp_svc],
     cl_connLimiter := Some \<lparr>maxConns = 2, current = 0\<rparr>, cl_udpConns := Some [(53, 0)], cl_udpLoops := [(udp_svc, 0)]\<rparr>"

definition udp_shared :: shared where
  "udp_shared = (sv_sh (sy_srv run_init))\<lparr>sh_nextCID := 1, sh_clients := [1], sh_lnext := 1\<rparr>"

lemma udp_shared_fields: "sh_mgr udp_shared = mgr_NewManager" "sh_rate udp_shared = None" "sh_nextCID udp_shared = 1" "sh_udp_out udp_shared = []"
  by (simp_all add: udp_shared_def run_init_def sys_init_def)

lemma udp_register_read:
  "srv_readFrame (map RByte (enc_frame (ctl_frame udp_register))) = (Ret (ctl_frame udp_register), [])"
proof -
  have "length (marshal_msg udp_register) \<le> 400"
    by (simp add: marshal_msg_def text_bytes_def controlMsg_json_def udp_register_def udp_svc_def zero_msg_def omit_def
        service_json_def j_int_def itoa_def dec_digits.simps print_string_def esc_char_def)
  then have "frame_ok (ctl_frame udp_register)" by (simp add: frame_ok_def maxFrameSize_def ctl_frame_def)
  from srv_readFrame_enc [OF this, of "[]"] show ?thesis by simp
qed

lemma udp_unmarshal: "unmarshal_msg (marshal_msg udp_register) = Some udp_register"
  by (rule unmarshal_marshal) (simp add: udp_register_def udp_svc_def control_ok_def zero_msg_def service_ok_def int64_def)

definition udp_serving :: "sys \<Rightarrow> relayClient \<Rightarrow> shared \<Rightarrow> bool" where
  "udp_serving y c s \<longleftrightarrow> \<not> sy_crashed y \<and> sv_objs (sy_srv y) 1 = Some c \<and> sy_phase y 1 = PServing [] \<and> sv_sh (sy_srv y) = s"

lemma udp_start: "\<exists>y. srv_reach toy_lz4 run_init 3 y \<and> udp_serving y (udp_client run_ok) udp_shared
    \<and> just_registered 1 y (udp_client run_ok) \<lparr>w_sent = [], w_room = None\<rparr> run_k"
proof -
  let ?in = "map RByte (enc_frame (ctl_frame udp_register))"
  obtain y1 where s1: "srv_exec toy_lz4 (EvConnect \<lparr>w_sent = [], w_room = None\<rparr>) run_init = Some y1"
    and y1: "\<not> sy_crashed y1" "sv_objs (sy_srv y1) 1 = Some (new_client 1 \<lparr>w_sent = [], w_room = None\<rparr>)"
      "sy_phase y1 1 = PNew" "sv_sh (sy_srv y1) = udp_shared\<lparr>sh_lnext := 0\<rparr>"
    by (simp add: handle_connect_def next_cid_def run_init_def sys_init_def new_client_def put_def set_phase_def udp_shared_def)
  have h: "handle_hello demo_env ''10.0.0.1'' ?in (new_client 1 \<lparr>w_sent = [], w_room = None\<rparr>) (udp_shared\<lparr>sh_lnext := 0\<rparr>)
      = (Listening [] [] ''h'', udp_client [], udp_shared)"
    using udp_unmarshal
    by (simp add: handle_hello_def udp_register_read) (simp add: ctl_frame_def udp_register_def zero_msg_def demo_env_def new_client_def
        run_init_def run_cfg_def sys_init_def udp_svc_def apply_settings_def startServiceListener_def startUDPService_def udp_ports_def getPublicIP_def
        NewConnLimit_def Let_def udp_client_def udp_shared_def)
  obtain y2 where s2: "srv_exec toy_lz4 (EvHello 1 demo_env ''10.0.0.1'' ?in) y1 = Some y2"
    and y2: "\<not> sy_crashed y2" "sv_objs (sy_srv y2) 1 = Some (udp_client [])" "sy_phase y2 1 = PListening [] [] ''h''"
      "sv_sh (sy_srv y2) = udp_shared"
    using h y1 by (simp add: put_def set_phase_def)
  have r: "srv_reach toy_lz4 run_init (Suc (Suc 0)) y2"
    by (rule reach_event [OF reach_event [OF reach_start _ s1] y1(1) s2]) (simp add: run_init_def sys_init_def)
  have h: "handle_reply [] [] ''h'' (udp_client []) udp_shared = (True, udp_client run_ok, udp_shared)"
    by (simp add: handle_reply_eq rc_sendControl_room udp_client_def new_client_def udp_shared_fields run_ok_def ctl_frame_def)
  obtain y3 where s: "srv_exec toy_lz4 (EvReply 1) y2 = Some y3" and y3: "udp_serving y3 (udp_client run_ok) udp_shared"
    using h y2 by (simp add: live_def udp_serving_def put_def set_phase_def)
  have "just_registered 1 y3 (udp_client run_ok) \<lparr>w_sent = [], w_room = None\<rparr> run_k"
    using y3 by (simp add: just_registered_def udp_serving_def registered_def)
      (simp add: udp_client_def new_client_def run_k_def demo_k_def clientSupportsCompression_def)
  with reach_event [OF r y2(1) s] y3 show ?thesis by (auto simp: numeral_3_eq_3)
qed

section \<open>The session\<close>

definition udp_wire :: bytes where
  "udp_wire = enc_frame (ctl_frame (new_udp_conn_msg 2 udp_svc ''7.7.7.7:7''))"

definition udp_w :: relayClient where
  "udp_w = (udp_client (run_ok @ udp_wire @ enc_frame (raw [9])))\<lparr>cl_connLimiter := Some \<lparr>maxConns = 2, current = 1\<rparr>,
     cl_udpSessions := Some [(''7.7.7.7:7'', \<lparr>us_channelID = 2, us_localPort = 53, us_remoteAddr = ''7.7.7.7:7'', us_udpConn = 0, us_lastActive = 0\<rparr>)]\<rparr>"

definition udp_s :: "bytes list \<Rightarrow> shared" where
  "udp_s out = udp_shared\<lparr>sh_nextCID := 2, sh_udp_out := map (\<lambda>d. (0, ''7.7.7.7:7'', d)) out\<rparr>"

definition udp_open :: "bytes \<Rightarrow> Client" where
  "udp_open bs = run_k\<lparr>k_conn := Some \<lparr>w_sent = bs, w_room = None\<rparr>, k_udpChannels := [(2, 0)],
     k_locals := [0 \<mapsto> \<lparr>lc_addr = local_addr 53, lc_writes = [], lc_closed = False\<rparr>], k_pipes := [(2, 0)]\<rparr>"

definition udp_at :: "bytes \<Rightarrow> nat \<Rightarrow> bytes list \<Rightarrow> bytes list \<Rightarrow> tunnel \<Rightarrow> bool" where
  "udp_at up p snt out t \<longleftrightarrow> udp_serving (tn_sys t) udp_w (udp_s out) \<and> with_k (udp_open up) (tn_k t)
     \<and> tn_up t = p \<and> tn_sent t 2 = snt \<and> tn_udp t 2 = out \<and> tn_locals t = [0 \<mapsto> (2, True)]"

lemma udp_conn_msg_ok: "msg_ok (new_udp_conn_msg 2 udp_svc ''7.7.7.7:7'')"
  by (simp add: msg_ok_def control_ok_def zero_msg_def new_udp_conn_msg_def udp_svc_def maxFrameSize_def marshal_msg_def text_bytes_def
      controlMsg_json_def omit_def print_string_def esc_char_def int64_def j_int_def itoa_def dec_digits.simps)

lemma udp_datagram_run:
  "udp_datagram toy_lz4 demo_env udp_svc 0 ''7.7.7.7:7'' [9] (udp_client run_ok) udp_shared = (Continue, udp_w, udp_s [])"
  by (simp add: udp_datagram_def udp_forward_def udp_client_def new_client_def udp_shared_fields demo_env_def mgr_OnAccept_def
      mgr_NewManager_def filter_refuses_def lookup_session_def limiter_accept_def limit_OnAccept_def next_cid_def mgr_OnOpen_def
      no_action_def rc_sendControl_room touch_session_def mgr_OnData_def rate_wait_def pack_def HasCompressor_def
      writeFrameLocked_def srv_writeFrame_def conn_write_def Let_def)
    (simp add: udp_w_def udp_client_def new_client_def udp_s_def udp_shared_def run_init_def sys_init_def mgr_NewManager_def
      Wait_nilable_def udp_svc_def udp_wire_def ctl_frame_def enc_frame_def raw_def)

lemma udp_opens:
  assumes "udp_serving y (udp_client run_ok) udp_shared"
  shows "\<exists>t. tun_exec toy_lz4 1 (TSrv (EvDatagram 1 udp_svc 0 ''7.7.7.7:7'' [9] demo_env))
      (tun_init y (udp_client run_ok) \<lparr>w_sent = [], w_room = None\<rparr> run_k) = Some t
    \<and> udp_serving (tn_sys t) udp_w (udp_s []) \<and> tn_k t = run_k \<and> tn_reading t \<and> tn_down t = length run_ok
    \<and> tn_up t = 0 \<and> tn_sent t 2 = [] \<and> tn_udp t 2 = [] \<and> tn_locals t = Map.empty"
proof -
  note udp_conn_msg_ok udp_datagram_run
  moreover have "cl_udpLoops (udp_client run_ok) = [(udp_svc, 0)]" "sh_nextCID udp_shared = 1" "w_sent (cl_wconn (udp_client run_ok)) = run_ok"
    by (simp_all add: udp_client_def new_client_def udp_shared_fields)
  ultimately show ?thesis
    using assms by (simp add: tun_init_def udp_serving_def live_def goes_on_def put_def add_data_def fun_eq_iff)
qed

section \<open>The answers\<close>

lemma udp_reads:
  assumes "udp_serving (tn_sys t) udp_w (udp_s [])" and "tn_k t = run_k" and "tn_reading t" and "tn_down t = length run_ok"
    and "tn_up t = 0" and "tn_sent t 2 = []" and "tn_udp t 2 = []" and "tn_locals t = Map.empty"
  shows "\<exists>t'. tun_exec toy_lz4 1 (TCliRead demo_cli_env) t = Some t' \<and> udp_at run_ready 0 [] [] t'"
proof -
  let ?m = "new_udp_conn_msg 2 udp_svc ''7.7.7.7:7''" and ?s = "map RByte (enc_frame (raw [9]))"
  have m: "msg_ok ?m" by (rule udp_conn_msg_ok)
  then have rd: "cli_readFrame (map RByte (udp_wire @ enc_frame (raw [9]))) = (Ret (ctl_frame ?m), ?s)"
    using srv_readFrame_enc [of "ctl_frame ?m" ?s] by (simp add: cli_readFrame_eq udp_wire_def ctl_frame_def) (simp flip: ctl_frame_def)
  let ?k = "handleNewUDPConn demo_cli_env 2 53 ''7.7.7.7:7'' run_k"
  have "unmarshal_msg (marshal_msg ?m) = Some ?m" using m by (simp add: msg_ok_def unmarshal_marshal)
  then have "k_iter toy_lz4 demo_cli_env (map RByte (udp_wire @ enc_frame (raw [9]))) run_k = ((Continue, ?k), ?s)"
    using rd by (simp add: k_iter_def run_k_def k_frame_def ctl_frame_def handleControl_def) (simp add: new_udp_conn_msg_def udp_svc_def)
  moreover have "with_k (udp_open run_ready) ?k"
    by (simp add: handleNewUDPConn_def demo_cli_env_def k_sendControl_def k_writeFrame_room run_k_def with_k_def uncounted_def udp_open_def
        run_ready_def ctl_frame_def demo_k_def Let_def)
  moreover have "map_of (k_udpChannels ?k) 2 = Some 0" "map_of (k_channels ?k) 2 = None"
    using arg_cong [OF calculation(2) [unfolded with_k_def], of k_udpChannels] arg_cong [OF calculation(2) [unfolded with_k_def], of k_channels]
    by (simp_all add: uncounted_def udp_open_def run_k_def demo_k_def)
  moreover have "opens_ch (ctl_frame ?m) = Some 2" using opens_new_conn(2) [OF m] .
  moreover have "w_sent (cl_wconn udp_w) = run_ok @ udp_wire @ enc_frame (raw [9])" by (simp add: udp_w_def udp_client_def new_client_def)
  ultimately show ?thesis
    using assms rd by (simp add: udp_at_def udp_serving_def Let_def is_frame_def note_local_def)
      (simp add: run_k_def demo_k_def demo_cli_env_def)
qed

lemma udp_pipe:
  assumes "udp_at up p snt out t" and "length d \<le> 65536"
  shows "\<exists>t'. tun_exec toy_lz4 1 (TCliUdpPipe 2 0 (Inr d)) t = Some t' \<and> udp_at (up @ enc_frame (raw d)) p (snt @ [d]) out t'"
proof -
  obtain k where k: "tn_k t = k" "with_k (udp_open up) k" using assms(1) by (simp add: udp_at_def)
  note kk = k(2) [unfolded with_k_def]
  have c: "k_conn k = Some \<lparr>w_sent = up, w_room = None\<rparr>" "k_closeCh k = Some False" "k_pipes k = [(2, 0)]" "k_serverSupportsCompression k = False"
    using arg_cong [OF kk, of k_conn] arg_cong [OF kk, of k_closeCh] arg_cong [OF kk, of k_pipes] arg_cong [OF kk, of k_serverSupportsCompression]
    by (simp_all add: uncounted_def udp_open_def run_k_def demo_k_def)
  let ?k = "k_count_out 2 (length d) (k\<lparr>k_conn := Some \<lparr>w_sent = up @ enc_frame (raw d), w_room = None\<rparr>\<rparr>)"
  have "k_pack toy_lz4 k d = (frameData, d)" using c(4) by (simp add: k_pack_def split: option.split)
  then have "k_udp_pipe_step toy_lz4 2 0 (Inr d) k = (Continue, ?k)"
    using k_writeFrame_room [OF c(1), of frameData 2 d] c(2) by (simp add: k_udp_pipe_step_def raw_def)
  moreover have "with_k (udp_open (up @ enc_frame (raw d))) ?k"
    using kk by (cases k) (simp add: with_k_def k_count_out_def uncounted_def udp_open_def run_k_def demo_k_def)
  ultimately show ?thesis
    using assms k c by (simp add: udp_at_def short_read_def end_pipe_def goes_on_def sent_by_def add_data_def at_channel_def)
qed

lemma udp_serves:
  assumes "udp_at up p snt out t" and "srv_readFrame (map RByte (drop p up)) = (Ret f, map RByte s)"
    and "relay_frame toy_lz4 demo_env f udp_w (udp_s out) = (Continue, udp_w, udp_s (out @ new))" and "f_chan f = 2 \<or> new = []"
  shows "\<exists>t'. tun_exec toy_lz4 1 (TSrvRead demo_env) t = Some t' \<and> udp_at up (length up - length s) snt (out @ new) t'"
proof -
  obtain k where k: "tn_k t = k" "with_k (udp_open up) k" using assms(1) by (simp add: udp_at_def)
  have "k_conn k = Some \<lparr>w_sent = up, w_room = None\<rparr>"
    using arg_cong [OF k(2) [unfolded with_k_def], of k_conn] by (simp add: uncounted_def udp_open_def run_k_def)
  moreover have "udp_sent (udp_s out) (udp_s (out @ new)) = new" by (simp add: udp_sent_def udp_s_def map_idI)
  ultimately show ?thesis
    using assms k by (simp add: udp_at_def udp_serving_def live_def goes_on_def put_def set_phase_def add_data_def datagrams_def)
      (auto simp: demo_env_def)
qed

lemma udp_frames:
  "relay_frame toy_lz4 demo_env (ctl_frame (ready_msg 2)) udp_w (udp_s out) = (Continue, udp_w, udp_s out)"
  "relay_frame toy_lz4 demo_env (raw d) udp_w (udp_s out) = (Continue, udp_w, udp_s (out @ [d]))"
proof -
  have "unmarshal_msg (marshal_msg (ready_msg 2)) = Some (ready_msg 2)"
    by (rule unmarshal_marshal) (simp add: ready_msg_def control_ok_def zero_msg_def int64_def)
  then show "relay_frame toy_lz4 demo_env (ctl_frame (ready_msg 2)) udp_w (udp_s out) = (Continue, udp_w, udp_s out)"
    by (simp add: relay_frame_def ctl_frame_def relay_control_def) (simp add: ready_msg_def)
  show "relay_frame toy_lz4 demo_env (raw d) udp_w (udp_s out) = (Continue, udp_w, udp_s (out @ [d]))"
    by (simp add: relay_frame_def raw_def frame_consts relay_data_def write_udp_def find_session_def udp_s_def udp_shared_fields mgr_NewManager_def mgr_OnData_def
        no_action_def rate_wait_def udp_w_def udp_client_def new_client_def demo_env_def Let_def)
      (simp add: udp_shared_def run_init_def sys_init_def mgr_NewManager_def Wait_nilable_def)
qed

section \<open>The run\<close>

definition udp_up :: bytes where
  "udp_up = run_ready @ enc_frame (raw [1]) @ enc_frame (raw [2, 3])"

lemma run_udp:
  "\<exists>y c w k t. srv_reach toy_lz4 run_init 3 y \<and> just_registered 1 y c w k \<and> tun_reach toy_lz4 1 3 (tun_init y c w k) 9 t
    \<and> udp_at udp_up (length (run_ready @ enc_frame (raw [1]))) [[1], [2, 3]] [[1]] t"
proof -
  let ?w = "\<lparr>w_sent = [], w_room = None\<rparr>" and ?c = "udp_client run_ok"
  obtain y where y: "srv_reach toy_lz4 run_init 3 y" "udp_serving y ?c udp_shared" "just_registered 1 y ?c ?w run_k"
    using udp_start by blast
  have up: "\<not> sy_crashed (tn_sys t)" if "udp_at u p snt out t" for u p snt out t
    using that by (simp add: udp_at_def udp_serving_def)
  let ?t0 = "tun_init y ?c ?w run_k"
  have u0: "\<not> sy_crashed (tn_sys ?t0)" using y(2) by (simp add: tun_init_def udp_serving_def)
  obtain t1 ev where s1: "tun_exec toy_lz4 1 ev ?t0 = Some t1"
    and t1: "udp_serving (tn_sys t1) udp_w (udp_s [])" "tn_k t1 = run_k" "tn_reading t1" "tn_down t1 = length run_ok"
      "tn_up t1 = 0" "tn_sent t1 2 = []" "tn_udp t1 2 = []" "tn_locals t1 = Map.empty"
    using udp_opens [OF y(2)] by (auto simp del: tun_exec.simps)
  note r1 = tun_event [OF tun_start u0 s1]
  have u1: "\<not> sy_crashed (tn_sys t1)" using t1(1) by (simp add: udp_serving_def)
  from udp_reads [OF t1] obtain t2 ev where s2: "tun_exec toy_lz4 1 ev t1 = Some t2" and t2: "udp_at run_ready 0 [] [] t2" by blast
  note r2 = tun_event [OF r1 u1 s2]
  from udp_pipe [OF t2, of "[1]"] obtain t3 ev where s3: "tun_exec toy_lz4 1 ev t2 = Some t3"
    and t3: "udp_at (run_ready @ enc_frame (raw [1])) 0 [[1]] [] t3" by (auto simp del: tun_exec.simps)
  note r3 = tun_event [OF r2 up [OF t2] s3]
  from udp_pipe [OF t3, of "[2, 3]"] obtain t4 ev where s4: "tun_exec toy_lz4 1 ev t3 = Some t4"
    and t4: "udp_at udp_up 0 [[1], [2, 3]] [] t4" by (auto simp: udp_up_def simp del: tun_exec.simps)
  note r4 = tun_event [OF r3 up [OF t3] s4]
  have "relay_frame toy_lz4 demo_env (ctl_frame (ready_msg 2)) udp_w (udp_s []) = (Continue, udp_w, udp_s ([] @ []))"
    using udp_frames(1) [of "[]"] by simp
  from udp_serves [OF t4 _ this, of "enc_frame (raw [1]) @ enc_frame (raw [2, 3])"] run_ready_read
  obtain t5 ev where s5: "tun_exec toy_lz4 1 ev t4 = Some t5" and t5: "udp_at udp_up (length run_ready) [[1], [2, 3]] [] t5"
    by (auto simp: udp_up_def simp del: tun_exec.simps)
  note r5 = tun_event [OF r4 up [OF t4] s5]
  have "drop (length run_ready) udp_up = enc_frame (raw [1]) @ enc_frame (raw [2, 3])" by (simp add: udp_up_def)
  with udp_serves [OF t5 _ udp_frames(2), of "[1]" "enc_frame (raw [2, 3])"] read_raw [of "[1]" "map RByte (enc_frame (raw [2, 3]))"]
  obtain t6 ev where s6: "tun_exec toy_lz4 1 ev t5 = Some t6"
    and t6: "udp_at udp_up (length (run_ready @ enc_frame (raw [1]))) [[1], [2, 3]] [[1]] t6"
    by (auto simp: udp_up_def raw_def simp del: tun_exec.simps)
  note r6 = tun_event [OF r5 up [OF t5] s6]
  have "Suc (Suc (Suc (Suc (Suc (Suc 3))))) = 9" by simp
  with r6 y t6 show ?thesis by metis
qed

lemma udp_at_facts:
  assumes "udp_at up p snt out t"
  shows "\<not> sy_crashed (tn_sys t)" "sv_objs (sy_srv (tn_sys t)) 1 = Some udp_w" "k_conn (tn_k t) = Some \<lparr>w_sent = up, w_room = None\<rparr>"
    and "tn_up t = p" "tn_sent t 2 = snt" "tn_udp t 2 = out" "2 \<in> open_ids udp_w"
proof -
  have k: "uncounted (tn_k t) = uncounted (udp_open up)" using assms by (simp add: udp_at_def with_k_def)
  show "k_conn (tn_k t) = Some \<lparr>w_sent = up, w_room = None\<rparr>"
    using arg_cong [OF k, of k_conn] by (simp add: uncounted_def udp_open_def run_k_def)
  show "2 \<in> open_ids udp_w" by (simp add: open_ids_def sess_socks_def udp_w_def udp_client_def new_client_def)
qed (use assms in \<open>simp_all add: udp_at_def udp_serving_def\<close>)

end
