(* ===== verification/Tunnelled.thy ===== *)
theory Tunnelled
  imports TunnelInv UdpRun
begin

text \<open>
  The composed tunnel keeps its invariant, and what follows for the two directions of a
  channel: first in, first out, nothing lost in between while both ends are open.
\<close>

section \<open>Every event keeps the invariant\<close>

lemma tun_inv_read:
  assumes inv: "tun_inv z cid n t" and st: "tun_exec z cid (TCliRead e) t = Some t'"
  shows "tun_inv z cid (Suc n) t'"
proof -
  let ?k = "tn_k t"
  obtain c w B A m B' M m' where b: "base_inv cid n t c w" and d: "down_inv z t c B A m" and u: "up_inv z t c w B' M m'"
    using inv unfolding tun_inv_def by blast
  note bb = b [unfolded base_inv_def] and dd = d [unfolded down_inv_def]
  let ?input = "map RByte (drop (tn_down t) (w_sent (cl_wconn c)))"
  have obj: "sv_objs (sy_srv (tn_sys t)) cid = Some c" and conn: "k_conn ?k \<noteq> None" using bb by auto
  obtain fl k1 rest where it: "k_iter z e ?input ?k = ((fl, k1), rest)" by (metis prod.exhaust)
  from st obj it have g: "ce_write_ok e" "k_locals ?k (ce_new e) = None"
    and t': "t' = (if fl \<noteq> Continue then t\<lparr>tn_k := k1, tn_reading := False\<rparr>
        else t\<lparr>tn_k := k1, tn_down := length (w_sent (cl_wconn c)) - length rest,
          tn_locals := (case fst (cli_readFrame ?input) of Ret f \<Rightarrow> note_local e f k1 (tn_locals t) | _ \<Rightarrow> tn_locals t)\<rparr>)"
    by (auto simp: Let_def split: if_splits)
  obtain G where G: "no_data G" "kwires G ?k k1" using kwires_iter [OF conn it] by blast
  have log: "wire_log B A (cl_wconn c)" "read_upto B A m (tn_down t) (cl_wconn c)" using dd by blast+
  from k_iter_cases [OF it] show ?thesis
  proof
    assume "\<exists>f. cli_readFrame ?input = (Ret f, rest) \<and> k1 = k_frame z e f ?k \<and> fl = Continue \<and> k_closeCh ?k \<noteq> Some True"
    then obtain f where f: "cli_readFrame ?input = (Ret f, rest)" "k1 = k_frame z e f ?k" "fl = Continue" by blast
    note nx = read_next [OF log, unfolded cli_readFrame_eq [symmetric], OF f(1)]
    have A: "A = take m A @ f # drop (Suc m) A" using nx(1,2) id_take_nth_drop by blast
    have "opened_once z {} (take m A @ f # drop (Suc m) A)" using dd A by argo
    then have new: "ch \<notin> seen z (take m A)" if "opens_ch f = Some ch" for ch
      using that by (simp add: opened_once_append)
    have "packed_ok (clientSupportsCompression c) f" using dd nx(1,2) by (metis nth_mem)
    then have cp: "f_type f = frameDataCompressed \<longrightarrow> k_Compressor ?k \<noteq> None" using bb by (auto simp: packed_ok_def)
    have "cli_inv z (take (Suc m) A) (note_local e f k1 (tn_locals t)) k1"
      using cli_inv_frame [OF _ new cp g, of "tn_locals t"] dd f(2) nx(1,2) by (simp add: take_Suc_conv_app_nth)
    moreover have "sys_inv (Suc n) (tn_sys t)" using bb sys_inv_Suc by blast
    ultimately show ?thesis
      using tun_inv_client [OF b d u, where t' = t' and G = G and snt = "\<lambda>_. []" and ?m2.0 = "Suc m"] G chunks_no_data [OF G(1)] nx(3) f t'
      by (simp add: add_data_def fun_eq_iff)
  next
    assume s: "shrinks ?k k1 \<and> (fl = Continue \<longrightarrow> fst (cli_readFrame ?input) = Err Timeout)"
    have "fl \<noteq> Continue"
    proof
      assume "fl = Continue"
      with s have "fst (srv_readFrame ?input) = Err Timeout" by (simp add: cli_readFrame_eq)
      with read_none [OF log] show False by (auto simp: is_frame_def)
    qed
    with t' have "t' = t\<lparr>tn_k := k1, tn_reading := False\<rparr>" by simp
    with s G show ?thesis by (intro tun_inv_idle [OF inv, where t' = t' and G = G]) simp_all
  qed
qed

lemma tun_inv_timeout:
  assumes inv: "tun_inv z cid n t" and st: "tun_exec z cid (TCliTimeout e) t = Some t'"
  shows "tun_inv z cid (Suc n) t'"
proof -
  obtain c w where b: "base_inv cid n t c w" using inv unfolding tun_inv_def by blast
  then have obj: "sv_objs (sy_srv (tn_sys t)) cid = Some c" and conn: "k_conn (tn_k t) \<noteq> None" by (auto simp: base_inv_def)
  obtain fl k1 rest where it: "k_iter z e [RTimeout] (tn_k t) = ((fl, k1), rest)" by (metis prod.exhaust)
  from st obj it have t': "t' = t\<lparr>tn_k := k1, tn_reading := (fl = Continue)\<rparr>" by (auto split: if_splits)
  obtain G where G: "no_data G" "kwires G (tn_k t) k1" using kwires_iter [OF conn it] by blast
  have "cli_readFrame [RTimeout] = (Err Timeout, [])"
    using cli_readFrame_timeout_header [of 0] by (simp add: frameHeaderSize_def)
  then have "shrinks (tn_k t) k1" using k_iter_cases [OF it] by auto
  with G t' show ?thesis by (intro tun_inv_idle [OF inv, where t' = t' and G = G]) simp_all
qed

lemma end_pipe_wires: "kwires G k k' \<Longrightarrow> kwires G k (end_pipe fl ch x k')"
  by (erule kwires_local) (simp_all add: end_pipe_def)

lemma end_pipe_shrinks: "shrinks k k' \<Longrightarrow> shrinks k (end_pipe fl ch x k')"
  using set_remove1_subset [of "(ch, x)" "k_pipes k'"] unfolding shrinks_def end_pipe_def by auto

lemma tun_inv_pipe:
  assumes z: "lz4_sound z" and inv: "tun_inv z cid n t" and p: "(ch, x) \<in> set (k_pipes (tn_k t))" and r: "short_read r"
    and st: "k_pipe_step z ch x r (tn_k t) = (fl, k1) \<or> k_udp_pipe_step z ch x r (tn_k t) = (fl, k1)"
  shows "tun_inv z cid (Suc n) (t\<lparr>tn_k := end_pipe fl ch x k1, tn_sent := add_data (tn_sent t) (sent_by (tn_k t) ch r)\<rparr>)"
proof -
  let ?k = "tn_k t"
  obtain c w B A m B' M m' where b: "base_inv cid n t c w" and d: "down_inv z t c B A m" and u: "up_inv z t c w B' M m'"
    using inv unfolding tun_inv_def by blast
  note bb = b [unfolded base_inv_def] and dd = d [unfolded down_inv_def]
  have conn: "k_conn ?k \<noteq> None" and sy: "sys_inv (Suc n) (tn_sys t)" using bb sys_inv_Suc by auto
  have cli: "cli_inv z (take m A) (tn_locals t) ?k" and rd: "read_upto B A m (tn_down t) (cl_wconn c)" using dd by blast+
  have "ch \<in> seen z (take m A)" by (rule cli_invD(5) [OF cli p])
  then have "ch \<in> seen z A" by (auto simp: seen_def dest: in_set_takeD)
  then have ch: "ch \<le> last_id (tn_sys t)" using dd by blast
  have len: "\<And>d. r = Inr d \<Longrightarrow> length d \<le> 65536" using r by (simp add: short_read_def)
  from kwires_step [OF z conn len st] obtain G where G: "kwires G ?k k1"
    and cs: "case r of Inr d \<Rightarrow> if k_closeCh ?k = Some True then no_data G
        else \<exists>f H. G = f # H \<and> data_frame z (k_serverSupportsCompression ?k) ch d f \<and> no_data H | Inl er \<Rightarrow> no_data G"
    by blast
  have snt: "(\<forall>c. chunks z c G = sent_by ?k ch r c) \<and> (\<forall>f \<in> set G. packed_ok (k_serverSupportsCompression ?k) f)"
  proof (cases "no_data G")
    case True
    with cs have "sent_by ?k ch r = (\<lambda>_. [])"
      by (auto simp: sent_by_def no_data_def data_frame_def carried_def split: sum.splits if_splits)
    with chunks_no_data [OF True] show ?thesis by simp
  next
    case False
    with cs obtain d f H where f: "r = Inr d" "k_closeCh ?k \<noteq> Some True" "G = f # H"
        "data_frame z (k_serverSupportsCompression ?k) ch d f" "no_data H"
      by (auto split: sum.splits if_splits)
    with chunks_no_data [OF f(5)] show ?thesis by (auto simp: sent_by_def at_channel_def data_frame_def)
  qed
  have "sent_by ?k ch r c \<noteq> [] \<Longrightarrow> c \<le> last_id (tn_sys t)" for c
    using ch by (auto simp: sent_by_def at_channel_def split: sum.splits if_splits)
  moreover have "cli_inv z (take m A) (tn_locals t) (end_pipe fl ch x k1)"
    by (rule shrinks_inv [OF cli end_pipe_shrinks [OF shrinks_pipe [OF st]]])
  ultimately show ?thesis
    using snt rd by (intro tun_inv_client [OF b d u sy, where ?m2.0 = m and G = G and snt = "sent_by ?k ch r"])
      (auto simp: end_pipe_wires [OF G])
qed

lemma tun_inv_step:
  assumes z: "lz4_sound z" and inv: "tun_inv z cid n t" and n: "Suc n < 2 ^ 32"
    and st: "tun_exec z cid ev t = Some t'" and ok: "\<not> sy_crashed (tn_sys t')"
  shows "tun_inv z cid (Suc n) t'"
proof (cases ev)
  case (TSrv e)
  with st obtain y where y: "tame cid e (tn_sys t)" "srv_exec z e (tn_sys t) = Some y"
      "t' = t\<lparr>tn_sys := y, tn_fed := add_data (tn_fed t) (fed_by cid e (tn_sys t) y), tn_exts := note_ext cid e (tn_sys t) y (tn_exts t)\<rparr>"
    by (auto split: if_splits option.splits)
  with ok have "\<not> sy_crashed y" by simp
  from tun_inv_srv [OF z inv n y(1,2) this] y(3) show ?thesis by simp
next
  case (TCliPipe ch x r)
  with st obtain fl k1 where "(ch, x) \<in> set (k_pipes (tn_k t))" "short_read r" "k_pipe_step z ch x r (tn_k t) = (fl, k1)"
      "t' = t\<lparr>tn_k := end_pipe fl ch x k1, tn_sent := add_data (tn_sent t) (sent_by (tn_k t) ch r)\<rparr>"
    by (auto split: if_splits prod.splits)
  with tun_inv_pipe [OF z inv] show ?thesis by blast
next
  case (TCliUdpPipe ch x r)
  with st obtain fl k1 where "(ch, x) \<in> set (k_pipes (tn_k t))" "short_read r" "k_udp_pipe_step z ch x r (tn_k t) = (fl, k1)"
      "t' = t\<lparr>tn_k := end_pipe fl ch x k1, tn_sent := add_data (tn_sent t) (sent_by (tn_k t) ch r)\<rparr>"
    by (auto split: if_splits prod.splits)
  with tun_inv_pipe [OF z inv] show ?thesis by blast
next
  case TCliClose
  obtain c w where "base_inv cid n t c w" using inv unfolding tun_inv_def by blast
  then have conn: "k_conn (tn_k t) \<noteq> None" by (auto simp: base_inv_def)
  from st TCliClose obtain k1 where k1: "Client_Close (tn_k t) = Ret k1" "t' = t\<lparr>tn_k := k1\<rparr>" by (auto split: go.splits)
  then have le: "loop_exit (tn_k t) = (Return, k1)" by (simp add: loop_exit_def)
  from k1(2) kwires_loop_exit [OF conn le] shrinks_loop_exit [OF le] show ?thesis
    by (intro tun_inv_idle [OF inv, where t' = t' and G = "[]"]) (simp_all add: no_data_def)
qed (use tun_inv_srv_read [OF z inv n _ ok] tun_inv_read [OF inv] tun_inv_timeout [OF inv] st in simp_all)

lemma tun_reach_inv:
  assumes "tun_reach z cid n0 t0 n t" and "lz4_sound z" and "tun_inv z cid n0 t0" and "n < 2 ^ 32" and "\<not> sy_crashed (tn_sys t)"
  shows "tun_inv z cid n t"
  using assms(1,4,5)
proof (induction rule: tun_reach.induct)
  case tun_start
  show ?case by (rule assms(3))
next
  case (tun_event n t ev t')
  then show ?case using tun_inv_step [OF assms(2), of cid n t ev t'] by simp
qed

lemma tun_reach_start: "tun_reach z cid n0 t0 n t \<Longrightarrow> n0 \<le> n \<and> (\<not> sy_crashed (tn_sys t) \<longrightarrow> \<not> sy_crashed (tn_sys t0))"
  by (induction rule: tun_reach.induct) auto

text \<open>From the start of the server on.\<close>

lemma tunnel_inv:
  assumes "srv_reach z (sys_init cfg m r) n0 y" and "no_dyn m" and "lz4_sound z" and "just_registered cid y c w k"
    and "tun_reach z cid n0 (tun_init y c w k) n t" and "n < 2 ^ 32" and "\<not> sy_crashed (tn_sys t)"
  shows "tun_inv z cid n t"
proof -
  have "n0 < 2 ^ 32" "\<not> sy_crashed y" using tun_reach_start [OF assms(5)] assms(6,7) by (auto simp: tun_init_def)
  with srv_reach_inv [OF assms(1,2) this] all_free_reach [OF assms(1,2) this] tun_inv_init [of n0 y cid c w k z] assms(4)
  have "tun_inv z cid n0 (tun_init y c w k)" by blast
  from tun_reach_inv [OF assms(5,3) this assms(6,7)] show ?thesis .
qed

section \<open>The two directions\<close>

text \<open>The data of one channel on the way, \<open>q\<close> bytes having been read.\<close>

definition in_flight :: "lz4 \<Rightarrow> u32 \<Rightarrow> nat \<Rightarrow> wconn \<Rightarrow> bytes list" where
  "in_flight z ch q w = chunks z ch (frames_in (drop q (w_sent w)))"

lemma in_flight_log:
  assumes "wire_log B A w" and "read_upto B A m q w"
  shows "prefix (chunks z ch (take m A) @ in_flight z ch q w) (chunks z ch A)"
    and "w_room w \<noteq> Some 0 \<Longrightarrow> chunks z ch (take m A) @ in_flight z ch q w = chunks z ch A"
proof -
  have A: "chunks z ch A = chunks z ch (take m A) @ chunks z ch (drop m A)" by (simp flip: chunks_append)
  have "prefix (chunks z ch F) (chunks z ch D)" if "prefix F D" for F D using that by (auto simp: prefix_def)
  with frames_in_log [OF assms] A
  show "prefix (chunks z ch (take m A) @ in_flight z ch q w) (chunks z ch A)"
    and "w_room w \<noteq> Some 0 \<Longrightarrow> chunks z ch (take m A) @ in_flight z ch q w = chunks z ch A"
    by (simp_all add: in_flight_def)
qed

lemma lookup_tables: "lookup_local ch k = Some x \<Longrightarrow> tables k ch x"
  by (auto simp: lookup_local_def tables_def split: option.splits)

text \<open>A local connection has got the chunks of its channel that were read.\<close>

lemma local_got:
  assumes "tun_inv z cid n t" and "sv_objs (sy_srv (tn_sys t)) cid = Some c'" and "k_locals (tn_k t) x = Some l"
    and "(\<exists>u. tn_locals t x = Some (ch, u)) \<or> lookup_local ch (tn_k t) = Some x"
  obtains p where "prefix (lc_writes l) p" and "prefix p (tn_fed t ch)"
    and "lookup_local ch (tn_k t) = Some x \<Longrightarrow> \<not> lc_closed l \<Longrightarrow> lc_writes l = p"
    and "prefix (p @ in_flight z ch (tn_down t) (cl_wconn c')) (tn_fed t ch)"
    and "w_room (cl_wconn c') \<noteq> Some 0 \<Longrightarrow> p @ in_flight z ch (tn_down t) (cl_wconn c') = tn_fed t ch"
proof -
  from assms(1,2) obtain B A m where d: "down_inv z t c' B A m"
    unfolding tun_inv_def base_inv_def by auto
  note dd = d [unfolded down_inv_def]
  have log: "wire_log B A (cl_wconn c')" "read_upto B A m (tn_down t) (cl_wconn c')" and A: "chunks z ch A = tn_fed t ch"
    and cli: "cli_inv z (take m A) (tn_locals t) (tn_k t)" using dd by blast+
  from assms(4) obtain u where "tn_locals t x = Some (ch, u)" using cli_invD(3) [OF cli lookup_tables] by blast
  from cli_invD(1) [OF cli this] assms(3)
  have "prefix (lc_writes l) (chunks z ch (take m A))" "tables (tn_k t) ch x \<Longrightarrow> \<not> lc_closed l \<Longrightarrow> lc_writes l = chunks z ch (take m A)"
    by (auto simp: exact_def)
  moreover have "prefix (chunks z ch (take m A)) (tn_fed t ch)" by (metis A append_take_drop_id chunks_append prefix_def)
  ultimately show thesis
    using in_flight_log [OF log, of z ch] A lookup_tables by (intro that [of "chunks z ch (take m A)"]) simp_all
qed

lemma delivered:
  assumes "tun_inv z cid n t" and "sv_objs (sy_srv (tn_sys t)) cid = Some c'" and "k_locals (tn_k t) x = Some l"
    and "lookup_local ch (tn_k t) = Some x" and "\<not> lc_closed l" and "w_room (cl_wconn c') \<noteq> Some 0"
  shows "lc_writes l @ in_flight z ch (tn_down t) (cl_wconn c') = tn_fed t ch"
  by (rule local_got [OF assms(1-3), of ch]) (use assms(4-6) in auto)

text \<open>The same for an external connection.\<close>

lemma ext_got:
  assumes "tun_inv z cid n t" and "sv_objs (sy_srv (tn_sys t)) cid = Some c'" and "k_conn (tn_k t) = Some w'"
    and "tn_exts t x = Some ch \<or> map_of (cl_channelConns c') ch = Some x" and "sh_exts (sv_sh (sy_srv (tn_sys t))) x = Some b"
  obtains p where "prefix (x_sent b) (concat p)" and "prefix p (tn_sent t ch)"
    and "map_of (cl_channelConns c') ch = Some x \<Longrightarrow> \<not> x_closed b \<Longrightarrow> x_sent b = concat p"
    and "prefix (p @ in_flight z ch (tn_up t) w') (tn_sent t ch)"
    and "w_room w' \<noteq> Some 0 \<Longrightarrow> p @ in_flight z ch (tn_up t) w' = tn_sent t ch"
proof -
  from assms(1-3) obtain B M m where u: "up_inv z t c' w' B M m"
    unfolding tun_inv_def base_inv_def by auto
  note uu = u [unfolded up_inv_def]
  have log: "wire_log B M w'" "read_upto B M m (tn_up t) w'" and M: "chunks z ch M = tn_sent t ch" using uu by blast+
  from uu assms(4) obtain d where "sent_of (sv_sh (sy_srv (tn_sys t))) x = Some d" "prefix d (concat (chunks z ch (take m M)))"
      "map_of (cl_channelConns c') ch = Some x \<and> x \<notin> shut (sv_sh (sy_srv (tn_sys t))) \<longrightarrow> d = concat (chunks z ch (take m M))"
    unfolding ext_inv_def by blast
  then have "prefix (x_sent b) (concat (chunks z ch (take m M)))"
    "map_of (cl_channelConns c') ch = Some x \<Longrightarrow> \<not> x_closed b \<Longrightarrow> x_sent b = concat (chunks z ch (take m M))"
    using assms(5) by (simp_all add: sent_of_def shut_def)
  moreover have "prefix (chunks z ch (take m M)) (tn_sent t ch)" by (metis M append_take_drop_id chunks_append prefix_def)
  ultimately show thesis
    using in_flight_log [OF log, of z ch] M by (intro that [of "chunks z ch (take m M)"]) simp_all
qed

lemma ext_delivered:
  assumes "tun_inv z cid n t" and "sv_objs (sy_srv (tn_sys t)) cid = Some c'" and "k_conn (tn_k t) = Some w'"
    and "map_of (cl_channelConns c') ch = Some x" and "sh_exts (sv_sh (sy_srv (tn_sys t))) x = Some b" and "\<not> x_closed b"
    and "w_room w' \<noteq> Some 0"
  shows "x_sent b @ concat (in_flight z ch (tn_up t) w') = concat (tn_sent t ch)"
  by (rule ext_got [OF assms(1-3) disjI2 [OF assms(4)] assms(5)]) (use assms(4,6,7) in \<open>metis concat_append\<close>)

lemma prefix_concat: "prefix F D \<Longrightarrow> prefix (concat F) (concat D)"
  by (auto simp: prefix_def)

text \<open>The datagrams of a channel.\<close>

lemma udp_got:
  assumes "tun_inv z cid n t" and "sv_objs (sy_srv (tn_sys t)) cid = Some c'" and "k_conn (tn_k t) = Some w'"
  shows "prefix (tn_udp t ch) (tn_sent t ch)"
    and "ch \<in> open_ids c' \<Longrightarrow> prefix (tn_udp t ch @ in_flight z ch (tn_up t) w') (tn_sent t ch)"
    and "ch \<in> open_ids c' \<Longrightarrow> w_room w' \<noteq> Some 0 \<Longrightarrow> tn_udp t ch @ in_flight z ch (tn_up t) w' = tn_sent t ch"
proof -
  from assms obtain B M m where u: "up_inv z t c' w' B M m"
    unfolding tun_inv_def base_inv_def by auto
  note uu = u [unfolded up_inv_def udp_inv_def]
  have log: "wire_log B M w'" "read_upto B M m (tn_up t) w'" and M: "chunks z ch M = tn_sent t ch" using uu by blast+
  have p: "prefix (tn_udp t ch) (chunks z ch (take m M))" "ch \<in> open_ids c' \<Longrightarrow> tn_udp t ch = chunks z ch (take m M)"
    using uu by blast+
  have "prefix (chunks z ch (take m M)) (tn_sent t ch)" by (metis M append_take_drop_id chunks_append prefix_def)
  with p(1) show "prefix (tn_udp t ch) (tn_sent t ch)" by (rule prefix_order.trans)
  show "ch \<in> open_ids c' \<Longrightarrow> prefix (tn_udp t ch @ in_flight z ch (tn_up t) w') (tn_sent t ch)"
    and "ch \<in> open_ids c' \<Longrightarrow> w_room w' \<noteq> Some 0 \<Longrightarrow> tn_udp t ch @ in_flight z ch (tn_up t) w' = tn_sent t ch"
    using in_flight_log [OF log, of z ch] p(2) M by simp_all
qed

text \<open>
  Claim C1 (tunnel_downstream): however the server's goroutines, other clients, the client's
  read loop and its pipes interleave after the registration, a local connection got chunks
  of its own channel only, whole, in order and without gaps; while it is open and in the
  table, what it got and what is in flight is everything the server read for the channel,
  unless the relay connection is broken.
\<close>

theorem tunnel_downstream:
  assumes "srv_reach z (sys_init cfg m r) n0 y" and "no_dyn m" and "lz4_sound z" and "just_registered cid y c w k"
    and "tun_reach z cid n0 (tun_init y c w k) n t" and "n < 2 ^ 32" and "\<not> sy_crashed (tn_sys t)"
    and "sv_objs (sy_srv (tn_sys t)) cid = Some c'" and "tn_locals t x = Some (ch, u)" and "k_locals (tn_k t) x = Some l"
  shows "prefix (lc_writes l) (tn_fed t ch)
    \<and> (lookup_local ch (tn_k t) = Some x \<and> \<not> lc_closed l \<longrightarrow>
         prefix (lc_writes l @ in_flight z ch (tn_down t) (cl_wconn c')) (tn_fed t ch)
         \<and> (w_room (cl_wconn c') \<noteq> Some 0 \<longrightarrow> lc_writes l @ in_flight z ch (tn_down t) (cl_wconn c') = tn_fed t ch))"
proof -
  from tunnel_inv [OF assms(1-7)] have inv: "tun_inv z cid n t" .
  show ?thesis
    by (rule local_got [OF inv assms(8,10), of ch]) (use assms(9) prefix_order.trans in auto)
qed

theorem tunnel_downstream_witness:
  "\<exists>(t :: tunnel) l c'. sv_objs (sy_srv (tn_sys t)) 1 = Some c' \<and> k_locals (tn_k t) 0 = Some l \<and> lc_writes l = [[104, 105]]
    \<and> lc_writes l @ in_flight toy_lz4 2 (tn_down t) (cl_wconn c') = [[104, 105], [33]]"
proof -
  obtain y c w k t where r: "srv_reach toy_lz4 run_init 3 y" "just_registered 1 y c w k" "tun_reach toy_lz4 1 3 (tun_init y c w k) 12 t"
    and a: "run_at (fst run_wires) [1] (snd run_wires) [[104, 105]] (length (run_ok @ run_wire @ enc_frame (raw [104, 105])))
      (length (run_ready @ enc_frame (raw [1]))) [[104, 105], [33]] [[1], [2, 3]] t"
    using run_tunnel by blast
  note f = run_at_facts [OF a]
  have "(12 :: nat) < 2 ^ 32" by simp
  from tunnel_downstream [OF r(1) [unfolded run_init_def] run_no_dyn toy_lz4_sound r(2,3) this f(1,2,13), of
      "\<lparr>lc_addr = local_addr 22, lc_writes = [[104, 105]], lc_closed = False\<rparr>"] f run_w_room
  show ?thesis by (intro exI [of _ t] exI [of _ "\<lparr>lc_addr = local_addr 22, lc_writes = [[104, 105]], lc_closed = False\<rparr>"]
    exI [of _ "run_w (fst run_wires)"]) simp
qed





end
