(* ===== verification/Drain.thy ===== *)
theory Drain
  imports Tunnelled NoDeadlock
begin

text \<open>
  Progress. From every reachable state the client's read loop alone empties the connection
  from the server, and the server's relay loop alone the one from the client. As many
  iterations as there are frames in flight deliver all of them.
\<close>

section \<open>Repeated steps\<close>

fun run_steps :: "('e \<Rightarrow> 's \<Rightarrow> 's option) \<Rightarrow> 'e list \<Rightarrow> 's \<Rightarrow> 's option" where
  "run_steps st [] t = Some t"
| "run_steps st (e # es) t = Option.bind (st e t) (run_steps st es)"

text \<open>
  A reader: while it is ready for the environments \<open>es\<close>, one step with the first of them
  consumes the first frame of its input and leaves it ready for the rest.
\<close>

locale reader =
  fixes step :: "'e \<Rightarrow> 's \<Rightarrow> 's option" and input :: "'s \<Rightarrow> frame list" and ready :: "nat \<Rightarrow> 'e list \<Rightarrow> 's \<Rightarrow> bool"
  assumes takes_one: "ready n (e # es) t \<Longrightarrow> input t = f # F \<Longrightarrow> \<exists>t'. step e t = Some t' \<and> input t' = F \<and> ready (Suc n) es t'"
begin

lemma takes_all:
  "ready n es t \<Longrightarrow> length (input t) = length es \<Longrightarrow> \<exists>t'. run_steps step es t = Some t' \<and> input t' = [] \<and> ready (n + length es) [] t'"
proof (induction es arbitrary: n t)
  case (Cons e es)
  then obtain f F where fs: "input t = f # F" by (cases "input t") auto
  from takes_one [OF Cons.prems(1) fs] obtain t1 where "step e t = Some t1" "input t1 = F" "ready (Suc n) es t1" by blast
  with Cons.IH [of "Suc n" t1] Cons.prems(2) fs show ?case by auto
qed simp

end

section \<open>One frame\<close>

lemma k_data_kept: "k_closeCh (k_data e ch d k) = k_closeCh k \<and> dom (k_locals (k_data e ch d k)) = dom (k_locals k)"
  by (auto simp: k_data_def write_local_def Let_def split: option.split)

lemma k_close_kept: "k_closeCh (k_close ch k) = k_closeCh k \<and> dom (k_locals (k_close ch k)) = dom (k_locals k)"
  by (auto simp: k_close_def close_local_def Let_def split: option.split)

lemma handleControl_kept:
  "k_closeCh (handleControl e m k) = k_closeCh k \<and> dom (k_locals (handleControl e m k)) \<subseteq> insert (ce_new e) (dom (k_locals k))"
proof -
  have sent: "k_closeCh k2 = k_closeCh k1 \<and> k_locals k2 = k_locals k1" if "k_sendControl q k1 = (r, k2)" for q r k1 k2
    using that k_writeFrame_fields [of frameControl 0 "marshal_msg q" k1] by (auto simp: k_sendControl_def)
  show ?thesis
    by (auto simp: handleControl_def handleNewConn_def handleNewUDPConn_def Let_def dest!: sent split: prod.split go.split)
qed

lemma k_frame_kept:
  "k_closeCh (k_frame z e f k) = k_closeCh k \<and> dom (k_locals (k_frame z e f k)) \<subseteq> insert (ce_new e) (dom (k_locals k))"
  unfolding k_frame_def using handleControl_kept k_data_kept k_close_kept by (auto split: option.split)

text \<open>The frames that can be read, and the position after the first of them.\<close>

lemma frames_at:
  assumes "wire_log B A w" and "read_upto B A m q w"
  obtains s where "drop q (w_sent w) = concat (map enc_frame (frames_in (drop q (w_sent w)))) @ s" and "s = [] \<or> cut_frame s"
    and "list_all frame_ok (frames_in (drop q (w_sent w)))"
proof -
  obtain G s where G: "drop q (w_sent w) = concat (map enc_frame G) @ s" "prefix G (drop m A)" "G = drop m A \<and> s = [] \<or> w_room w = Some 0 \<and> cut_frame s"
    by (rule wire_log_read [OF assms])
  have "set G \<subseteq> set A" using G(2) set_drop_subset [of m A] by (auto simp: prefix_def)
  then have ok: "list_all frame_ok G" using assms(1) by (auto simp: wire_log_def list_all_iff)
  have s: "s = [] \<or> cut_frame s" using G(3) by blast
  with G(1) frames_in_enc [OF ok s] ok show thesis by (intro that [of s]) simp_all
qed

lemma drop_read:
  fixes b :: bytes
  assumes "drop q b = a @ r"
  shows "drop (length b - length (map RByte r)) b = r"
proof -
  have "b = (take q b @ a) @ r" using append_take_drop_id [of q b] assms by simp
  then show ?thesis by (metis append_eq_conv_conj diff_add_inverse2 length_append length_map)
qed

definition down_frames :: "u32 \<Rightarrow> tunnel \<Rightarrow> frame list" where
  "down_frames cid t = (case sv_objs (sy_srv (tn_sys t)) cid of
     Some c \<Rightarrow> frames_in (drop (tn_down t) (w_sent (cl_wconn c))) | None \<Rightarrow> [])"

text \<open>What stays when the client reads, and what it needs to read on.\<close>

definition reads_on :: "cli_env list \<Rightarrow> tunnel \<Rightarrow> bool" where
  "reads_on es t \<longleftrightarrow> tn_reading t \<and> k_closeCh (tn_k t) \<noteq> Some True \<and> list_all ce_write_ok es
     \<and> distinct (map ce_new es) \<and> ce_new ` set es \<inter> dom (k_locals (tn_k t)) = {}"

lemma read_one:
  assumes inv: "tun_inv z cid n t" and fs: "down_frames cid t = f # F" and on: "reads_on (e # es) t"
  shows "\<exists>t'. tun_exec z cid (TCliRead e) t = Some t' \<and> tn_sys t' = tn_sys t \<and> tn_fed t' = tn_fed t \<and> tn_sent t' = tn_sent t
    \<and> down_frames cid t' = F \<and> reads_on es t'"
proof -
  obtain c w B A m where b: "base_inv cid n t c w" and d: "down_inv z t c B A m"
    using inv unfolding tun_inv_def by blast
  let ?bs = "drop (tn_down t) (w_sent (cl_wconn c))" and ?e = "\<lambda>fs. concat (map enc_frame fs)"
  have obj: "sv_objs (sy_srv (tn_sys t)) cid = Some c" using b by (simp add: base_inv_def)
  have log: "wire_log B A (cl_wconn c)" "read_upto B A m (tn_down t) (cl_wconn c)" using d by (simp_all add: down_inv_def)
  have fe: "frames_in ?bs = f # F" using fs obj by (simp add: down_frames_def)
  obtain s where s: "s = [] \<or> cut_frame s" and ok: "list_all frame_ok (f # F)" and bs': "?bs = ?e (f # F) @ s"
    by (rule frames_at [OF log, unfolded fe])
  then have F: "frame_ok f" "list_all frame_ok F" and bs: "?bs = enc_frame f @ ?e F @ s" by simp_all
  let ?rest = "map RByte (?e F @ s)" and ?k = "k_frame z e f (tn_k t)"
  have rd: "cli_readFrame (map RByte ?bs) = (Ret f, ?rest)"
    using down.rd_frame [OF F(1), of ?rest] bs by simp
  let ?t = "t\<lparr>tn_k := ?k, tn_down := length (w_sent (cl_wconn c)) - length ?rest, tn_locals := note_local e f ?k (tn_locals t)\<rparr>"
  have "k_closeCh (tn_k t) \<noteq> Some True" using on by (simp add: reads_on_def)
  then have it: "k_iter z e (map RByte ?bs) (tn_k t) = ((Continue, ?k), ?rest)" using rd by (simp add: k_iter_def)
  have "k_locals (tn_k t) (ce_new e) = None" using on by (auto simp: reads_on_def)
  then have st: "tun_exec z cid (TCliRead e) t = Some ?t"
    using obj on rd it by (simp add: Let_def is_frame_def reads_on_def)
  have "drop (length (w_sent (cl_wconn c)) - length ?rest) (w_sent (cl_wconn c)) = ?e F @ s" by (rule drop_read [OF bs])
  then have "down_frames cid ?t = F" using obj frames_in_enc [OF F(2) s] by (simp add: down_frames_def)
  moreover have "ce_new ` set es \<inter> insert (ce_new e) (dom (k_locals (tn_k t))) = {}" using on by (auto simp: reads_on_def)
  then have "ce_new ` set es \<inter> dom (k_locals ?k) = {}" using k_frame_kept [of z e f "tn_k t"] by blast
  then have "reads_on es ?t" using on k_frame_kept [of z e f "tn_k t"] by (simp add: reads_on_def)
  ultimately show ?thesis using st by auto
qed

definition cli_reads :: "lz4 \<Rightarrow> u32 \<Rightarrow> cli_env list \<Rightarrow> tunnel \<Rightarrow> tunnel option" where
  "cli_reads z cid = run_steps (\<lambda>e. tun_exec z cid (TCliRead e))"

definition cli_ready :: "lz4 \<Rightarrow> u32 \<Rightarrow> nat \<Rightarrow> tunnel \<Rightarrow> tunnel \<Rightarrow> nat \<Rightarrow> cli_env list \<Rightarrow> tunnel \<Rightarrow> bool" where
  "cli_ready z cid n0 t0 u n es t \<longleftrightarrow> lz4_sound z \<and> tun_reach z cid n0 t0 n t \<and> tun_inv z cid n t \<and> \<not> sy_crashed (tn_sys t)
     \<and> n + length es < 2 ^ 32 \<and> reads_on es t \<and> tn_sys t = tn_sys u \<and> tn_fed t = tn_fed u"

interpretation cli_rd: reader "\<lambda>e. tun_exec z cid (TCliRead e)" "down_frames cid" "cli_ready z cid n0 t0 u" for z cid n0 t0 u
proof (unfold_locales, goal_cases)
  case (1 n e es t f F)
  note r = 1(1) [unfolded cli_ready_def]
  from read_one [OF _ 1(2), of z n e es] r obtain t1 where t1: "tun_exec z cid (TCliRead e) t = Some t1"
      "tn_sys t1 = tn_sys t" "tn_fed t1 = tn_fed t" "down_frames cid t1 = F" "reads_on es t1"
    by blast
  have "tun_reach z cid n0 t0 (Suc n) t1" using tun_event [OF _ _ t1(1)] r by blast
  moreover have ok: "\<not> sy_crashed (tn_sys t1)" unfolding t1(2) using r by blast
  have "tun_inv z cid (Suc n) t1" by (rule tun_inv_step [OF _ _ _ t1(1) ok]) (use r in simp_all)
  ultimately show ?case using r t1 ok by (auto simp: cli_ready_def simp del: tun_exec.simps)
qed

text \<open>
  Claim C4 (tunnel_drains): from every reachable state in which the client's read loop runs
  and the relay connection works, one iteration per frame in flight delivers everything:
  each open local connection has then got all the server ever read for its channel. No
  other goroutine has to move for it.
\<close>

theorem tunnel_drains:
  assumes "srv_reach z (sys_init cfg m r) n0 y" and "no_dyn m" and "lz4_sound z" and "just_registered cid y c w k"
    and "tun_reach z cid n0 (tun_init y c w k) n t" and "\<not> sy_crashed (tn_sys t)"
    and "sv_objs (sy_srv (tn_sys t)) cid = Some c'" and "w_room (cl_wconn c') \<noteq> Some 0"
    and "length (down_frames cid t) = length es" and "reads_on es t" and "n + length es < 2 ^ 32"
  shows "\<exists>t'. cli_reads z cid es t = Some t' \<and> tn_sys t' = tn_sys t \<and> tn_fed t' = tn_fed t
    \<and> (\<forall>ch x l. lookup_local ch (tn_k t') = Some x \<and> k_locals (tn_k t') x = Some l \<and> \<not> lc_closed l \<longrightarrow> lc_writes l = tn_fed t ch)"
proof -
  have inv: "tun_inv z cid n t" using tunnel_inv [OF assms(1-5) _ assms(6)] assms(11) by simp
  then have "cli_ready z cid n0 (tun_init y c w k) t n es t" using assms(3,5,6,10,11) by (simp add: cli_ready_def)
  from cli_rd.takes_all [OF this assms(9)] obtain t' where t': "cli_reads z cid es t = Some t'"
      "tun_reach z cid n0 (tun_init y c w k) (n + length es) t'" "tn_sys t' = tn_sys t" "tn_fed t' = tn_fed t" "down_frames cid t' = []"
    unfolding cli_reads_def cli_ready_def by blast
  have "tun_inv z cid (n + length es) t'"
    using tunnel_inv [OF assms(1-4) t'(2) assms(11)] assms(6) t'(3) by simp
  moreover have "lc_writes l = tn_fed t ch" if "lookup_local ch (tn_k t') = Some x" "k_locals (tn_k t') x = Some l" "\<not> lc_closed l" for ch x l
    using delivered [OF calculation, of c'] that t' assms(7,8) by (simp add: down_frames_def in_flight_def)
  ultimately show ?thesis using t' by blast
qed

theorem tunnel_drains_witness:
  "\<exists>(t :: tunnel) e (t' :: tunnel) l. tn_fed t 2 = [[104, 105], [33]] \<and> map_option lc_writes (k_locals (tn_k t) 0) = Some [[104, 105]]
    \<and> tun_exec toy_lz4 1 (TCliRead e) t = Some t' \<and> k_locals (tn_k t') 0 = Some l \<and> lc_writes l = [[104, 105], [33]]"
proof -
  obtain y c w k t where r: "srv_reach toy_lz4 run_init 3 y" "just_registered 1 y c w k" "tun_reach toy_lz4 1 3 (tun_init y c w k) 12 t"
    and a: "run_at (fst run_wires) [1] (snd run_wires) [[104, 105]] (length (run_ok @ run_wire @ enc_frame (raw [104, 105])))
      (length (run_ready @ enc_frame (raw [1]))) [[104, 105], [33]] [[1], [2, 3]] t"
    using run_tunnel by blast
  note f = run_at_facts [OF a]
  let ?e = "\<lparr>ce_now = 0, ce_dial = True, ce_new = 1, ce_write_ok = True\<rparr>"
  have d: "drop (tn_down t) (w_sent (cl_wconn (run_w (fst run_wires)))) = enc_frame (raw [33])"
    by (simp add: f(9) run_w_room run_wires_def)
  have "frames_in (enc_frame (raw [33])) = [raw [33]]" using frames_in_enc [of "[raw [33]]" "[]"] raw_ok [of "[33]"] by simp
  then have n: "length (down_frames 1 t) = length [?e]" by (simp add: down_frames_def f(2) d)
  have on: "reads_on [?e] t" by (simp add: reads_on_def f(6,7,8))
  have "w_room (cl_wconn (run_w (fst run_wires))) \<noteq> Some 0" by (simp add: run_w_room)
  from tunnel_drains [OF r(1) [unfolded run_init_def] run_no_dyn toy_lz4_sound r(2,3) f(1,2) this n on]
  obtain t' where t': "cli_reads toy_lz4 1 [?e] t = Some t'"
    and l: "\<And>ch x l. lookup_local ch (tn_k t') = Some x \<Longrightarrow> k_locals (tn_k t') x = Some l \<Longrightarrow> \<not> lc_closed l \<Longrightarrow> lc_writes l = tn_fed t ch"
    by auto
  then have st: "tun_exec toy_lz4 1 (TCliRead ?e) t = Some t'" by (auto simp: cli_reads_def simp del: tun_exec.simps split: bind_splits)
  have "drop (length (run_ok @ run_wire @ enc_frame (raw [104, 105]))) (fst run_wires) = enc_frame (raw [33])"
    by (simp add: run_wires_def)
  from run_data [OF a this] obtain t2 dn x up ds q p fed snt where "tun_exec toy_lz4 1 (TCliRead ?e) t = Some t2"
      "run_at dn x up ds q p fed snt t2"
    by fastforce
  with st have g: "run_at dn x up ds q p fed snt t'" by simp
  note g = run_at_facts [OF g]
  have "ds = tn_fed t 2" using l [OF g(5)] g(7) by simp
  with g(7) f(7,11) st show ?thesis by (intro exI [of _ t] exI [of _ ?e] exI [of _ t']) (simp del: tun_exec.simps)
qed

section \<open>The server reads\<close>

definition up_frames :: "tunnel \<Rightarrow> frame list" where
  "up_frames t = (case k_conn (tn_k t) of Some w \<Rightarrow> frames_in (drop (tn_up t) (w_sent w)) | None \<Rightarrow> [])"

definition srv_reads :: "lz4 \<Rightarrow> u32 \<Rightarrow> srv_env list \<Rightarrow> tunnel \<Rightarrow> tunnel option" where
  "srv_reads z cid = run_steps (\<lambda>e. tun_exec z cid (TSrvRead e))"

definition srv_ready :: "lz4 \<Rightarrow> u32 \<Rightarrow> nat list \<Rightarrow> nat \<Rightarrow> tunnel \<Rightarrow> tunnel \<Rightarrow> nat \<Rightarrow> srv_env list \<Rightarrow> tunnel \<Rightarrow> bool" where
  "srv_ready z cid lns n0 t0 u n es t \<longleftrightarrow> lz4_sound z \<and> tun_inv z cid n0 t0 \<and> tun_reach z cid n0 t0 n t
     \<and> \<not> sy_crashed (tn_sys t) \<and> n + length es < 2 ^ 32 \<and> list_all (\<lambda>e. se_ext_write e = None) es
     \<and> sy_phase (tn_sys t) cid = PServing lns \<and> tn_k t = tn_k u \<and> tn_sent t = tn_sent u"

text \<open>No mutex of the server is ever left locked, so its relay loop goes on.\<close>

lemma serve_one:
  assumes inv: "tun_inv z cid n t" and ph: "sy_phase (tn_sys t) cid = PServing lns"
    and fs: "up_frames t = f # F" and e: "se_ext_write e = None"
  shows "\<exists>t'. tun_exec z cid (TSrvRead e) t = Some t' \<and> tn_k t' = tn_k t \<and> tn_sent t' = tn_sent t \<and> up_frames t' = F
    \<and> sy_phase (tn_sys t') cid = PServing lns \<and> \<not> sy_crashed (tn_sys t')"
proof -
  obtain c w B M m where b: "base_inv cid n t c w" and u: "up_inv z t c w B M m"
    using inv unfolding tun_inv_def by blast
  have obj: "sv_objs (sy_srv (tn_sys t)) cid = Some c" and w: "k_conn (tn_k t) = Some w" and free: "all_free (tn_sys t)"
    using b by (simp_all add: base_inv_def)
  have log: "wire_log B M w" "read_upto B M m (tn_up t) w" using u by (simp_all add: up_inv_def)
  have fe: "frames_in (drop (tn_up t) (w_sent w)) = f # F" using fs w by (simp add: up_frames_def)
  obtain s where s: "s = [] \<or> cut_frame s" and ok: "list_all frame_ok (f # F)"
      and bs': "drop (tn_up t) (w_sent w) = concat (map enc_frame (f # F)) @ s"
    by (rule frames_at [OF log, unfolded fe])
  then have F: "frame_ok f" "list_all frame_ok F" "s = [] \<or> cut_frame s"
    and bs: "drop (tn_up t) (w_sent w) = enc_frame f @ concat (map enc_frame F) @ s" by simp_all
  let ?rest = "map RByte (concat (map enc_frame F) @ s)"
  have rd: "srv_readFrame (map RByte (drop (tn_up t) (w_sent w))) = (Ret f, ?rest)"
    using srv_readFrame_enc [OF F(1), of ?rest] bs by simp
  obtain fl c1 s1 where fr: "relay_frame z e f c (sv_sh (sy_srv (tn_sys t))) = (fl, c1, s1)" by (metis prod.exhaust)
  from relay_frame_free [OF fr all_freeD(3) [OF free obj]] have fl: "fl = Continue" by blast
  let ?y = "set_phase cid (PServing lns) (put cid (Continue, c1, s1) (tn_sys t))"
  let ?t = "t\<lparr>tn_sys := ?y, tn_up := length (w_sent w) - length ?rest,
    tn_udp := add_data (tn_udp t) (datagrams (f_chan f) (tn_sys t) ?y)\<rparr>"
  have "srv_exec z (EvFrame cid e f) (tn_sys t) = Some ?y"
    using obj ph fr fl by (simp add: live_def goes_on_def)
  then have st: "tun_exec z cid (TSrvRead e) t = Some ?t"
    using w e rd by (simp del: srv_exec.simps)
  have "drop (length (w_sent w) - length ?rest) (w_sent w) = concat (map enc_frame F) @ s" by (rule drop_read [OF bs])
  then have "up_frames ?t = F"
    using w frames_in_enc [OF F(2,3)] by (simp add: up_frames_def)
  with st show ?thesis by (simp add: crashed_put)
qed

interpretation srv_rd: reader "\<lambda>e. tun_exec z cid (TSrvRead e)" up_frames "srv_ready z cid lns n0 t0 u" for z cid lns n0 t0 u
proof (unfold_locales, goal_cases)
  case (1 n e es t f F)
  note r = 1(1) [unfolded srv_ready_def]
  have inv: "tun_inv z cid n t" using tun_reach_inv [of z cid n0 t0 n t] r by simp
  have "sy_phase (tn_sys t) cid = PServing lns" "se_ext_write e = None" using r by simp_all
  from serve_one [OF inv this(1) 1(2) this(2)] obtain t1 where t1: "tun_exec z cid (TSrvRead e) t = Some t1"
      "tn_k t1 = tn_k t" "tn_sent t1 = tn_sent t" "up_frames t1 = F" "sy_phase (tn_sys t1) cid = PServing lns" "\<not> sy_crashed (tn_sys t1)"
    by blast
  have "tun_reach z cid n0 t0 (Suc n) t1" using tun_event [OF _ _ t1(1)] r by blast
  then show ?case using r t1 by (auto simp: srv_ready_def simp del: tun_exec.simps)
qed



end
