(* ===== verification/TunnelCount.thy ===== *)
theory TunnelCount
  imports Tunnelled
begin

text \<open>
  The client's counter of active channels in the composed tunnel. \<open>RelayClient\<close> shows it exact
  for a server that never announces an id in use; here the server's counter of ids, the
  order of the stream and the client's tables give just that.
\<close>

section \<open>The other steps of the client\<close>

lemma counted_ends:
  "Client_Close k = Ret k' \<Longrightarrow> counted b k \<Longrightarrow> counted b k'"
  "loop_exit k = (fl, k') \<Longrightarrow> counted b k \<Longrightarrow> counted b k'"
  by (auto simp: loop_exit_def Client_Close_def k_closeConn_def counted_def split: option.splits if_splits)

lemma counted_end_pipe: "counted b k \<Longrightarrow> counted b (end_pipe fl ch x k)"
  by (auto simp: end_pipe_def counted_def)

lemma counted_iter:
  assumes "k_iter z e input k = ((fl, k'), rest)" and "counted b k"
    and "\<And>f rest'. cli_readFrame input = (Ret f, rest') \<Longrightarrow> k_fresh (KFrame e f) k"
  shows "counted b k'"
proof -
  have ping: "counted b k1" if "k_sendControl m k = (r, k1)" for m r k1
    using that assms(2) k_sendControl_fields [of m k] by (simp add: counted_def)
  have frame: "counted b (k_frame z e f k)" if "cli_readFrame input = (Ret f, rest')" for f rest'
    using counted_step [OF assms(2) assms(3) [OF that], of z] by simp
  show ?thesis
  proof (cases "k_closeCh k = Some True")
    case True
    with assms(1) have "loop_exit k = (fl, k')" by (simp add: k_iter_def)
    with assms(2) counted_ends(2) show ?thesis by blast
  next
    case False
    obtain r k1 where sd: "k_sendControl (zero_msg\<lparr>c_Type := ''ping''\<rparr>) k = (r, k1)" by force
    have same: "c0 = k1" if "r = Ret c0" for c0 using sd that k_writeFrame_Ret_same by (simp add: k_sendControl_def)
    show ?thesis
      using assms(1,2) False sd ping [OF sd] frame counted_ends(2) same
      by (auto simp: k_iter_def split: prod.splits go.splits if_splits)
  qed
qed

section \<open>Fresh ids\<close>

lemma opened_fresh:
  assumes "cli_inv z P lch k" and "\<And>ch. opens_ch f = Some ch \<Longrightarrow> ch \<notin> seen z P"
  shows "k_fresh (KFrame e f) k"
proof -
  have no: "ch \<notin> fst ` set (k_channels k)" "ch \<notin> fst ` set (k_udpChannels k)" if "opens_ch f = Some ch" for ch
    using cli_inv_untabled [OF assms(1) assms(2) [OF that]] by (simp_all add: map_of_eq_None_iff)
  show ?thesis
  proof (cases "unmarshal_msg (f_payload f)")
    case (Some msg)
    then show ?thesis using no [of "c_ChannelID msg"] by (simp add: opens_ch_def)
  qed simp
qed

lemma read_fresh:
  assumes "tun_inv z cid n t" and "sv_objs (sy_srv (tn_sys t)) cid = Some c"
    and "cli_readFrame (map RByte (drop (tn_down t) (w_sent (cl_wconn c)))) = (Ret f, rest)"
  shows "k_fresh (KFrame e f) (tn_k t)"
proof -
  from assms(1,2) obtain B A m where d: "down_inv z t c B A m" unfolding tun_inv_def base_inv_def by auto
  note dd = d [unfolded down_inv_def]
  have log: "wire_log B A (cl_wconn c)" "read_upto B A m (tn_down t) (cl_wconn c)" using dd by blast+
  note nx = read_next [OF log, unfolded cli_readFrame_eq [symmetric], OF assms(3)]
  have "A = take m A @ f # drop (Suc m) A" using nx(1,2) id_take_nth_drop by blast
  then have "opened_once z {} (take m A @ f # drop (Suc m) A)" using dd by argo
  then have "ch \<notin> seen z (take m A)" if "opens_ch f = Some ch" for ch using that by (simp add: opened_once_append)
  moreover have "cli_inv z (take m A) (tn_locals t) (tn_k t)" using dd by blast
  ultimately show ?thesis by (rule opened_fresh [rotated])
qed

section \<open>The counter\<close>

lemma counted_event:
  assumes inv: "tun_inv z cid n t" and st: "tun_exec z cid ev t = Some t'" and c: "counted b (tn_k t)"
  shows "counted b (tn_k t')"
proof (cases ev)
  case (TCliRead e)
  from st TCliRead obtain c where obj: "sv_objs (sy_srv (tn_sys t)) cid = Some c" by (auto split: option.splits)
  let ?input = "map RByte (drop (tn_down t) (w_sent (cl_wconn c)))"
  obtain fl k1 rest where it: "k_iter z e ?input (tn_k t) = ((fl, k1), rest)" by (metis prod.exhaust)
  have "counted b k1" by (rule counted_iter [OF it c read_fresh [OF inv obj]])
  moreover have "tn_k t' = k1" using st TCliRead obj it by (auto simp: Let_def split: if_splits)
  ultimately show ?thesis by simp
next
  case (TCliTimeout e)
  from st TCliTimeout obtain fl k1 rest where it: "k_iter z e [RTimeout] (tn_k t) = ((fl, k1), rest)" and "tn_k t' = k1"
    by (auto split: option.splits if_splits prod.splits)
  moreover have "fst (cli_readFrame [RTimeout]) = Err Timeout"
    using cli_readFrame_timeout_header [of 0] by (simp add: frameHeaderSize_def)
  ultimately show ?thesis by (simp only:) (rule counted_iter [OF it c], simp del: k_fresh.simps)
next
  case (TCliPipe ch x r)
  with st obtain fl k1 where "k_pipe_step z ch x r (tn_k t) = (fl, k1)" "tn_k t' = end_pipe fl ch x k1"
    by (auto split: if_splits prod.splits)
  with counted_step [OF c, of "KPipe ch x r" z] counted_end_pipe show ?thesis by simp
next
  case (TCliUdpPipe ch x r)
  with st obtain fl k1 where "k_udp_pipe_step z ch x r (tn_k t) = (fl, k1)" "tn_k t' = end_pipe fl ch x k1"
    by (auto split: if_splits prod.splits)
  with counted_step [OF c, of "KUdpPipe ch x r" z] counted_end_pipe show ?thesis by simp
next
  case TCliClose
  with st counted_ends(1) [OF _ c] show ?thesis by (auto split: go.splits)
qed (use st c in \<open>auto simp del: srv_exec.simps split: if_splits option.splits go.splits prod.splits\<close>)

text \<open>
  Claim C10 (tunnel_channels_counted): in every reachable state of the composed tunnel the
  client's counter of active channels has grown by exactly the number of TCP and UDP
  channels in its tables, and no table has an id twice. That the server never announces an
  id in use is not assumed: it follows from its counter and the order of the stream.
\<close>

theorem tunnel_channels_counted:
  assumes "srv_reach z (sys_init cfg m r) n0 y" and "no_dyn m" and "lz4_sound z" and "just_registered cid y c w k"
    and "tun_reach z cid n0 (tun_init y c w k) n t" and "n < 2 ^ 32" and "\<not> sy_crashed (tn_sys t)"
  shows "k_activeChan (tn_k t) = k_activeChan k + int (length (k_channels (tn_k t)) + length (k_udpChannels (tn_k t)))
    \<and> distinct (map fst (k_channels (tn_k t))) \<and> distinct (map fst (k_udpChannels (tn_k t)))"
proof -
  have "counted (k_activeChan k) (tn_k t)" using assms(5-7)
  proof (induction rule: tun_reach.induct)
    case tun_start
    show ?case using assms(4) by (simp add: tun_init_def just_registered_def counted_def)
  next
    case (tun_event n t ev t')
    then have "tun_inv z cid n t" by (intro tunnel_inv [OF assms(1-4) tun_event(1)]) simp_all
    with tun_event show ?case by (intro counted_event [OF _ tun_event(3)]) simp_all
  qed
  then show ?thesis by (simp add: counted_def)
qed

theorem tunnel_channels_counted_witness:
  "\<exists>y c w k (t :: tunnel). tun_reach toy_lz4 1 3 (tun_init y c w k) 12 t \<and> lookup_local 2 (tn_k t) = Some 0
    \<and> k_activeChan (tn_k t) = k_activeChan k + int (length (k_channels (tn_k t)) + length (k_udpChannels (tn_k t)))"
proof -
  obtain y c w k t where r: "srv_reach toy_lz4 run_init 3 y" "just_registered 1 y c w k" "tun_reach toy_lz4 1 3 (tun_init y c w k) 12 t"
    and a: "run_at (fst run_wires) [1] (snd run_wires) [[104, 105]] (length (run_ok @ run_wire @ enc_frame (raw [104, 105])))
      (length (run_ready @ enc_frame (raw [1]))) [[104, 105], [33]] [[1], [2, 3]] t"
    using run_tunnel by blast
  note f = run_at_facts [OF a]
  have "(12 :: nat) < 2 ^ 32" by simp
  from tunnel_channels_counted [OF r(1) [unfolded run_init_def] run_no_dyn toy_lz4_sound r(2,3) this f(1)] r(3) f(5)
  show ?thesis by blast
qed

end
