(* ===== verification/DynProtocol.thy ===== *)
theory DynProtocol
  imports Control "HOL-Library.Char_ord" "HOL-Library.List_Lexorder"
begin

text \<open>
  The line protocol between the program and a plugin process (\<open>dynplugin/protocol.go\<close>,
  \<open>dynplugin/sdk.go\<close> and \<open>parseExec\<close> of \<open>dynplugin/process.go\<close>): one JSON document a line,
  first the plugin's handshake, then requests and responses matched by their id; a request
  with id 0 is a notification. A Go map with string keys is the list of its members, which
  \<open>json.Marshal\<close> writes in the order of the keys.
\<close>

section \<open>Messages\<close>

type_synonym jmap = "(string \<times> json) list"

record Handshake =
  hs_Name :: string
  hs_Version :: string
  hs_Hooks :: "string list"

record PluginManifest =
  mf_Name :: string
  mf_Version :: string
  mf_Type :: string
  mf_Hooks :: "string list"
  mf_Exec :: string
  mf_Config :: jmap
  mf_Enabled :: "bool option"

record Request =
  rq_ID :: int
  rq_Method :: string
  rq_Params :: jmap

record Response =
  rs_ID :: int
  rs_Result :: jmap
  rs_Error :: string

record ConfigMessage =
  cm_Type :: string
  cm_Data :: jmap

definition jmap_json :: "jmap \<Rightarrow> json" where
  "jmap_json m = JObj (sort_key fst m)"

definition handshake_json :: "Handshake \<Rightarrow> json" where
  "handshake_json h = JObj [(''name'', JStr (hs_Name h)), (''version'', JStr (hs_Version h)),
     (''hooks'', if hs_Hooks h = [] then JNull else JArr (map JStr (hs_Hooks h)))]"

definition request_json :: "Request \<Rightarrow> json" where
  "request_json r = JObj ([(''id'', j_int (rq_ID r)), (''method'', JStr (rq_Method r))]
     @ omit (rq_Params r = []) ''params'' (jmap_json (rq_Params r)))"

definition response_json :: "Response \<Rightarrow> json" where
  "response_json r = JObj ([(''id'', j_int (rs_ID r))]
     @ omit (rs_Result r = []) ''result'' (jmap_json (rs_Result r))
     @ omit (rs_Error r = []) ''error'' (JStr (rs_Error r)))"

definition config_json :: "ConfigMessage \<Rightarrow> json" where
  "config_json c = JObj [(''type'', JStr (cm_Type c)), (''data'', jmap_json (cm_Data c))]"

text \<open>A JSON object is stored member by member into the map, null makes it nil.\<close>

fun d_map :: "jmap \<Rightarrow> json \<Rightarrow> jmap option" where
  "d_map old (JObj kvs) = Some (fold (\<lambda>(k, v) m. AList.update k v m) kvs old)"
| "d_map old JNull = Some []"
| "d_map old _ = None"

fun d_bool_ptr :: "json \<Rightarrow> bool option option" where
  "d_bool_ptr (JBool b) = Some (Some b)"
| "d_bool_ptr JNull = Some None"
| "d_bool_ptr _ = None"

definition handshake_field :: "Handshake \<Rightarrow> string \<Rightarrow> json \<Rightarrow> Handshake option" where
  "handshake_field h k v =
     (if k = ''name'' then map_option (\<lambda>x. h\<lparr>hs_Name := x\<rparr>) (d_str (hs_Name h) v)
      else if k = ''version'' then map_option (\<lambda>x. h\<lparr>hs_Version := x\<rparr>) (d_str (hs_Version h) v)
      else if k = ''hooks'' then map_option (\<lambda>x. h\<lparr>hs_Hooks := x\<rparr>) (d_list (d_str []) v)
      else Some h)"

definition manifest_field :: "PluginManifest \<Rightarrow> string \<Rightarrow> json \<Rightarrow> PluginManifest option" where
  "manifest_field p k v =
     (if k = ''name'' then map_option (\<lambda>x. p\<lparr>mf_Name := x\<rparr>) (d_str (mf_Name p) v)
      else if k = ''version'' then map_option (\<lambda>x. p\<lparr>mf_Version := x\<rparr>) (d_str (mf_Version p) v)
      else if k = ''type'' then map_option (\<lambda>x. p\<lparr>mf_Type := x\<rparr>) (d_str (mf_Type p) v)
      else if k = ''hooks'' then map_option (\<lambda>x. p\<lparr>mf_Hooks := x\<rparr>) (d_list (d_str []) v)
      else if k = ''exec'' then map_option (\<lambda>x. p\<lparr>mf_Exec := x\<rparr>) (d_str (mf_Exec p) v)
      else if k = ''config'' then map_option (\<lambda>x. p\<lparr>mf_Config := x\<rparr>) (d_map (mf_Config p) v)
      else if k = ''enabled'' then map_option (\<lambda>x. p\<lparr>mf_Enabled := x\<rparr>) (d_bool_ptr v)
      else Some p)"

definition request_field :: "Request \<Rightarrow> string \<Rightarrow> json \<Rightarrow> Request option" where
  "request_field r k v =
     (if k = ''id'' then map_option (\<lambda>x. r\<lparr>rq_ID := x\<rparr>) (d_int (rq_ID r) v)
      else if k = ''method'' then map_option (\<lambda>x. r\<lparr>rq_Method := x\<rparr>) (d_str (rq_Method r) v)
      else if k = ''params'' then map_option (\<lambda>x. r\<lparr>rq_Params := x\<rparr>) (d_map (rq_Params r) v)
      else Some r)"

definition response_field :: "Response \<Rightarrow> string \<Rightarrow> json \<Rightarrow> Response option" where
  "response_field r k v =
     (if k = ''id'' then map_option (\<lambda>x. r\<lparr>rs_ID := x\<rparr>) (d_int (rs_ID r) v)
      else if k = ''result'' then map_option (\<lambda>x. r\<lparr>rs_Result := x\<rparr>) (d_map (rs_Result r) v)
      else if k = ''error'' then map_option (\<lambda>x. r\<lparr>rs_Error := x\<rparr>) (d_str (rs_Error r) v)
      else Some r)"

text \<open>\<open>json.Unmarshal\<close> of a line into a struct that starts as the given value.\<close>

definition d_struct :: "('m \<Rightarrow> string \<Rightarrow> json \<Rightarrow> 'm option) \<Rightarrow> 'm \<Rightarrow> string \<Rightarrow> 'm option" where
  "d_struct field zero text =
     (case parse_json text of
        Some (JObj kvs) \<Rightarrow> d_members field zero kvs
      | Some JNull \<Rightarrow> Some zero
      | _ \<Rightarrow> None)"

definition zero_handshake :: Handshake where
  "zero_handshake = \<lparr>hs_Name = [], hs_Version = [], hs_Hooks = []\<rparr>"

definition zero_manifest :: PluginManifest where
  "zero_manifest = \<lparr>mf_Name = [], mf_Version = [], mf_Type = [], mf_Hooks = [], mf_Exec = [],
     mf_Config = [], mf_Enabled = None\<rparr>"

definition zero_request :: Request where
  "zero_request = \<lparr>rq_ID = 0, rq_Method = [], rq_Params = []\<rparr>"

definition zero_response :: Response where
  "zero_response = \<lparr>rs_ID = 0, rs_Result = [], rs_Error = []\<rparr>"

definition parse_handshake :: "string \<Rightarrow> Handshake option" where
  "parse_handshake = d_struct handshake_field zero_handshake"

definition parse_manifest :: "string \<Rightarrow> PluginManifest option" where
  "parse_manifest = d_struct manifest_field zero_manifest"

definition parse_request :: "string \<Rightarrow> Request option" where
  "parse_request = d_struct request_field zero_request"

definition parse_response :: "string \<Rightarrow> Response option" where
  "parse_response = d_struct response_field zero_response"

definition request_line :: "Request \<Rightarrow> string" where
  "request_line r = print_json (request_json r)"

definition response_line :: "Response \<Rightarrow> string" where
  "response_line r = print_json (response_json r)"

section \<open>The command line of a plugin\<close>

text \<open>
  \<open>parseExec\<close>: words separated by spaces; double quotes, which are dropped, keep spaces in a
  word. The arguments of the loop are its variables \<open>parts\<close>, \<open>current\<close>, \<open>inQuote\<close> and
  \<open>quoteChar\<close>.
\<close>

fun parse_exec_loop :: "string \<Rightarrow> string list \<Rightarrow> string \<Rightarrow> bool \<Rightarrow> char \<Rightarrow> string list \<times> string" where
  "parse_exec_loop [] parts current inQuote quoteChar = (parts, current)"
| "parse_exec_loop (r # rs) parts current inQuote quoteChar =
     (if r = CHR 0x22 \<and> \<not> inQuote then parse_exec_loop rs parts current True r
      else if r = quoteChar \<and> inQuote then parse_exec_loop rs parts current False (CHR 0x00)
      else if r = CHR '' '' \<and> \<not> inQuote then
        (if current \<noteq> [] then parse_exec_loop rs (parts @ [current]) [] inQuote quoteChar
         else parse_exec_loop rs parts current inQuote quoteChar)
      else parse_exec_loop rs parts (current @ [r]) inQuote quoteChar)"

definition parseExec :: "string \<Rightarrow> string list option" where
  "parseExec execStr =
     (case parse_exec_loop execStr [] [] False (CHR 0x00) of
        (parts, current) \<Rightarrow>
          (let parts' = (if current \<noteq> [] then parts @ [current] else parts)
           in if parts' = [] then None else Some parts'))"

text \<open>How a word is written so that it survives.\<close>

definition quote_word :: "string \<Rightarrow> string" where
  "quote_word w = (if CHR '' '' \<in> set w then [CHR 0x22] @ w @ [CHR 0x22] else w)"

lemma parse_exec_plain:
  "CHR 0x22 \<notin> set w \<Longrightarrow> CHR '' '' \<notin> set w \<Longrightarrow>
   parse_exec_loop (w @ s) parts cur False q = parse_exec_loop s parts (cur @ w) False q"
  by (induction w arbitrary: cur) auto

lemma parse_exec_inside:
  "CHR 0x22 \<notin> set w \<Longrightarrow>
   parse_exec_loop (w @ s) parts cur True (CHR 0x22) = parse_exec_loop s parts (cur @ w) True (CHR 0x22)"
  by (induction w arbitrary: cur) auto

lemma parse_exec_word:
  assumes "CHR 0x22 \<notin> set w"
  shows "parse_exec_loop (quote_word w @ s) parts cur False (CHR 0x00)
    = parse_exec_loop s parts (cur @ w) False (CHR 0x00)"
  using assms by (simp add: quote_word_def parse_exec_plain parse_exec_inside)

lemma parse_exec_join:
  assumes "list_all (\<lambda>w. w \<noteq> [] \<and> CHR 0x22 \<notin> set w) ws" and "ws \<noteq> []"
  shows "parse_exec_loop (join_str (map quote_word ws) '' '') parts [] False (CHR 0x00) = (parts @ butlast ws, last ws)"
  using assms
proof (induction ws arbitrary: parts)
  case (Cons w ws)
  then show ?case
  proof (cases ws)
    case Nil
    with Cons.prems parse_exec_word [of w "[]"] show ?thesis by simp
  next
    case (Cons v vs)
    with Cons.prems Cons.IH [of "parts @ [w]"] show ?thesis by (simp add: parse_exec_word)
  qed
qed simp

text \<open>
  A command line whose words are joined by spaces, those with spaces in double quotes, is
  split into exactly these words, if none is empty or holds a double quote.
\<close>

lemma parse_exec_words:
  assumes "list_all (\<lambda>w. w \<noteq> [] \<and> CHR 0x22 \<notin> set w) ws" and "ws \<noteq> []"
  shows "parseExec (join_str (map quote_word ws) '' '') = Some ws"
proof -
  have "last ws \<noteq> []" using assms by (simp add: list_all_iff)
  then show ?thesis using assms by (simp add: parseExec_def parse_exec_join)
qed

section \<open>The plugin's side\<close>

text \<open>
  \<open>bufio.Scanner\<close> with a buffer of 1 MiB: a line, without its end (and a carriage return),
  or None where the line does not fit and scanning stops.
\<close>

definition scan_line :: "string \<Rightarrow> string option" where
  "scan_line l =
     (if length l \<ge> 1024 * 1024 then None
      else Some (if l \<noteq> [] \<and> last l = CHR 0x0D then butlast l else l))"

record PluginSDK =
  sdk_name :: string
  sdk_version :: string
  sdk_hooks :: "string list"
  sdk_filters :: "(string \<times> (jmap \<Rightarrow> jmap)) list"

definition NewPluginSDK :: "string \<Rightarrow> string \<Rightarrow> PluginSDK" where
  "NewPluginSDK name version = \<lparr>sdk_name = name, sdk_version = version, sdk_hooks = [], sdk_filters = []\<rparr>"

definition RegisterFilter :: "string \<Rightarrow> (jmap \<Rightarrow> jmap) \<Rightarrow> PluginSDK \<Rightarrow> PluginSDK" where
  "RegisterFilter hook handler s =
     s\<lparr>sdk_hooks := sdk_hooks s @ [hook], sdk_filters := AList.update hook handler (sdk_filters s)\<rparr>"

text \<open>One line of \<open>Run\<close>: the line it writes, None if it writes nothing.\<close>

definition sdk_is_config :: "jmap \<Rightarrow> bool" where
  "sdk_is_config raw = (case map_of (rev raw) ''type'' of
       Some v \<Rightarrow> d_str [] v = Some ''config'' | None \<Rightarrow> False)"

definition sdk_line :: "PluginSDK \<Rightarrow> string \<Rightarrow> string option" where
  "sdk_line s line =
     (case (case parse_json line of Some (JObj raw) \<Rightarrow> Some raw | Some JNull \<Rightarrow> Some [] | _ \<Rightarrow> None) of
        None \<Rightarrow> None
      | Some raw \<Rightarrow>
          if sdk_is_config raw then None
          else (case parse_request line of
                  None \<Rightarrow> None
                | Some req \<Rightarrow>
                    if rq_ID req = 0 then None
                    else
                      (let resp = zero_response\<lparr>rs_ID := rq_ID req\<rparr>;
                           resp' = (case map_of (sdk_filters s) (rq_Method req) of
                              Some handler \<Rightarrow> resp\<lparr>rs_Result := handler (rq_Params req)\<rparr>
                            | None \<Rightarrow> resp\<lparr>rs_Error := ''unknown method: '' @ rq_Method req\<rparr>)
                       in Some (response_line resp'))))"

fun sdk_loop :: "PluginSDK \<Rightarrow> string list \<Rightarrow> string list" where
  "sdk_loop s [] = []"
| "sdk_loop s (l # ls) = (case scan_line l of
       None \<Rightarrow> []
     | Some line \<Rightarrow> (case sdk_line s line of None \<Rightarrow> sdk_loop s ls | Some r \<Rightarrow> r # sdk_loop s ls))"

definition sdk_Run :: "PluginSDK \<Rightarrow> string list \<Rightarrow> string list" where
  "sdk_Run s input =
     print_json (handshake_json \<lparr>hs_Name = sdk_name s, hs_Version = sdk_version s, hs_Hooks = sdk_hooks s\<rparr>)
     # sdk_loop s input"

section \<open>Requests and responses round trip\<close>

definition jmap_ok :: "jmap \<Rightarrow> bool" where
  "jmap_ok m \<longleftrightarrow> sorted (map fst m) \<and> distinct (map fst m) \<and> list_all (\<lambda>(k, v). ascii k \<and> json_ok v) m"

lemma fold_update_new:
  "distinct (map fst kvs) \<Longrightarrow> set (map fst kvs) \<inter> set (map fst m) = {} \<Longrightarrow>
   fold (\<lambda>(k, v) m. AList.update k v m) kvs m = m @ kvs"
proof (induction kvs arbitrary: m)
  case (Cons kv kvs)
  obtain k v where kv: "kv = (k, v)" by force
  with Cons.prems have "AList.update k v m = m @ [(k, v)]"
    by (induction m) auto
  with Cons kv show ?case by simp
qed simp

lemma d_map_json: "jmap_ok m \<Longrightarrow> d_map [] (jmap_json m) = Some m"
  by (simp add: jmap_ok_def jmap_json_def fold_update_new sort_key_id_if_sorted)

lemma json_ok_jmap: "jmap_ok m \<Longrightarrow> json_ok (jmap_json m)"
  by (simp add: jmap_ok_def jmap_json_def sort_key_id_if_sorted)

lemma dyn_names [simp]:
  "fold_name ''id'' = ''id''" "fold_name ''method'' = ''method''" "fold_name ''params'' = ''params''"
  "fold_name ''result'' = ''result''" "fold_name ''error'' = ''error''" "fold_name ''name'' = ''name''"
  "fold_name ''version'' = ''version''" "fold_name ''hooks'' = ''hooks''"
  by (simp_all add: fold_name_def to_lower_char_def)

lemma parse_request_line:
  assumes "int64 (rq_ID r)" and "ascii (rq_Method r)" and "jmap_ok (rq_Params r)"
  shows "parse_request (request_line r) = Some r"
    and "parse_json (request_line r) = Some (request_json r)"
proof -
  have "json_ok (request_json r)" using assms by (simp add: request_json_def list_all_omit json_ok_jmap)
  then show j: "parse_json (request_line r) = Some (request_json r)"
    unfolding request_line_def by (rule parse_print_json)
  have "d_members request_field zero_request ([(''id'', j_int (rq_ID r)), (''method'', JStr (rq_Method r))]
      @ omit (rq_Params r = []) ''params'' (jmap_json (rq_Params r))) = Some r"
    using assms by (cases r) (auto simp: request_field_def zero_request_def omit_def d_map_json)
  then show "parse_request (request_line r) = Some r"
    by (simp add: parse_request_def d_struct_def j) (simp add: request_json_def)
qed

lemma parse_response_line:
  assumes "int64 (rs_ID r)" and "ascii (rs_Error r)" and "jmap_ok (rs_Result r)"
  shows "parse_response (response_line r) = Some r"
proof -
  have "json_ok (response_json r)" using assms by (simp add: response_json_def list_all_omit json_ok_jmap)
  then have j: "parse_json (response_line r) = Some (response_json r)"
    unfolding response_line_def by (rule parse_print_json)
  have "d_members response_field zero_response ([(''id'', j_int (rs_ID r))]
      @ omit (rs_Result r = []) ''result'' (jmap_json (rs_Result r))
      @ omit (rs_Error r = []) ''error'' (JStr (rs_Error r))) = Some r"
    using assms by (cases r) (auto simp: response_field_def zero_response_def omit_def d_map_json)
  then show ?thesis
    by (simp add: parse_response_def d_struct_def j) (simp add: response_json_def)
qed

lemma not_config: "sdk_is_config [] = False"
  by (simp add: sdk_is_config_def)

lemma request_not_config:
  "request_json r = JObj raw \<Longrightarrow> \<not> sdk_is_config raw"
  by (auto simp: request_json_def sdk_is_config_def omit_def split: option.splits if_splits)

text \<open>
  Claim C26 (sdk_roundtrip): a request the program writes is answered by a plugin built with
  the SDK with one line, and that line is read back as the response to this very request:
  the same id, with the result of the handler registered for the method, given the
  parameters as they were sent; or an error naming the method if none is registered.
  A notification, which has id 0, is never answered.
\<close>

theorem sdk_roundtrip:
  assumes "int64 (rq_ID r)" and "ascii (rq_Method r)" and "jmap_ok (rq_Params r)"
    and "\<And>h. map_of (sdk_filters s) (rq_Method r) = Some h \<Longrightarrow> jmap_ok (h (rq_Params r))"
  shows "case sdk_line s (request_line r) of
      None \<Rightarrow> rq_ID r = 0
    | Some line \<Rightarrow> rq_ID r \<noteq> 0 \<and> parse_response line = Some (case map_of (sdk_filters s) (rq_Method r) of
          Some h \<Rightarrow> \<lparr>rs_ID = rq_ID r, rs_Result = h (rq_Params r), rs_Error = []\<rparr>
        | None \<Rightarrow> \<lparr>rs_ID = rq_ID r, rs_Result = [], rs_Error = ''unknown method: '' @ rq_Method r\<rparr>)"
proof -
  note line = parse_request_line [OF assms(1-3)]
  obtain raw where raw: "request_json r = JObj raw" by (simp add: request_json_def)
  have "ascii (''unknown method: '' @ rq_Method r)" using assms(2) by (simp add: ascii_def)
  moreover have "jmap_ok []" by (simp add: jmap_ok_def)
  ultimately show ?thesis
    using line raw request_not_config [OF raw] assms(1,4)
    by (auto simp: sdk_line_def Let_def zero_response_def parse_response_line split: option.splits)
qed

theorem sdk_roundtrip_witness:
  "\<exists>line. sdk_line (RegisterFilter ''on_accept'' (\<lambda>ps. [(''allowed'', JBool (ps = [(''addr'', JStr ''1.2.3.4:5'')]))])
      (NewPluginSDK ''p'' ''1'')) (request_line \<lparr>rq_ID = 7, rq_Method = ''on_accept'', rq_Params = [(''addr'', JStr ''1.2.3.4:5'')]\<rparr>)
      = Some line
    \<and> parse_response line = Some \<lparr>rs_ID = 7, rs_Result = [(''allowed'', JBool True)], rs_Error = []\<rparr>"
proof -
  let ?r = "\<lparr>rq_ID = 7, rq_Method = ''on_accept'', rq_Params = [(''addr'', JStr ''1.2.3.4:5'')]\<rparr>"
  let ?s = "RegisterFilter ''on_accept'' (\<lambda>ps. [(''allowed'', JBool (ps = [(''addr'', JStr ''1.2.3.4:5'')]))]) (NewPluginSDK ''p'' ''1'')"
  have "jmap_ok (h (rq_Params ?r))" if "map_of (sdk_filters ?s) (rq_Method ?r) = Some h" for h
    using that by (auto simp: RegisterFilter_def NewPluginSDK_def jmap_ok_def)
  moreover have "jmap_ok (rq_Params ?r)" by (simp add: jmap_ok_def)
  ultimately show ?thesis
    using sdk_roundtrip [of ?r ?s] by (auto simp: int64_def RegisterFilter_def NewPluginSDK_def split: option.splits)
qed

end
