(* ===== verification/DynProcess.thy ===== *)
theory DynProcess
  imports DynProtocol
begin

text \<open>
  A plugin process as the program sees it (\<open>dynplugin/process.go\<close>): starting it, the calls that
  wait for their responses, the goroutine that reads the responses, and stopping it. Calls
  come from any number of goroutines at once; the steps below are the critical sections of
  \<open>Call\<close> and \<open>readLoop\<close>, in any order. The id counter is a Go \<open>int\<close>, kept unbounded: it would
  take 2^63 calls to wrap.
\<close>

section \<open>Starting\<close>

text \<open>
  What the operating system does: whether the process starts, the first line it writes (None:
  the stream ends first) and whether the configuration can be written. The result is the
  error or the handshake, and whether a started process is left running.
\<close>

datatype start_error = BadExec | PipeFailed | SpawnFailed | NoHandshake | BadHandshake | MissingName | ConfigFailed

record spawn_env =
  sp_pipes :: bool
  sp_starts :: bool
  sp_first :: "string option"
  sp_config_ok :: bool

definition proc_Start :: "PluginManifest \<Rightarrow> spawn_env \<Rightarrow> (start_error + Handshake) \<times> bool" where
  "proc_Start manifest e =
     (case parseExec (mf_Exec manifest) of
        None \<Rightarrow> (Inl BadExec, False)
      | Some parts \<Rightarrow>
          if \<not> sp_pipes e then (Inl PipeFailed, False)
          else if \<not> sp_starts e then (Inl SpawnFailed, False)
          else (case Option.bind (sp_first e) scan_line of
                  None \<Rightarrow> (Inl NoHandshake, True)
                | Some line \<Rightarrow>
                    (case parse_handshake line of
                       None \<Rightarrow> (Inl BadHandshake, False)
                     | Some h \<Rightarrow>
                         if hs_Name h = [] then (Inl MissingName, False)
                         else if mf_Config manifest \<noteq> [] \<and> \<not> sp_config_ok e then (Inl ConfigFailed, False)
                         else (Inr h, True))))"

section \<open>Calls\<close>

text \<open>
  The state the goroutines share: \<open>nextID\<close>, \<open>pending\<close> (the channel each call waits on), the
  contents of the channels, the lines written to the process, and whether \<open>stopCh\<close> is closed.
\<close>

record process =
  p_hooks :: "string list"
  p_nextID :: int
  p_pending :: "(int \<times> nat) list"
  p_chans :: "nat \<Rightarrow> Response list"
  p_nchan :: nat
  p_stdin :: "string list"
  p_stopped :: bool

definition NewPluginProcess :: "string list \<Rightarrow> process" where
  "NewPluginProcess hooks = \<lparr>p_hooks = hooks, p_nextID = 0, p_pending = [], p_chans = (\<lambda>_. []), p_nchan = 0,
     p_stdin = [], p_stopped = False\<rparr>"

datatype call_error = SendFailed | PluginError string | TimedOut | Stopped

text \<open>The first critical section of \<open>Call\<close>: the id and the channel of the call.\<close>

definition call_begin :: "process \<Rightarrow> (int \<times> nat) \<times> process" where
  "call_begin p =
     (let callID = p_nextID p + 1; ch = p_nchan p
      in ((callID, ch), p\<lparr>p_nextID := callID, p_nchan := Suc ch, p_chans := (p_chans p)(ch := []),
            p_pending := AList.update callID ch (p_pending p)\<rparr>))"

definition sendRaw :: "bool \<Rightarrow> string \<Rightarrow> process \<Rightarrow> process" where
  "sendRaw ok line p = (if ok then p\<lparr>p_stdin := p_stdin p @ [line]\<rparr> else p)"

text \<open>Writing the request; if that fails the call gives up its place.\<close>

definition call_send :: "bool \<Rightarrow> int \<Rightarrow> string \<Rightarrow> jmap \<Rightarrow> process \<Rightarrow> call_error option \<times> process" where
  "call_send ok callID method params p =
     (let p1 = sendRaw ok (request_line \<lparr>rq_ID = callID, rq_Method = method, rq_Params = params\<rparr>) p
      in if ok then (None, p1)
         else (Some SendFailed, p1\<lparr>p_pending := AList.delete callID (p_pending p1)\<rparr>))"

text \<open>The three cases of the \<open>select\<close>; None where the case is not ready.\<close>

definition call_receive :: "nat \<Rightarrow> process \<Rightarrow> ((call_error + jmap) \<times> process) option" where
  "call_receive ch p =
     (case p_chans p ch of
        [] \<Rightarrow> None
      | r # rs \<Rightarrow> Some (if rs_Error r \<noteq> [] then Inl (PluginError (rs_Error r)) else Inr (rs_Result r),
                     p\<lparr>p_chans := (p_chans p)(ch := rs)\<rparr>))"

definition call_timeout :: "int \<Rightarrow> process \<Rightarrow> (call_error + jmap) \<times> process" where
  "call_timeout callID p = (Inl TimedOut, p\<lparr>p_pending := AList.delete callID (p_pending p)\<rparr>)"

definition call_stopped :: "process \<Rightarrow> (call_error + jmap) option" where
  "call_stopped p = (if p_stopped p then Some (Inl Stopped) else None)"

text \<open>
  One line in \<open>readLoop\<close>: None when the goroutine blocks on a full channel (they hold one
  response each).
\<close>

definition read_response :: "string \<Rightarrow> process \<Rightarrow> process option" where
  "read_response line p =
     (case parse_response line of
        None \<Rightarrow> Some p
      | Some resp \<Rightarrow>
          (case map_of (p_pending p) (rs_ID resp) of
             None \<Rightarrow> Some p
           | Some ch \<Rightarrow>
               (let p1 = p\<lparr>p_pending := AList.delete (rs_ID resp) (p_pending p)\<rparr>
                in if length (p_chans p1 ch) < 1
                   then Some (p1\<lparr>p_chans := (p_chans p1)(ch := p_chans p1 ch @ [resp])\<rparr>)
                   else None)))"

definition Notify :: "bool \<Rightarrow> string \<Rightarrow> jmap \<Rightarrow> process \<Rightarrow> process" where
  "Notify ok method params p = sendRaw ok (request_line \<lparr>rq_ID = 0, rq_Method = method, rq_Params = params\<rparr>) p"

fun has_hook :: "string list \<Rightarrow> string \<Rightarrow> bool" where
  "has_hook [] hook = False"
| "has_hook (h # hs) hook = (if h = hook then True else has_hook hs hook)"

definition HasHook :: "string \<Rightarrow> process \<Rightarrow> bool" where
  "HasHook hook p = has_hook (p_hooks p) hook"

text \<open>\<open>Stop\<close>: closing a closed channel panics.\<close>

definition Stop :: "process \<Rightarrow> (call_error, process) go" where
  "Stop p = (if p_stopped p then Panic else Ret (p\<lparr>p_stopped := True\<rparr>))"

text \<open>\<open>Alive\<close>: the arguments are whether a process was started and what \<open>Wait\<close> recorded.\<close>

definition Alive :: "bool \<Rightarrow> bool option \<Rightarrow> bool" where
  "Alive started processState = (if \<not> started then False else (case processState of None \<Rightarrow> True | Some exited \<Rightarrow> \<not> exited))"

section \<open>Any number of callers\<close>

text \<open>
  A caller is a number; it has an id and a channel while its call is under way. Each finished
  call is recorded with its id and its result.
\<close>

datatype caller = Sending int nat string jmap | Waiting int nat

record calls =
  ca_proc :: process
  ca_callers :: "nat \<Rightarrow> caller option"
  ca_results :: "(nat \<times> int \<times> (call_error + jmap)) list"
  ca_blocked :: bool

datatype call_event =
    CBegin nat string jmap
  | CSend nat bool
  | CLine string
  | CReceive nat
  | CTimeout nat
  | CStopped nat
  | CNotify bool string jmap
  | CStop

definition finish :: "nat \<Rightarrow> int \<Rightarrow> call_error + jmap \<Rightarrow> process \<Rightarrow> calls \<Rightarrow> calls" where
  "finish t callID r p k = k\<lparr>ca_proc := p, ca_callers := (ca_callers k)(t := None), ca_results := ca_results k @ [(t, callID, r)]\<rparr>"

fun call_exec :: "call_event \<Rightarrow> calls \<Rightarrow> calls option" where
  "call_exec (CBegin t method params) k =
     (case ca_callers k t of
        None \<Rightarrow> (case call_begin (ca_proc k) of
           ((callID, ch), p) \<Rightarrow> Some (k\<lparr>ca_proc := p, ca_callers := (ca_callers k)(t \<mapsto> Sending callID ch method params)\<rparr>))
      | Some _ \<Rightarrow> None)"
| "call_exec (CSend t ok) k =
     (case ca_callers k t of
        Some (Sending callID ch method params) \<Rightarrow>
          (case call_send ok callID method params (ca_proc k) of
             (None, p) \<Rightarrow> Some (k\<lparr>ca_proc := p, ca_callers := (ca_callers k)(t \<mapsto> Waiting callID ch)\<rparr>)
           | (Some e, p) \<Rightarrow> Some (finish t callID (Inl e) p k))
      | _ \<Rightarrow> None)"
| "call_exec (CLine line) k =
     (if ca_blocked k then None
      else case read_response line (ca_proc k) of
        None \<Rightarrow> Some (k\<lparr>ca_blocked := True\<rparr>)
      | Some p \<Rightarrow> Some (k\<lparr>ca_proc := p\<rparr>))"
| "call_exec (CReceive t) k =
     (case ca_callers k t of
        Some (Waiting callID ch) \<Rightarrow>
          (case call_receive ch (ca_proc k) of
             None \<Rightarrow> None
           | Some (r, p) \<Rightarrow> Some (finish t callID r p k))
      | _ \<Rightarrow> None)"
| "call_exec (CTimeout t) k =
     (case ca_callers k t of
        Some (Waiting callID ch) \<Rightarrow> (case call_timeout callID (ca_proc k) of (r, p) \<Rightarrow> Some (finish t callID r p k))
      | _ \<Rightarrow> None)"
| "call_exec (CStopped t) k =
     (case ca_callers k t of
        Some (Waiting callID ch) \<Rightarrow> map_option (\<lambda>r. finish t callID r (ca_proc k) k) (call_stopped (ca_proc k))
      | _ \<Rightarrow> None)"
| "call_exec (CNotify ok method params) k = Some (k\<lparr>ca_proc := Notify ok method params (ca_proc k)\<rparr>)"
| "call_exec CStop k = (case Stop (ca_proc k) of Ret p \<Rightarrow> Some (k\<lparr>ca_proc := p\<rparr>) | _ \<Rightarrow> None)"

inductive call_reach :: "calls \<Rightarrow> call_event list \<Rightarrow> calls \<Rightarrow> bool" for k0 where
  reach_start: "call_reach k0 [] k0"
| reach_next: "call_reach k0 evs k \<Longrightarrow> call_exec ev k = Some k' \<Longrightarrow> call_reach k0 (evs @ [ev]) k'"

section \<open>Matching of responses to calls\<close>

fun caller_id :: "caller \<Rightarrow> int" where
  "caller_id (Sending n ch m ps) = n" | "caller_id (Waiting n ch) = n"

fun caller_chan :: "caller \<Rightarrow> nat" where
  "caller_chan (Sending n ch m ps) = ch" | "caller_chan (Waiting n ch) = ch"

text \<open>The plugin wrote a line that is this response.\<close>

definition said :: "call_event list \<Rightarrow> Response \<Rightarrow> bool" where
  "said evs r \<longleftrightarrow> (\<exists>line. CLine line \<in> set evs \<and> parse_response line = Some r)"

fun result_ok :: "call_event list \<Rightarrow> int \<Rightarrow> call_error + jmap \<Rightarrow> bool" where
  "result_ok evs n (Inr m) = (\<exists>r. said evs r \<and> rs_ID r = n \<and> rs_Error r = [] \<and> rs_Result r = m)"
| "result_ok evs n (Inl (PluginError e)) = (\<exists>r. said evs r \<and> rs_ID r = n \<and> rs_Error r = e)"
| "result_ok evs n _ = True"

text \<open>The channels and the pending calls: one response at most, and only in a channel nobody may still write to.\<close>

definition proc_inv :: "call_event list \<Rightarrow> process \<Rightarrow> bool" where
  "proc_inv evs p \<longleftrightarrow> p_nextID p = int (p_nchan p) \<and> distinct (map fst (p_pending p))
     \<and> (\<forall>n ch. (n, ch) \<in> set (p_pending p) \<longrightarrow> n = int ch + 1 \<and> ch < p_nchan p \<and> p_chans p ch = [])
     \<and> (\<forall>ch. length (p_chans p ch) \<le> 1 \<and> (\<forall>r \<in> set (p_chans p ch). rs_ID r = int ch + 1 \<and> said evs r))"

definition callers_inv :: "calls \<Rightarrow> bool" where
  "callers_inv k \<longleftrightarrow> (\<forall>t c. ca_callers k t = Some c \<longrightarrow>
       caller_id c = int (caller_chan c) + 1 \<and> caller_chan c < p_nchan (ca_proc k))
     \<and> (\<forall>t t' c c'. ca_callers k t = Some c \<and> ca_callers k t' = Some c' \<and> caller_chan c = caller_chan c' \<longrightarrow> t = t')
     \<and> (p_stopped (ca_proc k) \<or> (\<forall>n ch. (n, ch) \<in> set (p_pending (ca_proc k)) \<longrightarrow> (\<exists>t c. ca_callers k t = Some c \<and> caller_chan c = ch)))"

definition results_inv :: "call_event list \<Rightarrow> calls \<Rightarrow> bool" where
  "results_inv evs k \<longleftrightarrow> distinct (map (fst \<circ> snd) (ca_results k))
     \<and> (\<forall>t n r. (t, n, r) \<in> set (ca_results k) \<longrightarrow> n \<le> p_nextID (ca_proc k) \<and> result_ok evs n r
          \<and> (\<forall>t' c. ca_callers k t' = Some c \<longrightarrow> caller_id c \<noteq> n))"

definition calls_inv :: "call_event list \<Rightarrow> calls \<Rightarrow> bool" where
  "calls_inv evs k \<longleftrightarrow> proc_inv evs (ca_proc k) \<and> callers_inv k \<and> results_inv evs k \<and> \<not> ca_blocked k"

lemma said_snoc: "said evs r \<Longrightarrow> said (evs @ [ev]) r"
  by (auto simp: said_def)

lemma result_ok_snoc: "result_ok evs n r \<Longrightarrow> result_ok (evs @ [ev]) n r"
  by (induction evs n r rule: result_ok.induct) (auto dest: said_snoc)

lemma proc_inv_snoc: "proc_inv evs p \<Longrightarrow> proc_inv (evs @ [ev]) p"
  by (auto simp: proc_inv_def intro: said_snoc)

lemma calls_inv_snoc: "calls_inv evs k \<Longrightarrow> calls_inv (evs @ [ev]) k"
  by (simp add: calls_inv_def results_inv_def proc_inv_snoc result_ok_snoc)

lemma proc_inv_delete: "proc_inv evs p \<Longrightarrow> proc_inv evs (p\<lparr>p_pending := AList.delete n (p_pending p)\<rparr>)"
  using distinct_delete [of "p_pending p" n] by (auto simp: proc_inv_def set_delete)

lemma proc_inv_stdin: "proc_inv evs (p\<lparr>p_stdin := l\<rparr>) = proc_inv evs p"
  by (simp add: proc_inv_def)

lemma sendRaw_stdin: "\<exists>l. sendRaw ok line p = p\<lparr>p_stdin := l\<rparr>"
  by (cases ok) (auto simp: sendRaw_def intro: exI [of _ "p_stdin p"])

text \<open>A call ends: its caller is gone, its id is recorded, and its place in \<open>pending\<close> is free.\<close>

lemma inv_finish:
  assumes inv: "calls_inv evs k" and c: "ca_callers k t = Some c"
    and p: "proc_inv evs p" "p_nextID p = p_nextID (ca_proc k)" "p_nchan p = p_nchan (ca_proc k)"
      "p_stopped p = p_stopped (ca_proc k)" "set (p_pending p) \<subseteq> set (p_pending (ca_proc k))"
    and free: "p_stopped p \<or> caller_chan c \<notin> snd ` set (p_pending p)" and r: "result_ok evs (caller_id c) r"
  shows "calls_inv evs (finish t (caller_id c) r p k)"
proof -
  have cid: "caller_id c = int (caller_chan c) + 1" "caller_chan c < p_nchan (ca_proc k)"
    using inv c by (auto simp: calls_inv_def callers_inv_def)
  have other: "caller_id c' \<noteq> caller_id c" if "ca_callers k t' = Some c'" "t' \<noteq> t" for t' c'
  proof -
    have "caller_chan c' \<noteq> caller_chan c" and "caller_id c' = int (caller_chan c') + 1"
      using inv c that by (auto simp: calls_inv_def callers_inv_def)
    then show ?thesis using cid by simp
  qed
  let ?f = "finish t (caller_id c) r p k"
  have "\<exists>t' c'. ca_callers ?f t' = Some c' \<and> caller_chan c' = ch"
    if pend: "(n, ch) \<in> set (p_pending p)" "\<not> p_stopped p" for n ch
  proof -
    obtain t' c' where t': "ca_callers k t' = Some c'" "caller_chan c' = ch"
      using inv p(4,5) pend unfolding calls_inv_def callers_inv_def by blast
    moreover have "ch \<noteq> caller_chan c" using free pend by force
    ultimately show ?thesis using c by (intro exI [of _ t'] exI [of _ c']) (auto simp: finish_def)
  qed
  moreover have old: "ca_callers k t' = Some c'" if "ca_callers ?f t' = Some c'" for t' c'
    using that by (simp add: finish_def split: if_splits)
  moreover have "ca_proc ?f = p" by (simp add: finish_def)
  moreover have "caller_id c' = int (caller_chan c') + 1 \<and> caller_chan c' < p_nchan p"
    if "ca_callers ?f t' = Some c'" for t' c'
    using old [OF that] inv p(3) unfolding calls_inv_def callers_inv_def by simp
  moreover have "t1 = t2" if "ca_callers ?f t1 = Some c1 \<and> ca_callers ?f t2 = Some c2 \<and> caller_chan c1 = caller_chan c2"
    for t1 t2 c1 c2
    using old that inv unfolding calls_inv_def callers_inv_def by blast
  ultimately have "callers_inv ?f" unfolding callers_inv_def by simp blast
  moreover have "results_inv evs ?f"
  proof -
    have old: "distinct (map (fst \<circ> snd) (ca_results k))"
        "\<And>t' n r'. (t', n, r') \<in> set (ca_results k) \<Longrightarrow> n \<le> p_nextID (ca_proc k) \<and> result_ok evs n r'
          \<and> (\<forall>t' c. ca_callers k t' = Some c \<longrightarrow> caller_id c \<noteq> n)"
      using inv unfolding calls_inv_def results_inv_def by blast+
    have "caller_id c \<le> p_nextID p" using cid p inv by (simp add: calls_inv_def proc_inv_def)
    moreover have "caller_id c \<notin> (fst \<circ> snd) ` set (ca_results k)" using old(2) c by force
    moreover have "caller_id c' \<noteq> n" if "(t'', n, r') \<in> set (ca_results ?f)" "ca_callers ?f t' = Some c'" for t' t'' c' n r'
      using that other old(2) [of t'' n r'] by (auto simp: finish_def split: if_splits)
    ultimately show ?thesis
      using old r p(2) unfolding results_inv_def by (auto simp: finish_def)
  qed
  ultimately show ?thesis using inv p(1) by (simp add: calls_inv_def finish_def)
qed

text \<open>A step that changes neither the callers nor the results.\<close>

lemma inv_proc:
  assumes "calls_inv evs k" and "proc_inv evs p" and "p_nextID p = p_nextID (ca_proc k)"
    and "p_nchan p = p_nchan (ca_proc k)" and "p_stopped (ca_proc k) \<longrightarrow> p_stopped p"
    and "set (p_pending p) \<subseteq> set (p_pending (ca_proc k))"
  shows "calls_inv evs (k\<lparr>ca_proc := p\<rparr>)"
proof -
  have "callers_inv k" using assms(1) by (simp add: calls_inv_def)
  then have "callers_inv (k\<lparr>ca_proc := p\<rparr>)"
    using assms(4-6) unfolding callers_inv_def by simp blast
  then show ?thesis using assms(1-3) by (simp add: calls_inv_def results_inv_def)
qed

lemma inv_begin:
  assumes "calls_inv evs k" and "ca_callers k t = None" and "call_begin (ca_proc k) = ((n, ch), p)"
  shows "calls_inv evs (k\<lparr>ca_proc := p, ca_callers := (ca_callers k)(t \<mapsto> Sending n ch m ps)\<rparr>)"
proof -
  let ?q = "ca_proc k"
  have n: "n = p_nextID ?q + 1" "ch = p_nchan ?q"
    and p: "p = ?q\<lparr>p_nextID := n, p_nchan := Suc ch, p_chans := (p_chans ?q)(ch := []), p_pending := AList.update n ch (p_pending ?q)\<rparr>"
    using assms(3) by (auto simp: call_begin_def Let_def)
  have inv: "p_nextID ?q = int (p_nchan ?q)" "distinct (map fst (p_pending ?q))"
    "\<And>n ch. (n, ch) \<in> set (p_pending ?q) \<Longrightarrow> n = int ch + 1 \<and> ch < p_nchan ?q \<and> p_chans ?q ch = []"
    "\<And>ch. length (p_chans ?q ch) \<le> 1" "\<And>ch r. r \<in> set (p_chans ?q ch) \<Longrightarrow> rs_ID r = int ch + 1 \<and> said evs r"
    using assms(1) unfolding calls_inv_def proc_inv_def by blast+
  have upd: "AList.update n ch (p_pending ?q) = p_pending ?q @ [(n, ch)]"
  proof (rule update_new)
    show "n \<notin> fst ` set (p_pending ?q)" using inv(1,3) n by fastforce
  qed
  have new: "caller_chan c' < p_nchan ?q \<and> caller_id c' = int (caller_chan c') + 1" if "ca_callers k t' = Some c'" for t' c'
    using assms(1) that unfolding calls_inv_def callers_inv_def by blast
  let ?k = "k\<lparr>ca_proc := p, ca_callers := (ca_callers k)(t \<mapsto> Sending n ch m ps)\<rparr>"
  have "proc_inv evs p"
    unfolding proc_inv_def p using inv n upd by (auto simp: image_iff) fastforce+
  moreover have "callers_inv ?k"
  proof -
    have 1: "caller_id c = int (caller_chan c) + 1 \<and> caller_chan c < Suc ch" if "ca_callers ?k t' = Some c" for t' c
      using that new [of t' c] n inv(1) by (auto split: if_splits)
    have 2: "t1 = t2" if "ca_callers ?k t1 = Some c1 \<and> ca_callers ?k t2 = Some c2 \<and> caller_chan c1 = caller_chan c2"
      for t1 t2 c1 c2
    proof -
      have "t1 = t2" if "ca_callers k t1 = Some c1" "ca_callers k t2 = Some c2"
        using assms(1) that \<open>_ \<and> _ \<and> caller_chan c1 = caller_chan c2\<close> unfolding calls_inv_def callers_inv_def by blast
      then show ?thesis using that new [of t1 c1] new [of t2 c2] n by (auto split: if_splits)
    qed
    have 3: "p_stopped ?q \<or> (\<exists>t' c. ca_callers ?k t' = Some c \<and> caller_chan c = ch')"
      if "(n', ch') \<in> set (p_pending ?q) \<or> ch' = ch" for n' ch'
    proof (cases "ch' = ch")
      case False
      with that assms(1) consider "p_stopped ?q" | t' c where "ca_callers k t' = Some c" "caller_chan c = ch'"
        unfolding calls_inv_def callers_inv_def by blast
      then show ?thesis
      proof cases
        case 2
        with assms(2) have "t' \<noteq> t" by auto
        with 2 show ?thesis by (auto intro!: exI [of _ t'])
      qed simp
    qed (auto intro!: exI [of _ t])
    have p': "ca_proc ?k = p" "p_nchan p = Suc ch" "p_stopped p = p_stopped ?q" "p_pending p = p_pending ?q @ [(n, ch)]"
      using n upd by (simp_all add: p)
    have "p_stopped p \<or> (\<forall>n' ch'. (n', ch') \<in> set (p_pending p) \<longrightarrow> (\<exists>t' c. ca_callers ?k t' = Some c \<and> caller_chan c = ch'))"
    proof (cases "p_stopped ?q")
      case False
      then show ?thesis using 3 by (simp only: p' set_append) fastforce
    qed (simp add: p')
    with 1 2 show ?thesis unfolding callers_inv_def p'(1) p'(2) by blast
  qed
  moreover have "results_inv evs ?k"
    using assms(1) n unfolding calls_inv_def results_inv_def p by force
  ultimately show ?thesis using assms(1) by (simp add: calls_inv_def)
qed

lemma inv_read:
  assumes "calls_inv evs k" and "CLine line \<in> set evs"
  shows "\<exists>p. read_response line (ca_proc k) = Some p \<and> calls_inv evs (k\<lparr>ca_proc := p\<rparr>)"
proof -
  let ?q = "ca_proc k"
  have pi: "proc_inv evs ?q" using assms(1) by (simp add: calls_inv_def)
  show ?thesis
  proof (cases "parse_response line")
    case None
    with assms show ?thesis by (simp add: read_response_def)
  next
    case (Some r)
    show ?thesis
    proof (cases "map_of (p_pending ?q) (rs_ID r)")
      case None
      with assms Some show ?thesis by (simp add: read_response_def)
    next
      case (Some ch)
      let ?p = "?q\<lparr>p_pending := AList.delete (rs_ID r) (p_pending ?q), p_chans := (p_chans ?q)(ch := [r])\<rparr>"
      have ch: "rs_ID r = int ch + 1" "p_chans ?q ch = []"
        using pi map_of_SomeD [OF Some] unfolding proc_inv_def by blast+
      have "said evs r" using assms(2) \<open>parse_response line = Some r\<close> by (auto simp: said_def)
      have d: "p_nextID ?q = int (p_nchan ?q)" "distinct (map fst (p_pending ?q))"
          "\<And>ch. length (p_chans ?q ch) \<le> 1" "\<And>ch x. x \<in> set (p_chans ?q ch) \<Longrightarrow> rs_ID x = int ch + 1 \<and> said evs x"
        using pi unfolding proc_inv_def by blast+
      have "proc_inv evs ?p"
        unfolding proc_inv_def
      proof (intro conjI allI impI)
        fix n' ch' assume "(n', ch') \<in> set (p_pending ?p)"
        then have "(n', ch') \<in> set (p_pending ?q)" "n' \<noteq> rs_ID r" by (simp_all add: set_delete)
        moreover from this have "n' = int ch' + 1 \<and> ch' < p_nchan ?q \<and> p_chans ?q ch' = []"
          using pi unfolding proc_inv_def by blast
        ultimately show "n' = int ch' + 1" "ch' < p_nchan ?p" "p_chans ?p ch' = []" using ch by auto
      next
        fix ch' show "length (p_chans ?p ch') \<le> 1" using d(3) [of ch'] by simp
        show "\<forall>x \<in> set (p_chans ?p ch'). rs_ID x = int ch' + 1 \<and> said evs x"
          using d(4) [of _ ch'] ch \<open>said evs r\<close> by simp
      next
        show "p_nextID ?p = int (p_nchan ?p)" using d(1) by simp
        show "distinct (map fst (p_pending ?p))" using distinct_delete [OF d(2)] by simp
      qed
      then have "calls_inv evs (k\<lparr>ca_proc := ?p\<rparr>)"
        by (rule inv_proc [OF assms(1)]) (auto simp: set_delete)
      then show ?thesis
        using \<open>parse_response line = Some r\<close> Some ch by (simp add: read_response_def Let_def)
    qed
  qed
qed

lemma pending_chan_empty: "proc_inv evs p \<Longrightarrow> (n, ch) \<in> set (p_pending p) \<Longrightarrow> n = int ch + 1 \<and> p_chans p ch = []"
  unfolding proc_inv_def by blast

lemma inv_receive:
  assumes inv: "calls_inv evs k" and c: "ca_callers k t = Some (Waiting n ch)"
    and rcv: "call_receive ch (ca_proc k) = Some (r, p)"
  shows "calls_inv evs (finish t n r p k)"
proof -
  have pi: "proc_inv evs (ca_proc k)" using inv by (simp add: calls_inv_def)
  from rcv obtain a rs where a: "p_chans (ca_proc k) ch = a # rs"
      "r = (if rs_Error a \<noteq> [] then Inl (PluginError (rs_Error a)) else Inr (rs_Result a))"
      "p = ca_proc k\<lparr>p_chans := (p_chans (ca_proc k))(ch := rs)\<rparr>"
    by (auto simp: call_receive_def split: list.splits)
  have "length (a # rs) \<le> 1 \<and> rs_ID a = int ch + 1 \<and> said evs a"
    using pi unfolding proc_inv_def a(1) [symmetric] by (metis a(1) list.set_intros(1))
  then have rs: "rs = []" "rs_ID a = int ch + 1" "said evs a" by auto
  have nch: "n = int ch + 1" using inv c unfolding calls_inv_def callers_inv_def by fastforce
  have "proc_inv evs p" using pi rs unfolding proc_inv_def a(3) by auto
  moreover have "ch \<notin> snd ` set (p_pending p)" using pending_chan_empty [OF pi] a by fastforce
  moreover have "result_ok evs n r" using a(2) rs nch by auto
  ultimately show ?thesis
    using inv_finish [OF inv c, of p r] a(3) by simp
qed

lemma inv_give_up:
  assumes inv: "calls_inv evs k" and c: "ca_callers k t = Some c" and e: "result_ok evs (caller_id c) r"
    and p: "p = ca_proc k\<lparr>p_pending := AList.delete (caller_id c) (p_pending (ca_proc k))\<rparr>"
  shows "calls_inv evs (finish t (caller_id c) r p k)"
proof (rule inv_finish [OF inv c])
  have pi: "proc_inv evs (ca_proc k)" using inv by (simp add: calls_inv_def)
  show "proc_inv evs p"
    unfolding p by (rule proc_inv_delete [OF pi])
  have "caller_id c = int (caller_chan c) + 1" using inv c unfolding calls_inv_def callers_inv_def by blast
  then show "p_stopped p \<or> caller_chan c \<notin> snd ` set (p_pending p)"
    using pending_chan_empty [OF pi] by (fastforce simp: p set_delete)
qed (auto simp: p set_delete e)

lemma calls_inv_write:
  assumes "calls_inv evs k"
  shows "calls_inv evs (k\<lparr>ca_proc := sendRaw ok line (ca_proc k)\<rparr>)"
proof -
  obtain l where l: "sendRaw ok line (ca_proc k) = ca_proc k\<lparr>p_stdin := l\<rparr>" using sendRaw_stdin by blast
  have "proc_inv evs (ca_proc k)" using assms by (simp add: calls_inv_def)
  then show ?thesis unfolding l by (intro inv_proc [OF assms]) (simp_all add: proc_inv_stdin)
qed

lemma inv_call_send:
  assumes inv: "calls_inv evs k" and c: "ca_callers k t = Some (Sending n ch m ps)"
    and send: "call_send ok n m ps (ca_proc k) = (None, p)"
  shows "calls_inv evs (k\<lparr>ca_proc := p, ca_callers := (ca_callers k)(t \<mapsto> Waiting n ch)\<rparr>)"
proof -
  let ?k = "k\<lparr>ca_proc := p\<rparr>"
  have "p = sendRaw ok (request_line \<lparr>rq_ID = n, rq_Method = m, rq_Params = ps\<rparr>) (ca_proc k)"
    using send by (simp add: call_send_def Let_def split: if_splits)
  then have k: "calls_inv evs ?k" using calls_inv_write [OF inv] by simp
  let ?c = "(ca_callers k)(t \<mapsto> Waiting n ch)"
  have fwd: "\<exists>c'. ca_callers ?k t' = Some c' \<and> caller_id c' = caller_id d \<and> caller_chan c' = caller_chan d"
    if "?c t' = Some d" for t' d
    using that c by (auto split: if_splits)
  have bwd: "\<exists>c'. ?c t' = Some c' \<and> caller_chan c' = caller_chan d" if "ca_callers ?k t' = Some d" for t' d
    using that c by (auto split: if_splits)
  have "callers_inv (?k\<lparr>ca_callers := ?c\<rparr>)"
    unfolding callers_inv_def
  proof (intro conjI allI impI)
    fix t' d assume d: "ca_callers (?k\<lparr>ca_callers := ?c\<rparr>) t' = Some d"
    obtain c' where "ca_callers ?k t' = Some c'" "caller_id c' = caller_id d" "caller_chan c' = caller_chan d"
      using fwd d by auto
    then show "caller_id d = int (caller_chan d) + 1" "caller_chan d < p_nchan (ca_proc (?k\<lparr>ca_callers := ?c\<rparr>))"
      using k unfolding calls_inv_def callers_inv_def by fastforce+
  next
    fix t1 t2 c1 c2
    assume a: "ca_callers (?k\<lparr>ca_callers := ?c\<rparr>) t1 = Some c1 \<and> ca_callers (?k\<lparr>ca_callers := ?c\<rparr>) t2 = Some c2
      \<and> caller_chan c1 = caller_chan c2"
    obtain d1 d2 where "ca_callers ?k t1 = Some d1" "ca_callers ?k t2 = Some d2" "caller_chan d1 = caller_chan d2"
      using fwd [of t1 c1] fwd [of t2 c2] a by auto
    then show "t1 = t2" using k unfolding calls_inv_def callers_inv_def by blast
  next
    have "p_stopped p \<or> (\<forall>n' ch'. (n', ch') \<in> set (p_pending p) \<longrightarrow> (\<exists>t' d. ca_callers ?k t' = Some d \<and> caller_chan d = ch'))"
      using k unfolding calls_inv_def callers_inv_def by simp
    then show "p_stopped (ca_proc (?k\<lparr>ca_callers := ?c\<rparr>)) \<or>
      (\<forall>n' ch'. (n', ch') \<in> set (p_pending (ca_proc (?k\<lparr>ca_callers := ?c\<rparr>))) \<longrightarrow>
        (\<exists>t' d. ca_callers (?k\<lparr>ca_callers := ?c\<rparr>) t' = Some d \<and> caller_chan d = ch'))"
    proof (rule disj_forward)
      assume a: "\<forall>n' ch'. (n', ch') \<in> set (p_pending p) \<longrightarrow> (\<exists>t' d. ca_callers ?k t' = Some d \<and> caller_chan d = ch')"
      show "\<forall>n' ch'. (n', ch') \<in> set (p_pending (ca_proc (?k\<lparr>ca_callers := ?c\<rparr>))) \<longrightarrow>
        (\<exists>t' d. ca_callers (?k\<lparr>ca_callers := ?c\<rparr>) t' = Some d \<and> caller_chan d = ch')"
      proof (intro allI impI)
        fix n' ch' assume "(n', ch') \<in> set (p_pending (ca_proc (?k\<lparr>ca_callers := ?c\<rparr>)))"
        then have "(n', ch') \<in> set (p_pending p)" by simp
        then obtain t' d where "ca_callers ?k t' = Some d" "caller_chan d = ch'" using a by blast
        then obtain c' where "?c t' = Some c'" "caller_chan c' = ch'" using bwd by metis
        then show "\<exists>t' d. ca_callers (?k\<lparr>ca_callers := ?c\<rparr>) t' = Some d \<and> caller_chan d = ch'"
          by (intro exI [of _ t'] exI [of _ c']) (simp del: fun_upd_apply)
      qed
    qed simp_all
  qed
  moreover have "results_inv evs (?k\<lparr>ca_callers := ?c\<rparr>)"
  proof -
    have "caller_id d \<noteq> i" if "(t'', i, r) \<in> set (ca_results k)" "?c t' = Some d" for t'' i r t' d
      using fwd [OF that(2)] k that(1) unfolding calls_inv_def results_inv_def by fastforce
    moreover have "distinct (map (fst \<circ> snd) (ca_results k))" and
        "\<And>t i r. (t, i, r) \<in> set (ca_results k) \<Longrightarrow> i \<le> p_nextID p \<and> result_ok evs i r"
      using k unfolding calls_inv_def results_inv_def by auto
    ultimately show ?thesis unfolding results_inv_def by (simp del: fun_upd_apply)
  qed
  ultimately show ?thesis using k by (simp add: calls_inv_def)
qed

lemma call_exec_inv:
  assumes "calls_inv evs k" and "call_exec ev k = Some k'"
  shows "calls_inv (evs @ [ev]) k'"
proof -
  note inv = calls_inv_snoc [OF assms(1), of ev]
  show ?thesis
  proof (cases ev)
    case (CBegin t m ps)
    with assms(2) inv show ?thesis by (auto intro: inv_begin split: option.splits prod.splits)
  next
    case (CSend t ok)
    with assms(2) obtain n ch m ps where c: "ca_callers k t = Some (Sending n ch m ps)"
      by (auto split: option.splits caller.splits)
    show ?thesis
    proof (cases ok)
      case True
      with CSend assms(2) c inv_call_send [OF inv c, of ok] show ?thesis
        by (auto simp: call_send_def Let_def)
    next
      case False
      with CSend assms(2) c inv_give_up [OF inv c, of "Inl SendFailed"] show ?thesis
        by (auto simp: call_send_def Let_def sendRaw_def)
    qed
  next
    case (CLine line)
    with assms(2) inv inv_read [OF inv, of line] show ?thesis by (auto split: if_splits)
  next
    case (CReceive t)
    with assms(2) inv show ?thesis by (auto intro: inv_receive split: option.splits caller.splits)
  next
    case (CTimeout t)
    with assms(2) obtain n ch where c: "ca_callers k t = Some (Waiting n ch)"
        and k': "k' = finish t n (Inl TimedOut) (ca_proc k\<lparr>p_pending := AList.delete n (p_pending (ca_proc k))\<rparr>) k"
      by (auto simp: call_timeout_def split: option.splits caller.splits)
    then show ?thesis using inv_give_up [OF inv c, of "Inl TimedOut"] by simp
  next
    case (CStopped t)
    with assms(2) obtain n ch where c: "ca_callers k t = Some (Waiting n ch)" and st: "p_stopped (ca_proc k)"
        and k': "k' = finish t n (Inl Stopped) (ca_proc k) k"
      by (auto simp: call_stopped_def split: option.splits caller.splits if_splits)
    then show ?thesis using inv_finish [OF inv c, of "ca_proc k" "Inl Stopped"] inv by (simp add: calls_inv_def)
  next
    case (CNotify ok m ps)
    with assms(2) calls_inv_write [OF inv] show ?thesis by (auto simp: Notify_def)
  next
    case CStop
    with assms(2) have k': "k' = k\<lparr>ca_proc := ca_proc k\<lparr>p_stopped := True\<rparr>\<rparr>" by (auto simp: Stop_def split: if_splits)
    have "proc_inv (evs @ [ev]) (ca_proc k\<lparr>p_stopped := True\<rparr>)" using inv by (simp add: calls_inv_def proc_inv_def)
    then show ?thesis unfolding k' by (intro inv_proc [OF inv]) simp_all
  qed
qed

definition calls_init :: "string list \<Rightarrow> calls" where
  "calls_init hooks = \<lparr>ca_proc = NewPluginProcess hooks, ca_callers = (\<lambda>_. None), ca_results = [], ca_blocked = False\<rparr>"

lemma calls_init_inv: "calls_inv [] (calls_init hooks)"
  by (simp add: calls_inv_def proc_inv_def callers_inv_def results_inv_def calls_init_def NewPluginProcess_def)

lemma call_reach_inv: "call_reach (calls_init hooks) evs k \<Longrightarrow> calls_inv evs k"
  by (induction evs k rule: call_reach.induct) (auto intro: calls_init_inv call_exec_inv)


text \<open>
  A run: the first call times out, its response arrives late, and the second call gets its
  own.
\<close>

definition demo_response :: "int \<Rightarrow> Response" where
  "demo_response n = \<lparr>rs_ID = n, rs_Result = [(''n'', j_int n)], rs_Error = []\<rparr>"

definition demo_calls :: "call_event list" where
  "demo_calls = [CBegin 0 ''m'' [], CSend 0 True, CBegin 1 ''m'' [], CSend 1 True, CTimeout 0,
     CLine (response_line (demo_response 1)), CLine (response_line (demo_response 2)), CReceive 1]"

fun call_run :: "call_event list \<Rightarrow> calls \<Rightarrow> calls option" where
  "call_run [] k = Some k"
| "call_run (ev # evs) k = (case call_exec ev k of None \<Rightarrow> None | Some k' \<Rightarrow> call_run evs k')"

lemma call_run_reach: "call_reach k0 pre k \<Longrightarrow> call_run evs k = Some k' \<Longrightarrow> call_reach k0 (pre @ evs) k'"
proof (induction evs arbitrary: pre k)
  case (Cons ev evs)
  then obtain k1 where "call_exec ev k = Some k1" "call_run evs k1 = Some k'" by (auto split: option.splits)
  then show ?case using Cons.IH [OF reach_next [OF Cons.prems(1)]] by fastforce
qed simp

lemma demo_response_line: "int64 n \<Longrightarrow> parse_response (response_line (demo_response n)) = Some (demo_response n)"
  by (rule parse_response_line) (simp_all add: demo_response_def jmap_ok_def)

lemma demo_calls_run:
  "\<exists>k. call_run demo_calls (calls_init []) = Some k
    \<and> ca_results k = [(0, 1, Inl TimedOut), (1, 2, Inr [(''n'', j_int 2)])] \<and> p_pending (ca_proc k) = []"
  by (simp add: demo_calls_def calls_init_def NewPluginProcess_def call_begin_def call_send_def sendRaw_def call_timeout_def
      finish_def read_response_def demo_response_line int64_def Let_def call_receive_def)
    (simp add: demo_response_def)


end
