(* ===== verification/DynManager.thy ===== *)
theory DynManager
  imports DynProcess TcpService
begin

text \<open>
  The manager of the plugin processes (\<open>dynplugin/manager.go\<close>) and the adapters that make it an
  accept filter and a traffic logger of the server's plugin manager (\<open>dynplugin/adapter.go\<close>).
  What a call returns and whether a process is alive are parameters here: the calls
  themselves are the subject of \<open>DynProcess\<close>. The file system, too, is a parameter.
\<close>

section \<open>Results\<close>

text \<open>
  Type assertions on a member of a result: \<open>v, _ := result[k].(bool)\<close> and \<open>.(string)\<close> give the
  zero value when the member is absent or of another type.
\<close>

definition result_bool :: "jmap \<Rightarrow> string \<Rightarrow> bool" where
  "result_bool result k = (case map_of result k of Some (JBool b) \<Rightarrow> b | _ \<Rightarrow> False)"

definition result_string :: "jmap \<Rightarrow> string \<Rightarrow> string" where
  "result_string result k = (case map_of result k of Some (JStr s) \<Rightarrow> s | _ \<Rightarrow> [])"

text \<open>
  A JSON number as a \<open>float64\<close>, converted with \<open>uint32(x)\<close>: the fraction is cut off and the
  integer taken modulo 2^32, which is what amd64 does with integers of up to 53 bits.
\<close>

definition num_trunc :: "string \<Rightarrow> int" where
  "num_trunc s =
     (let neg = (s \<noteq> [] \<and> hd s = CHR ''-'');
          s1 = (if neg then tl s else s);
          ip = takeWhile is_digit s1; r1 = dropWhile is_digit s1;
          fp = (if r1 \<noteq> [] \<and> hd r1 = CHR ''.'' then takeWhile is_digit (tl r1) else []);
          r2 = (if r1 \<noteq> [] \<and> hd r1 = CHR ''.'' then dropWhile is_digit (tl r1) else r1);
          ex = (if r2 = [] then 0 else case atoi (tl r2) of Some x \<Rightarrow> x | None \<Rightarrow> 0);
          m = int (dec_val (ip @ fp)); sc = ex - int (length fp);
          v = (if sc \<ge> 0 then m * 10 ^ nat sc else m div 10 ^ nat (- sc))
      in if neg then - v else v)"

definition num_u32 :: "string \<Rightarrow> u32" where
  "num_u32 s = word_of_int (num_trunc s)"

section \<open>The manager's hooks\<close>

text \<open>
  A plugin: its name, its process, what \<open>Alive\<close> says, whether a notification can be written
  and what \<open>Call\<close> returns for a method and its parameters.
\<close>

record plugin =
  pl_name :: string
  pl_proc :: process
  pl_alive :: bool
  pl_writes :: bool
  pl_call :: "string \<Rightarrow> jmap \<Rightarrow> call_error + jmap"

record dyn_manager =
  dm_plugins :: "plugin list"
  dm_timeout :: int

definition dm_NewManager :: "int \<Rightarrow> dyn_manager" where
  "dm_NewManager timeout = \<lparr>dm_plugins = [], dm_timeout = (if timeout \<le> 0 then 5 * 1000000000 else timeout)\<rparr>"

definition skips :: "string \<Rightarrow> plugin \<Rightarrow> bool" where
  "skips hook p \<longleftrightarrow> \<not> HasHook hook (pl_proc p) \<or> \<not> pl_alive p"

fun dm_OnAccept :: "plugin list \<Rightarrow> string \<Rightarrow> string \<Rightarrow> bool \<times> string" where
  "dm_OnAccept [] proto addr = (True, [])"
| "dm_OnAccept (p # ps) proto addr =
     (if skips ''on_accept'' p then dm_OnAccept ps proto addr
      else (case pl_call p ''on_accept'' [(''addr'', JStr addr), (''proto'', JStr proto)] of
              Inl err \<Rightarrow> dm_OnAccept ps proto addr
            | Inr result \<Rightarrow>
                if \<not> result_bool result ''allowed'' then (False, result_string result ''reason'')
                else dm_OnAccept ps proto addr))"

fun dm_OnOpen :: "plugin list \<Rightarrow> string \<Rightarrow> string \<Rightarrow> u32 \<Rightarrow> int \<Rightarrow> PluginAction" where
  "dm_OnOpen [] proto remoteAddr channelID localPort = no_action"
| "dm_OnOpen (p # ps) proto remoteAddr channelID localPort =
     (if skips ''on_open'' p then dm_OnOpen ps proto remoteAddr channelID localPort
      else (case pl_call p ''on_open'' [(''channel_id'', j_int (uint channelID)), (''local_port'', j_int localPort),
                (''proto'', JStr proto), (''remote_addr'', JStr remoteAddr)] of
              Inl err \<Rightarrow> dm_OnOpen ps proto remoteAddr channelID localPort
            | Inr result \<Rightarrow>
                if result_string result ''action'' = ''close''
                then \<lparr>act_Close = True, act_Reason = result_string result ''reason''\<rparr>
                else dm_OnOpen ps proto remoteAddr channelID localPort))"

definition dm_OnClose :: "u32 \<Rightarrow> plugin list \<Rightarrow> plugin list" where
  "dm_OnClose channelID ps = map (\<lambda>p. if skips ''on_close'' p then p
     else p\<lparr>pl_proc := Notify (pl_writes p) ''on_close'' [(''channel_id'', j_int (uint channelID))] (pl_proc p)\<rparr>) ps"

definition dm_OnData :: "u32 \<Rightarrow> string \<Rightarrow> int \<Rightarrow> plugin list \<Rightarrow> plugin list" where
  "dm_OnData channelID dir n ps = map (\<lambda>p. if skips ''on_data'' p then p
     else p\<lparr>pl_proc := Notify (pl_writes p) ''on_data''
        [(''bytes'', j_int n), (''channel_id'', j_int (uint channelID)), (''dir'', JStr dir)] (pl_proc p)\<rparr>) ps"

text \<open>The channels of one answer to \<open>on_check\<close>.\<close>

definition check_channels :: "jmap \<Rightarrow> u32 list" where
  "check_channels result =
     (if result_string result ''action'' = ''close'' then
        (case map_of result ''channels'' of
           Some (JArr vs) \<Rightarrow> List.map_filter (\<lambda>v. case v of JNum n \<Rightarrow> Some (num_u32 n) | _ \<Rightarrow> None) vs
         | _ \<Rightarrow> [])
      else [])"

fun dm_OnCheck :: "plugin list \<Rightarrow> u32 list" where
  "dm_OnCheck [] = []"
| "dm_OnCheck (p # ps) =
     (if skips ''on_check'' p then dm_OnCheck ps
      else (case pl_call p ''on_check'' [] of
              Inl err \<Rightarrow> dm_OnCheck ps
            | Inr result \<Rightarrow> check_channels result @ dm_OnCheck ps))"

text \<open>Stopping every process; None where a process was stopped before (the close panics).\<close>

definition dm_Stop :: "dyn_manager \<Rightarrow> (process list \<times> dyn_manager) option" where
  "dm_Stop m = map_option (\<lambda>qs. (qs, m\<lparr>dm_plugins := []\<rparr>))
     (those (map (\<lambda>p. case Stop (pl_proc p) of Ret q \<Rightarrow> Some q | _ \<Rightarrow> None) (dm_plugins m)))"

definition PluginCount :: "dyn_manager \<Rightarrow> nat" where
  "PluginCount m = length (dm_plugins m)"

definition PluginNames :: "dyn_manager \<Rightarrow> string list" where
  "PluginNames m = map pl_name (dm_plugins m)"

section \<open>Loading\<close>

text \<open>
  What the file system and the operating system answer: the text of \<open>plugin.json\<close> in the
  directory itself, the entries of the directory (name, whether a directory, the text of its
  \<open>plugin.json\<close>; None when the directory cannot be read), and how starting a plugin goes.
\<close>

record load_env =
  le_root :: "string option"
  le_entries :: "(string \<times> bool \<times> string option) list option"
  le_spawn :: "PluginManifest \<Rightarrow> spawn_env"
  le_plugin :: "PluginManifest \<Rightarrow> Handshake \<Rightarrow> plugin"

datatype load_error = LoadFailed string start_error | ReadDirFailed

definition LoadPlugin :: "load_env \<Rightarrow> PluginManifest \<Rightarrow> dyn_manager \<Rightarrow> start_error option \<times> dyn_manager" where
  "LoadPlugin e manifest m =
     (case fst (proc_Start manifest (le_spawn e manifest)) of
        Inl err \<Rightarrow> (Some err, m)
      | Inr h \<Rightarrow> (None, m\<lparr>dm_plugins := dm_plugins m
          @ [(le_plugin e manifest h)\<lparr>pl_name := hs_Name h, pl_proc := NewPluginProcess (hs_Hooks h)\<rparr>]\<rparr>))"

fun load_entries :: "load_env \<Rightarrow> (string \<times> bool \<times> string option) list \<Rightarrow> dyn_manager \<Rightarrow> dyn_manager" where
  "load_entries e [] m = m"
| "load_entries e ((name, isDir, text) # es) m =
     (if \<not> isDir then load_entries e es m
      else (case Option.bind text parse_manifest of
              None \<Rightarrow> load_entries e es m
            | Some manifest \<Rightarrow>
                if mf_Exec manifest = [] then load_entries e es m
                else if mf_Enabled manifest = Some False then load_entries e es m
                else load_entries e es (snd (LoadPlugin e manifest m))))"

definition LoadDir :: "load_env \<Rightarrow> dyn_manager \<Rightarrow> load_error option \<times> dyn_manager" where
  "LoadDir e m =
     (let scan = (case le_entries e of
            None \<Rightarrow> (Some ReadDirFailed, m)
          | Some es \<Rightarrow> (None, load_entries e es m))
      in case Option.bind (le_root e) parse_manifest of
           None \<Rightarrow> scan
         | Some manifest \<Rightarrow>
             if mf_Exec manifest = [] then scan
             else if mf_Enabled manifest = Some False then (None, m)
             else (case LoadPlugin e manifest m of
                     (Some err, m1) \<Rightarrow> (Some (LoadFailed (mf_Name manifest) err), m1)
                   | (None, m1) \<Rightarrow> (None, m1)))"

section \<open>The adapters\<close>

definition adapter_OnAccept :: "plugin list \<Rightarrow> string \<Rightarrow> string \<Rightarrow> bool" where
  "adapter_OnAccept ps proto addr = fst (dm_OnAccept ps proto addr)"

definition adapter_OnData :: "u32 \<Rightarrow> string \<Rightarrow> int \<Rightarrow> plugin list \<Rightarrow> PluginAction \<times> plugin list" where
  "adapter_OnData channelID dir n ps = (no_action, dm_OnData channelID dir n ps)"

definition adapter_OnOpen :: "plugin list \<Rightarrow> string \<Rightarrow> string \<Rightarrow> u32 \<Rightarrow> int \<Rightarrow> PluginAction" where
  "adapter_OnOpen ps proto remoteAddr channelID localPort = dm_OnOpen ps proto remoteAddr channelID localPort"

definition adapter_OnClose :: "u32 \<Rightarrow> plugin list \<Rightarrow> plugin list" where
  "adapter_OnClose channelID ps = dm_OnClose channelID ps"

definition adapter_OnCheck :: "plugin list \<Rightarrow> u32 list" where
  "adapter_OnCheck ps = dm_OnCheck ps"

text \<open>The answers the hooks of the server's plugin manager get from the dynamic plugins.\<close>

definition dyn_env :: "int \<Rightarrow> plugin list \<Rightarrow> string \<Rightarrow> string \<Rightarrow> u32 \<Rightarrow> int \<Rightarrow> hook_env" where
  "dyn_env now ps proto addr channelID localPort = \<lparr>he_now = now, he_accept = adapter_OnAccept ps proto addr,
     he_open = adapter_OnOpen ps proto addr channelID localPort, he_check = adapter_OnCheck ps\<rparr>"

section \<open>Lemmas\<close>

text \<open>What one plugin has to say about a connection: a reason to refuse it, or nothing.\<close>

definition refusal :: "string \<Rightarrow> string \<Rightarrow> plugin \<Rightarrow> string option" where
  "refusal proto addr p =
     (if HasHook ''on_accept'' (pl_proc p) \<and> pl_alive p
      then (case pl_call p ''on_accept'' [(''addr'', JStr addr), (''proto'', JStr proto)] of
              Inr result \<Rightarrow> if result_bool result ''allowed'' then None else Some (result_string result ''reason'')
            | Inl _ \<Rightarrow> None)
      else None)"

definition closing :: "string \<Rightarrow> string \<Rightarrow> u32 \<Rightarrow> int \<Rightarrow> plugin \<Rightarrow> string option" where
  "closing proto addr ch port p =
     (if HasHook ''on_open'' (pl_proc p) \<and> pl_alive p
      then (case pl_call p ''on_open'' [(''channel_id'', j_int (uint ch)), (''local_port'', j_int port),
                (''proto'', JStr proto), (''remote_addr'', JStr addr)] of
              Inr result \<Rightarrow> if result_string result ''action'' = ''close'' then Some (result_string result ''reason'') else None
            | Inl _ \<Rightarrow> None)
      else None)"

text \<open>
  Claim C25 (plugin_verdicts): a connection is refused exactly when some plugin that is alive
  and has the hook answers the call, without an error, with anything but \<open>allowed: true\<close>;
  the reason is that of the first such plugin in loading order. A plugin that fails, times
  out or has died never refuses anything. An opening is closed by the first plugin that
  answers with the action \<open>close\<close>, and by none otherwise.
\<close>

theorem plugin_verdicts:
  "dm_OnAccept ps proto addr = (case List.map_filter (refusal proto addr) ps of
      [] \<Rightarrow> (True, []) | reason # _ \<Rightarrow> (False, reason))
    \<and> dm_OnOpen ps proto addr ch port = (case List.map_filter (closing proto addr ch port) ps of
      [] \<Rightarrow> no_action | reason # _ \<Rightarrow> \<lparr>act_Close = True, act_Reason = reason\<rparr>)"
proof
  show "dm_OnAccept ps proto addr = (case List.map_filter (refusal proto addr) ps of
      [] \<Rightarrow> (True, []) | reason # _ \<Rightarrow> (False, reason))"
    by (induction ps) (auto simp: List.map_filter_simps refusal_def skips_def split: sum.splits)
  show "dm_OnOpen ps proto addr ch port = (case List.map_filter (closing proto addr ch port) ps of
      [] \<Rightarrow> no_action | reason # _ \<Rightarrow> \<lparr>act_Close = True, act_Reason = reason\<rparr>)"
    by (induction ps) (auto simp: List.map_filter_simps closing_def skips_def split: sum.splits)
qed

lemma dm_OnAccept_refuses: "refusal proto addr p \<noteq> None \<Longrightarrow> p \<in> set ps \<Longrightarrow> \<not> fst (dm_OnAccept ps proto addr)"
  by (induction ps) (auto simp: refusal_def skips_def split: sum.splits if_splits)

lemma run_filters_dyn_refuses: "FilterDyn \<in> set fs \<Longrightarrow> \<not> he_accept e \<Longrightarrow> \<not> fst (run_filters e proto addr fs l)"
  by (induction e proto addr fs l rule: run_filters.induct) (auto split: option.splits prod.splits bool.splits)

text \<open>
  With the plugins among the server's accept filters, a
  TCP connection that one of them refuses gets no channel: the client is not told about it,
  nothing of its state changes, the connection is closed and the service goes on.
\<close>

theorem plugin_refusal_effective:
  assumes "FilterDyn \<in> set (acceptFilters (sh_mgr s))"
    and "p \<in> set ps" and "refusal ''tcp'' (ext_addr x s) p \<noteq> None"
    and "se_hook e = dyn_env now ps ''tcp'' (ext_addr x s) ch port"
  shows "\<exists>s1. tcp_accept e svc x c s = (Continue, c, s1) \<and> sh_nextCID s1 = sh_nextCID s
    \<and> sh_exts s1 x = map_option (\<lambda>k. k\<lparr>x_closed := True\<rparr>) (sh_exts s x)"
proof -
  have "\<not> he_accept (se_hook e)"
    using dm_OnAccept_refuses [OF assms(3,2)] by (simp add: assms(4) dyn_env_def adapter_OnAccept_def)
  then have "\<not> fst (mgr_OnAccept (se_hook e) ''tcp'' (ext_addr x s) (sh_mgr s))"
    using run_filters_dyn_refuses [OF assms(1), of "se_hook e" "''tcp''" "ext_addr x s" "mgr_limiter (sh_mgr s)"]
    by (simp add: mgr_OnAccept_def split_def)
  then obtain m where "mgr_OnAccept (se_hook e) ''tcp'' (ext_addr x s) (sh_mgr s) = (False, m)" by (metis prod.collapse)
  then show ?thesis by (simp add: tcp_accept_def Let_def close_ext_def)
qed

definition demo_plugin :: plugin where
  "demo_plugin = \<lparr>pl_name = ''geo'', pl_proc = NewPluginProcess [''on_accept''], pl_alive = True, pl_writes = True,
     pl_call = (\<lambda>m ps. Inr [(''allowed'', JBool False), (''reason'', JStr ''country'')])\<rparr>"

theorem plugin_refusal_effective_witness:
  "\<exists>s1. tcp_accept (demo_env\<lparr>se_hook := dyn_env 0 [demo_plugin] ''tcp'' ''6.6.6.6:6'' 1 80\<rparr>)
        \<lparr>sm_LocalPort = 1, sm_RemotePort = 2, sm_Proto = ''tcp''\<rparr> 3 demo_client
        (demo_shared\<lparr>sh_mgr := AddAcceptFilter FilterDyn mgr_NewManager,
           sh_exts := [3 \<mapsto> \<lparr>x_addr = ''6.6.6.6:6'', x_sent = [], x_closed = False\<rparr>]\<rparr>) = (Continue, demo_client, s1)
    \<and> sh_exts s1 3 = Some \<lparr>x_addr = ''6.6.6.6:6'', x_sent = [], x_closed = True\<rparr>"
proof -
  let ?s = "demo_shared\<lparr>sh_mgr := AddAcceptFilter FilterDyn mgr_NewManager,
    sh_exts := [3 \<mapsto> \<lparr>x_addr = ''6.6.6.6:6'', x_sent = [], x_closed = False\<rparr>]\<rparr>"
  have "FilterDyn \<in> set (acceptFilters (sh_mgr ?s))" by (simp add: AddAcceptFilter_def)
  moreover have a: "ext_addr 3 ?s = ''6.6.6.6:6''" by (simp add: ext_addr_def)
  moreover have "refusal ''tcp'' (ext_addr 3 ?s) demo_plugin \<noteq> None"
    by (simp add: refusal_def demo_plugin_def HasHook_def NewPluginProcess_def result_bool_def)
  ultimately show ?thesis
    using plugin_refusal_effective [of ?s demo_plugin "[demo_plugin]" 3
        "demo_env\<lparr>se_hook := dyn_env 0 [demo_plugin] ''tcp'' ''6.6.6.6:6'' 1 80\<rparr>" 0 1 80
        "\<lparr>sm_LocalPort = 1, sm_RemotePort = 2, sm_Proto = ''tcp''\<rparr>" demo_client] by simp blast
qed

lemma adapter_OnData_no_close: "act_Close (fst (adapter_OnData ch dir n ps)) = False"
  by (simp add: adapter_OnData_def no_action_def)

text \<open>
  Loading: a directory that holds an enabled plugin itself loads exactly this one; a disabled
  one loads nothing, its subdirectories included; a plugin that does not start is skipped
  when it was found by scanning, and an error when it is the directory's own.
\<close>

lemma load_entries_appends: "\<exists>qs. dm_plugins (load_entries e es m) = dm_plugins m @ qs"
proof (induction es arbitrary: m)
  case (Cons entry es)
  have "\<exists>qs. dm_plugins (snd (LoadPlugin e mf m)) = dm_plugins m @ qs" for mf
    by (auto simp: LoadPlugin_def split: sum.splits)
  then have "\<exists>m' qs. load_entries e (entry # es) m = load_entries e es m' \<and> dm_plugins m' = dm_plugins m @ qs"
    by (cases entry) (auto split: option.splits)
  with Cons show ?case by (metis append_assoc)
qed simp

lemma LoadDir_disabled:
  "le_root e = Some t \<Longrightarrow> parse_manifest t = Some mf \<Longrightarrow> mf_Exec mf \<noteq> [] \<Longrightarrow> mf_Enabled mf = Some False
    \<Longrightarrow> LoadDir e m = (None, m)"
  by (simp add: LoadDir_def)

lemma LoadPlugin_named:
  assumes "LoadPlugin e mf m = (None, m')"
  shows "\<exists>p. dm_plugins m' = dm_plugins m @ [p] \<and> pl_name p \<noteq> []"
  using assms by (auto simp: LoadPlugin_def proc_Start_def Let_def split: sum.splits option.splits if_splits)

end
