(* ===== verification/ServerMain.thy ===== *)
theory ServerMain
  imports ServerSystem DynManager
begin

text \<open>
  The server's \<open>main\<close> (\<open>signal-server/main.go\<close>): the plugins and limits it builds from the
  flags, the services it starts, and what it does when it is told to stop. The log file, the
  plugin directory and the ports are parameters. A start that ends in \<open>log.Fatalf\<close> is an error.
\<close>

section \<open>Start\<close>

record server_flags =
  sf_STUNPort :: int
  sf_RelayPort :: int
  sf_PublicAddr :: string
  sf_AuthKey :: string
  sf_IPAllow :: string
  sf_IPDeny :: string
  sf_TrafficLog :: string
  sf_Compress :: bool
  sf_MaxConns :: int
  sf_RateLimit :: int
  sf_PluginDir :: string
  sf_PluginTimeout :: int

text \<open>The clock, the old lines of the log file (None when it cannot be opened), and the plugin directory.\<close>

record start_env =
  st_now :: int
  st_logfile :: "log_line list option"
  st_load :: load_env

datatype fatal = BadFilter filter_err | BadLogFile

definition server_config :: "server_flags \<Rightarrow> Config" where
  "server_config f = \<lparr>cfg_STUNPort = sf_STUNPort f, cfg_RelayPort = sf_RelayPort f, cfg_PublicAddr = sf_PublicAddr f,
     cfg_AuthKey = sf_AuthKey f\<rparr>"

definition load_ip_filter :: "server_flags \<Rightarrow> Manager \<Rightarrow> fatal + Manager" where
  "load_ip_filter f m =
     (if sf_IPAllow f \<noteq> [] \<or> sf_IPDeny f \<noteq> [] then
        (case NewIPFilter (sf_IPAllow f) (sf_IPDeny f) of
           Inl err \<Rightarrow> Inl (BadFilter err)
         | Inr ipf \<Rightarrow> Inr (AddAcceptFilter (FilterIP ipf) m))
      else Inr m)"

definition load_traffic_log :: "start_env \<Rightarrow> server_flags \<Rightarrow> Manager \<Rightarrow> fatal + Manager" where
  "load_traffic_log e f m =
     (if sf_TrafficLog f \<noteq> [] then
        (case st_logfile e of
           None \<Rightarrow> Inl BadLogFile
         | Some old \<Rightarrow> Inr (SetLogger (FileLogger (NewTrafficLog old)) m))
      else Inr m)"

definition load_compression :: "server_flags \<Rightarrow> Manager \<Rightarrow> Manager" where
  "load_compression f m =
     (if sf_Compress f then SetCompressor (NewCompression 1 128) m else SetDecompressor (NewCompression 1 128) m)"

definition load_limiter :: "server_flags \<Rightarrow> Manager \<Rightarrow> Manager" where
  "load_limiter f m = (if sf_MaxConns f > 0 then SetConnLimiter (NewConnLimit (sf_MaxConns f)) m else m)"

text \<open>The second result is the manager of the dynamic plugins, if there is one.\<close>

definition load_plugins :: "start_env \<Rightarrow> server_flags \<Rightarrow> Manager \<Rightarrow> Manager \<times> dyn_manager option" where
  "load_plugins e f m =
     (if sf_PluginDir f \<noteq> [] then
        (case LoadDir (st_load e) (dm_NewManager (sf_PluginTimeout f)) of
           (Some err, dm) \<Rightarrow> (m, Some dm)
         | (None, dm) \<Rightarrow> (SetLogger (DynLogger []) (AddAcceptFilter FilterDyn m), Some dm))
      else (m, None))"

definition server_main :: "start_env \<Rightarrow> server_flags \<Rightarrow> fatal + sys \<times> dyn_manager option" where
  "server_main e f =
     (case load_ip_filter f mgr_NewManager of
        Inl err \<Rightarrow> Inl err
      | Inr m1 \<Rightarrow>
          (case load_traffic_log e f m1 of
             Inl err \<Rightarrow> Inl err
           | Inr m2 \<Rightarrow>
               (case load_plugins e f (load_limiter f (load_compression f m2)) of
                  (m3, dm) \<Rightarrow> Inr (sys_init (server_config f) m3 (NewRateLimit (sf_RateLimit f) (st_now e)), dm))))"

section \<open>Stop\<close>

text \<open>
  The services: which are started, and the error that makes \<open>main\<close> stop at once, when a port
  cannot be listened on. With both failing either error may come first.
\<close>

datatype service = StunService int | RelayService int

definition server_services :: "server_flags \<Rightarrow> service list" where
  "server_services f = (if sf_STUNPort f > 0 then [StunService (sf_STUNPort f)] else []) @ [RelayService (sf_RelayPort f)]"

definition startup_failures :: "(service \<Rightarrow> bool) \<Rightarrow> server_flags \<Rightarrow> service list" where
  "startup_failures listens f = filter (\<lambda>s. \<not> listens s) (server_services f)"

text \<open>
  The accept loop of the relay port: a new connection becomes a client with its goroutine; a
  failed accept ends the loop only when the server is being stopped.
\<close>

definition relay_accept :: "lz4 \<Rightarrow> bool \<Rightarrow> wconn option \<Rightarrow> sys \<Rightarrow> flow \<times> sys" where
  "relay_accept z stopping accepted y =
     (case accepted of
        None \<Rightarrow> (if stopping then Return else Continue, y)
      | Some w \<Rightarrow> (Continue, case srv_exec z (EvConnect w) y of Some y1 \<Rightarrow> y1 | None \<Rightarrow> y))"

text \<open>
  Every client in the map is stopped and its connection closed, the map is emptied, and the
  plugins' processes are stopped (None when that panics).
\<close>

definition stop_clients :: "server \<Rightarrow> server" where
  "stop_clients s = \<lparr>sv_sh = (sv_sh s)\<lparr>sh_clients := []\<rparr>,
     sv_objs = (\<lambda>cid. if cid \<in> set (sh_clients (sv_sh s)) then map_option (\<lambda>c. close_conn (client_stop c)) (sv_objs s cid)
                      else sv_objs s cid)\<rparr>"

definition server_stop :: "server \<times> dyn_manager option \<Rightarrow> (server \<times> dyn_manager option) option" where
  "server_stop = (\<lambda>(s, dm).
     (case dm of
        None \<Rightarrow> Some (stop_clients s, None)
      | Some d \<Rightarrow> map_option (\<lambda>(_, d1). (stop_clients s, Some d1)) (dm_Stop d)))"

section \<open>What a started server admits\<close>

definition plugins_on :: "start_env \<Rightarrow> server_flags \<Rightarrow> bool" where
  "plugins_on e f \<longleftrightarrow> sf_PluginDir f \<noteq> [] \<and> fst (LoadDir (st_load e) (dm_NewManager (sf_PluginTimeout f))) = None"

definition ip_filters :: "server_flags \<Rightarrow> accept_filter list" where
  "ip_filters f =
     (if sf_IPAllow f \<noteq> [] \<or> sf_IPDeny f \<noteq> [] then
        (case NewIPFilter (sf_IPAllow f) (sf_IPDeny f) of Inl err \<Rightarrow> [] | Inr ipf \<Rightarrow> [FilterIP ipf])
      else [])"

definition start_logger :: "start_env \<Rightarrow> server_flags \<Rightarrow> logger option" where
  "start_logger e f = (if plugins_on e f then Some (DynLogger [])
     else if sf_TrafficLog f \<noteq> [] then map_option (\<lambda>old. FileLogger (NewTrafficLog old)) (st_logfile e) else None)"

lemma load_ip_filter_Inr:
  "load_ip_filter f mgr_NewManager = Inr m \<Longrightarrow> m = mgr_NewManager\<lparr>acceptFilters := ip_filters f\<rparr>"
  by (auto simp: load_ip_filter_def ip_filters_def AddAcceptFilter_def mgr_NewManager_def split: sum.splits if_splits)

lemma load_traffic_log_Inr:
  "load_traffic_log e f m = Inr m1 \<Longrightarrow> m1 = (if sf_TrafficLog f = [] then m
     else m\<lparr>mgr_logger := map_option (\<lambda>old. FileLogger (NewTrafficLog old)) (st_logfile e)\<rparr>)"
  by (auto simp: load_traffic_log_def SetLogger_def split: option.splits if_splits)

lemma load_plugins_eq:
  "fst (load_plugins e f m) = (if plugins_on e f
     then m\<lparr>acceptFilters := acceptFilters m @ [FilterDyn], mgr_logger := Some (DynLogger [])\<rparr> else m)"
  by (auto simp: load_plugins_def plugins_on_def SetLogger_def AddAcceptFilter_def split: prod.splits option.splits)

text \<open>The manager a start ends with.\<close>

lemma server_main_mgr:
  assumes "server_main e f = Inr (y, dm)"
  shows "y = sys_init (server_config f)
    \<lparr>acceptFilters = ip_filters f @ (if sf_MaxConns f > 0 then [FilterLimit] else []) @ (if plugins_on e f then [FilterDyn] else []),
     compressor = (if sf_Compress f then Some (NewCompression 1 128) else None),
     decompressor = (if sf_Compress f then None else Some (NewCompression 1 128)),
     mgr_logger = start_logger e f,
     mgr_limiter = (if sf_MaxConns f > 0 then Some (NewConnLimit (sf_MaxConns f)) else None)\<rparr>
    (NewRateLimit (sf_RateLimit f) (st_now e))"
proof -
  from assms obtain m1 m2 where m: "load_ip_filter f mgr_NewManager = Inr m1" "load_traffic_log e f m1 = Inr m2"
    and y: "y = sys_init (server_config f) (fst (load_plugins e f (load_limiter f (load_compression f m2))))
      (NewRateLimit (sf_RateLimit f) (st_now e))"
    by (simp add: server_main_def split: sum.splits prod.splits)
  have "m2 = \<lparr>acceptFilters = ip_filters f, compressor = None, decompressor = None,
      mgr_logger = (if sf_TrafficLog f = [] then None else map_option (\<lambda>old. FileLogger (NewTrafficLog old)) (st_logfile e)),
      mgr_limiter = None\<rparr>"
    using load_traffic_log_Inr [OF m(2)] load_ip_filter_Inr [OF m(1)] by (simp add: mgr_NewManager_def)
  then show ?thesis
    by (simp add: y load_plugins_eq load_limiter_def load_compression_def start_logger_def SetCompressor_def SetDecompressor_def
        SetConnLimiter_def AddAcceptFilter_def)
qed

lemma load_ip_filter_valid:
  "server_main e f = Inr (y, dm) \<Longrightarrow> sf_IPAllow f \<noteq> [] \<or> sf_IPDeny f \<noteq> []
    \<Longrightarrow> \<exists>ipf. NewIPFilter (sf_IPAllow f) (sf_IPDeny f) = Inr ipf \<and> ip_filters f = [FilterIP ipf]"
  by (auto simp: server_main_def load_ip_filter_def ip_filters_def split: sum.splits)

lemma mem_ip_filters:
  "FilterIP ipf \<in> set (ip_filters f)
    \<longleftrightarrow> (sf_IPAllow f \<noteq> [] \<or> sf_IPDeny f \<noteq> []) \<and> NewIPFilter (sf_IPAllow f) (sf_IPDeny f) = Inr ipf"
proof (cases "sf_IPAllow f \<noteq> [] \<or> sf_IPDeny f \<noteq> []")
  case True
  then have "ip_filters f = (case NewIPFilter (sf_IPAllow f) (sf_IPDeny f) of Inl err \<Rightarrow> [] | Inr ipf \<Rightarrow> [FilterIP ipf])"
    unfolding ip_filters_def by (rule if_P)
  with True show ?thesis by (cases "NewIPFilter (sf_IPAllow f) (sf_IPDeny f)") auto
qed (simp add: ip_filters_def)

lemma fst_pass: "fst (case (P, l) of (True, l1) \<Rightarrow> F l1 | (False, l1) \<Rightarrow> (False, l1)) = (P \<and> fst (F l))"
  by (cases P) simp_all

lemma run_ip_filters:
  "run_filters e proto addr (ip_filters f) l
    = ((\<forall>ipf. FilterIP ipf \<in> set (ip_filters f) \<longrightarrow> ipf_OnAccept ipf proto addr), l)"
proof -
  have "ip_filters f = [] \<or> (\<exists>ipf. ip_filters f = [FilterIP ipf])" by (simp add: ip_filters_def split: sum.split)
  then show ?thesis by (elim disjE exE) simp_all
qed

text \<open>
  Claim C17 (server_admission): a start with an invalid address list is fatal. A server that has
  started admits a connection, whatever its limiter has counted, exactly when the address
  lists given by the flags admit the address, the limiter (if \<open>-max-conns\<close> is positive) has
  room and the loaded plugins (if the directory could be loaded) do not refuse it; its traffic
  logger is the plugins' whenever a directory was loaded, even if \<open>-traffic-log\<close> is given.
\<close>

theorem server_admission:
  assumes "server_main e f = Inr (y, dm)"
  shows "(sf_IPAllow f \<noteq> [] \<or> sf_IPDeny f \<noteq> [] \<longrightarrow> (\<exists>ipf. NewIPFilter (sf_IPAllow f) (sf_IPDeny f) = Inr ipf))
    \<and> fst (mgr_OnAccept (dyn_env now ps proto addr ch port) proto addr ((sh_mgr (sv_sh (sy_srv y)))\<lparr>mgr_limiter := Some cnt\<rparr>)) =
      ((\<forall>ipf. (sf_IPAllow f \<noteq> [] \<or> sf_IPDeny f \<noteq> []) \<and> NewIPFilter (sf_IPAllow f) (sf_IPDeny f) = Inr ipf
          \<longrightarrow> ipf_OnAccept ipf proto addr)
        \<and> (sf_MaxConns f > 0 \<longrightarrow> fst (limit_OnAccept cnt))
        \<and> (plugins_on e f \<longrightarrow> adapter_OnAccept ps proto addr))
    \<and> (plugins_on e f \<longrightarrow> mgr_logger (sh_mgr (sv_sh (sy_srv y))) = Some (DynLogger []))"
proof -
  let ?m = "sh_mgr (sv_sh (sy_srv y))"
  have m: "acceptFilters ?m = ip_filters f @ (if sf_MaxConns f > 0 then [FilterLimit] else []) @ (if plugins_on e f then [FilterDyn] else [])"
    "mgr_logger ?m = start_logger e f"
    using server_main_mgr [OF assms(1)] by (simp_all add: sys_init_def)
  have rest: "fst (run_filters (dyn_env now ps proto addr ch port) proto addr
      ((if sf_MaxConns f > 0 then [FilterLimit] else []) @ (if plugins_on e f then [FilterDyn] else [])) (Some cnt))
    = ((sf_MaxConns f > 0 \<longrightarrow> fst (limit_OnAccept cnt)) \<and> (plugins_on e f \<longrightarrow> adapter_OnAccept ps proto addr))"
    by (auto simp: dyn_env_def split: prod.splits bool.splits)
  have "fst (mgr_OnAccept (dyn_env now ps proto addr ch port) proto addr (?m\<lparr>mgr_limiter := Some cnt\<rparr>))
    = fst (run_filters (dyn_env now ps proto addr ch port) proto addr (acceptFilters ?m) (Some cnt))"
    by (simp add: mgr_OnAccept_def split: prod.splits)
  also have "\<dots> = ((\<forall>ipf. FilterIP ipf \<in> set (ip_filters f) \<longrightarrow> ipf_OnAccept ipf proto addr)
      \<and> (sf_MaxConns f > 0 \<longrightarrow> fst (limit_OnAccept cnt)) \<and> (plugins_on e f \<longrightarrow> adapter_OnAccept ps proto addr))"
    unfolding m(1) run_filters_append [of _ _ _ "ip_filters f"] run_ip_filters fst_pass rest ..
  finally show ?thesis using load_ip_filter_valid [OF assms(1)] m(2) unfolding mem_ip_filters by (auto simp: start_logger_def)
qed

definition demo_flags :: server_flags where
  "demo_flags = \<lparr>sf_STUNPort = 0, sf_RelayPort = 9000, sf_PublicAddr = [], sf_AuthKey = ''k'', sf_IPAllow = ''10.0.0.0/8'',
     sf_IPDeny = [], sf_TrafficLog = [], sf_Compress = True, sf_MaxConns = 1, sf_RateLimit = 0, sf_PluginDir = [],
     sf_PluginTimeout = 0\<rparr>"

text \<open>An address outside the allowed block is refused, one inside is admitted while there is room.\<close>

theorem server_admission_witness:
  "\<forall>e. \<exists>y. server_main e demo_flags = Inr (y, None)
    \<and> \<not> fst (mgr_OnAccept (dyn_env 0 [] ''tcp'' ''[fe80::1]:5000'' 0 0) ''tcp'' ''[fe80::1]:5000''
        ((sh_mgr (sv_sh (sy_srv y)))\<lparr>mgr_limiter := Some (NewConnLimit 1)\<rparr>))"
proof
  fix e
  obtain ipf where ipf: "NewIPFilter ''10.0.0.0/8'' [] = Inr ipf" "\<not> ipf_OnAccept ipf ''tcp'' ''[fe80::1]:5000''"
    by (simp add: filter_examples contains_eval remote_ip_examples)
  then obtain y where y: "server_main e demo_flags = Inr (y, None)"
    by (simp add: server_main_def load_ip_filter_def load_traffic_log_def load_plugins_def demo_flags_def)
  have "sf_IPAllow demo_flags = ''10.0.0.0/8''" "sf_IPDeny demo_flags = []" by (simp_all add: demo_flags_def)
  then show "\<exists>y. server_main e demo_flags = Inr (y, None)
    \<and> \<not> fst (mgr_OnAccept (dyn_env 0 [] ''tcp'' ''[fe80::1]:5000'' 0 0) ''tcp'' ''[fe80::1]:5000''
        ((sh_mgr (sv_sh (sy_srv y)))\<lparr>mgr_limiter := Some (NewConnLimit 1)\<rparr>))"
    using server_admission [OF y, of 0 "[]" "''tcp''" "''[fe80::1]:5000''" 0 0 "NewConnLimit 1"] ipf y by auto
qed

section \<open>Runs of a started server\<close>

lemma plugins_on_no_dyn:
  assumes "server_main e f = Inr (y, dm)" and "\<not> plugins_on e f"
  shows "no_dyn (sh_mgr (sv_sh (sy_srv y)))"
proof -
  have "mgr_logger (sh_mgr (sv_sh (sy_srv y))) = start_logger e f"
    using server_main_mgr [OF assms(1)] by (simp add: sys_init_def)
  then show ?thesis using assms(2) by (auto simp: no_dyn_def start_logger_def split: option.splits)
qed



end
