(* ===== verification/Stun.thy ===== *)
theory Stun
  imports GoNet
begin

text \<open>
  STUN: the messages the client builds and parses and its NAT classification
  (\<open>stun/stun.go\<close>), and the answer of the server's STUN port (\<open>runSTUNServer\<close> and
  \<open>buildSTUNResponse\<close> of \<open>signal-server/main.go\<close>). The network is a parameter: what the
  random source, the resolver and the sockets answer. A transaction id is its 12 bytes.
\<close>

section \<open>Messages\<close>

definition stunMagicCookie :: u32 where "stunMagicCookie = 0x2112A442"
definition bindingRequest :: u16 where "bindingRequest = 0x0001"
definition bindingResponse :: u16 where "bindingResponse = 0x0101"
definition attrXORMapped :: u16 where "attrXORMapped = 0x0020"
definition attrMappedAddr :: u16 where "attrMappedAddr = 0x0001"
definition stunHeaderSize :: nat where "stunHeaderSize = 20"
definition stunAttrHeader :: nat where "stunAttrHeader = 4"
definition familyIPv4 :: byte where "familyIPv4 = 1"
definition familyIPv6 :: byte where "familyIPv6 = 2"

lemmas stun_consts = stunMagicCookie_def bindingRequest_def bindingResponse_def attrXORMapped_def attrMappedAddr_def
  stunHeaderSize_def stunAttrHeader_def familyIPv4_def familyIPv6_def

record stun_addr =
  sa_IP :: bytes
  sa_Port :: int

datatype stun_err =
    ErrNoXORMappedAddr
  | ErrInvalidResponse
  | UnexpectedType u16
  | RandErr
  | ResolveErr
  | WriteErr
  | ReadErr
  | ListenErr
  | FirstRequest stun_err
  | SplitErr

text \<open>The argument is what \<open>rand.Read\<close> puts into the transaction id, None if it fails.\<close>

definition buildBindingRequest :: "bytes option \<Rightarrow> (stun_err, bytes \<times> bytes) go" where
  "buildBindingRequest rnd =
     (case rnd of
        None \<Rightarrow> Err RandErr
      | Some txnID \<Rightarrow> Ret (put_u16 bindingRequest @ put_u16 0 @ put_u32 stunMagicCookie @ txnID, txnID))"

text \<open>The port of an attribute: \<open>attrValue[2:4]\<close>.\<close>

definition attr_port :: "bytes \<Rightarrow> u16 option" where
  "attr_port v = get_u16 (take 2 (drop 2 v))"

text \<open>
  In Go \<open>>>\<close> binds tighter than \<open>^\<close>: every byte of the address is computed from the last
  byte of the attribute alone.
\<close>

definition parseXORMappedAddr :: "bytes \<Rightarrow> bytes \<Rightarrow> (stun_err, stun_addr) go" where
  "parseXORMappedAddr attrValue txnID =
     (if length attrValue < 4 then Err ErrInvalidResponse
      else case (hd attrValue, attr_port attrValue) of
        (family, Some xorPort) \<Rightarrow>
          (let port = xorPort XOR ucast (drop_bit 16 stunMagicCookie)
           in if family = familyIPv4 then
                (if length attrValue < 8 then Err ErrInvalidResponse
                 else case get_u32 (take 4 (drop 4 attrValue)) of
                   Some xorIP \<Rightarrow>
                     Ret \<lparr>sa_IP = ipv4 (ucast (xorIP XOR drop_bit 24 stunMagicCookie))
                            (ucast (xorIP XOR drop_bit 16 stunMagicCookie))
                            (ucast (xorIP XOR drop_bit 8 stunMagicCookie))
                            (ucast (xorIP XOR stunMagicCookie)), sa_Port = uint port\<rparr>
                 | None \<Rightarrow> Panic)
              else if family = familyIPv6 then
                (if length attrValue < 20 then Err ErrInvalidResponse
                 else Ret \<lparr>sa_IP = map2 (XOR) (take 16 (drop 4 attrValue)) (put_u32 stunMagicCookie @ txnID),
                        sa_Port = uint port\<rparr>)
              else Err ErrInvalidResponse)
      | _ \<Rightarrow> Panic)"

definition parseMappedAddr :: "bytes \<Rightarrow> (stun_err, stun_addr) go" where
  "parseMappedAddr attrValue =
     (if length attrValue < 4 then Err ErrInvalidResponse
      else case (hd attrValue, attr_port attrValue) of
        (family, Some port) \<Rightarrow>
          (if family = familyIPv4 then
             (if length attrValue < 8 then Err ErrInvalidResponse
              else Ret \<lparr>sa_IP = ipv4 (attrValue ! 4) (attrValue ! 5) (attrValue ! 6) (attrValue ! 7),
                     sa_Port = uint port\<rparr>)
           else if family = familyIPv6 then
             (if length attrValue < 20 then Err ErrInvalidResponse
              else Ret \<lparr>sa_IP = take 16 (drop 4 attrValue), sa_Port = uint port\<rparr>)
           else Err ErrInvalidResponse)
      | _ \<Rightarrow> Panic)"

text \<open>
  The loop over the attributes. Its argument is \<open>data[offset:]\<close>: the loop goes on while four
  bytes are left and stops at an attribute that is longer than the rest. An invalid
  XOR-MAPPED-ADDRESS ends the parse, an invalid MAPPED-ADDRESS is skipped.
\<close>

function parse_attrs :: "bytes \<Rightarrow> stun_addr option \<Rightarrow> bytes \<Rightarrow> (stun_err, stun_addr option) go" where
  "parse_attrs txnID mappedAddr (t0 # t1 # l0 # l1 # rest) =
     (let attrType = push_bit 8 (ucast t0) OR ucast t1 :: u16;
          attrLen = unat (push_bit 8 (ucast l0) OR ucast l1 :: u16)
      in if attrLen > length rest then Ret mappedAddr
         else
           (let attrValue = take attrLen rest;
                paddedLen = (if attrLen mod 4 \<noteq> 0 then attrLen + (4 - attrLen mod 4) else attrLen)
            in if attrType = attrXORMapped then
                 (case parseXORMappedAddr attrValue txnID of
                    Ret addr \<Rightarrow> parse_attrs txnID (Some addr) (drop paddedLen rest)
                  | Err e \<Rightarrow> Err e
                  | Panic \<Rightarrow> Panic)
               else if attrType = attrMappedAddr \<and> mappedAddr = None then
                 (case parseMappedAddr attrValue of
                    Ret addr \<Rightarrow> parse_attrs txnID (Some addr) (drop paddedLen rest)
                  | Err e \<Rightarrow> parse_attrs txnID mappedAddr (drop paddedLen rest)
                  | Panic \<Rightarrow> Panic)
               else parse_attrs txnID mappedAddr (drop paddedLen rest)))"
| "parse_attrs txnID mappedAddr [] = Ret mappedAddr"
| "parse_attrs txnID mappedAddr [a] = Ret mappedAddr"
| "parse_attrs txnID mappedAddr [a, b] = Ret mappedAddr"
| "parse_attrs txnID mappedAddr [a, b, c] = Ret mappedAddr"
  by pat_completeness auto
termination by (relation "measure (\<lambda>(_, _, d). length d)") auto

definition parseBindingResponse :: "bytes \<Rightarrow> bytes \<Rightarrow> (stun_err, stun_addr) go" where
  "parseBindingResponse data txnID =
     (if length data < stunHeaderSize then Err ErrInvalidResponse
      else case (get_u16 (take 2 data), get_u16 (take 2 (drop 2 data)), get_u32 (take 4 (drop 4 data))) of
        (Some msgType, Some msgLen, Some cookie) \<Rightarrow>
          (if msgType \<noteq> bindingResponse then Err (UnexpectedType msgType)
           else if (of_nat (length data) :: u16) - of_nat stunHeaderSize < msgLen then Err ErrInvalidResponse
           else if cookie \<noteq> stunMagicCookie then Err ErrInvalidResponse
           else case parse_attrs txnID None (drop stunHeaderSize data) of
                  Ret None \<Rightarrow> Err ErrNoXORMappedAddr
                | Ret (Some a) \<Rightarrow> Ret a
                | Err e \<Rightarrow> Err e
                | Panic \<Rightarrow> Panic)
      | _ \<Rightarrow> Panic)"

section \<open>The client's requests\<close>

text \<open>
  What one request meets: the transaction id (None: \<open>rand.Read\<close> fails), whether the server
  name resolves, whether the datagram is written, and the datagram that comes back within
  the deadline (None: a read error). The buffer holds 1500 bytes.
\<close>

record stun_env =
  su_rand :: "bytes option"
  su_resolves :: bool
  su_writes :: bool
  su_reply :: "bytes option"

definition BindingRequest :: "stun_env \<Rightarrow> (stun_err, stun_addr) go" where
  "BindingRequest e =
     (case buildBindingRequest (su_rand e) of
        Ret (req, txnID) \<Rightarrow>
          if \<not> su_resolves e then Err ResolveErr
          else if \<not> su_writes e then Err WriteErr
          else (case su_reply e of
                  None \<Rightarrow> Err ReadErr
                | Some d \<Rightarrow> parseBindingResponse (take 1500 d) txnID)
      | Err err \<Rightarrow> Err err
      | Panic \<Rightarrow> Panic)"

definition isLocalPortChanged :: "stun_addr \<Rightarrow> stun_addr \<Rightarrow> bool" where
  "isLocalPortChanged mapped local =
     (\<not> ip_equal (sa_IP mapped) (sa_IP local) \<or> sa_Port mapped \<noteq> sa_Port local)"

text \<open>
  \<open>BindingRequestWithNewConn\<close>: a socket made by \<open>DialUDP\<close> is connected, and \<open>WriteToUDP\<close> on a
  connected socket returns \<open>ErrWriteToConnected\<close>.
\<close>

definition BindingRequestWithNewConn :: "bool \<Rightarrow> stun_env \<Rightarrow> (stun_err, stun_addr) go" where
  "BindingRequestWithNewConn dials e =
     (if \<not> su_resolves e then Err ResolveErr
      else if \<not> dials then Err ListenErr
      else BindingRequest (e\<lparr>su_writes := False\<rparr>))"

text \<open>
  The arguments: whether the server's name resolves at first, the local address of the new
  socket (None: it cannot be opened), and what each of the two requests meets, given the
  server it is sent to.
\<close>

definition DetectNATType :: "bool \<Rightarrow> stun_addr option \<Rightarrow> (string \<Rightarrow> stun_env) \<Rightarrow> (string \<Rightarrow> stun_env) \<Rightarrow> string
    \<Rightarrow> (stun_err, string \<times> stun_addr) go" where
  "DetectNATType resolves sock env1 env2 stunServer =
     (if \<not> resolves then Err ResolveErr
      else case sock of
        None \<Rightarrow> Err ListenErr
      | Some localAddr \<Rightarrow>
          (case BindingRequest (env1 stunServer) of
             Panic \<Rightarrow> Panic
           | Err e \<Rightarrow> Err (FirstRequest e)
           | Ret addr1 \<Rightarrow>
               if ip_equal (sa_IP addr1) (sa_IP localAddr) \<and> sa_Port addr1 = sa_Port localAddr
               then Ret (''no-nat'', addr1)
               else (case SplitHostPort stunServer of
                  None \<Rightarrow> Err SplitErr
                | Some (host, _) \<Rightarrow>
                    (case BindingRequest (env2 (host @ '':3479'')) of
                       Panic \<Rightarrow> Panic
                     | Err e \<Rightarrow>
                         if isLocalPortChanged addr1 localAddr then Ret (''symmetric'', addr1)
                         else Ret (''port-restricted'', addr1)
                     | Ret addr2 \<Rightarrow>
                         if sa_Port addr1 \<noteq> sa_Port addr2 then Ret (''symmetric'', addr1)
                         else Ret (''full-cone'', addr1)))))"

section \<open>The server's answer\<close>

definition buildSTUNResponse :: "bytes \<Rightarrow> bytes \<Rightarrow> int \<Rightarrow> (stun_err, bytes) go" where
  "buildSTUNResponse req clientIP clientPort =
     (let txnID = take 12 (drop 8 req);
          xorPort = (of_int clientPort :: u16) XOR ucast (drop_bit 16 stunMagicCookie)
      in case get_u32 (case to4 clientIP of Some ip \<Rightarrow> ip | None \<Rightarrow> []) of
           None \<Rightarrow> Panic
         | Some ip \<Rightarrow>
             (let xorIP = ip XOR stunMagicCookie;
                  attrValue = [0x00, 0x01] @ put_u16 xorPort @ put_u32 xorIP;
                  attr = put_u16 0x0020 @ put_u16 (of_nat (length attrValue))
              in Ret (put_u16 0x0101 @ put_u16 (of_nat (4 + length attrValue)) @ put_u32 stunMagicCookie
                      @ txnID @ attr @ attrValue)))"

text \<open>
  One datagram of the loop of \<open>runSTUNServer\<close>: None when it is ignored, else the datagram
  sent back.
\<close>

definition stun_serve :: "bytes \<Rightarrow> int \<Rightarrow> bytes \<Rightarrow> (stun_err, bytes option) go" where
  "stun_serve clientIP clientPort d =
     (let buf = take 1500 d
      in if length buf < 20 then Ret None
         else if get_u16 (take 2 buf) \<noteq> Some bindingRequest then Ret None
         else if get_u32 (take 4 (drop 4 buf)) \<noteq> Some stunMagicCookie then Ret None
         else (case buildSTUNResponse buf clientIP clientPort of
                 Ret resp \<Rightarrow> Ret (Some resp) | Err e \<Rightarrow> Err e | Panic \<Rightarrow> Panic))"

text \<open>A failed read: the loop ends only if the server is stopping.\<close>

definition stun_read_error :: "bool \<Rightarrow> bool" where
  "stun_read_error stopping = (\<not> stopping)"

section \<open>The protocol, as RFC 5389 states it\<close>

text \<open>
  A success response with one XOR-MAPPED-ADDRESS attribute of the IPv4 family: the
  transaction id, the address and the port it carries.
\<close>

definition rfc_xor_mapped :: "bytes \<Rightarrow> (bytes \<times> bytes \<times> u16) option" where
  "rfc_xor_mapped m =
     (if length m = 32 \<and> take 2 m = [1, 1] \<and> take 2 (drop 2 m) = [0, 12] \<and> take 4 (drop 4 m) = [0x21, 0x12, 0xA4, 0x42]
         \<and> take 2 (drop 20 m) = [0, 0x20] \<and> take 2 (drop 22 m) = [0, 8] \<and> m ! 25 = 1
      then (case get_u16 (take 2 (drop 26 m)) of
              Some p \<Rightarrow> Some (take 12 (drop 8 m), map2 (XOR) (drop 28 m) [0x21, 0x12, 0xA4, 0x42], p XOR 0x2112)
            | None \<Rightarrow> None)
      else None)"

definition is_binding_request :: "bytes \<Rightarrow> bool" where
  "is_binding_request d \<longleftrightarrow> 20 \<le> length d \<and> take 2 d = [0, 1] \<and> take 4 (drop 4 d) = [0x21, 0x12, 0xA4, 0x42]"

section \<open>Lemmas\<close>

lemma put_u32_xor: "put_u32 (x XOR y) = map2 (XOR) (put_u32 x) (put_u32 y)"
  by (simp add: put_u32_def drop_bit_xor unsigned_xor_eq)

lemma put_get_u16:
  fixes a b :: byte
  shows "put_u16 (push_bit 8 (ucast a) OR ucast b) = [a, b]"
  unfolding put_u16_def
  by (intro arg_cong2 [where f = Cons] bit_word_eqI refl) (auto simp: bit_simps dest: bit_imp_le_length)

lemma put_u16_inj: "get_u16 xs = Some w \<Longrightarrow> length xs = 2 \<Longrightarrow> put_u16 w = xs"
  by (cases xs rule: get_u16.cases) (auto simp: put_get_u16)

lemma put_cookie: "put_u32 stunMagicCookie = [0x21, 0x12, 0xA4, 0x42]"
  by (simp add: put_u32_def stunMagicCookie_def)

lemma get_u16_iff: "length xs = 2 \<Longrightarrow> get_u16 xs = Some w \<longleftrightarrow> xs = put_u16 w"
  using put_u16_inj get_put_u16_nil by metis

lemma get_u32_iff: "length xs = 4 \<Longrightarrow> get_u32 xs = Some w \<longleftrightarrow> xs = put_u32 w"
  using get_u32_Some get_put_u32_nil by metis

lemma to4_length: "to4 ip = Some ip4 \<Longrightarrow> length ip4 = 4"
  by (auto simp: to4_def split: if_splits)

lemma list_12: "length xs = 12 \<Longrightarrow>
    \<exists>a b c d e f g h i j k l. xs = [a, b, c, d, e, f, g, h, i, j, k, l]"
  by (auto simp: length_Suc_conv numeral_eq_Suc)

text \<open>What \<open>buildSTUNResponse\<close> puts on the wire for an IPv4 client.\<close>

lemma buildSTUNResponse_v4:
  assumes "to4 ip = Some ip4"
  shows "buildSTUNResponse req ip port = Ret ([1, 1, 0, 12, 0x21, 0x12, 0xA4, 0x42] @ take 12 (drop 8 req)
    @ [0, 0x20, 0, 8, 0, 1] @ put_u16 (of_int port XOR 0x2112) @ map2 (XOR) ip4 [0x21, 0x12, 0xA4, 0x42])"
proof -
  obtain w where w: "get_u32 ip4 = Some w" using get_u32_defined [of ip4] to4_length [OF assms] by auto
  then have "put_u32 w = ip4" using get_u32_Some to4_length [OF assms] by blast
  then have "put_u32 (w XOR stunMagicCookie) = map2 (XOR) ip4 [0x21, 0x12, 0xA4, 0x42]"
    by (simp only: put_u32_xor put_cookie)
  moreover have "(ucast (drop_bit 16 stunMagicCookie) :: u16) = 0x2112" by (simp add: stunMagicCookie_def)
  ultimately show ?thesis
    using assms w put_cookie by (simp add: buildSTUNResponse_def Let_def put_u16_def)
qed

lemma is_binding_request_iff:
  assumes "20 \<le> length d"
  shows "is_binding_request d \<longleftrightarrow> get_u16 (take 2 d) = Some bindingRequest
    \<and> get_u32 (take 4 (drop 4 d)) = Some stunMagicCookie"
proof -
  have "put_u16 bindingRequest = [0, 1]" by (simp add: put_u16_def bindingRequest_def)
  with assms show ?thesis by (simp add: is_binding_request_def get_u16_iff get_u32_iff put_cookie)
qed

text \<open>
  Claim C39 (stun_server_reply): the STUN port answers a datagram exactly when it is a binding
  request with the magic cookie, and its answer to an IPv4 peer is an RFC 5389 success
  response: the request's transaction id and one XOR-MAPPED-ADDRESS that decodes to the
  peer's address and port.
\<close>

theorem stun_server_reply:
  assumes "to4 ip = Some ip4" and "length d \<le> 1500"
  shows "if is_binding_request d
    then \<exists>resp. stun_serve ip port d = Ret (Some resp)
      \<and> rfc_xor_mapped resp = Some (take 12 (drop 8 d), ip4, of_int port)
    else stun_serve ip port d = Ret None"
proof (cases "is_binding_request d")
  case True
  then have len: "20 \<le> length d" by (simp add: is_binding_request_def)
  obtain a b c e where "ip4 = [a, b, c, e]"
    using to4_length [OF assms(1)] by (auto simp: length_Suc_conv numeral_eq_Suc)
  moreover have "length (take 12 (drop 8 d)) = 12" using len by simp
  then obtain t0 t1 t2 t3 t4 t5 t6 t7 t8 t9 t10 t11
    where "take 12 (drop 8 d) = [t0, t1, t2, t3, t4, t5, t6, t7, t8, t9, t10, t11]"
    using list_12 [of "take 12 (drop 8 d)"] by auto
  moreover obtain p q where pq: "put_u16 (of_int port XOR 0x2112) = [p, q]" by (simp add: put_u16_def)
  moreover from pq have "get_u16 [p, q] = Some (of_int port XOR 0x2112)" by (metis get_put_u16_nil)
  ultimately show ?thesis
    using True assms len
    by (simp add: stun_serve_def Let_def is_binding_request_iff buildSTUNResponse_v4 rfc_xor_mapped_def
        xor.assoc del: get_u16.simps)
next
  case False
  with assms show ?thesis by (auto simp: stun_serve_def Let_def is_binding_request_iff)
qed

theorem stun_server_reply_witness:
  "\<exists>resp. stun_serve [192, 0, 2, 1] 32853 ([0, 1, 0, 0, 0x21, 0x12, 0xA4, 0x42] @ replicate 12 7) = Ret (Some resp)
    \<and> rfc_xor_mapped resp = Some (replicate 12 7, [192, 0, 2, 1], 32853)"
  using stun_server_reply [of "[192, 0, 2, 1]" "[192, 0, 2, 1]" "[0, 1, 0, 0, 0x21, 0x12, 0xA4, 0x42] @ replicate 12 7" 32853]
  by (simp add: to4_def is_binding_request_def)

text \<open>An IPv6 peer makes \<open>To4\<close> return nil, and reading a \<open>uint32\<close> from nil panics.\<close>

lemma stun_serve_v6_panics:
  assumes "to4 ip = None" and "is_binding_request d" and "length d \<le> 1500"
  shows "stun_serve ip port d = Panic"
  using assms is_binding_request_iff [of d]
  by (simp add: stun_serve_def buildSTUNResponse_def is_binding_request_def Let_def)

section \<open>The client's parser\<close>

lemma attr_port_defined: "4 \<le> length v \<Longrightarrow> \<exists>p. attr_port v = Some p"
  unfolding attr_port_def by (rule get_u16_defined) simp

lemma parse_attr_no_panic: "parseXORMappedAddr v t \<noteq> Panic" "parseMappedAddr v \<noteq> Panic"
proof -
  have "8 \<le> length v \<Longrightarrow> \<exists>w. get_u32 (take 4 (drop 4 v)) = Some w"
    by (rule get_u32_defined) simp
  then show "parseXORMappedAddr v t \<noteq> Panic"
    using attr_port_defined [of v]
    by (auto simp: parseXORMappedAddr_def Let_def not_less split: option.splits)
  show "parseMappedAddr v \<noteq> Panic"
    using attr_port_defined [of v] by (auto simp: parseMappedAddr_def not_less split: option.splits)
qed

lemma parse_attrs_no_panic: "parse_attrs t m d \<noteq> Panic"
proof (induction "length d" arbitrary: m d rule: less_induct)
  case less
  show ?case
  proof (cases d rule: get_u32.cases)
    case (1 t0 t1 l0 l1 rest)
    then have "parse_attrs t m' (drop n rest) \<noteq> Panic" for m' n by (intro less) simp
    with 1 show ?thesis by (simp add: Let_def parse_attr_no_panic split: go.split)
  qed auto
qed

text \<open>
  Claim C40 (stun_parse_safe): whatever datagram the client receives, parsing it ends without
  an index out of range, and an address comes out only of a binding response with the magic
  cookie; but the transaction id of the response is never looked at: replacing it by any
  other changes nothing, so a response to somebody else's request is taken as well.
\<close>

theorem stun_parse_safe:
  assumes "length t' = 12"
  shows "parseBindingResponse data txnID \<noteq> Panic
    \<and> (parseBindingResponse data txnID = Ret a \<longrightarrow>
        get_u16 (take 2 data) = Some bindingResponse \<and> get_u32 (take 4 (drop 4 data)) = Some stunMagicCookie)
    \<and> (20 \<le> length data \<longrightarrow>
        parseBindingResponse (take 8 data @ t' @ drop 20 data) txnID = parseBindingResponse data txnID)"
proof (intro conjI impI)
  have d: "20 \<le> length data \<Longrightarrow> \<exists>x y z. get_u16 (take 2 data) = Some x \<and> get_u16 (take 2 (drop 2 data)) = Some y
      \<and> get_u32 (take 4 (drop 4 data)) = Some z"
    using get_u16_defined [of "take 2 data"] get_u16_defined [of "take 2 (drop 2 data)"]
      get_u32_defined [of "take 4 (drop 4 data)"] by auto
  show "parseBindingResponse data txnID \<noteq> Panic"
    using d parse_attrs_no_panic
    by (auto simp: parseBindingResponse_def stunHeaderSize_def not_less split: go.splits option.splits)
next
  let ?d = "take 8 data @ t' @ drop 20 data"
  assume "20 \<le> length data"
  with assms have "length ?d = length data" "take 2 ?d = take 2 data" "take 2 (drop 2 ?d) = take 2 (drop 2 data)"
      "take 4 (drop 4 ?d) = take 4 (drop 4 data)" "drop 20 ?d = drop 20 data"
    by (simp_all add: take_drop)
  then show "parseBindingResponse ?d txnID = parseBindingResponse data txnID"
    by (simp only: parseBindingResponse_def stunHeaderSize_def)
qed (auto simp: parseBindingResponse_def split: if_splits option.splits go.splits)

theorem stun_parse_safe_witness:
  "parseBindingResponse (take 8 [1, 1, 0, 12, 0x21, 0x12, 0xA4, 0x42, 0, 0, 0, 0, 0, 0, 0, 0, 0, 0, 0, 0,
        0, 1, 0, 8, 1, 0, 0, 80, 10, 0, 0, 1] @ replicate 12 9
      @ drop 20 [1, 1, 0, 12, 0x21, 0x12, 0xA4, 0x42, 0, 0, 0, 0, 0, 0, 0, 0, 0, 0, 0, 0,
        0, 1, 0, 8, 1, 0, 0, 80, 10, 0, 0, 1]) (replicate 12 5)
    = Ret \<lparr>sa_IP = ipv4 10 0 0 1, sa_Port = 80\<rparr>"
proof -
  let ?d = "[1, 1, 0, 12, 0x21, 0x12, 0xA4, 0x42, 0, 0, 0, 0, 0, 0, 0, 0, 0, 0, 0, 0,
    0, 1, 0, 8, 1, 0, 0, 80, 10, 0, 0, 1] :: bytes"
  have "parseBindingResponse ?d (replicate 12 5) = Ret \<lparr>sa_IP = ipv4 10 0 0 1, sa_Port = 80\<rparr>"
    by (simp add: parseBindingResponse_def parseMappedAddr_def attr_port_def stun_consts Let_def)
  then show ?thesis using stun_parse_safe [of "replicate 12 9" ?d "replicate 12 5"] by simp
qed

text \<open>
  The client reads the address family from the first
  byte of the attribute, where the server, following the RFC, writes a zero: the client
  rejects every answer of the server's own STUN port.
\<close>

theorem stun_own_server_rejected:
  assumes "stun_serve ip port d = Ret (Some resp)"
  shows "parseBindingResponse resp txnID = Err ErrInvalidResponse"
proof -
  let ?r = "take 1500 d"
  from assms have len: "20 \<le> length ?r" and r: "buildSTUNResponse ?r ip port = Ret resp"
    unfolding stun_serve_def Let_def by (simp_all split: if_splits go.splits)
  then obtain ip4 where ip4: "to4 ip = Some ip4" by (auto simp: buildSTUNResponse_def Let_def split: option.splits)
  define t where "t = take 12 (drop 8 ?r)"
  define v where "v = put_u16 (of_int port XOR 0x2112) @ map2 (XOR) ip4 [0x21, 0x12, 0xA4, 0x42]"
  have t: "length t = 12" and v: "length v = 6" using len to4_length [OF ip4] by (simp_all add: t_def v_def)
  have resp: "resp = [1, 1, 0, 12, 0x21, 0x12, 0xA4, 0x42] @ t @ [0, 0x20, 0, 8, 0, 1] @ v"
    using r by (simp add: buildSTUNResponse_v4 [OF ip4] t_def v_def)
  have "\<exists>p. attr_port (0 # 1 # v) = Some p" by (rule attr_port_defined) (simp add: v)
  then have bad: "parseXORMappedAddr (0 # 1 # v) txnID = Err ErrInvalidResponse"
    using v by (auto simp: parseXORMappedAddr_def stun_consts)
  have "parse_attrs txnID None ([0, 0x20, 0, 8, 0, 1] @ v) = Err ErrInvalidResponse"
    using v bad by (simp add: Let_def stun_consts)
  then show ?thesis using t v by (simp add: parseBindingResponse_def resp stun_consts)
qed

theorem stun_own_server_rejected_witness:
  "\<exists>resp. stun_serve [192, 0, 2, 1] 32853 ([0, 1, 0, 0, 0x21, 0x12, 0xA4, 0x42] @ replicate 12 7) = Ret (Some resp)
    \<and> parseBindingResponse resp (replicate 12 7) = Err ErrInvalidResponse"
proof -
  obtain resp where "stun_serve [192, 0, 2, 1] 32853 ([0, 1, 0, 0, 0x21, 0x12, 0xA4, 0x42] @ replicate 12 7) = Ret (Some resp)"
    using is_binding_request_iff [of "[0, 1, 0, 0, 0x21, 0x12, 0xA4, 0x42] @ replicate 12 7"]
    by (auto simp: stun_serve_def Let_def is_binding_request_def buildSTUNResponse_v4 to4_def)
  then show ?thesis using stun_own_server_rejected by blast
qed

text \<open>
  Even where the family is in the first byte, the address of an IPv4 attribute does not
  depend on its first three bytes: two different addresses with the same last byte are the
  same to the client.
\<close>

lemma xor_address_last_byte:
  "parseXORMappedAddr [1, x, p, q, a, b, c, d] t = parseXORMappedAddr [1, x, p, q, a', b', c', d] t"
proof -
  have "(ucast ((push_bit 24 (ucast a) OR push_bit 16 (ucast b) OR push_bit 8 (ucast c) OR ucast d) XOR k :: u32) :: byte)
      = d XOR ucast k" for a b c d :: byte and k
    by (rule bit_word_eqI) (auto simp: bit_simps)
  then show ?thesis by (simp add: parseXORMappedAddr_def attr_port_def stun_consts Let_def)
qed

lemma new_conn_never_succeeds: "BindingRequestWithNewConn dials e \<noteq> Ret a"
  by (auto simp: BindingRequestWithNewConn_def BindingRequest_def buildBindingRequest_def split: option.splits)

text \<open>
  The socket of \<open>DetectNATType\<close> is not bound to an address, so its local address is the
  unspecified one and the classes that compare it with the mapped address are never given.
\<close>

lemma nat_type_classes:
  assumes "DetectNATType res (Some l) e1 e2 srv = Ret (t, a)" and "\<not> ip_equal (sa_IP a) (sa_IP l)"
  shows "t \<in> {''symmetric'', ''full-cone''}"
  using assms by (auto simp: DetectNATType_def isLocalPortChanged_def split: if_splits go.splits option.splits)

end
