(* ===== verification/Upnp.thy ===== *)
theory Upnp
  imports GoNet
begin

text \<open>
  The UPnP client (\<open>upnp/upnp.go\<close>): the search for a gateway, the choice of its control URL,
  the SOAP requests and what the answers are taken to say, and the NAT-PMP probe. The network,
  the host's interfaces and the XML decoder are parameters; a gateway answers the same request
  in the same way.
\<close>

section \<open>The environment\<close>

record upnp_service =
  svc_ServiceType :: string
  svc_ControlURL :: string

text \<open>
  The part of a device description the code reads: the base URL and, for the devices of the
  root device, the services of their devices.
\<close>

record deviceDesc =
  dd_URLBase :: string
  dd_Device :: "upnp_service list list list"

text \<open>An interface: its flags and the addresses it has (nil for an address that is no IP).\<close>

record iface =
  if_up :: bool
  if_loopback :: bool
  if_addrs :: "bytes list option"

text \<open>
  What answers: the first datagram after the search, an HTTP GET, the XML decoder, an HTTP POST
  of an action (URL, \<open>SOAPAction\<close> header, body), the interfaces, a NAT-PMP request to an
  address, the local address towards the Internet, and the text of an address.
\<close>

record upnp_env =
  ue_ssdp :: "string option"
  ue_get :: "string \<Rightarrow> string option"
  ue_xml :: "string \<Rightarrow> deviceDesc option"
  ue_post :: "string \<Rightarrow> string \<Rightarrow> string \<Rightarrow> string option"
  ue_ifaces :: "iface list option"
  ue_natpmp :: "bytes \<Rightarrow> bytes option"
  ue_localIP :: "string option"
  ue_iptext :: "bytes \<Rightarrow> string"

record Gateway =
  gw_controlURL :: string
  gw_serviceURL :: string

datatype upnp_err =
    NetError
  | NoLocation
  | BadDescription
  | NoService
  | NoInterface
  | BadNatPmp
  | NoGateway
  | NoExternalIP
  | InvalidIP string
  | MappingFailed string

section \<open>Discovery\<close>

definition quoted :: "string \<Rightarrow> string" where
  "quoted s = CHR 0x22 # s @ [CHR 0x22]"

definition crlf :: string where "crlf = [CHR 0x0D, CHR 0x0A]"

definition searchMsg :: string where
  "searchMsg = ''M-SEARCH * HTTP/1.1'' @ crlf @ ''HOST: 239.255.255.250:1900'' @ crlf
     @ ''ST: urn:schemas-upnp-org:device:InternetGatewayDevice:1'' @ crlf
     @ ''MAN: '' @ quoted ''ssdp:discover'' @ crlf @ ''MX: 3'' @ crlf @ crlf"

fun split_crlf :: "string \<Rightarrow> string list" where
  "split_crlf [] = [[]]"
| "split_crlf [x] = [[x]]"
| "split_crlf (x # y # xs) =
     (if x = CHR 0x0D \<and> y = CHR 0x0A then [] # split_crlf xs
      else (case split_crlf (y # xs) of l # ls \<Rightarrow> (x # l) # ls | [] \<Rightarrow> [[x]]))"

text \<open>The location header of the answer, which is read into 4096 bytes; empty if there is none.\<close>

definition ssdp_location :: "string \<Rightarrow> string" where
  "ssdp_location response =
     (case find (\<lambda>line. has_prefix (to_lower line) ''location:'') (split_crlf (take 4096 response)) of
        None \<Rightarrow> []
      | Some line \<Rightarrow> trim_space (drop 9 line))"

definition is_wan_service :: "upnp_service \<Rightarrow> bool" where
  "is_wan_service s \<longleftrightarrow> contains_str (svc_ServiceType s) ''WANIPConnection''
     \<or> contains_str (svc_ServiceType s) ''WANPPPConnection''"

definition getWANIPConnectionURL :: "upnp_env \<Rightarrow> string \<Rightarrow> (upnp_err, string) go" where
  "getWANIPConnectionURL e location =
     (case ue_get e location of
        None \<Rightarrow> Err NetError
      | Some body \<Rightarrow>
          (case ue_xml e body of
             None \<Rightarrow> Err BadDescription
           | Some desc \<Rightarrow>
               (let baseURL = (if dd_URLBase desc = [] then location else dd_URLBase desc)
                in case find is_wan_service (concat (concat (dd_Device desc))) of
                     None \<Rightarrow> Err NoService
                   | Some s \<Rightarrow>
                       if has_prefix (svc_ControlURL s) ''http'' then Ret (svc_ControlURL s)
                       else Ret (baseURL @ svc_ControlURL s))))"

definition discoverUPnPIGD :: "upnp_env \<Rightarrow> (upnp_err, Gateway) go" where
  "discoverUPnPIGD e =
     (case ue_ssdp e of
        None \<Rightarrow> Err NetError
      | Some response \<Rightarrow>
          (let location = ssdp_location response
           in if location = [] then Err NoLocation
              else go_bind (getWANIPConnectionURL e location)
                (\<lambda>url. Ret \<lparr>gw_controlURL = url, gw_serviceURL = location\<rparr>)))"

definition is_loopback :: "bytes \<Rightarrow> bool" where
  "is_loopback ip = (case to4 ip of Some a \<Rightarrow> hd a = 127 | None \<Rightarrow> ip = replicate 15 0 @ [1])"

text \<open>The gateway is taken to be the address ending in 1 in the \<open>/24\<close> of the first IPv4 address.\<close>

fun addrs_gateway :: "bytes list \<Rightarrow> bytes option" where
  "addrs_gateway [] = None"
| "addrs_gateway (ip # ips) =
     (if ip = [] \<or> is_loopback ip then addrs_gateway ips
      else (case to4 ip of
              Some a \<Rightarrow> Some (ipv4 (a ! 0) (a ! 1) (a ! 2) 1)
            | None \<Rightarrow> addrs_gateway ips))"

fun ifaces_gateway :: "iface list \<Rightarrow> bytes option" where
  "ifaces_gateway [] = None"
| "ifaces_gateway (i # is) =
     (if \<not> if_up i \<or> if_loopback i then ifaces_gateway is
      else (case Option.bind (if_addrs i) addrs_gateway of
              Some gw \<Rightarrow> Some gw
            | None \<Rightarrow> ifaces_gateway is))"

definition getDefaultGateway :: "upnp_env \<Rightarrow> (upnp_err, bytes) go" where
  "getDefaultGateway e =
     (case ue_ifaces e of
        None \<Rightarrow> Err NetError
      | Some is \<Rightarrow> (case ifaces_gateway is of Some gw \<Rightarrow> Ret gw | None \<Rightarrow> Err NoInterface))"

text \<open>The answer is read into 16 bytes.\<close>

definition natpmp_ok :: "bytes \<Rightarrow> bool" where
  "natpmp_ok buf \<longleftrightarrow> length buf \<ge> 8 \<and> buf ! 0 = 0 \<and> buf ! 1 = 128"

definition discoverNATPMP :: "upnp_env \<Rightarrow> (upnp_err, Gateway) go" where
  "discoverNATPMP e =
     go_bind (getDefaultGateway e) (\<lambda>gwIP.
       case ue_natpmp e gwIP of
         None \<Rightarrow> Err NetError
       | Some answer \<Rightarrow>
           if \<not> natpmp_ok (take 16 answer) then Err BadNatPmp
           else Ret \<lparr>gw_controlURL = [], gw_serviceURL = ue_iptext e gwIP\<rparr>)"

definition DiscoverGateway :: "upnp_env \<Rightarrow> (upnp_err, Gateway) go" where
  "DiscoverGateway e =
     (case discoverUPnPIGD e of
        Ret gw \<Rightarrow> Ret gw
      | Panic \<Rightarrow> Panic
      | Err _ \<Rightarrow> (case discoverNATPMP e of Ret gw \<Rightarrow> Ret gw | Panic \<Rightarrow> Panic | Err _ \<Rightarrow> Err NoGateway))"

section \<open>SOAP requests\<close>

definition soap_ns :: string where
  "soap_ns = ''urn:schemas-upnp-org:service:WANIPConnection:1''"

definition tag :: "string \<Rightarrow> string \<Rightarrow> string" where
  "tag n content = ''<'' @ n @ ''>'' @ content @ ''</'' @ n @ ''>''"

definition nl :: string where "nl = [CHR 0x0A]"

definition soap_envelope :: "string \<Rightarrow> string" where
  "soap_envelope bodyXML = ''<?xml version='' @ quoted ''1.0'' @ ''?>'' @ nl
     @ ''<s:Envelope xmlns:s='' @ quoted ''http://schemas.xmlsoap.org/soap/envelope/''
     @ '' s:encodingStyle='' @ quoted ''http://schemas.xmlsoap.org/soap/encoding/'' @ ''>'' @ nl
     @ ''<s:Body>'' @ bodyXML @ ''</s:Body>'' @ nl @ ''</s:Envelope>''"

definition soapCall :: "upnp_env \<Rightarrow> Gateway \<Rightarrow> string \<Rightarrow> string \<Rightarrow> (upnp_err, string) go" where
  "soapCall e g action bodyXML =
     (case ue_post e (gw_controlURL g) (quoted (soap_ns @ ''#'' @ action)) (soap_envelope bodyXML) of
        None \<Rightarrow> Err NetError
      | Some body \<Rightarrow> Ret body)"

definition mapping_body :: "int \<Rightarrow> int \<Rightarrow> string \<Rightarrow> string \<Rightarrow> string \<Rightarrow> string" where
  "mapping_body externalPort internalPort proto localIP description =
     ''<u:AddPortMapping xmlns:u='' @ quoted soap_ns @ ''>'' @ nl
     @ tag ''NewRemoteHost'' [] @ nl
     @ tag ''NewExternalPort'' (itoa externalPort) @ nl
     @ tag ''NewProtocol'' proto @ nl
     @ tag ''NewInternalPort'' (itoa internalPort) @ nl
     @ tag ''NewInternalClient'' localIP @ nl
     @ tag ''NewEnabled'' ''1'' @ nl
     @ tag ''NewPortMappingDescription'' description @ nl
     @ tag ''NewLeaseDuration'' ''0'' @ nl
     @ ''</u:AddPortMapping>''"

definition AddPortMapping :: "upnp_env \<Rightarrow> Gateway \<Rightarrow> int \<Rightarrow> int \<Rightarrow> string \<Rightarrow> string \<Rightarrow> (upnp_err, unit) go" where
  "AddPortMapping e g externalPort internalPort proto description =
     (case ue_localIP e of
        None \<Rightarrow> Err NetError
      | Some localIP \<Rightarrow>
          go_bind (soapCall e g ''AddPortMapping'' (mapping_body externalPort internalPort proto localIP description))
            (\<lambda>respBody. if contains_str respBody ''errorCode'' then Err (MappingFailed respBody) else Ret ()))"

definition ip_open :: string where "ip_open = ''<NewExternalIPAddress>''"
definition ip_close :: string where "ip_close = ''</NewExternalIPAddress>''"

text \<open>The slice \<open>respStr[start+len(tag) : end]\<close> panics when its bounds are out of order.\<close>

definition GetExternalIP :: "upnp_env \<Rightarrow> Gateway \<Rightarrow> (upnp_err, bytes) go" where
  "GetExternalIP e g =
     go_bind (soapCall e g ''GetExternalIPAddress''
        (''<u:GetExternalIPAddress xmlns:u='' @ quoted soap_ns @ ''>'' @ nl @ ''</u:GetExternalIPAddress>''))
      (\<lambda>respStr.
        case (index_of respStr ip_open, index_of respStr ip_close) of
          (Some start, Some stp) \<Rightarrow>
            (if start + length ip_open > stp then Panic
             else (let ipStr = trim_space (take (stp - (start + length ip_open)) (drop (start + length ip_open) respStr))
                   in case ParseIP ipStr of None \<Rightarrow> Err (InvalidIP ipStr) | Some ip \<Rightarrow> Ret ip))
        | _ \<Rightarrow> Err NoExternalIP)"

definition delete_body :: "int \<Rightarrow> string \<Rightarrow> string" where
  "delete_body externalPort proto =
     ''<u:DeletePortMapping xmlns:u='' @ quoted soap_ns @ ''>'' @ nl
     @ tag ''NewRemoteHost'' [] @ nl
     @ tag ''NewExternalPort'' (itoa externalPort) @ nl
     @ tag ''NewProtocol'' proto @ nl
     @ ''</u:DeletePortMapping>''"

definition DeletePortMapping :: "upnp_env \<Rightarrow> Gateway \<Rightarrow> int \<Rightarrow> string \<Rightarrow> (upnp_err, unit) go" where
  "DeletePortMapping e g externalPort proto =
     go_bind (soapCall e g ''DeletePortMapping'' (delete_body externalPort proto)) (\<lambda>_. Ret ())"

text \<open>
  The gateway deletes a mapping when the request reaches it and its answer names no error. The
  client does not look: unlike \<open>AddPortMapping\<close> it does not search the answer for an error.
\<close>

definition gateway_deletes :: "upnp_env \<Rightarrow> Gateway \<Rightarrow> int \<Rightarrow> string \<Rightarrow> bool" where
  "gateway_deletes e g externalPort proto =
     (case soapCall e g ''DeletePortMapping'' (delete_body externalPort proto) of
        Ret answer \<Rightarrow> \<not> contains_str answer ''errorCode''
      | _ \<Rightarrow> False)"

lemma deleted_was_sent: "gateway_deletes e g x p \<Longrightarrow> DeletePortMapping e g x p = Ret ()"
  by (simp add: gateway_deletes_def DeletePortMapping_def split: go.splits)

section \<open>What an answer is taken to say\<close>

text \<open>The text \<open>p\<close> occurs after \<open>a\<close> and not before.\<close>

definition first_after :: "string \<Rightarrow> string \<Rightarrow> bool" where
  "first_after a p \<longleftrightarrow> index_of (a @ p) p = Some (length a)"

lemma index_of_first: "first_after a p \<Longrightarrow> index_of (a @ p @ r) p = Some (length a)"
proof (induction a)
  case (Cons x a)
  then have no: "\<not> prefix p (x # a @ p)" and "first_after a p" by (auto simp: first_after_def split: if_splits)
  have "\<not> prefix p (x # a @ p @ r)"
  proof
    assume "prefix p (x # a @ p @ r)"
    moreover have "prefix (x # a @ p) (x # a @ p @ r)" by simp
    ultimately have "prefix p (x # a @ p)" by (rule prefix_length_prefix) simp
    with no show False by simp
  qed
  with Cons.IH [OF \<open>first_after a p\<close>] show ?case by simp
qed (cases p; cases r; simp)

lemma index_of_skip:
  "c \<notin> set a \<Longrightarrow> index_of (a @ q) (c # p) = map_option (\<lambda>j. length a + j) (index_of q (c # p))"
proof (induction a)
  case Nil
  then show ?case by (cases "index_of q (c # p)") simp_all
next
  case (Cons x a)
  then show ?case by (cases "index_of q (c # p)") auto
qed

lemma index_of_occurs: "index_of (a @ p @ r) p \<noteq> None"
proof (induction a)
  case Nil
  then show ?case by (cases p; cases r) auto
qed simp

text \<open>A well-formed answer gives the address between the first tags.\<close>

lemma external_ip_read:
  assumes "soapCall e g ''GetExternalIPAddress'' (''<u:GetExternalIPAddress xmlns:u='' @ quoted soap_ns @ ''>'' @ nl @ ''</u:GetExternalIPAddress>'')
      = Ret (pre @ ip_open @ txt @ ip_close @ rest)"
    and "first_after pre ip_open" and "first_after (pre @ ip_open @ txt) ip_close"
  shows "GetExternalIP e g = (case ParseIP (trim_space txt) of None \<Rightarrow> Err (InvalidIP (trim_space txt)) | Some ip \<Rightarrow> Ret ip)"
proof -
  have "index_of (pre @ ip_open @ txt @ ip_close @ rest) ip_open = Some (length pre)"
    using index_of_first [OF assms(2), of "txt @ ip_close @ rest"] by simp
  moreover have "index_of (pre @ ip_open @ txt @ ip_close @ rest) ip_close = Some (length pre + length ip_open + length txt)"
    using index_of_first [OF assms(3), of rest] by simp
  ultimately show ?thesis using assms(1) by (simp add: GetExternalIP_def Let_def)
qed

text \<open>A closing tag before the opening one makes the slice panic.\<close>

lemma external_ip_panics:
  assumes "soapCall e g ''GetExternalIPAddress'' (''<u:GetExternalIPAddress xmlns:u='' @ quoted soap_ns @ ''>'' @ nl @ ''</u:GetExternalIPAddress>'')
      = Ret (pre @ ip_close @ mid @ ip_open @ rest)"
    and "CHR ''<'' \<notin> set pre"
  shows "GetExternalIP e g = Panic"
proof -
  let ?r = "pre @ ip_close @ mid @ ip_open @ rest"
  have o: "ip_open = CHR ''<'' # ''NewExternalIPAddress>''" and c: "ip_close = CHR ''<'' # ''/NewExternalIPAddress>''"
    by (simp_all add: ip_open_def ip_close_def)
  have "index_of (ip_close @ mid @ ip_open @ rest) ip_close = Some 0" by (simp add: c)
  then have close: "index_of ?r ip_close = Some (length pre)"
    using index_of_skip [OF assms(2), of "ip_close @ mid @ ip_open @ rest" "''/NewExternalIPAddress>''"] c by simp
  obtain j where "index_of (ip_close @ mid @ ip_open @ rest) ip_open = Some j"
    using index_of_occurs [of "ip_close @ mid" ip_open rest] by auto
  then have opn: "index_of ?r ip_open = Some (length pre + j)"
    using index_of_skip [OF assms(2), of "ip_close @ mid @ ip_open @ rest" "''NewExternalIPAddress>''"] o by simp
  show ?thesis using assms(1) close opn by (simp add: GetExternalIP_def) (simp add: o)
qed

end
