(* ===== verification/LogUtil.thy ===== *)
theory LogUtil
  imports GoStrings
begin

text \<open>
  The client's log buffer, traffic history and counters (\<open>logutil/logutil.go\<close>). Both buffers
  keep the newest entries only, by appending and slicing; the locale \<open>recent_buffer\<close> states
  that contract and is interpreted for each. Counters are 64-bit words, as \<open>atomic.AddInt64\<close>
  wraps; messages are already formatted.
\<close>

section \<open>Buffers that keep the newest entries\<close>

definition newest :: "nat \<Rightarrow> 'a list \<Rightarrow> 'a list" where
  "newest n xs = drop (length xs - n) xs"

lemma newest_short: "length xs \<le> n \<Longrightarrow> newest n xs = xs"
  by (simp add: newest_def)

lemma length_newest: "length (newest n xs) = min n (length xs)"
  by (simp add: newest_def)

lemma newest_snoc: "newest n (newest n xs @ [x]) = newest n (xs @ [x])"
  by (cases "length xs \<le> n") (auto simp: newest_def Suc_diff_le)

locale recent_buffer =
  fixes push :: "'e \<Rightarrow> 'b \<Rightarrow> 'b" and contents :: "'b \<Rightarrow> 'e list" and cap :: nat
  assumes push_contents: "contents (push x b) =
    (if length (contents b) + 1 > cap then drop (length (contents b) + 1 - cap) (contents b @ [x]) else contents b @ [x])"
begin

lemma push_newest: "contents (push x b) = newest cap (contents b @ [x])"
  by (simp add: push_contents newest_def)

lemma pushes_newest:
  assumes "contents b = newest cap xs"
  shows "contents (fold push ys b) = newest cap (xs @ ys)"
  using assms by (induction ys arbitrary: b xs) (auto simp: push_newest newest_snoc)

lemma pushes_bounded: "length (contents b) \<le> cap \<Longrightarrow> length (contents (fold push ys b)) \<le> cap"
  using pushes_newest [of b "contents b" ys] by (simp add: newest_short length_newest)

end

section \<open>The log\<close>

record LogEntry =
  le_Time :: string
  le_Module :: string
  le_Level :: string
  le_Message :: string

record TrafficPoint =
  tp_Time :: int
  tp_BytesInRate :: i64
  tp_BytesOutRate :: i64

record logs =
  lg_verbose :: bool
  lg_buffer :: "LogEntry list"
  lg_traffic :: "TrafficPoint list"
  lg_bytesIn :: i64
  lg_bytesOut :: i64
  lg_chans :: i64
  lg_lastIn :: i64
  lg_lastOut :: i64

definition logs_init :: logs where
  "logs_init = \<lparr>lg_verbose = False, lg_buffer = [], lg_traffic = [], lg_bytesIn = 0, lg_bytesOut = 0,
     lg_chans = 0, lg_lastIn = 0, lg_lastOut = 0\<rparr>"

definition maxLogs :: nat where "maxLogs = 200"
definition maxTrafficPoints :: nat where "maxTrafficPoints = 60"

definition AddBytesIn :: "i64 \<Rightarrow> logs \<Rightarrow> logs" where
  "AddBytesIn n g = g\<lparr>lg_bytesIn := lg_bytesIn g + n\<rparr>"

definition AddBytesOut :: "i64 \<Rightarrow> logs \<Rightarrow> logs" where
  "AddBytesOut n g = g\<lparr>lg_bytesOut := lg_bytesOut g + n\<rparr>"

definition AddActiveChan :: "i64 \<Rightarrow> logs \<Rightarrow> logs" where
  "AddActiveChan d g = g\<lparr>lg_chans := lg_chans g + d\<rparr>"

definition GetBytesIn :: "logs \<Rightarrow> int" where "GetBytesIn g = sint (lg_bytesIn g)"
definition GetBytesOut :: "logs \<Rightarrow> int" where "GetBytesOut g = sint (lg_bytesOut g)"
definition GetActiveChans :: "logs \<Rightarrow> int" where "GetActiveChans g = sint (lg_chans g)"

definition push_traffic :: "TrafficPoint \<Rightarrow> logs \<Rightarrow> logs" where
  "push_traffic p g =
     (let h = lg_traffic g @ [p]
      in g\<lparr>lg_traffic := (if length h > maxTrafficPoints then drop (length h - maxTrafficPoints) h else h)\<rparr>)"

definition RecordTraffic :: "int \<Rightarrow> logs \<Rightarrow> logs" where
  "RecordTraffic now g =
     (let inn = lg_bytesIn g; out = lg_bytesOut g;
          p = \<lparr>tp_Time = now, tp_BytesInRate = inn - lg_lastIn g, tp_BytesOutRate = out - lg_lastOut g\<rparr>
      in push_traffic p (g\<lparr>lg_lastIn := inn, lg_lastOut := out\<rparr>))"

definition GetTrafficHistory :: "logs \<Rightarrow> TrafficPoint list" where
  "GetTrafficHistory g = lg_traffic g"

definition SetVerbose :: "bool \<Rightarrow> logs \<Rightarrow> logs" where
  "SetVerbose v g = g\<lparr>lg_verbose := v\<rparr>"

text \<open>\<open>addLog\<close> leaves the time of the entry empty.\<close>

definition addLog :: "LogEntry \<Rightarrow> logs \<Rightarrow> logs" where
  "addLog entry g =
     (let b = lg_buffer g @ [entry]
      in g\<lparr>lg_buffer := (if length b > maxLogs then drop (length b - maxLogs) b else b)\<rparr>)"

definition log_entry :: "string \<Rightarrow> string \<Rightarrow> string \<Rightarrow> LogEntry" where
  "log_entry module level msg = \<lparr>le_Time = [], le_Module = module, le_Level = level, le_Message = msg\<rparr>"

definition log_Debug :: "string \<Rightarrow> string \<Rightarrow> logs \<Rightarrow> logs" where
  "log_Debug module msg g = (if \<not> lg_verbose g then g else addLog (log_entry module ''DEBUG'' msg) g)"

definition log_Info :: "string \<Rightarrow> string \<Rightarrow> logs \<Rightarrow> logs" where
  "log_Info module msg = addLog (log_entry module ''INFO'' msg)"

definition log_Warn :: "string \<Rightarrow> string \<Rightarrow> logs \<Rightarrow> logs" where
  "log_Warn module msg = addLog (log_entry module ''WARN'' msg)"

definition log_Error :: "string \<Rightarrow> string \<Rightarrow> logs \<Rightarrow> logs" where
  "log_Error module msg = addLog (log_entry module ''ERROR'' msg)"

definition GetRecentLogs :: "logs \<Rightarrow> LogEntry list" where
  "GetRecentLogs g = lg_buffer g"

interpretation log_buffer: recent_buffer addLog lg_buffer maxLogs
  by unfold_locales (simp add: addLog_def Let_def)

interpretation traffic_buffer: recent_buffer push_traffic lg_traffic maxTrafficPoints
  by unfold_locales (simp add: push_traffic_def Let_def)

section \<open>Histories\<close>

datatype log_event =
    LDebug string string
  | LInfo string string
  | LWarn string string
  | LError string string
  | LVerbose bool
  | LBytes i64 i64
  | LTick int

fun log_step :: "log_event \<Rightarrow> logs \<Rightarrow> logs" where
  "log_step (LDebug m t) g = log_Debug m t g"
| "log_step (LInfo m t) g = log_Info m t g"
| "log_step (LWarn m t) g = log_Warn m t g"
| "log_step (LError m t) g = log_Error m t g"
| "log_step (LVerbose v) g = SetVerbose v g"
| "log_step (LBytes i out) g = AddBytesOut out (AddBytesIn i g)"
| "log_step (LTick now) g = RecordTraffic now g"

text \<open>All the entries a history writes, from the verbosity at its start.\<close>

fun written :: "bool \<Rightarrow> log_event list \<Rightarrow> LogEntry list" where
  "written v [] = []"
| "written v (LDebug m t # es) = (if v then [log_entry m ''DEBUG'' t] else []) @ written v es"
| "written v (LInfo m t # es) = log_entry m ''INFO'' t # written v es"
| "written v (LWarn m t # es) = log_entry m ''WARN'' t # written v es"
| "written v (LError m t # es) = log_entry m ''ERROR'' t # written v es"
| "written v (LVerbose w # es) = written w es"
| "written v (e # es) = written v es"

text \<open>The bytes a history counts, and the incoming rates it records.\<close>

fun counted_in :: "log_event list \<Rightarrow> i64" where
  "counted_in [] = 0"
| "counted_in (LBytes i out # es) = i + counted_in es"
| "counted_in (e # es) = counted_in es"

fun ticks :: "log_event list \<Rightarrow> nat" where
  "ticks [] = 0"
| "ticks (LTick now # es) = Suc (ticks es)"
| "ticks (e # es) = ticks es"

lemma other_fields [simp]:
  "lg_verbose (addLog x g) = lg_verbose g" "lg_traffic (addLog x g) = lg_traffic g"
  "lg_bytesIn (addLog x g) = lg_bytesIn g" "lg_lastIn (addLog x g) = lg_lastIn g"
  "lg_buffer (push_traffic p g) = lg_buffer g" "lg_verbose (push_traffic p g) = lg_verbose g"
  "lg_bytesIn (push_traffic p g) = lg_bytesIn g" "lg_lastIn (push_traffic p g) = lg_lastIn g"
  by (simp_all add: addLog_def push_traffic_def Let_def)

lemmas log_step_defs = log_Debug_def log_Info_def log_Warn_def log_Error_def SetVerbose_def AddBytesIn_def
  AddBytesOut_def RecordTraffic_def Let_def

lemma log_run_newest:
  "lg_buffer g = newest maxLogs xs \<Longrightarrow>
   lg_buffer (fold log_step es g) = newest maxLogs (xs @ written (lg_verbose g) es)"
proof (induction es arbitrary: g xs)
  case (Cons e es)
  have "\<exists>ys. lg_buffer (log_step e g) = newest maxLogs (xs @ ys)
      \<and> written (lg_verbose g) (e # es) = ys @ written (lg_verbose (log_step e g)) es"
    using Cons.prems log_buffer.push_newest newest_snoc
    by (cases e) (auto simp: log_step_defs intro: exI [of _ "[]"] exI [of _ "[_]"])
  with Cons.IH show ?case by fastforce
qed simp

lemma bytes_run: "lg_bytesIn (fold log_step es g) = lg_bytesIn g + counted_in es"
proof (induction es arbitrary: g)
  case (Cons e es)
  then show ?case by (cases e) (simp_all add: log_step_defs)
qed simp

lemma traffic_run:
  "lg_traffic g = newest maxTrafficPoints xs \<Longrightarrow>
   \<exists>ps. lg_traffic (fold log_step es g) = newest maxTrafficPoints (xs @ ps) \<and> length ps = ticks es
     \<and> lg_lastIn (fold log_step es g) = lg_lastIn g + sum_list (map tp_BytesInRate ps)"
proof (induction es arbitrary: g xs)
  case (Cons e es)
  have "\<exists>qs. lg_traffic (log_step e g) = newest maxTrafficPoints (xs @ qs) \<and> ticks (e # es) = length qs + ticks es
      \<and> lg_lastIn (log_step e g) = lg_lastIn g + sum_list (map tp_BytesInRate qs)"
  proof (cases e)
    case (LTick now)
    let ?p = "\<lparr>tp_Time = now, tp_BytesInRate = lg_bytesIn g - lg_lastIn g, tp_BytesOutRate = lg_bytesOut g - lg_lastOut g\<rparr>"
    have "lg_traffic (log_step e g) = newest maxTrafficPoints (xs @ [?p])"
      using Cons.prems by (simp add: LTick RecordTraffic_def Let_def traffic_buffer.push_newest newest_snoc)
    then show ?thesis by (intro exI [of _ "[?p]"]) (simp add: LTick RecordTraffic_def Let_def)
  qed (use Cons.prems in \<open>auto simp: log_step_defs intro: exI [of _ "[]"]\<close>)
  then obtain qs where qs: "lg_traffic (log_step e g) = newest maxTrafficPoints (xs @ qs)"
      "ticks (e # es) = length qs + ticks es" "lg_lastIn (log_step e g) = lg_lastIn g + sum_list (map tp_BytesInRate qs)"
    by blast
  from Cons.IH [OF qs(1)] obtain ps where ps: "lg_traffic (fold log_step es (log_step e g)) = newest maxTrafficPoints ((xs @ qs) @ ps)"
      "length ps = ticks es" "lg_lastIn (fold log_step es (log_step e g)) = lg_lastIn (log_step e g) + sum_list (map tp_BytesInRate ps)"
    by blast
  with qs show ?case by (intro exI [of _ "qs @ ps"]) (simp add: add.assoc)
qed (auto intro: exI [of _ "[]"])

text \<open>
  Whatever is logged, counted and recorded, in whatever order, the log
  shows the newest 200 entries in order (debug entries only from times when the client is
  verbose), and the history the newest 60 points, one per tick; the rates of all the
  points, shown or not, add up to the bytes counted up to the last tick, so none is lost or
  counted twice.
\<close>

theorem logs_recent:
  "GetRecentLogs (fold log_step es logs_init) = newest 200 (written False es)
    \<and> (\<exists>ps. GetTrafficHistory (fold log_step (es @ [LTick now]) logs_init) = newest 60 ps \<and> length ps = ticks es + 1
        \<and> sum_list (map tp_BytesInRate ps) = counted_in es)"
proof
  show "GetRecentLogs (fold log_step es logs_init) = newest 200 (written False es)"
    using log_run_newest [of logs_init "[]" es] by (simp add: logs_init_def newest_def GetRecentLogs_def maxLogs_def)
  have "ticks (es @ [LTick now]) = ticks es + 1" by (induction es rule: ticks.induct) auto
  moreover have "lg_lastIn (fold log_step (es @ [LTick now]) logs_init) = counted_in es"
    by (simp add: RecordTraffic_def Let_def bytes_run) (simp add: logs_init_def)
  moreover obtain ps where "lg_traffic (fold log_step (es @ [LTick now]) logs_init) = newest maxTrafficPoints ([] @ ps)"
      "length ps = ticks (es @ [LTick now])"
      "lg_lastIn (fold log_step (es @ [LTick now]) logs_init) = lg_lastIn logs_init + sum_list (map tp_BytesInRate ps)"
    using traffic_run [of logs_init "[]" "es @ [LTick now]"] by (auto simp: logs_init_def newest_def)
  ultimately show "\<exists>ps. GetTrafficHistory (fold log_step (es @ [LTick now]) logs_init) = newest 60 ps
      \<and> length ps = ticks es + 1 \<and> sum_list (map tp_BytesInRate ps) = counted_in es"
    by (intro exI [of _ ps]) (simp add: GetTrafficHistory_def maxTrafficPoints_def logs_init_def)
qed

end
