(* ===== verification/Tunnel.thy ===== *)
theory Tunnel
  imports RelayClient Stun Upnp LogUtil
begin

text \<open>
  The client program's supervisor (\<open>main.go\<close>): the port lists, the choice between UPnP, a
  direct full-cone mapping and the relay in \<open>runTunnel\<close>, and the status it keeps. The network
  (the UPnP gateway, the STUN exchange, the relay connection) is a parameter. One call of
  \<open>runTunnel\<close> runs up to the point where it returns or waits; what other goroutines do
  meanwhile is not interleaved with it.
\<close>

section \<open>Ports and protocols\<close>

definition port_entry :: "string \<Rightarrow> int option" where
  "port_entry part =
     (case atoi (trim_space part) of
        None \<Rightarrow> None
      | Some p \<Rightarrow> if p \<le> 0 \<or> p > 65535 then None else Some p)"

definition parsePorts :: "string \<Rightarrow> int list" where
  "parsePorts s =
     (let ports = List.map_filter port_entry (split_on (CHR '','') s)
      in if ports = [] then [8080] else ports)"

definition protoEnabled :: "string \<Rightarrow> string \<Rightarrow> bool" where
  "protoEnabled proto want = (if proto = ''both'' then True else proto = want)"

text \<open>The public port of the i-th local port: the i-th preferred one if there is one.\<close>

definition ext_port :: "int list \<Rightarrow> nat \<Rightarrow> int \<Rightarrow> int" where
  "ext_port prefer i lp = (if i < length prefer \<and> prefer ! i \<noteq> 0 then prefer ! i else lp)"

definition both_protos :: "string list" where
  "both_protos = [''tcp'', ''udp'']"

section \<open>The status\<close>

record app =
  ap_Running :: bool
  ap_Mode :: string
  ap_PublicAddr :: string
  ap_LocalPorts :: string
  ap_NATType :: string
  ap_StartedAt :: "int option"
  ap_LastError :: string
  ap_Services :: "ServiceMap list"
  ap_relay :: "Client option"
  ap_stopCh :: "nat option"
  ap_closed :: "nat list"
  ap_nextCh :: nat
  ap_guiToken :: string
  ap_authKey :: string
  ap_logs :: logs
  ap_forwards :: "(string \<times> int \<times> int) list"
  ap_mappings :: "(int \<times> string) list"

definition SetRunning :: "int \<Rightarrow> string \<Rightarrow> string \<Rightarrow> app \<Rightarrow> app" where
  "SetRunning now mode addr a = a\<lparr>ap_Running := True, ap_Mode := mode, ap_PublicAddr := addr,
     ap_StartedAt := Some now, ap_LastError := []\<rparr>"

definition SetStopped :: "string \<Rightarrow> app \<Rightarrow> app" where
  "SetStopped err a = a\<lparr>ap_Running := False, ap_LastError := err\<rparr>"

definition SetNATType :: "string \<Rightarrow> app \<Rightarrow> app" where
  "SetNATType t a = a\<lparr>ap_NATType := t\<rparr>"

section \<open>The environment of a tunnel\<close>

record tunnel_params =
  tn_LocalPorts :: string
  tn_RemotePorts :: string
  tn_Upnp :: bool
  tn_StunServer :: string
  tn_RelayAddr :: string
  tn_Proto :: string
  tn_Compress :: bool
  tn_IPAllow :: string
  tn_IPDeny :: string
  tn_MaxConns :: int
  tn_RateLimit :: int

text \<open>
  The clock, the UPnP client's environment, what the NAT detection meets (whether the server
  resolves, its socket, its two requests), the relay connection and what the server sends on it,
  the text of a connection error, and the text of an address.
\<close>

record tunnel_env =
  te_now :: int
  te_upnp :: upnp_env
  te_stunResolves :: bool
  te_stunSock :: "stun_addr option"
  te_stun1 :: "string \<Rightarrow> stun_env"
  te_stun2 :: "string \<Rightarrow> stun_env"
  te_addr :: "stun_addr \<Rightarrow> string"
  te_dial :: "wconn option"
  te_input :: "rd list"
  te_errtext :: "connect_err \<Rightarrow> string"

text \<open>
  A deferred call of \<open>DeletePortMapping\<close>: its receiver and its arguments. How a call ends: it
  returned, it waits for a stop channel and then runs its deferred calls, it blocks for ever (\<open>select {}\<close>), or the process panics.
\<close>

type_synonym deferred = "Gateway \<times> int \<times> string"

datatype tunnel_end = TReturned | TWaits nat "deferred list" | TForever | TCrashed

section \<open>The first layer: UPnP\<close>

text \<open>
  The mappings of one protocol: whether all were accepted, the texts of the accepted ones and
  what the deferred calls will delete.
\<close>

fun upnp_ports :: "upnp_env \<Rightarrow> Gateway \<Rightarrow> string \<Rightarrow> string \<Rightarrow> int list \<Rightarrow> nat \<Rightarrow> int list
    \<Rightarrow> bool \<times> string list \<times> deferred list" where
  "upnp_ports e gw publicIP proto prefer i [] = (True, [], [])"
| "upnp_ports e gw publicIP proto prefer i (lp # lps) =
     (let extPort = ext_port prefer i lp
      in if AddPortMapping e gw extPort lp (to_upper proto) ''p2p-tun'' \<noteq> Ret () then (False, [], [])
         else (case upnp_ports e gw publicIP proto prefer (Suc i) lps of
                 (ok, mapped, dels) \<Rightarrow>
                   (ok, (publicIP @ '':'' @ itoa extPort @ ''/'' @ to_upper proto @ ''->'' @ itoa lp) # mapped,
                    (gw, extPort, to_upper proto) # dels)))"

fun upnp_protos :: "upnp_env \<Rightarrow> Gateway \<Rightarrow> string \<Rightarrow> string \<Rightarrow> int list \<Rightarrow> int list \<Rightarrow> string list
    \<Rightarrow> bool \<times> string list \<times> deferred list" where
  "upnp_protos e gw publicIP proto prefer lps [] = (True, [], [])"
| "upnp_protos e gw publicIP proto prefer lps (cur # ps) =
     (if \<not> protoEnabled proto cur then upnp_protos e gw publicIP proto prefer lps ps
      else (case upnp_ports e gw publicIP cur prefer 0 lps of
              (False, mapped, dels) \<Rightarrow> (False, mapped, dels)
            | (True, mapped, dels) \<Rightarrow>
                (case upnp_protos e gw publicIP proto prefer lps ps of
                   (ok, mapped2, dels2) \<Rightarrow> (ok, mapped @ mapped2, dels @ dels2))))"

definition upnp_forwards :: "string \<Rightarrow> int list \<Rightarrow> int list \<Rightarrow> (string \<times> int \<times> int) list" where
  "upnp_forwards proto prefer lps =
     concat (map (\<lambda>cur. if protoEnabled proto cur
        then map (\<lambda>(i, lp). (cur, ext_port prefer i lp, lp)) (enumerate 0 lps) else []) both_protos)"

text \<open>
  The layer ends the call (it blocks for ever, or a request panics), or goes on with the
  mappings that will be deleted at the return.
\<close>

definition upnp_layer :: "tunnel_env \<Rightarrow> tunnel_params \<Rightarrow> app \<Rightarrow> tunnel_end option \<times> deferred list \<times> app" where
  "upnp_layer e t a =
     (let localPorts = parsePorts (tn_LocalPorts t); preferPorts = parsePorts (tn_RemotePorts t)
      in if \<not> tn_Upnp t then (None, [], a)
         else (case DiscoverGateway (te_upnp e) of
                 Panic \<Rightarrow> (Some TCrashed, [], a)
               | Err err \<Rightarrow> (None, [], a)
               | Ret gw \<Rightarrow>
                   (case GetExternalIP (te_upnp e) gw of
                      Panic \<Rightarrow> (Some TCrashed, [], a)
                    | Err err \<Rightarrow> (None, [], a)
                    | Ret publicIP \<Rightarrow>
                        (case upnp_protos (te_upnp e) gw (ue_iptext (te_upnp e) publicIP) (tn_Proto t) preferPorts localPorts both_protos of
                           (allOK, mapped, dels) \<Rightarrow>
                             (let a1 = a\<lparr>ap_mappings := ap_mappings a @ map snd dels\<rparr>
                              in if allOK \<and> mapped \<noteq> [] then
                                   (Some TForever, dels, (SetRunning (te_now e) ''upnp'' (join_str mapped '', '') a1)
                                      \<lparr>ap_forwards := ap_forwards a @ upnp_forwards (tn_Proto t) preferPorts localPorts\<rparr>)
                                 else (None, dels, a1))))))"

section \<open>The second layer: a full cone\<close>

definition cone_forwards :: "string \<Rightarrow> int \<Rightarrow> int list \<Rightarrow> (string \<times> int \<times> int) list" where
  "cone_forwards proto port lps =
     concat (map (\<lambda>cur. if protoEnabled proto cur
        then map (\<lambda>(i, lp). (cur, port + int i, lp)) (enumerate 0 lps) else []) both_protos)"

definition stun_layer :: "tunnel_env \<Rightarrow> tunnel_params \<Rightarrow> app \<Rightarrow> tunnel_end option \<times> app" where
  "stun_layer e t a =
     (if tn_StunServer t = [] then (None, a)
      else (case DetectNATType (te_stunResolves e) (te_stunSock e) (te_stun1 e) (te_stun2 e) (tn_StunServer t) of
              Panic \<Rightarrow> (Some TCrashed, a)
            | Err err \<Rightarrow> (None, SetNATType ''unknown'' a)
            | Ret (natType, addr) \<Rightarrow>
                (let a1 = SetNATType natType a
                 in if natType = ''full-cone'' then
                      (Some TForever, (SetRunning (te_now e) ''full-cone'' (te_addr e addr) a1)
                         \<lparr>ap_forwards := ap_forwards a1 @ cone_forwards (tn_Proto t) (sa_Port addr) (parsePorts (tn_LocalPorts t))\<rparr>)
                    else (None, a1))))"

section \<open>The third layer: the relay\<close>

definition relay_services :: "string \<Rightarrow> int list \<Rightarrow> int list \<Rightarrow> ServiceMap list" where
  "relay_services proto prefer lps =
     concat (map (\<lambda>(i, lp). map (\<lambda>cur. \<lparr>sm_LocalPort = lp, sm_RemotePort = ext_port prefer i lp, sm_Proto = cur\<rparr>)
        (filter (protoEnabled proto) both_protos)) (enumerate 0 lps))"

definition new_relay_client :: "tunnel_params \<Rightarrow> ServiceMap list \<Rightarrow> app \<Rightarrow> Client" where
  "new_relay_client t services a = \<lparr>k_AuthKey = ap_authKey a, k_Services = services,
     k_Compressor = (if tn_Compress t then Some (NewCompression 1 128) else None),
     k_IPAllow = tn_IPAllow t, k_IPDeny = tn_IPDeny t, k_MaxConns = tn_MaxConns t, k_RateLimit = tn_RateLimit t,
     k_conn = None, k_channels = [], k_udpChannels = [], k_connInfos = [], k_totalConns = 0, k_closeCh = None,
     k_serverSupportsCompression = False, k_locals = Map.empty, k_pipes = [], k_activeChan = 0, k_bytesIn = 0, k_bytesOut = 0\<rparr>"

text \<open>The message that asks for a relay address, in UTF-8.\<close>

definition no_relay_msg :: string where
  "no_relay_msg = map (char_of :: nat \<Rightarrow> char)
    [233, 156, 128, 232, 166, 129, 230, 143, 144, 228, 190, 155, 229, 133, 172, 231, 189, 145, 228, 184,
     173, 231, 187, 167, 230, 156, 141, 229, 138, 161, 229, 153, 168, 229, 156, 176, 229, 157, 128, 239,
     188, 140, 228, 189, 191, 231, 148, 168, 32, 45, 114, 101, 108, 97, 121, 32, 105, 112, 58, 112, 111,
     114, 116, 32, 229, 143, 130, 230, 149, 176]"

definition relay_layer :: "tunnel_env \<Rightarrow> tunnel_params \<Rightarrow> deferred list \<Rightarrow> app \<Rightarrow> tunnel_end \<times> app" where
  "relay_layer e t dels a =
     (if tn_RelayAddr t = [] then (TReturned, SetStopped no_relay_msg a)
      else
        (let services = relay_services (tn_Proto t) (parsePorts (tn_RemotePorts t)) (parsePorts (tn_LocalPorts t));
             a1 = a\<lparr>ap_Services := services\<rparr>
         in case Connect (te_dial e) (te_input e) (new_relay_client t services a1) of
              (Some ConnectPanic, c, _) \<Rightarrow> (TCrashed, a1\<lparr>ap_relay := Some c\<rparr>)
            | (Some err, c, _) \<Rightarrow> (TReturned, SetStopped (te_errtext e err) (a1\<lparr>ap_relay := Some c\<rparr>))
            | (None, c, _) \<Rightarrow>
                (let a2 = SetRunning (te_now e) ''relay'' (tn_RelayAddr t) (a1\<lparr>ap_relay := Some c\<rparr>)
                 in case ap_stopCh a2 of
                      None \<Rightarrow> (TReturned, a2)
                    | Some ch \<Rightarrow> if ch \<in> set (ap_closed a2) then (TReturned, a2) else (TWaits ch dels, a2))))"

text \<open>
  A return runs the deferred calls, the last first. Each asks the gateway to delete a mapping and
  drops the error; the gateway keeps what it does not delete.
\<close>

definition delete_mapping :: "upnp_env \<Rightarrow> deferred \<Rightarrow> app \<Rightarrow> app" where
  "delete_mapping u = (\<lambda>(gw, port, proto) a.
     case DeletePortMapping u gw port proto of
       Ret _ \<Rightarrow>
         (if gateway_deletes u gw port proto
          then a\<lparr>ap_mappings := filter (\<lambda>m. m \<noteq> (port, proto)) (ap_mappings a)\<rparr>
          else a)
     | _ \<Rightarrow> a)"

definition delete_mappings :: "upnp_env \<Rightarrow> deferred list \<Rightarrow> app \<Rightarrow> app" where
  "delete_mappings u dels a = fold (delete_mapping u) (rev dels) a"

definition runTunnel :: "tunnel_env \<Rightarrow> tunnel_params \<Rightarrow> app \<Rightarrow> tunnel_end \<times> app" where
  "runTunnel e t a =
     (case upnp_layer e t a of
        (Some r, dels, a1) \<Rightarrow> (r, a1)
      | (None, dels, a1) \<Rightarrow>
          (case stun_layer e t a1 of
             (Some r, a2) \<Rightarrow> (r, a2)
           | (None, a2) \<Rightarrow>
               (case relay_layer e t dels a2 of
                  (TReturned, a3) \<Rightarrow> (TReturned, delete_mappings (te_upnp e) dels a3)
                | (r, a3) \<Rightarrow> (r, a3))))"

text \<open>The stop channel a call waits for is closed; the gateway is as it is by then.\<close>

definition tunnel_stopped :: "upnp_env \<Rightarrow> deferred list \<Rightarrow> app \<Rightarrow> app" where
  "tunnel_stopped u dels a = delete_mappings u dels a"

definition deletes :: "upnp_env \<Rightarrow> deferred \<Rightarrow> bool" where
  "deletes u = (\<lambda>(gw, port, proto). gateway_deletes u gw port proto)"

lemma delete_mapping_eq:
  "delete_mapping u d a = (if deletes u d then a\<lparr>ap_mappings := filter (\<lambda>m. m \<noteq> snd d) (ap_mappings a)\<rparr> else a)"
  by (cases d) (auto simp: delete_mapping_def deletes_def deleted_was_sent split: go.splits)

text \<open>Gone is what a deferred call names and the gateway deletes; nothing else changes.\<close>

lemma delete_fold:
  "fold (delete_mapping u) ds a = a\<lparr>ap_mappings := filter (\<lambda>m. m \<notin> snd ` {d \<in> set ds. deletes u d}) (ap_mappings a)\<rparr>"
proof (induction ds arbitrary: a)
  case (Cons d ds)
  show ?case
  proof (cases "deletes u d")
    case True
    have "filter (\<lambda>m. m \<notin> snd ` {x \<in> set ds. deletes u x}) (filter (\<lambda>m. m \<noteq> snd d) ms)
        = filter (\<lambda>m. m \<notin> snd ` {x \<in> set (d # ds). deletes u x}) ms" for ms
      using True by (cases d) (force simp: image_iff intro!: filter_cong)
    moreover have "fold (delete_mapping u) (d # ds) a = fold (delete_mapping u) ds (delete_mapping u d a)" by simp
    moreover have "delete_mapping u d a = a\<lparr>ap_mappings := filter (\<lambda>m. m \<noteq> snd d) (ap_mappings a)\<rparr>"
      using True by (simp add: delete_mapping_eq)
    ultimately show ?thesis by (simp only: Cons.IH) simp
  next
    case False
    then have "{x \<in> set (d # ds). deletes u x} = {x \<in> set ds. deletes u x}" by auto
    moreover have "delete_mapping u d a = a" using False by (simp add: delete_mapping_eq)
    moreover have "fold (delete_mapping u) (d # ds) a = fold (delete_mapping u) ds (delete_mapping u d a)" by simp
    ultimately show ?thesis by (simp only: Cons.IH)
  qed
qed simp

lemma delete_mappings_eq:
  "delete_mappings u ds a = a\<lparr>ap_mappings := filter (\<lambda>m. m \<notin> snd ` {d \<in> set ds. deletes u d}) (ap_mappings a)\<rparr>"
  by (simp add: delete_mappings_def delete_fold)

section \<open>Port lists\<close>

definition port_ok :: "int \<Rightarrow> bool" where
  "port_ok p \<longleftrightarrow> 0 < p \<and> p \<le> 65535"

lemma dropWhile_none: "(\<And>c. c \<in> set s \<Longrightarrow> \<not> P c) \<Longrightarrow> dropWhile P s = s"
  by (cases s) auto

lemma digit_no_space: "is_digit c \<Longrightarrow> \<not> is_space c"
  by (auto simp: is_digit_def is_space_def)

lemma trim_digits: "list_all is_digit s \<Longrightarrow> trim_space s = s"
proof -
  assume s: "list_all is_digit s"
  then have "dropWhile is_space s = s" by (intro dropWhile_none) (simp add: list_all_iff digit_no_space)
  moreover have "dropWhile is_space (rev s) = rev s"
    by (rule dropWhile_none) (use s in \<open>simp add: list_all_iff digit_no_space\<close>)
  ultimately show ?thesis by (simp add: trim_space_def)
qed

lemma itoa_digits: "0 < p \<Longrightarrow> list_all is_digit (itoa p)"
  by (simp add: itoa_def dec_digits_all)

lemma port_entry_itoa: "port_ok p \<Longrightarrow> port_entry (itoa p) = Some p"
proof -
  assume p: "port_ok p"
  then have "list_all is_digit (itoa p)" by (simp add: itoa_digits port_ok_def)
  moreover have "atoi (itoa p) = Some p" by (rule atoi_itoa) (use p in \<open>simp add: int64_def port_ok_def\<close>)
  ultimately show ?thesis using p by (simp add: port_entry_def trim_digits port_ok_def)
qed

lemma port_entry_ok: "port_entry x = Some p \<Longrightarrow> port_ok p"
  by (auto simp: port_entry_def port_ok_def split: option.splits if_splits)

lemma split_on_free: "c \<notin> set s \<Longrightarrow> split_on c s = [s]"
  by (induction s) auto

lemma split_on_append: "c \<notin> set s \<Longrightarrow> split_on c (s @ c # t) = s # split_on c t"
  by (induction s) auto

lemma itoa_no_comma: "CHR '','' \<notin> set (itoa p)"
proof -
  have "c \<noteq> CHR '',''" if "c \<in> set (dec_digits n)" for c n
    using that dec_digits_all [of n] by (auto simp: list_all_iff is_digit_def)
  then show ?thesis by (auto simp: itoa_def)
qed

lemma split_join:
  "xs \<noteq> [] \<Longrightarrow> \<forall>x \<in> set xs. CHR '','' \<notin> set x \<Longrightarrow> split_on (CHR '','') (join_str xs '','') = xs"
proof (induction xs)
  case (Cons x xs)
  then show ?case
    by (cases xs) (simp_all add: split_on_free split_on_append)
qed simp

text \<open>The numbers written in a list of entries; an entry that is no number is passed over.\<close>

definition entry_numbers :: "string list \<Rightarrow> int list" where
  "entry_numbers xs = List.map_filter (\<lambda>x. atoi (trim_space x)) xs"

lemma entries_filtered: "List.map_filter port_entry xs = filter port_ok (entry_numbers xs)"
  unfolding entry_numbers_def
  by (induction xs) (auto simp: List.map_filter_simps port_entry_def port_ok_def split: option.splits)

lemma parse_join:
  assumes "xs \<noteq> []" and "\<forall>x \<in> set xs. CHR '','' \<notin> set x"
  shows "parsePorts (join_str xs '','')
    = (if filter port_ok (entry_numbers xs) = [] then [8080] else filter port_ok (entry_numbers xs))"
  using assms by (simp add: parsePorts_def split_join entries_filtered Let_def)

lemma numbers_itoa: "list_all port_ok ps \<Longrightarrow> entry_numbers (map itoa ps) = ps"
  unfolding entry_numbers_def
  by (induction ps)
    (simp_all add: List.map_filter_simps trim_digits itoa_digits atoi_itoa port_ok_def int64_def)


lemma digit_chars: "char_of (48::nat) = CHR ''0''" "char_of (50::nat) = CHR ''2''" "char_of (51::nat) = CHR ''3''"
  "char_of (54::nat) = CHR ''6''" "char_of (56::nat) = CHR ''8''"
  by code_simp+


text \<open>
  With the default \<open>-port 0\<close>, which is documented as matching the
  local ports, the list of preferred ports is 8080 alone: the first local port, whatever it
  is, is offered at the public port 8080 and only the others at their own.
\<close>

theorem default_port_shift:
  assumes "parsePorts (tn_LocalPorts t) = lp # lps" and "tn_RemotePorts t = ''0''" and "tn_Proto t = ''tcp''"
    and "tn_RelayAddr t \<noteq> []"
  shows "ap_Services (snd (relay_layer e t dels a))
    = \<lparr>sm_LocalPort = lp, sm_RemotePort = 8080, sm_Proto = ''tcp''\<rparr>
      # map (\<lambda>p. \<lparr>sm_LocalPort = p, sm_RemotePort = p, sm_Proto = ''tcp''\<rparr>) lps"
proof -
  have "parsePorts ''0'' = [8080]" by code_simp
  moreover have "concat (map (\<lambda>(i, p). [\<lparr>sm_LocalPort = p, sm_RemotePort = ext_port [8080] i p, sm_Proto = ''tcp''\<rparr>]) (enumerate (Suc n) lps))
      = map (\<lambda>p. \<lparr>sm_LocalPort = p, sm_RemotePort = p, sm_Proto = ''tcp''\<rparr>) lps" for n
    by (induction lps arbitrary: n) (simp_all add: ext_port_def)
  ultimately have "relay_services ''tcp'' (parsePorts ''0'') (lp # lps)
      = \<lparr>sm_LocalPort = lp, sm_RemotePort = 8080, sm_Proto = ''tcp''\<rparr>
        # map (\<lambda>p. \<lparr>sm_LocalPort = p, sm_RemotePort = p, sm_Proto = ''tcp''\<rparr>) lps"
    by (simp add: relay_services_def protoEnabled_def both_protos_def ext_port_def)
  moreover have "ap_Services (snd (relay_layer e t dels a)) = relay_services (tn_Proto t) (parsePorts (tn_RemotePorts t)) (parsePorts (tn_LocalPorts t))"
    using assms(4) by (auto simp: relay_layer_def Let_def SetStopped_def SetRunning_def split: prod.splits option.splits connect_err.splits)
  ultimately show ?thesis using assms by simp
qed

definition sample_params :: tunnel_params where
  "sample_params = \<lparr>tn_LocalPorts = ''80,22'', tn_RemotePorts = ''0'', tn_Upnp = False, tn_StunServer = [],
     tn_RelayAddr = ''r:1'', tn_Proto = ''tcp'', tn_Compress = False, tn_IPAllow = [], tn_IPDeny = [],
     tn_MaxConns = 0, tn_RateLimit = 0\<rparr>"

theorem default_port_shift_witness:
  "\<forall>e a. ap_Services (snd (relay_layer e sample_params [] a))
    = [\<lparr>sm_LocalPort = 80, sm_RemotePort = 8080, sm_Proto = ''tcp''\<rparr>,
       \<lparr>sm_LocalPort = 22, sm_RemotePort = 22, sm_Proto = ''tcp''\<rparr>]"
proof -
  have "parsePorts (tn_LocalPorts sample_params) = 80 # [22]" unfolding sample_params_def by code_simp
  then show ?thesis
    using default_port_shift [of sample_params 80 "[22]"] by (simp add: sample_params_def)
qed

section \<open>Mappings at the gateway\<close>

definition mapping_accepted :: "upnp_env \<Rightarrow> Gateway \<Rightarrow> string \<times> int \<times> int \<Rightarrow> bool" where
  "mapping_accepted e gw = (\<lambda>(cur, x, lp). AddPortMapping e gw x lp (to_upper cur) ''p2p-tun'' = Ret ())"

definition mapping_of :: "string \<times> int \<times> int \<Rightarrow> int \<times> string" where
  "mapping_of = (\<lambda>(cur, x, lp). (x, to_upper cur))"

definition deferred_of :: "Gateway \<Rightarrow> string \<times> int \<times> int \<Rightarrow> deferred" where
  "deferred_of gw p = (gw, mapping_of p)"

lemma snd_deferred_of [simp]: "snd (deferred_of gw p) = mapping_of p" "snd \<circ> deferred_of gw = mapping_of"
  by (auto simp: deferred_of_def)

text \<open>Of the mappings made, those the gateway deletes when it is asked to.\<close>

definition mappings_gone :: "upnp_env \<Rightarrow> Gateway \<Rightarrow> (string \<times> int \<times> int) list \<Rightarrow> (int \<times> string) set" where
  "mappings_gone u gw made = {(x, p) \<in> mapping_of ` set made. gateway_deletes u gw x p}"

lemma deleted_are_gone:
  "snd ` {d \<in> set (map (deferred_of gw) made). deletes u d} = mappings_gone u gw made"
  by (auto simp: mappings_gone_def deletes_def deferred_of_def image_iff split: prod.splits) force

lemma delete_deferred:
  "delete_mappings u (map (deferred_of gw) made) a
    = a\<lparr>ap_mappings := filter (\<lambda>m. m \<notin> mappings_gone u gw made) (ap_mappings a)\<rparr>"
  by (simp only: delete_mappings_eq deleted_are_gone)

definition forward_of :: "string \<Rightarrow> int list \<Rightarrow> nat \<times> int \<Rightarrow> string \<times> int \<times> int" where
  "forward_of cur prefer = (\<lambda>(i, lp). (cur, ext_port prefer i lp, lp))"

text \<open>The requests are those of the forwarders, in their order, up to the first that fails.\<close>

lemma upnp_ports_prefix:
  assumes "upnp_ports e gw ip cur prefer i lps = (ok, mapped, dels)"
  shows "dels = map (deferred_of gw) (takeWhile (mapping_accepted e gw) (map (forward_of cur prefer) (enumerate i lps)))
    \<and> ok = list_all (mapping_accepted e gw) (map (forward_of cur prefer) (enumerate i lps))
    \<and> length mapped = length dels"
  using assms
proof (induction lps arbitrary: i ok mapped dels)
  case (Cons lp lps)
  then show ?case
    by (auto simp: forward_of_def mapping_of_def deferred_of_def mapping_accepted_def Let_def split: if_splits prod.splits)
qed simp

lemma takeWhile_append_all:
  "takeWhile P (xs @ ys) = (if list_all P xs then xs @ takeWhile P ys else takeWhile P xs)"
  by (induction xs) auto

lemma takeWhile_list_all: "list_all P xs \<Longrightarrow> takeWhile P xs = xs"
  by (induction xs) auto

definition forwards_of :: "string \<Rightarrow> int list \<Rightarrow> int list \<Rightarrow> string list \<Rightarrow> (string \<times> int \<times> int) list" where
  "forwards_of proto prefer lps ps =
     concat (map (\<lambda>cur. if protoEnabled proto cur then map (forward_of cur prefer) (enumerate 0 lps) else []) ps)"

lemma upnp_forwards_of: "upnp_forwards proto prefer lps = forwards_of proto prefer lps both_protos"
  unfolding upnp_forwards_def forwards_of_def forward_of_def ..

lemma upnp_protos_prefix:
  assumes "upnp_protos e gw ip proto prefer lps ps = (ok, mapped, dels)"
  shows "dels = map (deferred_of gw) (takeWhile (mapping_accepted e gw) (forwards_of proto prefer lps ps))
    \<and> ok = list_all (mapping_accepted e gw) (forwards_of proto prefer lps ps)
    \<and> length mapped = length dels"
  using assms
proof (induction ps arbitrary: ok mapped dels)
  case (Cons cur ps)
  show ?case
  proof (cases "protoEnabled proto cur")
    case True
    obtain ok1 m1 d1 where p: "upnp_ports e gw ip cur prefer 0 lps = (ok1, m1, d1)"
      by (cases "upnp_ports e gw ip cur prefer 0 lps") auto
    obtain ok2 m2 d2 where q: "upnp_protos e gw ip proto prefer lps ps = (ok2, m2, d2)"
      by (cases "upnp_protos e gw ip proto prefer lps ps") auto
    have fw: "forwards_of proto prefer lps (cur # ps) = map (forward_of cur prefer) (enumerate 0 lps) @ forwards_of proto prefer lps ps"
      using True by (simp add: forwards_of_def)
    note a = upnp_ports_prefix [OF p] and b = Cons.IH [OF q]
    show ?thesis using Cons.prems True p q a b
      by (cases ok1) (auto simp: fw takeWhile_append_all takeWhile_list_all)
  next
    case False
    with Cons show ?thesis by (simp add: forwards_of_def)
  qed
qed (simp add: forwards_of_def)

lemma stun_layer_mappings: "ap_mappings (snd (stun_layer e t a)) = ap_mappings a"
  by (auto simp: stun_layer_def Let_def SetRunning_def SetNATType_def split: go.splits prod.splits)

lemma stun_layer_end: "fst (stun_layer e t a) \<noteq> Some TReturned \<and> fst (stun_layer e t a) \<noteq> Some (TWaits ch d)"
  by (auto simp: stun_layer_def Let_def split: go.splits prod.splits)

lemma relay_layer_mappings:
  "relay_layer e t dels a = (r, b) \<Longrightarrow> ap_mappings b = ap_mappings a \<and> (r = TWaits ch d \<longrightarrow> d = dels)"
  by (auto simp: relay_layer_def Let_def SetRunning_def SetStopped_def
      split: option.splits prod.splits connect_err.splits if_splits)


text \<open>
  An answer to the request for the external address that has
  the closing tag before the opening one makes the client panic: a device in the local network
  that answers the search first can end the program.
\<close>

theorem gateway_panics_client:
  assumes "tn_Upnp t" and "DiscoverGateway (te_upnp e) = Ret gw" and "CHR ''<'' \<notin> set pre"
    and "\<forall>body. ue_post (te_upnp e) (gw_controlURL gw) (quoted (soap_ns @ ''#GetExternalIPAddress'')) body
      = Some (pre @ ip_close @ mid @ ip_open @ rest)"
  shows "runTunnel e t a = (TCrashed, a)"
proof -
  have "GetExternalIP (te_upnp e) gw = Panic"
    by (rule external_ip_panics [of _ _ pre mid rest, OF _ assms(3)]) (simp add: soapCall_def assms(4))
  then show ?thesis using assms(1,2) by (simp add: runTunnel_def upnp_layer_def Let_def)
qed

definition demo_ssdp :: string where
  "demo_ssdp = ''HTTP/1.1 200 OK'' @ crlf @ ''LOCATION: http://g/d'' @ crlf @ crlf"

definition demo_igd :: "string \<Rightarrow> upnp_env" where
  "demo_igd answer = \<lparr>ue_ssdp = Some demo_ssdp, ue_get = (\<lambda>_. Some []),
     ue_xml = (\<lambda>_. Some \<lparr>dd_URLBase = [], dd_Device = [[[\<lparr>svc_ServiceType = ''WANIPConnection:1'', svc_ControlURL = ''/c''\<rparr>]]]\<rparr>),
     ue_post = (\<lambda>url action body. if action = quoted (soap_ns @ ''#GetExternalIPAddress'') then Some answer else Some ''ok''),
     ue_ifaces = None, ue_natpmp = (\<lambda>_. None), ue_localIP = Some ''10.0.0.2'', ue_iptext = (\<lambda>_. ''1.2.3.4'')\<rparr>"

definition no_stun :: stun_env where
  "no_stun = \<lparr>su_rand = None, su_resolves = False, su_writes = False, su_reply = None\<rparr>"

definition demo_upnp_env :: "string \<Rightarrow> tunnel_env" where
  "demo_upnp_env answer = \<lparr>te_now = 0, te_upnp = demo_igd answer, te_stunResolves = False, te_stunSock = None, te_stun1 = (\<lambda>_. no_stun), te_stun2 = (\<lambda>_. no_stun), te_addr = (\<lambda>_. []), te_dial = None,
     te_input = [], te_errtext = (\<lambda>_. [])\<rparr>"

definition demo_gw :: Gateway where
  "demo_gw = \<lparr>gw_controlURL = ''http://g/d/c'', gw_serviceURL = ''http://g/d''\<rparr>"

lemma demo_location: "ssdp_location demo_ssdp = ''http://g/d''"
  by code_simp

lemma demo_wan: "is_wan_service \<lparr>svc_ServiceType = ''WANIPConnection:1'', svc_ControlURL = ''/c''\<rparr>"
  by code_simp

lemma demo_discover: "DiscoverGateway (demo_igd answer) = Ret demo_gw"
  by (simp add: DiscoverGateway_def discoverUPnPIGD_def demo_igd_def demo_location getWANIPConnectionURL_def demo_wan
      has_prefix_def demo_gw_def)

theorem gateway_panics_client_witness:
  "\<forall>a. runTunnel (demo_upnp_env (ip_close @ ip_open)) (sample_params\<lparr>tn_Upnp := True\<rparr>) a = (TCrashed, a)"
proof
  fix a
  have "\<forall>body. ue_post (demo_igd (ip_close @ ip_open)) (gw_controlURL demo_gw) (quoted (soap_ns @ ''#GetExternalIPAddress'')) body
      = Some ([] @ ip_close @ [] @ ip_open @ [])"
    by (simp add: demo_igd_def)
  then show "runTunnel (demo_upnp_env (ip_close @ ip_open)) (sample_params\<lparr>tn_Upnp := True\<rparr>) a = (TCrashed, a)"
    using demo_discover
    by (intro gateway_panics_client [of _ _ demo_gw "[]" "[]" "[]"]) (simp_all add: demo_upnp_env_def)
qed

lemma demo_te [simp]: "te_upnp (demo_upnp_env answer) = demo_igd answer"
  by (simp add: demo_upnp_env_def)

lemma demo_accepts: "mapping_accepted (demo_igd answer) demo_gw = (\<lambda>_. True)"
proof -
  have "\<not> contains_str ''ok'' ''errorCode''" by (simp add: contains_str_def)
  then have "AddPortMapping (demo_igd answer) demo_gw x lp p ''p2p-tun'' = Ret ()" for x lp p
    by (simp add: AddPortMapping_def soapCall_def demo_igd_def quoted_def)
  then show ?thesis by (auto simp: mapping_accepted_def)
qed

lemma demo_address:
  "GetExternalIP (demo_igd (ip_open @ ''1.2.3.4'' @ ip_close)) demo_gw = Ret (ipv4 1 2 3 4)"
proof -
  have "first_after [] ip_open" "first_after (ip_open @ ''1.2.3.4'') ip_close" by code_simp+
  then show ?thesis
    using external_ip_read [of "demo_igd (ip_open @ ''1.2.3.4'' @ ip_close)" demo_gw "[]" "''1.2.3.4''" "[]"]
    by (simp add: soapCall_def demo_igd_def) code_simp
qed

text \<open>Two local ports, the first at the public port 8080.\<close>

definition mapped_params :: tunnel_params where
  "mapped_params = sample_params\<lparr>tn_Upnp := True, tn_RemotePorts := ''8080,22''\<rparr>"


end
