(* ===== verification/GuiApi.thy ===== *)
theory GuiApi
  imports Tunnel
begin

text \<open>
  The GUI's HTTP interface (\<open>main.go\<close>): the token check in front of the handlers, the handlers
  with their guards and effects, and the tunnels they start. \<open>net/http\<close> matches the path and
  recovers a panicking handler, so a panic ends the request only. Paths are canonical.
\<close>

section \<open>Requests and answers\<close>

record http_req =
  hr_Path :: string
  hr_Method :: string
  hr_Authorization :: string
  hr_Cookie :: "string option"
  hr_Body :: string

datatype http_resp = HttpError int string | HttpJson json | HttpHtml

text \<open>The program: its status, and the calls of \<open>runTunnel\<close> that were started but have not run.\<close>

record gui =
  gu_app :: app
  gu_started :: "tunnel_params list"
  gu_waiting :: "(nat \<times> deferred list) list"

text \<open>The clock, the text of a time of day, and the text of a decoding error.\<close>

record gui_env =
  ge_now :: int
  ge_clock :: "int \<Rightarrow> string"
  ge_errtext :: string

type_synonym handler = "gui_env \<Rightarrow> http_req \<Rightarrow> gui \<Rightarrow> (unit, http_resp) go \<times> gui"

section \<open>The token check\<close>

text \<open>The token a request presents: that of the header if it is a bearer token, else that of the cookie.\<close>

definition request_token :: "http_req \<Rightarrow> string" where
  "request_token r =
     (let token = hr_Authorization r
      in if has_prefix token ''Bearer '' then drop 7 token
         else (case hr_Cookie r of Some v \<Rightarrow> v | None \<Rightarrow> token))"

definition unauthorized_text :: string where
  "unauthorized_text = print_json (JObj [(''error'', JStr ''unauthorized'')])"

definition invalid_token_text :: string where
  "invalid_token_text = print_json (JObj [(''error'', JStr ''invalid token'')])"

definition authMiddleware :: "handler \<Rightarrow> handler" where
  "authMiddleware nxt e r g =
     (if hr_Path r = ''/api/login'' \<or> hr_Path r = ''/'' then nxt e r g
      else if request_token r \<noteq> ap_guiToken (gu_app g) then (Ret (HttpError 401 unauthorized_text), g)
      else nxt e r g)"

section \<open>The handlers\<close>

text \<open>\<open>json.NewDecoder(r.Body).Decode\<close> reads the first value of the body.\<close>

definition decode_body :: "string \<Rightarrow> json option" where
  "decode_body s = map_option fst (read_value (Suc (length s)) s)"

text \<open>
  The login ignores decoding errors: a member of the wrong type leaves the token as it is.
\<close>

definition login_token :: "string \<Rightarrow> string" where
  "login_token body =
     (case decode_body body of
        Some (JObj kvs) \<Rightarrow> fold (\<lambda>(k, v) t. if fold_name k = ''token''
            then (case d_str t v of Some t' \<Rightarrow> t' | None \<Rightarrow> t) else t) kvs []
      | _ \<Rightarrow> [])"

definition handleLogin :: handler where
  "handleLogin e r g =
     (if hr_Method r \<noteq> ''POST'' then (Ret (HttpError 405 ''Method not allowed''), g)
      else if login_token (hr_Body r) \<noteq> ap_guiToken (gu_app g) then (Ret (HttpError 403 invalid_token_text), g)
      else (Ret (HttpJson (JObj [(''status'', JStr ''ok''), (''token'', JStr (ap_guiToken (gu_app g)))])), g))"

definition handleIndex :: handler where
  "handleIndex e r g = (Ret HttpHtml, g)"

text \<open>The members of a map are encoded in the order of their names; a nil slice is null.\<close>

definition services_value :: "ServiceMap list \<Rightarrow> json" where
  "services_value ss = (if ss = [] then JNull else JArr (map service_json ss))"

definition uptime :: "int \<Rightarrow> app \<Rightarrow> int" where
  "uptime now a = (case ap_StartedAt a of None \<Rightarrow> 0 | Some t \<Rightarrow> (now - t) div 1000000000)"

definition handleStatus :: handler where
  "handleStatus e r g =
     (let a = gu_app g
      in (Ret (HttpJson (JObj [
        (''active_channels'', j_int (GetActiveChans (ap_logs a))),
        (''bytes_in'', j_int (GetBytesIn (ap_logs a))),
        (''bytes_out'', j_int (GetBytesOut (ap_logs a))),
        (''last_error'', JStr (ap_LastError a)),
        (''local_ports'', JStr (ap_LocalPorts a)),
        (''mode'', JStr (ap_Mode a)),
        (''nat_type'', JStr (ap_NATType a)),
        (''public_addr'', JStr (ap_PublicAddr a)),
        (''running'', JBool (ap_Running a)),
        (''services'', services_value (ap_Services a)),
        (''total_conns'', j_int (case ap_relay a of Some c \<Rightarrow> sint (GetTotalConns c) | None \<Rightarrow> 0)),
        (''uptime_seconds'', j_int (uptime (ge_now e) a))])), g))"

fun d_bool :: "bool \<Rightarrow> json \<Rightarrow> bool option" where
  "d_bool old (JBool b) = Some b"
| "d_bool old JNull = Some old"
| "d_bool old _ = None"

definition start_field :: "tunnel_params \<Rightarrow> string \<Rightarrow> json \<Rightarrow> tunnel_params option" where
  "start_field t k v =
     (if k = ''local_ports'' then map_option (\<lambda>x. t\<lparr>tn_LocalPorts := x\<rparr>) (d_str (tn_LocalPorts t) v)
      else if k = ''remote_ports'' then map_option (\<lambda>x. t\<lparr>tn_RemotePorts := x\<rparr>) (d_str (tn_RemotePorts t) v)
      else if k = ''upnp'' then map_option (\<lambda>x. t\<lparr>tn_Upnp := x\<rparr>) (d_bool (tn_Upnp t) v)
      else if k = ''stun_server'' then map_option (\<lambda>x. t\<lparr>tn_StunServer := x\<rparr>) (d_str (tn_StunServer t) v)
      else if k = ''relay_addr'' then map_option (\<lambda>x. t\<lparr>tn_RelayAddr := x\<rparr>) (d_str (tn_RelayAddr t) v)
      else if k = ''proto'' then map_option (\<lambda>x. t\<lparr>tn_Proto := x\<rparr>) (d_str (tn_Proto t) v)
      else if k = ''compress'' then map_option (\<lambda>x. t\<lparr>tn_Compress := x\<rparr>) (d_bool (tn_Compress t) v)
      else if k = ''ip_allow'' then map_option (\<lambda>x. t\<lparr>tn_IPAllow := x\<rparr>) (d_str (tn_IPAllow t) v)
      else if k = ''ip_deny'' then map_option (\<lambda>x. t\<lparr>tn_IPDeny := x\<rparr>) (d_str (tn_IPDeny t) v)
      else if k = ''max_conns'' then map_option (\<lambda>x. t\<lparr>tn_MaxConns := x\<rparr>) (d_int (tn_MaxConns t) v)
      else if k = ''rate_limit'' then map_option (\<lambda>x. t\<lparr>tn_RateLimit := x\<rparr>) (d_int (tn_RateLimit t) v)
      else Some t)"

definition zero_params :: tunnel_params where
  "zero_params = \<lparr>tn_LocalPorts = [], tn_RemotePorts = [], tn_Upnp = False, tn_StunServer = [], tn_RelayAddr = [],
     tn_Proto = [], tn_Compress = False, tn_IPAllow = [], tn_IPDeny = [], tn_MaxConns = 0, tn_RateLimit = 0\<rparr>"

definition start_params :: "string \<Rightarrow> tunnel_params option" where
  "start_params body =
     (case decode_body body of
        Some (JObj kvs) \<Rightarrow> d_members start_field zero_params kvs
      | Some JNull \<Rightarrow> Some zero_params
      | _ \<Rightarrow> None)"

definition start_defaults :: "tunnel_params \<Rightarrow> tunnel_params" where
  "start_defaults t = t\<lparr>tn_LocalPorts := (if tn_LocalPorts t = [] then ''8080'' else tn_LocalPorts t),
     tn_RemotePorts := (if tn_RemotePorts t = [] then ''0'' else tn_RemotePorts t),
     tn_Proto := (if tn_Proto t = [] then ''tcp'' else tn_Proto t)\<rparr>"

definition handleStart :: handler where
  "handleStart e r g =
     (if hr_Method r \<noteq> ''POST'' then (Ret (HttpError 405 ''Method not allowed''), g)
      else (case start_params (hr_Body r) of
              None \<Rightarrow> (Ret (HttpError 400 (ge_errtext e)), g)
            | Some t \<Rightarrow>
                (let p = start_defaults t
                 in if ap_Running (gu_app g) then (Ret (HttpError 400 ''Already running''), g)
                    else (Ret (HttpJson (JObj [(''status'', JStr ''started'')])),
                          g\<lparr>gu_app := (gu_app g)\<lparr>ap_LocalPorts := tn_LocalPorts p\<rparr>, gu_started := gu_started g @ [p]\<rparr>))))"

text \<open>
  The stop channel is closed, which panics when it is closed already, and replaced; then the
  relay client is closed, which may panic.
\<close>

definition renew_stop :: "app \<Rightarrow> (unit, app) go" where
  "renew_stop a =
     (case ap_stopCh a of
        None \<Rightarrow> Ret a
      | Some ch \<Rightarrow>
          if ch \<in> set (ap_closed a) then Panic
          else Ret (a\<lparr>ap_closed := ch # ap_closed a, ap_stopCh := Some (ap_nextCh a), ap_nextCh := Suc (ap_nextCh a)\<rparr>))"

definition drop_relay :: "app \<Rightarrow> (unit, app) go" where
  "drop_relay a =
     (case ap_relay a of
        None \<Rightarrow> Ret a
      | Some c \<Rightarrow> (case Client_Close c of Ret c1 \<Rightarrow> Ret (a\<lparr>ap_relay := None\<rparr>) | _ \<Rightarrow> Panic))"

definition handleStop :: handler where
  "handleStop e r g =
     (if hr_Method r \<noteq> ''POST'' then (Ret (HttpError 405 ''Method not allowed''), g)
      else
        (case renew_stop (gu_app g) of
           Ret a1 \<Rightarrow>
             (case drop_relay a1 of
                Ret a2 \<Rightarrow> (Ret (HttpJson (JObj [(''status'', JStr ''stopped'')])), g\<lparr>gu_app := SetStopped ''stopped by user'' a2\<rparr>)
              | _ \<Rightarrow> (Panic, g\<lparr>gu_app := a1\<rparr>))
         | _ \<Rightarrow> (Panic, g)))"

definition log_json :: "LogEntry \<Rightarrow> json" where
  "log_json l = JObj [(''time'', JStr (le_Time l)), (''module'', JStr (le_Module l)), (''level'', JStr (le_Level l)),
     (''message'', JStr (le_Message l))]"

definition handleLogs :: handler where
  "handleLogs e r g = (Ret (HttpJson (JArr (map log_json (GetRecentLogs (ap_logs (gu_app g)))))), g)"

definition point_json :: "TrafficPoint \<Rightarrow> json" where
  "point_json p = JObj [(''time'', j_int (tp_Time p)), (''bytes_in_rate'', j_int (sint (tp_BytesInRate p))),
     (''bytes_out_rate'', j_int (sint (tp_BytesOutRate p)))]"

definition handleTraffic :: handler where
  "handleTraffic e r g =
     (Ret (HttpJson (JObj [(''points'', JArr (map point_json (GetTrafficHistory (ap_logs (gu_app g)))))])), g)"

text \<open>How long a connection has lasted, from nanoseconds.\<close>

definition duration_text :: "int \<Rightarrow> string" where
  "duration_text dur =
     (let s = dur div 1000000000
      in if dur \<ge> 3600 * 1000000000 then itoa (s div 3600) @ ''h'' @ itoa (s div 60 mod 60) @ ''m''
         else if dur \<ge> 60 * 1000000000 then itoa (s div 60) @ ''m'' @ itoa (s mod 60) @ ''s''
         else itoa s @ ''s'')"

definition conn_json :: "gui_env \<Rightarrow> ConnInfo \<Rightarrow> json" where
  "conn_json e i = JObj [(''channel_id'', j_int (uint (in_ChannelID i))), (''remote_addr'', JStr (in_RemoteAddr i)),
     (''local_port'', j_int (in_LocalPort i)), (''proto'', JStr (in_Proto i)),
     (''connected_at'', JStr (ge_clock e (in_ConnectedAt i))),
     (''duration'', JStr (duration_text (ge_now e - in_ConnectedAt i))),
     (''bytes_in'', j_int (sint (in_BytesIn i))), (''bytes_out'', j_int (sint (in_BytesOut i)))]"

definition handleConnections :: handler where
  "handleConnections e r g =
     (case ap_relay (gu_app g) of
        None \<Rightarrow> (Ret (HttpJson (JArr [])), g)
      | Some c \<Rightarrow> (Ret (HttpJson (JArr (map (conn_json e) (GetConnections c)))), g))"

section \<open>Routing\<close>

text \<open>The routes of \<open>startGUI\<close>: exact paths, and the root pattern for everything else.\<close>

definition gui_serve :: handler where
  "gui_serve e r g =
     (if hr_Path r = ''/api/login'' then handleLogin e r g
      else if hr_Path r = ''/api/status'' then authMiddleware handleStatus e r g
      else if hr_Path r = ''/api/start'' then authMiddleware handleStart e r g
      else if hr_Path r = ''/api/stop'' then authMiddleware handleStop e r g
      else if hr_Path r = ''/api/logs'' then authMiddleware handleLogs e r g
      else if hr_Path r = ''/api/traffic'' then authMiddleware handleTraffic e r g
      else if hr_Path r = ''/api/connections'' then authMiddleware handleConnections e r g
      else authMiddleware handleIndex e r g)"

text \<open>The oldest call of \<open>runTunnel\<close> that has not run, runs.\<close>

definition gui_tunnel :: "tunnel_env \<Rightarrow> gui \<Rightarrow> (tunnel_end \<times> gui) option" where
  "gui_tunnel e g =
     (case gu_started g of
        [] \<Rightarrow> None
      | t # ts \<Rightarrow>
          (case runTunnel e t (gu_app g) of
             (r, a) \<Rightarrow> Some (r, g\<lparr>gu_app := a, gu_started := ts,
                gu_waiting := gu_waiting g @ (case r of TWaits ch dels \<Rightarrow> [(ch, dels)] | _ \<Rightarrow> [])\<rparr>)))"

section \<open>Starting the program\<close>

text \<open>A token is sixteen random bytes in hexadecimal.\<close>

definition hex_digit :: "nat \<Rightarrow> char" where
  "hex_digit d = char_of (if d < 10 then 48 + d else 87 + d)"

definition generateToken :: "nat list \<Rightarrow> string" where
  "generateToken rand = concat (map (\<lambda>b. [hex_digit (b div 16), hex_digit (b mod 16)]) (take 16 rand))"

record cli_flags =
  fl_tunnel :: tunnel_params
  fl_verbose :: bool
  fl_gui :: bool
  fl_authKey :: string
  fl_guiToken :: string

definition app_init :: app where
  "app_init = \<lparr>ap_Running = False, ap_Mode = [], ap_PublicAddr = [], ap_LocalPorts = [], ap_NATType = [],
     ap_StartedAt = None, ap_LastError = [], ap_Services = [], ap_relay = None, ap_stopCh = None, ap_closed = [],
     ap_nextCh = 0, ap_guiToken = [], ap_authKey = [], ap_logs = logs_init, ap_forwards = [], ap_mappings = []\<rparr>"

definition make_stop :: "app \<Rightarrow> app" where
  "make_stop a = a\<lparr>ap_stopCh := Some (ap_nextCh a), ap_nextCh := Suc (ap_nextCh a)\<rparr>"

definition startGUI :: "nat list \<Rightarrow> app \<Rightarrow> gui" where
  "startGUI rand a =
     (let a1 = make_stop a;
          a2 = (if ap_guiToken a1 = [] then a1\<lparr>ap_guiToken := generateToken rand\<rparr> else a1)
      in \<lparr>gu_app = a2, gu_started = [], gu_waiting = []\<rparr>)"

definition runCLI :: "tunnel_env \<Rightarrow> tunnel_params \<Rightarrow> app \<Rightarrow> tunnel_end \<times> app" where
  "runCLI e t a = runTunnel e t (make_stop a)"

text \<open>What \<open>main\<close> does: print the usage, serve the GUI, or run one tunnel.\<close>

datatype client_start = ShowsUsage | ServesGui gui | RanTunnel tunnel_end app

definition client_main :: "bool \<Rightarrow> nat list \<Rightarrow> tunnel_env \<Rightarrow> cli_flags \<Rightarrow> client_start" where
  "client_main noArgs rand e f =
     (let a = app_init\<lparr>ap_logs := SetVerbose (fl_verbose f) (ap_logs app_init)\<rparr>
      in if noArgs then ShowsUsage
         else (let a1 = a\<lparr>ap_authKey := fl_authKey f, ap_guiToken := fl_guiToken f,
                       ap_LocalPorts := tn_LocalPorts (fl_tunnel f)\<rparr>
               in if fl_gui f then ServesGui (startGUI rand a1)
                  else (case runCLI e (fl_tunnel f) a1 of (r, a2) \<Rightarrow> RanTunnel r a2)))"

end
