(* ===== verification/GuiSystem.thy ===== *)
theory GuiSystem
  imports GuiApi
begin

text \<open>
  Runs of the GUI program: requests, the tunnels they start, the wake-up of tunnels whose stop
  channel was closed, and what the relay client's own goroutines do to it, in any order. The
  invariant on the stop channels, the token check as a non-interference property, and the
  sequences of requests that go wrong.
\<close>

section \<open>Runs\<close>

text \<open>
  A tunnel that waits for a stop channel returns when the channel is closed, and runs its deferred
  calls with the gateway as it is then.
\<close>

definition gui_wake :: "upnp_env \<Rightarrow> nat \<Rightarrow> gui \<Rightarrow> gui option" where
  "gui_wake u i g =
     (if i < length (gu_waiting g) then
        (case gu_waiting g ! i of (ch, dels) \<Rightarrow>
           if ch \<in> set (ap_closed (gu_app g)) then
             Some (g\<lparr>gu_app := tunnel_stopped u dels (gu_app g),
               gu_waiting := take i (gu_waiting g) @ drop (Suc i) (gu_waiting g)\<rparr>)
           else None)
      else None)"

text \<open>
  The events of a run. The last one stands for the goroutines of the relay client, which may
  change it and the log in any way.
\<close>

datatype gui_event =
    GServe gui_env http_req
  | GTunnel tunnel_env
  | GWake upnp_env nat
  | GRelay Client logs

fun gui_exec :: "gui_event \<Rightarrow> gui \<Rightarrow> gui option" where
  "gui_exec (GServe e r) g = Some (snd (gui_serve e r g))"
| "gui_exec (GTunnel e) g = map_option snd (gui_tunnel e g)"
| "gui_exec (GWake u i) g = gui_wake u i g"
| "gui_exec (GRelay c l) g =
     (if ap_relay (gu_app g) = None then None
      else Some (g\<lparr>gu_app := (gu_app g)\<lparr>ap_relay := Some c, ap_logs := l\<rparr>\<rparr>))"

inductive gui_reach :: "gui \<Rightarrow> bool" where
  gui_start: "ap_closed a = [] \<Longrightarrow> gui_reach (startGUI rand a)"
| gui_step: "gui_reach g \<Longrightarrow> gui_exec ev g = Some g' \<Longrightarrow> gui_reach g'"

section \<open>The stop channels\<close>

text \<open>
  The current channel is open and new, and every waiting tunnel waits for it or for a closed one.
\<close>

definition stop_ok :: "app \<Rightarrow> bool" where
  "stop_ok a \<longleftrightarrow> (\<exists>ch. ap_stopCh a = Some ch \<and> ch < ap_nextCh a \<and> ch \<notin> set (ap_closed a))
     \<and> (\<forall>x \<in> set (ap_closed a). x < ap_nextCh a)"

definition waits_ok :: "gui \<Rightarrow> bool" where
  "waits_ok g \<longleftrightarrow> stop_ok (gu_app g)
     \<and> (\<forall>w \<in> set (gu_waiting g). Some (fst w) = ap_stopCh (gu_app g) \<or> fst w \<in> set (ap_closed (gu_app g)))"

definition stops :: "app \<Rightarrow> nat option \<times> nat list \<times> nat" where
  "stops a = (ap_stopCh a, ap_closed a, ap_nextCh a)"

lemma stop_ok_cong: "stops a = stops b \<Longrightarrow> stop_ok a = stop_ok b"
  by (simp add: stops_def stop_ok_def)

lemma stops_upnp: "stops (snd (snd (upnp_layer e t a))) = stops a"
  by (simp add: upnp_layer_def Let_def stops_def SetRunning_def split: go.split prod.split)

lemma stops_stun: "stops (snd (stun_layer e t a)) = stops a"
  by (auto simp: stun_layer_def Let_def stops_def SetRunning_def SetNATType_def split: go.splits prod.splits)

lemma relay_layer_stops:
  assumes "relay_layer e t dels a = (r, a')"
  shows "stops a' = stops a \<and> (\<forall>ch d. r = TWaits ch d \<longrightarrow> ap_stopCh a' = Some ch)"
  using assms
  by (auto simp: relay_layer_def Let_def stops_def SetRunning_def SetStopped_def
      split: option.splits prod.splits connect_err.splits if_splits)

lemma runTunnel_stops:
  assumes "runTunnel e t a = (r, a')"
  shows "stops a' = stops a \<and> (\<forall>ch d. r = TWaits ch d \<longrightarrow> ap_stopCh a' = Some ch)"
proof -
  obtain fin dels a1 where u: "upnp_layer e t a = (fin, dels, a1)" by (cases "upnp_layer e t a") auto
  have fin: "fin \<noteq> Some (TWaits ch d)" for ch d
    using u by (auto simp: upnp_layer_def Let_def split: go.splits prod.splits if_splits)
  obtain s a2 where st: "stun_layer e t a1 = (s, a2)" by (cases "stun_layer e t a1") auto
  obtain q a3 where rl: "relay_layer e t dels a2 = (q, a3)" by (cases "relay_layer e t dels a2") auto
  moreover have "stops a1 = stops a" "stops a2 = stops a1" using stops_upnp [of e t a] stops_stun [of e t a1] u st by simp_all
  moreover have "s \<noteq> Some (TWaits ch d)" for ch d
    using st by (auto simp: stun_layer_def Let_def split: go.splits prod.splits if_splits)
  moreover note relay_layer_stops [OF rl]
  ultimately show ?thesis using assms u st rl fin
    by (auto simp: runTunnel_def delete_mappings_eq stops_def split: bool.splits option.splits tunnel_end.splits)
qed

text \<open>A request leaves the program as it is, starts a tunnel, or is a stop.\<close>

definition serve_effect :: "gui_env \<Rightarrow> http_req \<Rightarrow> gui \<Rightarrow> gui \<Rightarrow> bool" where
  "serve_effect e r g g' \<longleftrightarrow> g' = g
     \<or> (\<exists>p. g' = g\<lparr>gu_app := (gu_app g)\<lparr>ap_LocalPorts := tn_LocalPorts p\<rparr>, gu_started := gu_started g @ [p]\<rparr>)
     \<or> g' = snd (handleStop e r g)"

lemma serve_effect_if:
  "serve_effect e r g (snd x) \<Longrightarrow> serve_effect e r g (snd y) \<Longrightarrow> serve_effect e r g (snd (if c then x else y))"
  by simp

lemma serve_effect_auth:
  "serve_effect e r g (snd (h e r g)) \<Longrightarrow> serve_effect e r g (snd (authMiddleware h e r g))"
  by (simp add: authMiddleware_def serve_effect_def)

lemma serve_effect_read:
  "serve_effect e r g (snd (handleLogin e r g))" "serve_effect e r g (snd (handleStatus e r g))"
  "serve_effect e r g (snd (handleLogs e r g))" "serve_effect e r g (snd (handleTraffic e r g))"
  "serve_effect e r g (snd (handleConnections e r g))" "serve_effect e r g (snd (handleIndex e r g))"
  "serve_effect e r g (snd (handleStop e r g))"
  by (simp_all add: serve_effect_def handleLogin_def handleStatus_def handleLogs_def handleTraffic_def
      handleConnections_def handleIndex_def Let_def split: option.splits)

lemma serve_effect_start: "serve_effect e r g (snd (handleStart e r g))"
  by (auto simp: serve_effect_def handleStart_def Let_def split: option.splits)

lemma gui_serve_effect: "serve_effect e r g (snd (gui_serve e r g))"
  unfolding gui_serve_def
  by (intro serve_effect_if serve_effect_auth serve_effect_read serve_effect_start)

lemma drop_relay_app: "drop_relay a = Ret b \<Longrightarrow> b = a\<lparr>ap_relay := None\<rparr>"
  by (cases a) (auto simp: drop_relay_def split: option.splits go.splits)

lemma renew_stop_ok:
  assumes "stop_ok a"
  obtains ch b where "ap_stopCh a = Some ch" "renew_stop a = Ret b" "stop_ok b"
    "ap_closed b = ch # ap_closed a" "ap_relay b = ap_relay a" "ap_Running b = ap_Running a"
    "ap_guiToken b = ap_guiToken a"
proof -
  from assms obtain ch where ch: "ap_stopCh a = Some ch" "ch < ap_nextCh a" "ch \<notin> set (ap_closed a)"
    by (auto simp: stop_ok_def)
  let ?b = "a\<lparr>ap_closed := ch # ap_closed a, ap_stopCh := Some (ap_nextCh a), ap_nextCh := Suc (ap_nextCh a)\<rparr>"
  have "renew_stop a = Ret ?b" using ch by (simp add: renew_stop_def)
  moreover have "stop_ok ?b" using assms ch by (auto simp: stop_ok_def)
  ultimately show thesis using that [of ch ?b] ch(1) by simp
qed

lemma handleStop_stops:
  assumes "stop_ok (gu_app g)" and "hr_Method r = ''POST''"
  obtains ch where "ap_stopCh (gu_app g) = Some ch" "stop_ok (gu_app (snd (handleStop e r g)))"
    "ap_closed (gu_app (snd (handleStop e r g))) = ch # ap_closed (gu_app g)"
    "gu_waiting (snd (handleStop e r g)) = gu_waiting g"
proof -
  obtain ch b where b: "ap_stopCh (gu_app g) = Some ch" "renew_stop (gu_app g) = Ret b" "stop_ok b"
    "ap_closed b = ch # ap_closed (gu_app g)"
    using renew_stop_ok [OF assms(1)] by metis
  have "stops (gu_app (snd (handleStop e r g))) = stops b \<and> gu_waiting (snd (handleStop e r g)) = gu_waiting g"
    using b(2) assms(2) by (auto simp: handleStop_def stops_def SetStopped_def dest: drop_relay_app split: go.splits)
  then show thesis using b that [of ch] stop_ok_cong [of "gu_app (snd (handleStop e r g))" b] by (simp add: stops_def)
qed

lemma waits_ok_cong:
  "stops (gu_app g) = stops (gu_app h) \<Longrightarrow> set (gu_waiting h) \<subseteq> set (gu_waiting g) \<Longrightarrow> waits_ok g \<Longrightarrow> waits_ok h"
  using stop_ok_cong [of "gu_app g" "gu_app h"] by (auto simp: waits_ok_def stops_def)

lemma serve_waits_ok:
  assumes "waits_ok g"
  shows "waits_ok (snd (gui_serve e r g))"
proof -
  have "waits_ok (snd (handleStop e r g))"
  proof (cases "hr_Method r = ''POST''")
    case True
    have "stop_ok (gu_app g)" using assms by (simp add: waits_ok_def)
    from handleStop_stops [OF this True, of e] show ?thesis
      by (rule handleStop_stops [OF \<open>stop_ok (gu_app g)\<close> True, of e]) (use assms in \<open>auto simp: waits_ok_def\<close>)
  qed (use assms in \<open>simp add: handleStop_def\<close>)
  moreover have "waits_ok (g\<lparr>gu_app := (gu_app g)\<lparr>ap_LocalPorts := tn_LocalPorts p\<rparr>, gu_started := gu_started g @ [p]\<rparr>)" for p
    by (rule waits_ok_cong [OF _ _ assms]) (simp_all add: stops_def)
  ultimately show ?thesis using gui_serve_effect [of e r g] assms unfolding serve_effect_def by metis
qed

lemma tunnel_waits_ok:
  assumes "waits_ok g" and "gui_tunnel e g = Some (r, g')"
  shows "waits_ok g'"
proof -
  obtain t ts where t: "gu_started g = t # ts" using assms(2) by (auto simp: gui_tunnel_def split: list.splits)
  obtain a where a: "runTunnel e t (gu_app g) = (r, a)" using assms(2) t
    by (auto simp: gui_tunnel_def split: prod.splits)
  note s = runTunnel_stops [OF a]
  have "stop_ok a" using assms(1) s stop_ok_cong [of a "gu_app g"] by (simp add: waits_ok_def)
  moreover have "gu_app g' = a" "\<forall>w \<in> set (gu_waiting g'). w \<in> set (gu_waiting g) \<or> Some (fst w) = ap_stopCh a"
    using assms(2) t a s by (auto simp: gui_tunnel_def split: tunnel_end.splits)
  ultimately show ?thesis using assms(1) s by (simp add: waits_ok_def stops_def) metis
qed

lemma reach_waits_ok: "gui_reach g \<Longrightarrow> waits_ok g"
proof (induction rule: gui_reach.induct)
  case (gui_start a rand)
  then show ?case by (simp add: startGUI_def make_stop_def Let_def waits_ok_def stop_ok_def)
next
  case (gui_step g ev g')
  show ?case
  proof (cases ev)
    case (GServe e r)
    then show ?thesis using gui_step serve_waits_ok by auto
  next
    case (GTunnel e)
    then show ?thesis using gui_step tunnel_waits_ok by fastforce
  next
    case (GWake u i)
    then have "stops (gu_app g) = stops (gu_app g')" "set (gu_waiting g') \<subseteq> set (gu_waiting g)"
      using gui_step.hyps(2)
      by (auto simp: gui_wake_def tunnel_stopped_def delete_mappings_eq stops_def
          dest: in_set_takeD in_set_dropD split: if_splits prod.splits)
    then show ?thesis using gui_step.IH by (rule waits_ok_cong)
  next
    case (GRelay c l)
    then have "stops (gu_app g) = stops (gu_app g')" "set (gu_waiting g') \<subseteq> set (gu_waiting g)"
      using gui_step.hyps(2) by (auto simp: stops_def split: if_splits)
    then show ?thesis using gui_step.IH by (rule waits_ok_cong)
  qed
qed


section \<open>Properties\<close>

definition stop_request :: "string \<Rightarrow> http_req \<Rightarrow> bool" where
  "stop_request tok r \<longleftrightarrow> hr_Path r = ''/api/stop'' \<and> hr_Method r = ''POST'' \<and> request_token r = tok"

lemma serve_stop:
  "stop_request (ap_guiToken (gu_app g)) r \<Longrightarrow> gui_serve e r g = handleStop e r g"
  by (auto simp: stop_request_def gui_serve_def authMiddleware_def)


text \<open>
  Claim C19 (gui_auth_gate): without the token, in the request or in the body of a login, no
  request changes the program, and the answer does not depend on its state: it is the same in
  any other state whose token is not presented either.
\<close>

theorem gui_auth_gate:
  assumes "request_token r \<noteq> ap_guiToken (gu_app g)" and "login_token (hr_Body r) \<noteq> ap_guiToken (gu_app g)"
    and "request_token r \<noteq> ap_guiToken (gu_app h)" and "login_token (hr_Body r) \<noteq> ap_guiToken (gu_app h)"
  shows "snd (gui_serve e r g) = g \<and> fst (gui_serve e r g) = fst (gui_serve e r h)"
  using assms by (simp add: gui_serve_def authMiddleware_def handleLogin_def handleIndex_def)

section \<open>Starting and stopping\<close>

definition relay_only :: "tunnel_params \<Rightarrow> bool" where
  "relay_only t \<longleftrightarrow> \<not> tn_Upnp t \<and> tn_StunServer t = [] \<and> tn_RelayAddr t \<noteq> []"

definition start_request :: "string \<Rightarrow> tunnel_params \<Rightarrow> http_req \<Rightarrow> bool" where
  "start_request tok p r \<longleftrightarrow> hr_Path r = ''/api/start'' \<and> hr_Method r = ''POST'' \<and> request_token r = tok
     \<and> map_option start_defaults (start_params (hr_Body r)) = Some p"

definition status_ok :: "string \<Rightarrow> (unit, http_resp) go" where
  "status_ok s = Ret (HttpJson (JObj [(''status'', JStr s)]))"

text \<open>What \<open>Connect\<close> does for the client of these parameters.\<close>

definition tunnel_connect :: "tunnel_env \<Rightarrow> tunnel_params \<Rightarrow> app \<Rightarrow> connect_err option \<times> Client \<times> rd list" where
  "tunnel_connect e t a = Connect (te_dial e) (te_input e)
     (new_relay_client t (relay_services (tn_Proto t) (parsePorts (tn_RemotePorts t)) (parsePorts (tn_LocalPorts t))) a)"

lemma serve_start:
  assumes "start_request (ap_guiToken (gu_app g)) p r" and "\<not> ap_Running (gu_app g)"
  shows "gui_serve e r g = (status_ok ''started'',
    g\<lparr>gu_app := (gu_app g)\<lparr>ap_LocalPorts := tn_LocalPorts p\<rparr>, gu_started := gu_started g @ [p]\<rparr>)"
  using assms by (auto simp: start_request_def gui_serve_def authMiddleware_def handleStart_def status_ok_def Let_def)

lemma tunnel_connect_cong: "ap_authKey a = ap_authKey b \<Longrightarrow> tunnel_connect e t a = tunnel_connect e t b"
  by (simp add: tunnel_connect_def new_relay_client_def)

lemma runTunnel_relay_only:
  assumes "relay_only t"
  shows "runTunnel e t a = relay_layer e t [] a"
proof -
  have "delete_mappings u [] b = b" for u b by (simp add: delete_mappings_def)
  then show ?thesis using assms
    by (auto simp: runTunnel_def relay_only_def upnp_layer_def stun_layer_def Let_def split: prod.splits tunnel_end.splits)
qed

lemma relay_layer_connected:
  assumes "relay_only t" and "tunnel_connect e t a = (None, c, rest)" and "stop_ok a"
  obtains ch b where "relay_layer e t [] a = (TWaits ch [], b)" "stops b = stops a" "ap_stopCh a = Some ch"
    "ap_Running b" "ap_Mode b = ''relay''" "ap_relay b = Some c" "ap_guiToken b = ap_guiToken a"
    "ap_authKey b = ap_authKey a"
proof -
  obtain ch where ch: "ap_stopCh a = Some ch" "ch \<notin> set (ap_closed a)" using assms(3) by (auto simp: stop_ok_def)
  let ?ss = "relay_services (tn_Proto t) (parsePorts (tn_RemotePorts t)) (parsePorts (tn_LocalPorts t))"
  let ?b = "SetRunning (te_now e) ''relay'' (tn_RelayAddr t) (a\<lparr>ap_Services := ?ss, ap_relay := Some c\<rparr>)"
  have "Connect (te_dial e) (te_input e) (new_relay_client t ?ss (a\<lparr>ap_Services := ?ss\<rparr>)) = (None, c, rest)"
    using assms(2) by (simp add: tunnel_connect_def new_relay_client_def)
  then have "relay_layer e t [] a = (TWaits ch [], ?b)"
    using assms(1) ch by (simp add: relay_layer_def Let_def relay_only_def SetRunning_def)
  then show thesis using that [of ch ?b] ch by (simp add: stops_def SetRunning_def)
qed

lemma relay_layer_undialled:
  assumes "relay_only t" and "te_dial e = None"
  obtains b c where "relay_layer e t [] a = (TReturned, b)" "stops b = stops a" "\<not> ap_Running b"
    "ap_relay b = Some c" "k_closeCh c = None" "ap_guiToken b = ap_guiToken a"
proof -
  let ?ss = "relay_services (tn_Proto t) (parsePorts (tn_RemotePorts t)) (parsePorts (tn_LocalPorts t))"
  let ?c = "new_relay_client t ?ss (a\<lparr>ap_Services := ?ss\<rparr>)"
  let ?b = "SetStopped (te_errtext e DialFailed) (a\<lparr>ap_Services := ?ss, ap_relay := Some ?c\<rparr>)"
  have "relay_layer e t [] a = (TReturned, ?b)"
    using assms by (simp add: relay_layer_def Let_def relay_only_def Connect_def)
  then show thesis using that [of ?b ?c] by (simp add: stops_def SetStopped_def new_relay_client_def)
qed

lemma Connect_open:
  assumes "Connect dialed input c = (None, c', rest)"
  shows "k_closeCh c' = Some False"
proof -
  from assms obtain w where w: "dialed = Some w" by (auto simp: Connect_def split: option.splits)
  let ?c1 = "c\<lparr>k_conn := Some w, k_channels := [], k_udpChannels := [], k_connInfos := [], k_closeCh := Some False\<rparr>"
  have "k_closeCh (snd (k_sendControl (register_msg ?c1) ?c1)) = Some False"
    using k_writeFrame_fields [of frameControl 0 "marshal_msg (register_msg ?c1)" ?c1] by (simp add: k_sendControl_def)
  then show ?thesis using assms w by (auto simp: Connect_def Let_def split: go.splits prod.splits if_splits)
qed

text \<open>Requests one after the other, with nothing in between.\<close>

fun serve_all :: "gui_env \<Rightarrow> http_req list \<Rightarrow> gui \<Rightarrow> (unit, http_resp) go list \<times> gui" where
  "serve_all e [] g = ([], g)"
| "serve_all e (r # rs) g =
     (case gui_serve e r g of (q, g1) \<Rightarrow> (case serve_all e rs g1 of (qs, g2) \<Rightarrow> (q # qs, g2)))"

lemma reach_stop_ok: "gui_reach g \<Longrightarrow> stop_ok (gu_app g)"
  using reach_waits_ok by (simp add: waits_ok_def)

lemma stop_open_client:
  assumes "stop_ok (gu_app g)" and "stop_request (ap_guiToken (gu_app g)) r"
    and "ap_relay (gu_app g) = Some c" and "k_closeCh c = Some shut"
  obtains h ch where "gui_serve e r g = (status_ok ''stopped'', h)" "ap_relay (gu_app h) = None"
    "\<not> ap_Running (gu_app h)" "gu_waiting h = gu_waiting g" "ap_stopCh (gu_app g) = Some ch"
    "ch \<in> set (ap_closed (gu_app h))"
proof -
  obtain ch b where b: "ap_stopCh (gu_app g) = Some ch" "renew_stop (gu_app g) = Ret b"
    "ap_closed b = ch # ap_closed (gu_app g)" "ap_relay b = ap_relay (gu_app g)"
    using renew_stop_ok [OF assms(1)] by metis
  have "drop_relay b = Ret (b\<lparr>ap_relay := None\<rparr>)" using b(4) assms(3,4) by (simp add: drop_relay_def Client_Close_def)
  then show thesis using b assms(2) serve_stop [OF assms(2), of e]
      that [of "g\<lparr>gu_app := SetStopped ''stopped by user'' (b\<lparr>ap_relay := None\<rparr>)\<rparr>" ch]
    by (simp add: handleStop_def stop_request_def SetStopped_def status_ok_def)
qed

lemma stop_nil_client:
  assumes "stop_ok (gu_app g)" and "stop_request (ap_guiToken (gu_app g)) r"
    and "ap_relay (gu_app g) = Some c" and "k_closeCh c = None"
  obtains h where "gui_serve e r g = (Panic, h)" "ap_relay (gu_app h) = Some c" "stop_ok (gu_app h)"
    "ap_guiToken (gu_app h) = ap_guiToken (gu_app g)"
proof -
  obtain b where b: "renew_stop (gu_app g) = Ret b" "ap_relay b = ap_relay (gu_app g)" "stop_ok b"
    "ap_guiToken b = ap_guiToken (gu_app g)"
    using renew_stop_ok [OF assms(1)] by metis
  have "drop_relay b = Panic" using b(2) assms(3,4) by (simp add: drop_relay_def Client_Close_def)
  then show thesis using b assms(2,3) serve_stop [OF assms(2), of e] that [of "g\<lparr>gu_app := b\<rparr>"]
    by (simp add: handleStop_def stop_request_def)
qed

lemma tunnel_first:
  assumes "gu_started g = t # ts" and "relay_only t"
  shows "gui_tunnel e g = (case relay_layer e t [] (gu_app g) of (r, a) \<Rightarrow> Some (r, g\<lparr>gu_app := a, gu_started := ts,
    gu_waiting := gu_waiting g @ (case r of TWaits ch dels \<Rightarrow> [(ch, dels)] | _ \<Rightarrow> [])\<rparr>))"
  using assms by (simp add: gui_tunnel_def runTunnel_relay_only)


text \<open>
  When the relay server could not be reached, the
  client is kept without a close channel; from then on every stop request panics and leaves the
  client in place, so the next one panics too.
\<close>

theorem stop_after_failed_dial_panics:
  assumes "gui_reach g" and "\<not> ap_Running (gu_app g)" and "gu_started g = []"
    and "start_request (ap_guiToken (gu_app g)) p r" and "relay_only p" and "te_dial te = None"
    and "list_all (stop_request (ap_guiToken (gu_app g))) rs"
  shows "\<exists>g1 g2. gui_serve e r g = (status_ok ''started'', g1) \<and> gui_tunnel te g1 = Some (TReturned, g2)
    \<and> fst (serve_all e rs g2) = replicate (length rs) Panic"
proof -
  let ?a = "(gu_app g)\<lparr>ap_LocalPorts := tn_LocalPorts p\<rparr>"
  let ?g1 = "g\<lparr>gu_app := ?a, gu_started := [p]\<rparr>"
  have 1: "gui_serve e r g = (status_ok ''started'', ?g1)" using serve_start [OF assms(4,2)] assms(3) by simp
  have "stop_ok ?a" using reach_stop_ok [OF assms(1)] by (simp add: stop_ok_def)
  obtain b c where b: "relay_layer te p [] ?a = (TReturned, b)" "stops b = stops ?a" "ap_relay b = Some c"
      "k_closeCh c = None" "ap_guiToken b = ap_guiToken ?a"
    using relay_layer_undialled [OF assms(5,6)] by metis
  let ?g2 = "?g1\<lparr>gu_app := b, gu_started := []\<rparr>"
  have 2: "gui_tunnel te ?g1 = Some (TReturned, ?g2)" using tunnel_first [of ?g1 p "[]" te] assms(5) b(1) by simp
  have "fst (serve_all e rs h) = replicate (length rs) Panic"
    if "stop_ok (gu_app h)" "ap_relay (gu_app h) = Some c" "list_all (stop_request (ap_guiToken (gu_app h))) rs" for h
    using that
  proof (induction rs arbitrary: h)
    case (Cons x xs)
    then obtain k where "gui_serve e x h = (Panic, k)" "ap_relay (gu_app k) = Some c" "stop_ok (gu_app k)"
        "ap_guiToken (gu_app k) = ap_guiToken (gu_app h)"
      using stop_nil_client [of h x c e] b(4) by auto
    with Cons show ?case by (simp split: prod.splits) (metis fst_conv)
  qed simp
  from this [of ?g2] have "fst (serve_all e rs ?g2) = replicate (length rs) Panic"
    using \<open>stop_ok ?a\<close> stop_ok_cong [OF b(2)] b(3,5) assms(7) by simp
  with 1 2 show ?thesis by blast
qed

text \<open>
  Two start requests before the first tunnel has
  connected are both accepted and both connect; the second client replaces the first, which is
  connected but which the program, and so a stop request, no longer knows, while both tunnels
  wait for the same stop channel.
\<close>

theorem second_start_replaces_client:
  assumes "gui_reach g" and "\<not> ap_Running (gu_app g)" and "gu_started g = []"
    and "start_request (ap_guiToken (gu_app g)) p1 r1" and "start_request (ap_guiToken (gu_app g)) p2 r2"
    and "relay_only p1" and "relay_only p2"
    and "tunnel_connect t1 p1 (gu_app g) = (None, c1, rest1)" and "tunnel_connect t2 p2 (gu_app g) = (None, c2, rest2)"
  shows "\<exists>g1 g2 g3 ch. serve_all e [r1, r2] g = ([status_ok ''started'', status_ok ''started''], g1)
    \<and> gui_tunnel t1 g1 = Some (TWaits ch [], g2) \<and> ap_relay (gu_app g2) = Some c1
    \<and> gui_tunnel t2 g2 = Some (TWaits ch [], g3) \<and> ap_relay (gu_app g3) = Some c2
    \<and> gu_waiting g3 = gu_waiting g @ [(ch, []), (ch, [])]"
proof -
  let ?a1 = "(gu_app g)\<lparr>ap_LocalPorts := tn_LocalPorts p1\<rparr>"
  let ?a = "(gu_app g)\<lparr>ap_LocalPorts := tn_LocalPorts p2\<rparr>"
  let ?h = "g\<lparr>gu_app := ?a1, gu_started := [p1]\<rparr>"
  let ?g1 = "g\<lparr>gu_app := ?a, gu_started := [p1, p2]\<rparr>"
  have "gui_serve e r1 g = (status_ok ''started'', ?h)" using serve_start [OF assms(4,2)] assms(3) by simp
  moreover have "gui_serve e r2 ?h = (status_ok ''started'', ?g1)"
    using serve_start [of ?h p2 r2 e] assms(2,5) by simp
  ultimately have 1: "serve_all e [r1, r2] g = ([status_ok ''started'', status_ok ''started''], ?g1)" by simp
  have oka: "stop_ok ?a" using reach_stop_ok [OF assms(1)] by (simp add: stop_ok_def)
  have "tunnel_connect t1 p1 ?a = (None, c1, rest1)"
    using assms(8) tunnel_connect_cong [of ?a "gu_app g"] by simp
  then obtain ch b where b: "relay_layer t1 p1 [] ?a = (TWaits ch [], b)" "stops b = stops ?a" "ap_stopCh ?a = Some ch"
      "ap_relay b = Some c1" "ap_authKey b = ap_authKey ?a"
    using relay_layer_connected [OF assms(6) _ oka] by metis
  let ?g2 = "g\<lparr>gu_app := b, gu_started := [p2], gu_waiting := gu_waiting g @ [(ch, [])]\<rparr>"
  have 2: "gui_tunnel t1 ?g1 = Some (TWaits ch [], ?g2)" using tunnel_first [of ?g1 p1 "[p2]" t1] assms(6) b(1) by simp
  have "stop_ok b" using oka stop_ok_cong [OF b(2)] by simp
  moreover have "tunnel_connect t2 p2 b = (None, c2, rest2)"
    using assms(9) tunnel_connect_cong [of b "gu_app g"] b(5) by simp
  ultimately obtain d where d: "relay_layer t2 p2 [] b = (TWaits ch [], d)" "ap_relay d = Some c2"
    using relay_layer_connected [OF assms(7)] b(2,3) by (metis option.inject prod.inject stops_def)
  let ?g3 = "g\<lparr>gu_app := d, gu_started := [], gu_waiting := gu_waiting g @ [(ch, []), (ch, [])]\<rparr>"
  have 3: "gui_tunnel t2 ?g2 = Some (TWaits ch [], ?g3)" using tunnel_first [of ?g2 p2 "[]" t2] assms(7) d(1) by simp
  show ?thesis by (intro exI conjI, rule 1, rule 2, simp add: b(4), rule 3) (use d in \<open>simp_all\<close>)
qed

section \<open>Concrete runs\<close>

text \<open>A program with the token \<open>t\<close>, requests of a browser, and a server that accepts or not.\<close>

definition demo_gui :: gui where
  "demo_gui = startGUI [] (app_init\<lparr>ap_guiToken := ''t''\<rparr>)"

definition demo_req :: "string \<Rightarrow> string \<Rightarrow> http_req" where
  "demo_req path body = \<lparr>hr_Path = path, hr_Method = ''POST'', hr_Authorization = ''Bearer t'', hr_Cookie = None, hr_Body = body\<rparr>"

definition demo_body :: string where
  "demo_body = CHR ''{'' # CHR 0x22 # ''relay_addr'' @ [CHR 0x22, CHR '':'', CHR 0x22] @ ''r:1'' @ [CHR 0x22, CHR ''}'']"

definition demo_start :: tunnel_params where
  "demo_start = start_defaults (zero_params\<lparr>tn_RelayAddr := ''r:1''\<rparr>)"

definition demo_upnp :: upnp_env where
  "demo_upnp = \<lparr>ue_ssdp = None, ue_get = (\<lambda>_. None), ue_xml = (\<lambda>_. None), ue_post = (\<lambda>_ _ _. None), ue_ifaces = None,
     ue_natpmp = (\<lambda>_. None), ue_localIP = None, ue_iptext = (\<lambda>_. [])\<rparr>"

definition demo_net :: "bool \<Rightarrow> tunnel_env" where
  "demo_net up = \<lparr>te_now = 0, te_upnp = demo_upnp, te_stunResolves = False, te_stunSock = None, te_stun1 = (\<lambda>_. no_stun), te_stun2 = (\<lambda>_. no_stun),
     te_addr = (\<lambda>_. []), te_dial = (if up then Some \<lparr>w_sent = [], w_room = None\<rparr> else None),
     te_input = map RByte (enc_frame \<lparr>f_type = frameControl, f_chan = 0, f_payload = marshal_msg demo_ok\<rparr>),
     te_errtext = (\<lambda>_. ''refused'')\<rparr>"

definition demo_genv :: gui_env where
  "demo_genv = \<lparr>ge_now = 0, ge_clock = (\<lambda>_. []), ge_errtext = []\<rparr>"

lemma demo_reach: "gui_reach demo_gui"
  unfolding demo_gui_def by (rule gui_start) (simp add: app_init_def)

lemma demo_gui_app [simp]:
  "\<not> ap_Running (gu_app demo_gui)" "gu_started demo_gui = []" "ap_guiToken (gu_app demo_gui) = ''t''" "gu_waiting demo_gui = []"
  by (simp_all add: demo_gui_def startGUI_def make_stop_def Let_def app_init_def)

lemma demo_body_params: "map_option start_defaults (start_params demo_body) = Some demo_start"
  by code_simp

lemma demo_start_request [simp]: "start_request ''t'' demo_start (demo_req ''/api/start'' demo_body)"
  by (simp add: start_request_def demo_req_def demo_body_params request_token_def has_prefix_def)

lemma demo_stop_request [simp]: "stop_request ''t'' (demo_req ''/api/stop'' b)"
  by (simp add: stop_request_def demo_req_def request_token_def has_prefix_def)

lemma demo_relay_only [simp]: "relay_only demo_start"
  by (simp add: relay_only_def demo_start_def start_defaults_def zero_params_def)

lemma connect_demo:
  obtains c' where "Connect (te_dial (demo_net True)) (te_input (demo_net True)) c = (None, c', [])"
proof -
  obtain r c' rest where k: "Connect (te_dial (demo_net True)) (te_input (demo_net True)) c = (r, c', rest)"
    by (cases "Connect (te_dial (demo_net True)) (te_input (demo_net True)) c") auto
  then have "r = None" "rest = []"
    by (auto simp: demo_net_def Connect_def demo_ok_read k_sendControl_def k_writeFrame_room Let_def)
      (auto simp: demo_ok_def zero_msg_def Let_def split: if_splits)
  with k that show thesis by simp
qed

lemma demo_connect:
  obtains c where "tunnel_connect (demo_net True) demo_start a = (None, c, [])"
  unfolding tunnel_connect_def by (rule connect_demo)


theorem stop_after_failed_dial_panics_witness:
  "\<exists>g1 g2. gui_serve demo_genv (demo_req ''/api/start'' demo_body) demo_gui = (status_ok ''started'', g1)
    \<and> gui_tunnel (demo_net False) g1 = Some (TReturned, g2)
    \<and> fst (serve_all demo_genv [demo_req ''/api/stop'' [], demo_req ''/api/stop'' []] g2) = [Panic, Panic]"
proof -
  have "te_dial (demo_net False) = None" by (simp add: demo_net_def)
  then show ?thesis
    using stop_after_failed_dial_panics [of demo_gui demo_start "demo_req ''/api/start'' demo_body" "demo_net False"
        "[demo_req ''/api/stop'' [], demo_req ''/api/stop'' []]" demo_genv] demo_reach
    by simp
qed

theorem second_start_replaces_client_witness:
  "\<exists>g1 g2 g3 ch c1 c2. serve_all demo_genv [demo_req ''/api/start'' demo_body, demo_req ''/api/start'' demo_body] demo_gui
      = ([status_ok ''started'', status_ok ''started''], g1)
    \<and> gui_tunnel (demo_net True) g1 = Some (TWaits ch [], g2) \<and> ap_relay (gu_app g2) = Some c1
    \<and> gui_tunnel (demo_net True) g2 = Some (TWaits ch [], g3) \<and> ap_relay (gu_app g3) = Some c2
    \<and> gu_waiting g3 = [(ch, []), (ch, [])]"
proof -
  obtain c where c: "tunnel_connect (demo_net True) demo_start (gu_app demo_gui) = (None, c, [])" by (rule demo_connect)
  let ?r = "demo_req ''/api/start'' demo_body"
  have "\<exists>g1 g2 g3 ch. serve_all demo_genv [?r, ?r] demo_gui = ([status_ok ''started'', status_ok ''started''], g1)
    \<and> gui_tunnel (demo_net True) g1 = Some (TWaits ch [], g2) \<and> ap_relay (gu_app g2) = Some c
    \<and> gui_tunnel (demo_net True) g2 = Some (TWaits ch [], g3) \<and> ap_relay (gu_app g3) = Some c
    \<and> gu_waiting g3 = gu_waiting demo_gui @ [(ch, []), (ch, [])]"
    by (rule second_start_replaces_client [OF demo_reach _ _ _ _ _ _ c c]) simp_all
  then show ?thesis by simp blast
qed

theorem gui_auth_gate_witness:
  "snd (gui_serve demo_genv ((demo_req ''/api/stop'' [])\<lparr>hr_Authorization := ''Bearer x''\<rparr>) demo_gui) = demo_gui"
proof -
  let ?r = "(demo_req ''/api/stop'' [])\<lparr>hr_Authorization := ''Bearer x''\<rparr>"
  have "request_token ?r = ''x''" by (simp add: request_token_def demo_req_def has_prefix_def)
  moreover have "login_token (hr_Body ?r) = []" by (simp add: demo_req_def) code_simp
  ultimately show ?thesis using gui_auth_gate [of ?r demo_gui demo_gui demo_genv] by simp
qed


end
