(* ===== verification/HtmlText.thy ===== *)
theory HtmlText
  imports GoStrings
begin

text \<open>
  Text inside HTML, for the page the GUI serves: what the DOM makes of a text that is written
  with \<open>textContent\<close> and read with \<open>innerHTML\<close>, and how a browser splits markup into tags and
  texts. Strings are UTF-8, so U+00A0 is the bytes C2 A0. The lexer covers what the page writes:
  no comments, no quoted \<open>>\<close> in a tag, and the character references the page or the DOM uses.
\<close>

section \<open>Escaping\<close>

fun escapeHtml :: "string \<Rightarrow> string" where
  "escapeHtml [] = []"
| "escapeHtml (c # s) =
     (if c = CHR ''&'' then ''&amp;'' @ escapeHtml s
      else if c = CHR ''<'' then ''&lt;'' @ escapeHtml s
      else if c = CHR ''>'' then ''&gt;'' @ escapeHtml s
      else if c = CHR 0xC2 then
        (case s of d # r \<Rightarrow> if d = CHR 0xA0 then ''&nbsp;'' @ escapeHtml r else c # escapeHtml s | [] \<Rightarrow> [c])
      else c # escapeHtml s)"

section \<open>What a browser reads\<close>

definition char_refs :: "(string \<times> string) list" where
  "char_refs = [(''&amp;'', ''&''), (''&lt;'', ''<''), (''&gt;'', ''>''), (''&nbsp;'', [CHR 0xC2, CHR 0xA0]),
     (''&rarr;'', [CHR 0xE2, CHR 0x86, CHR 0x92])]"

text \<open>Other references do not occur; they are left as they are.\<close>

function unescape :: "string \<Rightarrow> string" where
  "unescape s =
     (case s of
        [] \<Rightarrow> []
      | c # r \<Rightarrow>
          (case find (\<lambda>(k, t). prefix k s) char_refs of
             Some (k, t) \<Rightarrow> t @ unescape (drop (length k) s)
           | None \<Rightarrow> c # unescape r))"
  by auto
termination
  by (relation "measure length") (auto simp: char_refs_def find_Some_iff nth_Cons' split: if_splits)

declare unescape.simps [simp del]

datatype html_tok = Tag string | Txt string

function html_lex :: "string \<Rightarrow> html_tok list" where
  "html_lex s =
     (let t = takeWhile (\<lambda>c. c \<noteq> CHR ''<'') s;
          ts = (if t = [] then [] else [Txt (unescape t)])
      in case dropWhile (\<lambda>c. c \<noteq> CHR ''<'') s of
           [] \<Rightarrow> ts
         | c # r \<Rightarrow> ts @ [Tag (takeWhile (\<lambda>c. c \<noteq> CHR ''>'') r)] @ html_lex (tl (dropWhile (\<lambda>c. c \<noteq> CHR ''>'') r)))"
  by auto
termination
proof (relation "measure length")
  fix s c r and t :: string and ts
  assume "dropWhile (\<lambda>c. c \<noteq> CHR ''<'') s = c # r"
  then have "length r < length s" by (metis Suc_le_lessD length_Cons length_dropWhile_le)
  moreover have "length (tl (dropWhile (\<lambda>c. c \<noteq> CHR ''>'') r)) \<le> length r"
    by (metis diff_le_self length_dropWhile_le length_tl order_trans)
  ultimately show "(tl (dropWhile (\<lambda>c. c \<noteq> CHR ''>'') r), s) \<in> measure length" by simp
qed simp

declare html_lex.simps [simp del]

section \<open>Lemmas\<close>

lemma unescape_Nil [simp]: "unescape [] = []"
  by (simp add: unescape.simps)

lemma unescape_plain [simp]: "c \<noteq> CHR ''&'' \<Longrightarrow> unescape (c # s) = c # unescape s"
  by (subst unescape.simps) (simp add: char_refs_def)

lemma unescape_ref:
  assumes "find (\<lambda>(k, t). prefix k (k' @ s)) char_refs = Some (k', t)" and "k' \<noteq> []"
  shows "unescape (k' @ s) = t @ unescape s"
proof -
  obtain c r where cr: "k' @ s = c # r" using assms(2) by (cases k') auto
  have "unescape (k' @ s) = t @ unescape (drop (length k') (k' @ s))"
    unfolding cr by (subst unescape.simps) (use assms(1) cr in simp)
  then show ?thesis by simp
qed

lemma unescape_refs:
  "unescape (''&amp;'' @ s) = ''&'' @ unescape s" "unescape (''&lt;'' @ s) = ''<'' @ unescape s"
  "unescape (''&gt;'' @ s) = ''>'' @ unescape s" "unescape (''&nbsp;'' @ s) = [CHR 0xC2, CHR 0xA0] @ unescape s"
  "unescape (''&rarr;'' @ s) = [CHR 0xE2, CHR 0x86, CHR 0x92] @ unescape s"
  by (rule unescape_ref; simp add: char_refs_def)+

lemma unescape_append: "CHR ''&'' \<notin> set p \<Longrightarrow> unescape (p @ s) = p @ unescape s"
  by (induction p) auto

text \<open>An escaped text is shown as it is and opens no tag.\<close>

lemma unescape_escape: "unescape (escapeHtml s) = s"
proof (induction s rule: escapeHtml.induct)
  case (2 c s)
  then show ?case
    using unescape_refs by (auto split: list.splits)
qed simp

lemma escape_no_tag: "CHR ''<'' \<notin> set (escapeHtml s)"
  by (induction s rule: escapeHtml.induct) (auto split: list.splits)

definition txt_tok :: "string \<Rightarrow> html_tok list" where
  "txt_tok s = (if s = [] then [] else [Txt s])"

text \<open>The markup of a text: no tag in it, and what it reads as.\<close>

definition reads_as :: "string \<Rightarrow> string \<Rightarrow> bool" where
  "reads_as m t \<longleftrightarrow> CHR ''<'' \<notin> set m \<and> unescape m = t \<and> (t = [] \<longrightarrow> m = [])"

lemma reads_plain: "CHR ''<'' \<notin> set p \<Longrightarrow> CHR ''&'' \<notin> set p \<Longrightarrow> reads_as p p"
  using unescape_append [of p "[]"] by (simp add: reads_as_def)

lemma reads_escape: "reads_as (escapeHtml s) s"
  by (simp add: reads_as_def unescape_escape escape_no_tag)

lemma reads_append: "CHR ''<'' \<notin> set p \<Longrightarrow> CHR ''&'' \<notin> set p \<Longrightarrow> reads_as m t \<Longrightarrow> reads_as (p @ m) (p @ t)"
  by (auto simp: reads_as_def unescape_append)

lemma lex_Nil [simp]: "html_lex [] = []"
  by (simp add: html_lex.simps)

lemma lex_tag: "CHR ''>'' \<notin> set t \<Longrightarrow> html_lex (CHR ''<'' # t @ CHR ''>'' # r) = Tag t # html_lex r"
  by (subst html_lex.simps) (simp add: takeWhile_append takeWhile_eq_all_conv dropWhile_append dropWhile_eq_Nil_conv)

lemma lex_text:
  assumes "reads_as m t"
  shows "html_lex (m @ CHR ''<'' # r) = txt_tok t @ html_lex (CHR ''<'' # r)"
proof -
  have "takeWhile (\<lambda>c. c \<noteq> CHR ''<'') (m @ CHR ''<'' # r) = m" "dropWhile (\<lambda>c. c \<noteq> CHR ''<'') (m @ CHR ''<'' # r) = CHR ''<'' # r"
    using assms by (auto simp: reads_as_def takeWhile_append dropWhile_append takeWhile_eq_all_conv dropWhile_eq_Nil_conv)
  then show ?thesis using assms by (subst html_lex.simps, subst (2) html_lex.simps) (auto simp: reads_as_def txt_tok_def)
qed

section \<open>Pieces of markup\<close>

definition tagless :: "string \<Rightarrow> bool" where
  "tagless s \<longleftrightarrow> CHR ''<'' \<notin> set s \<and> CHR ''&'' \<notin> set s"

lemma tagless_simps [simp]:
  "tagless []" "tagless (c # s) \<longleftrightarrow> c \<noteq> CHR ''<'' \<and> c \<noteq> CHR ''&'' \<and> tagless s" "tagless (s @ t) \<longleftrightarrow> tagless s \<and> tagless t"
  by (auto simp: tagless_def)

lemma tagless_reads: "tagless s \<Longrightarrow> reads_as s s"
  by (simp add: tagless_def reads_plain)

lemma tagless_append: "tagless s \<Longrightarrow> reads_as m t \<Longrightarrow> reads_as (s @ m) (s @ t)"
  by (simp add: tagless_def reads_append)

definition tag_html :: "string \<Rightarrow> string" where
  "tag_html t = CHR ''<'' # t @ [CHR ''>'']"

lemma lex_tag_html: "CHR ''>'' \<notin> set t \<Longrightarrow> html_lex (tag_html t @ r) = Tag t # html_lex r"
  using lex_tag [of t r] by (simp add: tag_html_def)

lemma lex_text_html: "reads_as m t \<Longrightarrow> html_lex (m @ tag_html u @ r) = txt_tok t @ html_lex (tag_html u @ r)"
  using lex_text [of m t "u @ CHR ''>'' # r"] by (simp add: tag_html_def)

lemma tagless_digits [simp]: "tagless (dec_digits n)" "tagless (itoa i)"
proof -
  have "tagless (dec_digits n)" for n using dec_digits_all [of n] by (auto simp: tagless_def list_all_iff is_digit_def)
  then show "tagless (dec_digits n)" "tagless (itoa i)" by (simp_all add: itoa_def)
qed

end
