(* ===== verification/GuiPage.thy ===== *)
theory GuiPage
  imports GuiSystem HtmlText
begin

text \<open>
  The script of the page the GUI serves (\<open>guiHTML\<close> in \<open>main.go\<close>): the login, the requests it
  sends, and what it does with the answers. The page's state is what the script reads and
  writes: its token, the browser's storage, and the elements by their id. Numbers are exact as
  long as they are below \<open>2^53\<close>. The answers' members have the types the server gives them.
  Not modelled: the drawing of the chart and the style sheet.
\<close>

section \<open>JavaScript values\<close>

text \<open>A member of an object; of several the last one counts. None is \<open>undefined\<close>.\<close>

fun mem :: "json \<Rightarrow> string \<Rightarrow> json option" where
  "mem (JObj kvs) k = map_of (rev kvs) k"
| "mem _ k = None"

fun truthy :: "json option \<Rightarrow> bool" where
  "truthy None = False"
| "truthy (Some JNull) = False"
| "truthy (Some (JBool b)) = b"
| "truthy (Some (JNum n)) = (atoi n \<noteq> Some 0)"
| "truthy (Some (JStr s)) = (s \<noteq> [])"
| "truthy (Some v) = True"

text \<open>A value as a text in a concatenation.\<close>

fun to_text :: "json option \<Rightarrow> string" where
  "to_text None = ''undefined''"
| "to_text (Some JNull) = ''null''"
| "to_text (Some (JBool b)) = (if b then ''true'' else ''false'')"
| "to_text (Some (JNum n)) = n"
| "to_text (Some (JStr s)) = s"
| "to_text (Some (JArr vs)) = join_str (map (\<lambda>v. if v = JNull then [] else to_text (Some v)) vs) '',''"
| "to_text (Some (JObj kvs)) = ''[object Object]''"

text \<open>\<open>x || y\<close> for a text \<open>y\<close>.\<close>

definition or_text :: "json option \<Rightarrow> string \<Rightarrow> string" where
  "or_text v y = (if truthy v then to_text v else y)"

definition elems :: "json \<Rightarrow> json list" where
  "elems v = (case v of JArr vs \<Rightarrow> vs | _ \<Rightarrow> [])"

definition js_esc :: "char \<Rightarrow> string" where
  "js_esc c =
     (if c = CHR 0x22 then [CHR 0x5C, CHR 0x22]
      else if c = CHR 0x5C then [CHR 0x5C, CHR 0x5C]
      else if c = CHR 0x08 then [CHR 0x5C, CHR ''b'']
      else if c = CHR 0x0C then [CHR 0x5C, CHR ''f'']
      else if c = CHR 0x0A then [CHR 0x5C, CHR ''n'']
      else if c = CHR 0x0D then [CHR 0x5C, CHR ''r'']
      else if c = CHR 0x09 then [CHR 0x5C, CHR ''t'']
      else if (of_char c :: nat) < 32 then u_escape (of_char c) else [c])"

definition js_string :: "string \<Rightarrow> string" where
  "js_string s = [CHR 0x22] @ concat (map js_esc s) @ [CHR 0x22]"

text \<open>\<open>JSON.stringify\<close>: unlike Go's encoder it does not escape markup.\<close>

fun js_stringify :: "json \<Rightarrow> string" where
  "js_stringify JNull = ''null''"
| "js_stringify (JBool b) = (if b then ''true'' else ''false'')"
| "js_stringify (JNum n) = n"
| "js_stringify (JStr s) = js_string s"
| "js_stringify (JArr vs) = ''['' @ join_str (map js_stringify vs) '','' @ '']''"
| "js_stringify (JObj kvs) = ''{'' @ join_str (map (\<lambda>(k, v). js_string k @ '':'' @ js_stringify v) kvs) '','' @ ''}''"

text \<open>\<open>parseInt\<close> without a radix: white space, a sign, \<open>0x\<close> or decimal digits; the rest is ignored.\<close>

definition js_parseInt :: "string \<Rightarrow> int option" where
  "js_parseInt s =
     (let (neg, t) = (case dropWhile is_space s of
            [] \<Rightarrow> (False, [])
          | c # r \<Rightarrow> if c = CHR ''-'' then (True, r) else if c = CHR ''+'' then (False, r) else (False, c # r));
          v = (if prefix ''0x'' t \<or> prefix ''0X'' t
               then (let hs = takeWhile (\<lambda>c. hex_val c \<noteq> None) (drop 2 t)
                     in if hs = [] then None else Some (foldl (\<lambda>n h. 16 * n + the (hex_val h)) 0 hs))
               else (let ds = takeWhile is_digit t in if ds = [] then None else Some (dec_val ds)))
      in map_option (\<lambda>n. if neg then - int n else int n) v)"

definition or_zero :: "int option \<Rightarrow> int" where
  "or_zero v = (case v of Some n \<Rightarrow> n | None \<Rightarrow> 0)"

section \<open>Formats\<close>

text \<open>\<open>(n/d).toFixed(1)\<close>: the nearest tenth, the larger one of two.\<close>

definition toFixed1 :: "int \<Rightarrow> int \<Rightarrow> string" where
  "toFixed1 n d = (let k = (20 * n + d) div (2 * d) in itoa (k div 10) @ ''.'' @ itoa (k mod 10))"

definition js_formatBytes :: "int \<Rightarrow> string" where
  "js_formatBytes b =
     (if b < 1024 then itoa b @ '' B''
      else if b < 1048576 then toFixed1 b 1024 @ '' KB''
      else toFixed1 b 1048576 @ '' MB'')"

definition js_formatUptime :: "int \<Rightarrow> string" where
  "js_formatUptime s =
     (if s < 60 then itoa s @ ''s''
      else if s < 3600 then itoa (s div 60) @ ''m '' @ itoa (s mod 60) @ ''s''
      else itoa (s div 3600) @ ''h '' @ itoa (s mod 3600 div 60) @ ''m'')"

text \<open>Of a member that is no number nothing but \<open>NaN\<close> comes out.\<close>

definition number_of :: "json option \<Rightarrow> int option" where
  "number_of v = (case v of Some (JNum n) \<Rightarrow> atoi n | _ \<Rightarrow> None)"

definition bytes_text :: "json option \<Rightarrow> string" where
  "bytes_text v = (case number_of v of Some b \<Rightarrow> js_formatBytes b | None \<Rightarrow> ''NaN MB'')"

section \<open>The page's state\<close>

record page =
  pg_token :: string
  pg_stored :: "string option"
  pg_login :: bool
  pg_dashboard :: bool
  pg_error :: bool
  pg_polling :: bool
  pg_text :: "string \<Rightarrow> string"
  pg_class :: "string \<Rightarrow> string"
  pg_html :: "string \<Rightarrow> string"
  pg_disabled :: "string \<Rightarrow> bool"
  pg_points :: "json list"

text \<open>The page when its script starts; the texts of the elements are those of the markup.\<close>

definition page_load :: "string option \<Rightarrow> (string \<Rightarrow> string) \<Rightarrow> (string \<Rightarrow> string) \<Rightarrow> (string \<Rightarrow> string) \<Rightarrow> page" where
  "page_load stored texts classes htmls = \<lparr>pg_token = (case stored of Some t \<Rightarrow> t | None \<Rightarrow> []), pg_stored = stored,
     pg_login = True, pg_dashboard = False, pg_error = False, pg_polling = False, pg_text = texts, pg_class = classes,
     pg_html = htmls, pg_disabled = (\<lambda>x. x = ''btnStop''), pg_points = []\<rparr>"

definition showLoginForm :: "page \<Rightarrow> page" where
  "showLoginForm p = p\<lparr>pg_login := True, pg_dashboard := False, pg_stored := None, pg_token := []\<rparr>"

definition showDashboard :: "page \<Rightarrow> page" where
  "showDashboard p = p\<lparr>pg_login := False, pg_dashboard := True\<rparr>"

text \<open>The four updates and their timers start once.\<close>

definition startPolling :: "page \<Rightarrow> page" where
  "startPolling p = p\<lparr>pg_polling := True\<rparr>"

section \<open>Requests and answers\<close>

text \<open>A request that failed, or the status and what \<open>r.json()\<close> gives, None if it rejects.\<close>

datatype fetched = Failed | Got int "json option"

text \<open>The server's answer in the browser. \<open>http.Error\<close> ends its text with a line feed.\<close>

definition fetched_of :: "(unit, http_resp) go \<Rightarrow> fetched" where
  "fetched_of r = (case r of
       Ret (HttpJson j) \<Rightarrow> Got 200 (Some j)
     | Ret (HttpError c s) \<Rightarrow> Got c (parse_json (s @ [CHR 0x0A]))
     | Ret HttpHtml \<Rightarrow> Got 200 None
     | _ \<Rightarrow> Failed)"

text \<open>\<open>ck\<close> is a cookie \<open>gui_token\<close>, which the page itself never sets.\<close>

definition authFetch :: "string option \<Rightarrow> page \<Rightarrow> string \<Rightarrow> string \<Rightarrow> string \<Rightarrow> http_req" where
  "authFetch ck p path method body = \<lparr>hr_Path = path, hr_Method = method, hr_Authorization = ''Bearer '' @ pg_token p,
     hr_Cookie = ck, hr_Body = body\<rparr>"

definition checkAuth :: "string option \<Rightarrow> page \<Rightarrow> page \<times> http_req option" where
  "checkAuth ck p = (if pg_token p = [] then (showLoginForm p, None) else (p, Some (authFetch ck p ''/api/status'' ''GET'' [])))"

definition checkAuth_answer :: "fetched \<Rightarrow> page \<Rightarrow> page" where
  "checkAuth_answer r p = (case r of
       Got st j \<Rightarrow> if st = 401 then showLoginForm p else startPolling (showDashboard p)
     | Failed \<Rightarrow> showLoginForm p)"

definition doLogin :: "string option \<Rightarrow> string \<Rightarrow> http_req" where
  "doLogin ck token = \<lparr>hr_Path = ''/api/login'', hr_Method = ''POST'', hr_Authorization = [], hr_Cookie = ck,
     hr_Body = js_stringify (JObj [(''token'', JStr token)])\<rparr>"

definition doLogin_answer :: "fetched \<Rightarrow> page \<Rightarrow> page" where
  "doLogin_answer r p = (case r of
       Got st (Some d) \<Rightarrow>
         if mem d ''status'' = Some (JStr ''ok'')
         then (let t = to_text (mem d ''token'')
               in startPolling (showDashboard (p\<lparr>pg_token := t, pg_stored := Some t\<rparr>)))
         else p\<lparr>pg_error := True\<rparr>
     | _ \<Rightarrow> p\<lparr>pg_error := True\<rparr>)"

section \<open>The updates\<close>

definition utf8_text :: "nat list \<Rightarrow> string" where
  "utf8_text bs = map char_of bs"

definition running_text :: string where
  "running_text = utf8_text [0xE8, 0xBF, 0x90, 0xE8, 0xA1, 0x8C, 0xE4, 0xB8, 0xAD]"

definition idle_text :: string where
  "idle_text = utf8_text [0xE6, 0x9C, 0xAA, 0xE5, 0x90, 0xAF, 0xE5, 0x8A, 0xA8]"

definition no_mapping_html :: string where
  \<open>no_mapping_html = ''<div class="text-dim">'' @ utf8_text [0xE6, 0x9A, 0x82, 0xE6, 0x97, 0xA0, 0xE6, 0x98, 0xA0, 0xE5, 0xB0, 0x84] @ ''</div>''\<close>

definition no_conns_html :: string where
  \<open>no_conns_html = ''<tr><td colspan="8" class="py-4 text-center text-gray-600">'' @ utf8_text [0xE6, 0x9A, 0x82, 0xE6, 0x97, 0xA0, 0xE8, 0xBF, 0x9E, 0xE6, 0x8E, 0xA5] @ ''</td></tr>''\<close>

definition mapping_html :: "json \<Rightarrow> string" where
  \<open>mapping_html s =
     ''<div class="bg-bg rounded-lg px-3 py-2 border border-border">'' @
     ''<span class="text-accent">VPS:'' @ to_text (mem s ''remote_port'') @ ''</span>'' @
     '' <span class="text-dim">&rarr;</span> '' @
     ''<span class="text-txt">127.0.0.1:'' @ to_text (mem s ''local_port'') @ ''</span>'' @
     '' <span class="text-dim uppercase">'' @ to_text (mem s ''proto'') @ ''</span>'' @
     ''</div>''\<close>

definition status_texts :: "json \<Rightarrow> (string \<times> string) list" where
  "status_texts d =
     [(''headerStatus'', if truthy (mem d ''running'') then running_text else idle_text),
      (''cardStatus'', if truthy (mem d ''running'') then running_text else idle_text),
      (''cardMode'', or_text (mem d ''mode'') ''-''),
      (''cardNAT'', or_text (mem d ''nat_type'') ''-''),
      (''cardUptime'', if truthy (mem d ''uptime_seconds'')
         then (case number_of (mem d ''uptime_seconds'') of Some s \<Rightarrow> js_formatUptime s | None \<Rightarrow> ''NaNh NaNm'') else ''0s''),
      (''cardBytesIn'', bytes_text (mem d ''bytes_in'')),
      (''cardBytesOut'', bytes_text (mem d ''bytes_out'')),
      (''cardChannels'', to_text (mem d ''active_channels'')),
      (''cardTotalConns'', or_text (mem d ''total_conns'') ''0''),
      (''cardLocalPorts'', or_text (mem d ''local_ports'') ''-''),
      (''cardPublicAddr'', or_text (mem d ''public_addr'') ''-''),
      (''headerAddr'', or_text (mem d ''public_addr'') ''-'')]"

definition status_classes :: "json \<Rightarrow> (string \<times> string) list" where
  "status_classes d =
     (if truthy (mem d ''running'')
      then [(''headerDot'', ''dot-on''), (''headerStatus'', ''text-sm text-accent''),
            (''cardStatus'', ''mt-1.5 text-lg font-bold font-mono text-accent'')]
      else [(''headerDot'', ''dot-off''), (''headerStatus'', ''text-sm text-muted''),
            (''cardStatus'', ''mt-1.5 text-lg font-bold font-mono text-dim'')])"

definition set_all :: "(string \<times> string) list \<Rightarrow> (string \<Rightarrow> string) \<Rightarrow> string \<Rightarrow> string" where
  "set_all kvs f x = (case map_of kvs x of Some v \<Rightarrow> v | None \<Rightarrow> f x)"

definition port_map_html :: "json \<Rightarrow> string" where
  "port_map_html d = (case mem d ''services'' of
       Some v \<Rightarrow> if elems v \<noteq> [] then concat (map mapping_html (elems v)) else no_mapping_html
     | None \<Rightarrow> no_mapping_html)"

definition status_page :: "json \<Rightarrow> page \<Rightarrow> page" where
  "status_page d p =
     p\<lparr>pg_text := set_all (status_texts d) (pg_text p), pg_class := set_all (status_classes d) (pg_class p),
       pg_disabled := (pg_disabled p)(''btnStart'' := truthy (mem d ''running''), ''btnStop'' := \<not> truthy (mem d ''running'')),
       pg_html := (pg_html p)(''portMapList'' := port_map_html d)\<rparr>"

definition updateStatus :: "string option \<Rightarrow> page \<Rightarrow> http_req" where
  "updateStatus ck p = authFetch ck p ''/api/status'' ''GET'' []"

definition updateStatus_answer :: "fetched \<Rightarrow> page \<Rightarrow> page" where
  "updateStatus_answer r p = (case r of
       Got st j \<Rightarrow> if st = 401 then showLoginForm p
                  else (case j of Some d \<Rightarrow> if truthy (Some d) then status_page d p else p | None \<Rightarrow> p)
     | Failed \<Rightarrow> p)"

text \<open>The other three ignore an answer 401 and a value that is falsy.\<close>

definition usable :: "fetched \<Rightarrow> json option" where
  "usable r = (case r of Got st (Some d) \<Rightarrow> if st \<noteq> 401 \<and> truthy (Some d) then Some d else None | _ \<Rightarrow> None)"

definition level_class :: "json option \<Rightarrow> string" where
  "level_class v =
     (if v = Some (JStr ''INFO'') then ''text-txt''
      else if v = Some (JStr ''WARN'') then ''text-warn''
      else if v = Some (JStr ''ERROR'') then ''text-danger''
      else ''text-dim'')"

text \<open>\<open>textContent\<close> takes \<open>null\<close> and \<open>undefined\<close> for the empty text.\<close>

definition esc_text :: "json option \<Rightarrow> string" where
  "esc_text v = (if v = None \<or> v = Some JNull then [] else escapeHtml (to_text v))"

definition log_html :: "json \<Rightarrow> string" where
  \<open>log_html l = ''<div class="'' @ level_class (mem l ''level'') @ ''"><span class="text-dim">['' @ to_text (mem l ''module'')
     @ '']</span> '' @ to_text (mem l ''level'') @ '' '' @ esc_text (mem l ''message'') @ ''</div>''\<close>

definition updateLogs :: "string option \<Rightarrow> page \<Rightarrow> http_req" where
  "updateLogs ck p = authFetch ck p ''/api/logs'' ''GET'' []"

definition updateLogs_answer :: "fetched \<Rightarrow> page \<Rightarrow> page" where
  "updateLogs_answer r p = (case usable r of
       Some logs \<Rightarrow> p\<lparr>pg_html := (pg_html p)(''logsWindow'' := concat (map log_html (elems logs)))\<rparr>
     | None \<Rightarrow> p)"

definition updateTraffic :: "string option \<Rightarrow> page \<Rightarrow> http_req" where
  "updateTraffic ck p = authFetch ck p ''/api/traffic'' ''GET'' []"

definition updateTraffic_answer :: "fetched \<Rightarrow> page \<Rightarrow> page" where
  "updateTraffic_answer r p = (case usable r of
       Some d \<Rightarrow> p\<lparr>pg_points := (case mem d ''points'' of Some v \<Rightarrow> elems v | None \<Rightarrow> [])\<rparr>
     | None \<Rightarrow> p)"

text \<open>The upper end of the chart's scale, computed when there are two points or more: whole KiB.\<close>

definition chart_max :: "json list \<Rightarrow> int" where
  "chart_max points =
     (let m = fold (\<lambda>d m. max (max m (or_zero (number_of (mem d ''bytes_in_rate''))))
                              (or_zero (number_of (mem d ''bytes_out_rate'')))) points 1024;
          m1 = (m + 1023) div 1024 * 1024
      in if m1 < 1024 then 1024 else m1)"

definition conn_html :: "json \<Rightarrow> string" where
  \<open>conn_html c =
     ''<tr class="border-b border-border/50 hover:bg-card/30 transition-colors duration-150">'' @
     ''<td class="py-2 pr-3 text-accent">'' @ to_text (mem c ''channel_id'') @ ''</td>'' @
     ''<td class="py-2 pr-3 text-txt">'' @ escapeHtml (or_text (mem c ''remote_addr'') ''-'') @ ''</td>'' @
     ''<td class="py-2 pr-3 text-txt">'' @ to_text (mem c ''local_port'') @ ''</td>'' @
     ''<td class="py-2 pr-3 text-dim uppercase">'' @ to_text (mem c ''proto'') @ ''</td>'' @
     ''<td class="py-2 pr-3 text-dim">'' @ to_text (mem c ''connected_at'') @ ''</td>'' @
     ''<td class="py-2 pr-3 text-dim">'' @ to_text (mem c ''duration'') @ ''</td>'' @
     ''<td class="py-2 pr-3 text-accent">'' @ bytes_text (mem c ''bytes_in'') @ ''</td>'' @
     ''<td class="py-2 text-danger">'' @ bytes_text (mem c ''bytes_out'') @ ''</td>'' @
     ''</tr>''\<close>

definition updateConnections :: "string option \<Rightarrow> page \<Rightarrow> http_req" where
  "updateConnections ck p = authFetch ck p ''/api/connections'' ''GET'' []"

definition updateConnections_answer :: "fetched \<Rightarrow> page \<Rightarrow> page" where
  "updateConnections_answer r p = (case usable r of
       Some conns \<Rightarrow> p\<lparr>pg_text := (pg_text p)(''connCount'' := itoa (int (length (elems conns)))),
         pg_html := (pg_html p)(''connTableBody'' :=
           (if elems conns = [] then no_conns_html else concat (map conn_html (elems conns))))\<rparr>
     | None \<Rightarrow> p)"

section \<open>Starting and stopping\<close>

text \<open>What the user entered; the two numbers are texts.\<close>

record start_form =
  fm_localPorts :: string
  fm_remotePorts :: string
  fm_upnp :: bool
  fm_stunServer :: string
  fm_relayAddr :: string
  fm_proto :: string
  fm_compress :: bool
  fm_ipAllow :: string
  fm_ipDeny :: string
  fm_maxConns :: string
  fm_rateLimit :: string

definition form_json :: "start_form \<Rightarrow> json" where
  "form_json f = JObj [
     (''local_ports'', JStr (if fm_localPorts f = [] then ''8080'' else fm_localPorts f)),
     (''remote_ports'', JStr (if fm_remotePorts f = [] then ''0'' else fm_remotePorts f)),
     (''upnp'', JBool (fm_upnp f)),
     (''stun_server'', JStr (fm_stunServer f)),
     (''relay_addr'', JStr (fm_relayAddr f)),
     (''proto'', JStr (fm_proto f)),
     (''compress'', JBool (fm_compress f)),
     (''ip_allow'', JStr (fm_ipAllow f)),
     (''ip_deny'', JStr (fm_ipDeny f)),
     (''max_conns'', j_int (or_zero (js_parseInt (fm_maxConns f)))),
     (''rate_limit'', j_int (or_zero (js_parseInt (fm_rateLimit f))))]"

definition startTunnel :: "string option \<Rightarrow> start_form \<Rightarrow> page \<Rightarrow> http_req" where
  "startTunnel ck f p = authFetch ck p ''/api/start'' ''POST'' (js_stringify (form_json f))"

definition stopTunnel :: "string option \<Rightarrow> page \<Rightarrow> http_req" where
  "stopTunnel ck p = authFetch ck p ''/api/stop'' ''POST'' []"

text \<open>After either answer: the new page, and whether the status is asked for again.\<close>

definition command_answer :: "fetched \<Rightarrow> page \<Rightarrow> page \<times> bool" where
  "command_answer r p = (case r of
       Got st j \<Rightarrow> if st = 401 then (showLoginForm p, True) else (p, j \<noteq> None)
     | Failed \<Rightarrow> (p, False))"

section \<open>Opening the browser\<close>

text \<open>The command that opens the page, by operating system; its result is ignored.\<close>

definition openBrowser :: "string \<Rightarrow> string \<Rightarrow> string list" where
  "openBrowser goos url =
     (if goos = ''windows'' then [''cmd'', ''/c'', ''start'', url]
      else if goos = ''darwin'' then [''open'', url]
      else [''xdg-open'', url])"

end
