(* ===== verification/GuiBrowser.thy ===== *)
theory GuiBrowser
  imports GuiPage
begin

text \<open>
  The page and the server together: what the login and the start form send is what the handlers
  decode, and what the page shows is what the server knows, as text, whatever it contains.
\<close>

section \<open>JSON from the page\<close>

lemma read_js_esc:
  assumes "(of_char c :: nat) < 128"
  shows "read_string (js_esc c @ t) = map_option (\<lambda>(u, r). (c # u, r)) (read_string t)"
  using assms read_string_u_escape [of "of_char c" t]
  by (auto simp: js_esc_def simple_escape_def)

lemma read_js_string: "ascii s \<Longrightarrow> read_string (concat (map js_esc s) @ CHR 0x22 # r) = Some (s, r)"
  by (induction s) (auto simp: ascii_def read_js_esc)

text \<open>Objects of texts, numbers and booleans.\<close>

fun flat :: "json \<Rightarrow> bool" where
  "flat (JStr s) = ascii s"
| "flat (JBool b) = True"
| "flat (JNum n) = json_ok (JNum n)"
| "flat v = False"

lemma read_flat:
  assumes "flat v" and "length (js_stringify v) < n" and "delim r"
  shows "read_value n (js_stringify v @ r) = Some (v, r)"
proof (cases v)
  case (JStr s)
  with assms show ?thesis by (cases n) (simp_all add: js_string_def read_js_string)
qed (use assms readsD [OF reads_json, of v n r] in \<open>auto split: if_splits\<close>)

abbreviation js_member :: "string \<times> json \<Rightarrow> string" where
  "js_member \<equiv> \<lambda>(k, v). js_string k @ '':'' @ js_stringify v"

lemma flat_ws: "flat v \<Longrightarrow> skip_ws (js_stringify v @ r) = js_stringify v @ r"
  using skip_ws_print [of v r] by (cases v) (auto simp: js_string_def)

lemma read_members_js:
  assumes "kvs \<noteq> []" and "list_all (\<lambda>(k, v). ascii k \<and> flat v) kvs"
    and "length (join_str (map js_member kvs) '','') + 1 < n"
  shows "read_members n (join_str (map js_member kvs) '','' @ CHR ''}'' # r) = Some (kvs, r)"
  using assms
proof (induction kvs arbitrary: n)
  case (Cons kv kvs)
  obtain k v where kv: "kv = (k, v)" by force
  from Cons.prems obtain m where n: "n = Suc m" by (cases n) auto
  from Cons.prems kv have ok: "ascii k" "flat v" by auto
  show ?case
  proof (cases "kvs = []")
    case True
    with Cons.prems n kv ok show ?thesis by (simp add: js_string_def read_js_string read_flat)
  next
    case False
    with Cons.prems n kv have len: "length (js_stringify v) < m" "length (join_str (map js_member kvs) '','') + 1 < m"
      by (auto simp: join_str_Cons)
    then have "read_members m (join_str (map js_member kvs) '','' @ CHR ''}'' # r) = Some (kvs, r)"
      using Cons.IH Cons.prems False by simp
    with len ok False n kv show ?thesis by (simp add: join_str_Cons js_string_def read_js_string read_flat)
  qed
qed simp

lemma decode_stringify:
  assumes "kvs \<noteq> []" and "list_all (\<lambda>(k, v). ascii k \<and> flat v) kvs"
  shows "decode_body (js_stringify (JObj kvs)) = Some (JObj kvs)"
proof -
  obtain k v kvs' where kv: "kvs = (k, v) # kvs'" using assms(1) by (metis list.exhaust surj_pair)
  then obtain u where "join_str (map js_member kvs) '','' = CHR 0x22 # u"
    by (cases kvs') (auto simp: join_str_Cons js_string_def)
  moreover from assms have "read_members (Suc (Suc (length (join_str (map js_member kvs) '',''))))
      (join_str (map js_member kvs) '','' @ CHR ''}'' # []) = Some (kvs, [])"
    by (intro read_members_js) simp_all
  ultimately show ?thesis by (simp add: decode_body_def)
qed

section \<open>A page and a server\<close>

definition demo_page :: page where
  "demo_page = page_load None (\<lambda>_. []) (\<lambda>_. []) (\<lambda>_. [])"

definition page_env :: gui_env where
  "page_env = \<lparr>ge_now = 0, ge_clock = (\<lambda>t. ''15:04:05''), ge_errtext = []\<rparr>"

section \<open>Login\<close>

lemma login_token_page: "ascii tk \<Longrightarrow> login_token (hr_Body (doLogin ck tk)) = tk"
  using decode_stringify [of "[(''token'', JStr tk)]"]
  by (simp add: doLogin_def login_token_def fold_name_def to_lower_char_def del: js_stringify.simps)

lemma request_token_page [simp]: "request_token (authFetch ck p path meth body) = pg_token p"
  by (simp add: request_token_def authFetch_def has_prefix_def Let_def)

lemma login_answer:
  assumes "ascii tk"
  shows "fetched_of (fst (gui_serve e (doLogin ck tk) g)) = (if tk = ap_guiToken (gu_app g)
     then Got 200 (Some (JObj [(''status'', JStr ''ok''), (''token'', JStr tk)]))
     else Got 403 (Some (JObj [(''error'', JStr ''invalid token'')])))"
proof -
  have "login_token (hr_Body (doLogin ck tk)) = tk" by (rule login_token_page [OF assms])
  moreover have "parse_json (invalid_token_text @ [CHR 0x0A]) = Some (JObj [(''error'', JStr ''invalid token'')])"
    by code_simp
  ultimately show ?thesis by (simp add: gui_serve_def doLogin_def handleLogin_def fetched_of_def)
qed

text \<open>
  Claim C23 (page_login): logging in at the page with the server's token shows the dashboard, keeps
  the token for later visits, and every later request of the page presents it; with any other
  token the page shows the error and changes nothing else, and the server changes in neither case.
\<close>

theorem page_login:
  assumes "ascii tk" and "p' = doLogin_answer (fetched_of (fst (gui_serve e (doLogin ck tk) g))) p"
  shows "snd (gui_serve e (doLogin ck tk) g) = g
    \<and> (if tk = ap_guiToken (gu_app g)
       then pg_token p' = tk \<and> pg_stored p' = Some tk \<and> pg_dashboard p' \<and> \<not> pg_login p' \<and> pg_polling p'
         \<and> (\<forall>ck path meth body. request_token (authFetch ck p' path meth body) = ap_guiToken (gu_app g))
       else p' = p\<lparr>pg_error := True\<rparr>)"
  using assms(2) unfolding login_answer [OF assms(1)]
  by (auto simp: doLogin_answer_def showDashboard_def startPolling_def gui_serve_def doLogin_def handleLogin_def Let_def)

theorem page_login_witness:
  "pg_token (doLogin_answer (fetched_of (fst (gui_serve page_env (doLogin None ''t'') demo_gui))) demo_page) = ''t''"
  using page_login [of "''t''" _ page_env None demo_gui demo_page, OF _ refl] by simp

section \<open>Starting a tunnel\<close>

definition form_ok :: "start_form \<Rightarrow> bool" where
  "form_ok f \<longleftrightarrow> ascii (fm_localPorts f) \<and> ascii (fm_remotePorts f) \<and> ascii (fm_stunServer f) \<and> ascii (fm_relayAddr f)
     \<and> ascii (fm_proto f) \<and> ascii (fm_ipAllow f) \<and> ascii (fm_ipDeny f)
     \<and> \<bar>or_zero (js_parseInt (fm_maxConns f))\<bar> < 2 ^ 53 \<and> \<bar>or_zero (js_parseInt (fm_rateLimit f))\<bar> < 2 ^ 53"

definition form_params :: "start_form \<Rightarrow> tunnel_params" where
  "form_params f = \<lparr>tn_LocalPorts = (if fm_localPorts f = [] then ''8080'' else fm_localPorts f),
     tn_RemotePorts = (if fm_remotePorts f = [] then ''0'' else fm_remotePorts f), tn_Upnp = fm_upnp f,
     tn_StunServer = fm_stunServer f, tn_RelayAddr = fm_relayAddr f, tn_Proto = (if fm_proto f = [] then ''tcp'' else fm_proto f),
     tn_Compress = fm_compress f, tn_IPAllow = fm_ipAllow f, tn_IPDeny = fm_ipDeny f,
     tn_MaxConns = or_zero (js_parseInt (fm_maxConns f)), tn_RateLimit = or_zero (js_parseInt (fm_rateLimit f))\<rparr>"

lemma flat_j_int [simp]: "flat (j_int i)"
  using json_ok_j_int [of i] by (simp add: j_int_def)

lemma start_params_page:
  assumes "form_ok f"
  shows "map_option start_defaults (start_params (js_stringify (form_json f))) = Some (form_params f)"
proof -
  obtain kvs where kvs: "form_json f = JObj kvs" "kvs \<noteq> []" by (simp add: form_json_def)
  have "list_all (\<lambda>(k, v). ascii k \<and> flat v) kvs" using assms kvs(1) by (auto simp: form_json_def form_ok_def)
  from decode_stringify [OF kvs(2) this] have d: "decode_body (js_stringify (form_json f)) = Some (form_json f)" using kvs(1) by simp
  have i: "int64 (or_zero (js_parseInt (fm_maxConns f)))" "int64 (or_zero (js_parseInt (fm_rateLimit f)))"
    using assms by (auto simp: form_ok_def int64_def)
  show ?thesis unfolding start_params_def d
    by (simp add: form_json_def start_field_def fold_name_def to_lower_char_def zero_params_def start_defaults_def form_params_def i)
qed

text \<open>
  Claim C22 (page_start): the start button of a logged-in page starts exactly one call of
  \<open>runTunnel\<close> with what the form says, defaults for empty fields; without the server's token
  nothing is started and the page goes back to the login, and while a tunnel runs it is refused.
\<close>

theorem page_start:
  assumes "form_ok f" and "gui_serve e (startTunnel ck f p) g = (r, g')" and "(p', again) = command_answer (fetched_of r) p"
  shows "if pg_token p \<noteq> ap_guiToken (gu_app g) then g' = g \<and> p' = showLoginForm p \<and> again
    else if ap_Running (gu_app g) then g' = g \<and> p' = p \<and> \<not> again
    else gu_started g' = gu_started g @ [form_params f] \<and> ap_LocalPorts (gu_app g') = tn_LocalPorts (form_params f)
      \<and> p' = p \<and> again"
proof -
  obtain t where t: "start_params (js_stringify (form_json f)) = Some t" "start_defaults t = form_params f"
    using start_params_page [OF assms(1)] by auto
  have path: "hr_Path (startTunnel ck f p) = ''/api/start''" "hr_Method (startTunnel ck f p) = ''POST''"
    "hr_Body (startTunnel ck f p) = js_stringify (form_json f)" "request_token (startTunnel ck f p) = pg_token p"
    by (simp_all add: startTunnel_def) (simp_all add: authFetch_def)
  then have s: "gui_serve e (startTunnel ck f p) g = authMiddleware handleStart e (startTunnel ck f p) g"
    by (simp add: gui_serve_def)
  have bad: "parse_json (''Already running'' @ [CHR 0x0A]) = None" by code_simp
  show ?thesis using assms(2,3) s path t bad
    by (auto simp: authMiddleware_def handleStart_def fetched_of_def command_answer_def Let_def)
qed

definition demo_form :: start_form where
  "demo_form = \<lparr>fm_localPorts = ''22'', fm_remotePorts = [], fm_upnp = False, fm_stunServer = [], fm_relayAddr = ''h:9000'',
     fm_proto = ''both'', fm_compress = True, fm_ipAllow = [], fm_ipDeny = [], fm_maxConns = '' 12x'', fm_rateLimit = []\<rparr>"

theorem page_start_witness:
  "\<exists>r g' p' again. gui_serve page_env (startTunnel None demo_form (demo_page\<lparr>pg_token := ''t''\<rparr>)) demo_gui = (r, g') \<and> again
    \<and> (p', again) = command_answer (fetched_of r) (demo_page\<lparr>pg_token := ''t''\<rparr>)
    \<and> gu_started g' = [\<lparr>tn_LocalPorts = ''22'', tn_RemotePorts = ''0'', tn_Upnp = False, tn_StunServer = [], tn_RelayAddr = ''h:9000'',
         tn_Proto = ''both'', tn_Compress = True, tn_IPAllow = [], tn_IPDeny = [], tn_MaxConns = 12, tn_RateLimit = 0\<rparr>]"
proof -
  let ?p = "demo_page\<lparr>pg_token := ''t''\<rparr>"
  obtain r g' where s: "gui_serve page_env (startTunnel None demo_form ?p) demo_gui = (r, g')" by force
  obtain p' again where c: "(p', again) = command_answer (fetched_of r) ?p" by (metis surj_pair)
  have n: "or_zero (js_parseInt '' 12x'') = 12" "or_zero (js_parseInt []) = 0" by code_simp+
  then have "form_ok demo_form" by (simp add: form_ok_def demo_form_def)
  from page_start [OF this s c] have "gu_started g' = [form_params demo_form] \<and> again" by simp
  with s c show ?thesis using n
    by (intro exI [of _ r] exI [of _ g'] exI [of _ p'] exI [of _ again]) (simp add: form_params_def demo_form_def)
qed

section \<open>The status\<close>

lemma unauthorized_answer:
  assumes "pg_token p \<noteq> ap_guiToken (gu_app g)"
  shows "updateStatus_answer (fetched_of (fst (gui_serve e (updateStatus ck p) g))) p = showLoginForm p"
proof -
  have "hr_Path (updateStatus ck p) = ''/api/status''" "request_token (updateStatus ck p) = pg_token p"
    by (simp_all add: updateStatus_def) (simp add: authFetch_def)
  with assms show ?thesis by (simp add: gui_serve_def authMiddleware_def fetched_of_def updateStatus_answer_def)
qed

text \<open>A shown amount is within half a tenth of the unit.\<close>

lemma toFixed1_near:
  fixes n d k :: int
  assumes "0 < d" and "k = (20 * n + d) div (2 * d)"
  shows "2 * \<bar>10 * n - k * d\<bar> \<le> d"
proof -
  have d: "0 < 2 * d" using assms(1) by simp
  then have "2 * d * k \<le> 20 * n + d" "20 * n + d < 2 * d * k + 2 * d"
    using mult_div_mod_eq [of "2 * d" "20 * n + d"] pos_mod_bound [OF d, of "20 * n + d"] pos_mod_sign [OF d, of "20 * n + d"]
    unfolding assms(2) by linarith+
  moreover obtain x where x: "x = k * d" by blast
  moreover have "2 * d * k = 2 * x" by (simp add: x)
  ultimately have "2 * x \<le> 20 * n + d" "20 * n + d < 2 * x + 2 * d" by simp_all
  then show ?thesis unfolding x [symmetric] by (simp add: abs_if)
qed

definition rates :: "json \<Rightarrow> int set" where
  "rates d = {or_zero (number_of (mem d ''bytes_in_rate'')), or_zero (number_of (mem d ''bytes_out_rate''))}"

text \<open>The chart's scale is a positive number of KiB and covers every rate.\<close>

lemma chart_max_covers:
  "1024 \<le> chart_max points" "1024 dvd chart_max points" "d \<in> set points \<Longrightarrow> r \<in> rates d \<Longrightarrow> r \<le> chart_max points"
proof -
  let ?f = "\<lambda>d m. max (max m (or_zero (number_of (mem d ''bytes_in_rate'')))) (or_zero (number_of (mem d ''bytes_out_rate'')))"
  have up: "m \<le> fold ?f ps m" for ps m
  proof (induction ps arbitrary: m)
    case (Cons d ps)
    show ?case using Cons.IH [of "?f d m"] by simp
  qed simp
  have all: "d \<in> set ps \<Longrightarrow> r \<in> rates d \<Longrightarrow> r \<le> fold ?f ps m" for ps m
  proof (induction ps arbitrary: m)
    case (Cons x ps)
    then show ?case using up [of "?f x m" ps] by (auto simp: rates_def)
  qed simp
  let ?m = "fold ?f points 1024"
  have c: "chart_max points = (?m + 1023) div 1024 * 1024" "?m \<le> chart_max points"
    using up [of 1024 points] by (auto simp: chart_max_def Let_def)
  show "1024 dvd chart_max points" unfolding c(1) by simp
  show "1024 \<le> chart_max points" using c(2) up [of 1024 points] by simp
  show "d \<in> set points \<Longrightarrow> r \<in> rates d \<Longrightarrow> r \<le> chart_max points" using c(2) all [of points 1024] by simp
qed

section \<open>Connections\<close>

definition cell_html :: "string \<Rightarrow> string \<Rightarrow> string" where
  \<open>cell_html cls m = tag_html (''td class="'' @ cls @ [CHR 0x22]) @ m @ tag_html ''/td''\<close>

definition cell :: "string \<Rightarrow> string \<Rightarrow> html_tok list" where
  \<open>cell cls t = Tag (''td class="'' @ cls @ [CHR 0x22]) # txt_tok t @ [Tag ''/td'']\<close>

lemma lex_cell: "CHR ''>'' \<notin> set cls \<Longrightarrow> reads_as m t \<Longrightarrow> html_lex (cell_html cls m @ r) = cell cls t @ html_lex r"
  by (simp add: cell_html_def cell_def lex_tag_html lex_text_html)

lemmas lex_cells = lex_cell [OF _ tagless_reads] lex_cell [OF _ reads_escape]

definition row_class :: string where
  \<open>row_class = ''tr class="border-b border-border/50 hover:bg-card/30 transition-colors duration-150"''\<close>

text \<open>What a browser should see for a connection.\<close>

definition conn_row :: "gui_env \<Rightarrow> ConnInfo \<Rightarrow> html_tok list" where
  "conn_row e i = Tag row_class
     # cell ''py-2 pr-3 text-accent'' (itoa (uint (in_ChannelID i)))
     @ cell ''py-2 pr-3 text-txt'' (if in_RemoteAddr i = [] then ''-'' else in_RemoteAddr i)
     @ cell ''py-2 pr-3 text-txt'' (itoa (in_LocalPort i))
     @ cell ''py-2 pr-3 text-dim uppercase'' (in_Proto i)
     @ cell ''py-2 pr-3 text-dim'' (ge_clock e (in_ConnectedAt i))
     @ cell ''py-2 pr-3 text-dim'' (duration_text (ge_now e - in_ConnectedAt i))
     @ cell ''py-2 pr-3 text-accent'' (js_formatBytes (sint (in_BytesIn i)))
     @ cell ''py-2 text-danger'' (js_formatBytes (sint (in_BytesOut i)))
     @ [Tag ''/tr'']"

lemma conn_html_cells:
  "conn_html c = tag_html row_class
     @ cell_html ''py-2 pr-3 text-accent'' (to_text (mem c ''channel_id''))
     @ cell_html ''py-2 pr-3 text-txt'' (escapeHtml (or_text (mem c ''remote_addr'') ''-''))
     @ cell_html ''py-2 pr-3 text-txt'' (to_text (mem c ''local_port''))
     @ cell_html ''py-2 pr-3 text-dim uppercase'' (to_text (mem c ''proto''))
     @ cell_html ''py-2 pr-3 text-dim'' (to_text (mem c ''connected_at''))
     @ cell_html ''py-2 pr-3 text-dim'' (to_text (mem c ''duration''))
     @ cell_html ''py-2 pr-3 text-accent'' (bytes_text (mem c ''bytes_in''))
     @ cell_html ''py-2 text-danger'' (bytes_text (mem c ''bytes_out''))
     @ tag_html ''/tr''"
  by (simp add: conn_html_def cell_html_def tag_html_def row_class_def)

lemma tagless_formats [simp]: "tagless (js_formatBytes b)" "tagless (duration_text d)"
  by (simp_all add: js_formatBytes_def toFixed1_def duration_text_def Let_def)

lemma int64_sint [simp]: "int64 (sint (w :: i64))"
  using sint_range_size [of w] by (simp add: int64_def word_size)

lemma bytes_text_int: "int64 b \<Longrightarrow> bytes_text (Some (j_int b)) = js_formatBytes b"
  by (simp add: bytes_text_def number_of_def j_int_def atoi_itoa)

lemma lex_conn:
  assumes "tagless (in_Proto i)" and "\<And>t. tagless (ge_clock e t)"
  shows "html_lex (conn_html (conn_json e i) @ r) = conn_row e i @ html_lex r"
proof -
  have m: "mem (conn_json e i) ''channel_id'' = Some (j_int (uint (in_ChannelID i)))"
    "mem (conn_json e i) ''remote_addr'' = Some (JStr (in_RemoteAddr i))"
    "mem (conn_json e i) ''local_port'' = Some (j_int (in_LocalPort i))"
    "mem (conn_json e i) ''proto'' = Some (JStr (in_Proto i))"
    "mem (conn_json e i) ''connected_at'' = Some (JStr (ge_clock e (in_ConnectedAt i)))"
    "mem (conn_json e i) ''duration'' = Some (JStr (duration_text (ge_now e - in_ConnectedAt i)))"
    "mem (conn_json e i) ''bytes_in'' = Some (j_int (sint (in_BytesIn i)))"
    "mem (conn_json e i) ''bytes_out'' = Some (j_int (sint (in_BytesOut i)))"
    by (simp_all add: conn_json_def)
  have t: "to_text (Some (j_int n)) = itoa n" for n by (simp add: j_int_def)
  have "or_text (Some (JStr (in_RemoteAddr i))) ''-'' = (if in_RemoteAddr i = [] then ''-'' else in_RemoteAddr i)"
    by (simp add: or_text_def)
  note m = m this
  show ?thesis
    unfolding conn_html_cells conn_row_def m bytes_text_int [OF int64_sint] t to_text.simps append_assoc append_Cons
    using assms by (simp add: row_class_def lex_tag_html lex_cells del: if_split)
qed

lemma lex_rows:
  assumes "\<forall>i \<in> set is. tagless (in_Proto i)" and "\<And>t. tagless (ge_clock e t)"
  shows "html_lex (concat (map conn_html (map (conn_json e) is))) = concat (map (conn_row e) is)"
  using assms(1) by (induction "is") (simp_all add: lex_conn [OF _ assms(2)])

text \<open>The protocol of a connection is one of two literals of the client.\<close>

definition protos_ok :: "Client \<Rightarrow> bool" where
  "protos_ok c \<longleftrightarrow> in_Proto ` set (GetConnections c) \<subseteq> {''tcp'', ''udp''}"

lemma protos_okI: "k_connInfos c' = k_connInfos c \<Longrightarrow> protos_ok c \<Longrightarrow> protos_ok c'"
  by (simp add: protos_ok_def GetConnections_def)

lemma protos_update:
  "protos_ok c \<Longrightarrow> in_Proto i \<in> {''tcp'', ''udp''} \<Longrightarrow> k_connInfos c' = AList.update ch i (k_connInfos c) \<Longrightarrow> protos_ok c'"
proof -
  assume a: "protos_ok c" "in_Proto i \<in> {''tcp'', ''udp''}" "k_connInfos c' = AList.update ch i (k_connInfos c)"
  have "set (AList.update ch i l) \<subseteq> insert (ch, i) (set l)" for l :: "(u32 \<times> ConnInfo) list" by (induction l) auto
  with a show ?thesis unfolding protos_ok_def GetConnections_def by fastforce
qed

lemma protos_delete: "protos_ok c \<Longrightarrow> k_connInfos c' = AList.delete ch (k_connInfos c) \<Longrightarrow> protos_ok c'"
  unfolding protos_ok_def GetConnections_def by (fastforce simp: AList.delete_eq)

lemma protos_map:
  assumes "protos_ok c" and "\<And>i. in_Proto (f i) = in_Proto i" and "k_connInfos c' = AList.map_entry ch f (k_connInfos c)"
  shows "protos_ok c'"
proof -
  have "map in_Proto (map snd (AList.map_entry ch f l)) = map in_Proto (map snd l)" for l
    by (induction l) (auto simp: assms(2))
  then have "in_Proto ` set (GetConnections c') = in_Proto ` set (GetConnections c)"
    unfolding GetConnections_def assms(3) by (metis set_map)
  with assms(1) show ?thesis by (simp add: protos_ok_def)
qed

lemma protos_sendControl: "k_sendControl m c = (r, c') \<Longrightarrow> k_connInfos c' = k_connInfos c"
  using k_writeFrame_fields(3) [of frameControl 0 "marshal_msg m" c] by (simp add: k_sendControl_def)

lemma protos_new:
  assumes "protos_ok c"
  shows "protos_ok (handleNewConn e ch port addr c)" "protos_ok (handleNewUDPConn e ch port addr c)"
proof -
  have "k_connInfos (handleNewConn e ch port addr c) \<in> {k_connInfos c, AList.update ch (new_info e ch port ''tcp'' addr) (k_connInfos c)}"
    "k_connInfos (handleNewUDPConn e ch port addr c) \<in> {k_connInfos c, AList.update ch (new_info e ch port ''udp'' addr) (k_connInfos c)}"
    by (auto simp: handleNewConn_def handleNewUDPConn_def Let_def dest!: protos_sendControl split: prod.split go.split)
  moreover have "protos_ok c'" if "k_connInfos c' \<in> {k_connInfos c, AList.update ch (new_info e ch port pr addr) (k_connInfos c)}"
      "pr \<in> {''tcp'', ''udp''}" for c' pr
  proof -
    have "in_Proto (new_info e ch port pr addr) \<in> {''tcp'', ''udp''}" using that(2) by (simp add: new_info_def)
    with that(1) protos_okI [OF _ assms] protos_update [OF assms] show ?thesis by blast
  qed
  ultimately show "protos_ok (handleNewConn e ch port addr c)" "protos_ok (handleNewUDPConn e ch port addr c)" by blast+
qed

lemma protos_data: "protos_ok c \<Longrightarrow> protos_ok (k_data e ch d c)"
  by (auto simp: k_data_def Let_def write_local_def split: option.split
      intro: protos_map [where f = "\<lambda>i. i\<lparr>in_BytesIn := in_BytesIn i + of_nat (length d)\<rparr>"])

lemma protos_close: "protos_ok c \<Longrightarrow> protos_ok (k_close ch c)"
  by (rule protos_delete [of c _ ch]) (auto simp: k_close_def Let_def close_local_def split: option.split)

lemma protos_pipe_exit: "protos_ok c \<Longrightarrow> protos_ok (snd (k_pipe_exit ch x c))" "protos_ok c \<Longrightarrow> protos_ok (snd (k_udp_pipe_exit ch x c))"
  by (rule protos_delete [of c _ ch]; simp add: k_pipe_exit_def k_udp_pipe_exit_def Let_def close_local_def)+

lemma protos_count_out: "protos_ok c \<Longrightarrow> protos_ok (k_count_out ch n c)"
  by (rule protos_map [of c]) (simp_all add: k_count_out_def)

lemma protos_write: "k_writeFrame ft ch p c = (r, c') \<Longrightarrow> protos_ok c \<Longrightarrow> protos_ok c'"
  using k_writeFrame_fields(3) [of ft ch p c] by (auto intro: protos_okI)

lemma protos_pipe:
  assumes "protos_ok c"
  shows "protos_ok (snd (k_pipe_step z ch x r c))" "protos_ok (snd (k_udp_pipe_step z ch x r c))"
  using assms by (auto simp: k_pipe_step_def k_udp_pipe_step_def protos_pipe_exit protos_count_out protos_write
      split: sum.split prod.split go.split)

lemma protos_frame: "protos_ok c \<Longrightarrow> protos_ok (k_frame z e f c)"
  by (auto simp: k_frame_def handleControl_def protos_new protos_data protos_close split: option.split)

lemma protos_run: "protos_ok c \<Longrightarrow> protos_ok (k_run z evs c)"
proof (induction z evs c rule: k_run.induct)
  case (2 z ev evs c)
  then show ?case by (cases ev) (auto simp: protos_frame protos_pipe)
qed simp

section \<open>Logs\<close>

definition level_tag :: "json option \<Rightarrow> string" where
  \<open>level_tag v = ''div class="'' @ level_class v @ [CHR 0x22]\<close>

definition dim_tag :: string where
  \<open>dim_tag = ''span class="text-dim"''\<close>

text \<open>What a browser should see for a log entry: its class, the module, the level and the message.\<close>

definition log_row :: "LogEntry \<Rightarrow> html_tok list" where
  "log_row l = [Tag (level_tag (Some (JStr (le_Level l)))), Tag dim_tag, Txt (''['' @ le_Module l @ '']''), Tag ''/span'',
     Txt ('' '' @ le_Level l @ '' '' @ le_Message l), Tag ''/div'']"

lemma log_html_pieces:
  "log_html l = tag_html (level_tag (mem l ''level'')) @ tag_html dim_tag
     @ (''['' @ to_text (mem l ''module'') @ '']'') @ tag_html ''/span''
     @ ('' '' @ to_text (mem l ''level'') @ '' '' @ esc_text (mem l ''message'')) @ tag_html ''/div''"
  by (simp add: log_html_def tag_html_def level_tag_def dim_tag_def)

lemma lex_log:
  assumes "tagless (le_Module l)" and "tagless (le_Level l)"
  shows "html_lex (log_html (log_json l) @ r) = log_row l @ html_lex r"
proof -
  have m: "mem (log_json l) ''level'' = Some (JStr (le_Level l))" "mem (log_json l) ''module'' = Some (JStr (le_Module l))"
    "mem (log_json l) ''message'' = Some (JStr (le_Message l))" by (simp_all add: log_json_def)
  have "reads_as (''['' @ le_Module l @ '']'') (''['' @ le_Module l @ '']'')" using assms by (intro tagless_reads) simp
  note a = lex_text_html [OF this]
  have "reads_as ('' '' @ le_Level l @ '' '' @ escapeHtml (le_Message l)) ('' '' @ le_Level l @ '' '' @ le_Message l)"
    using tagless_append [OF _ reads_escape, of "'' '' @ le_Level l @ '' ''" "le_Message l"] assms(2) by simp
  note b = lex_text_html [OF this]
  have "CHR ''>'' \<notin> set (level_tag (Some (JStr (le_Level l))))" "CHR ''>'' \<notin> set dim_tag"
    by (simp_all add: level_tag_def level_class_def dim_tag_def)
  with a [of "''/span''"] b [of "''/div'' "] show ?thesis
    unfolding log_html_pieces m esc_text_def log_row_def by (simp add: lex_tag_html txt_tok_def)
qed

lemma lex_logs:
  "\<forall>l \<in> set ls. tagless (le_Module l) \<and> tagless (le_Level l) \<Longrightarrow> html_lex (concat (map log_html (map log_json ls))) = concat (map log_row ls)"
  by (induction ls) (simp_all add: lex_log)

section \<open>What the page shows\<close>

lemma usable_json: "usable (fetched_of (Ret (HttpJson (JArr vs)))) = Some (JArr vs)"
  by (simp add: usable_def fetched_of_def)

lemma served:
  assumes "pg_token p = ap_guiToken (gu_app g)"
  shows "gui_serve e (updateConnections ck p) g = handleConnections e (updateConnections ck p) g"
    "gui_serve e (updateLogs ck p) g = handleLogs e (updateLogs ck p) g"
    "gui_serve e (updateStatus ck p) g = handleStatus e (updateStatus ck p) g"
proof -
  have "request_token (updateConnections ck p) = pg_token p" "request_token (updateLogs ck p) = pg_token p"
    "request_token (updateStatus ck p) = pg_token p" by (simp_all add: updateConnections_def updateLogs_def updateStatus_def)
  moreover have "hr_Path (updateConnections ck p) = ''/api/connections''" "hr_Path (updateLogs ck p) = ''/api/logs''"
    "hr_Path (updateStatus ck p) = ''/api/status''"
    by (simp_all add: updateConnections_def updateLogs_def updateStatus_def authFetch_def)
  ultimately show "gui_serve e (updateConnections ck p) g = handleConnections e (updateConnections ck p) g"
    "gui_serve e (updateLogs ck p) g = handleLogs e (updateLogs ck p) g"
    "gui_serve e (updateStatus ck p) g = handleStatus e (updateStatus ck p) g"
    using assms by (simp_all add: gui_serve_def authMiddleware_def)
qed

text \<open>
  Claim C21 (page_connections): whatever frames and data a connected client has processed, an
  update of a logged-in page shows one row per connection whose cells are the connection's data
  as text: a browser reads no tag and no other text from it, also when the server announced a
  remote address that contains markup.
\<close>

theorem page_connections:
  assumes "ap_relay (gu_app g) = Some (k_run z evs c)" and "k_connInfos c = []" and "\<And>t. tagless (ge_clock e t)"
    and "pg_token p = ap_guiToken (gu_app g)" and "GetConnections (k_run z evs c) = is"
    and "p' = updateConnections_answer (fetched_of (fst (gui_serve e (updateConnections ck p) g))) p"
  shows "html_lex (pg_html p' ''connTableBody'') = (if is = [] then html_lex no_conns_html else concat (map (conn_row e) is))
    \<and> pg_text p' ''connCount'' = itoa (int (length is))"
proof -
  have "protos_ok (k_run z evs c)" using assms(2) by (intro protos_run) (simp add: protos_ok_def GetConnections_def)
  then have "\<forall>i \<in> set is. tagless (in_Proto i)" using assms(5) by (auto simp: protos_ok_def)
  then have "html_lex (concat (map conn_html (map (conn_json e) is))) = concat (map (conn_row e) is)" by (rule lex_rows [OF _ assms(3)])
  moreover have "fst (gui_serve e (updateConnections ck p) g) = Ret (HttpJson (JArr (map (conn_json e) is)))"
    using assms(1,5) served(1) [OF assms(4)] by (simp add: handleConnections_def)
  ultimately show ?thesis unfolding assms(6) by (simp add: updateConnections_answer_def usable_json elems_def)
qed

definition demo_markup :: controlMsg where
  "demo_markup = zero_msg\<lparr>c_Type := ''new_conn'', c_ChannelID := 5, c_LocalPort := 80, c_RemoteAddr := ''<b>''\<rparr>"

definition markup_frame :: frame where
  "markup_frame = \<lparr>f_type = frameControl, f_chan = 0, f_payload = marshal_msg demo_markup\<rparr>"

definition page_cli :: cli_env where
  "page_cli = \<lparr>ce_now = 0, ce_dial = True, ce_new = 0, ce_write_ok = True\<rparr>"

theorem page_connections_witness:
  "\<exists>is p'. html_lex (pg_html p' ''connTableBody'') = conn_row page_env (new_info page_cli 5 80 ''tcp'' ''<b>'')
    \<and> map in_RemoteAddr is = [''<b>''] \<and> Txt ''<b>'' \<in> set (conn_row page_env (hd is))
    \<and> p' = updateConnections_answer (fetched_of (fst (gui_serve page_env (updateConnections None (demo_page\<lparr>pg_token := ''t''\<rparr>))
        (demo_gui\<lparr>gu_app := (gu_app demo_gui)\<lparr>ap_relay := Some (k_run toy_lz4 [KFrame page_cli markup_frame] demo_k)\<rparr>\<rparr>))))
        (demo_page\<lparr>pg_token := ''t''\<rparr>)"
proof -
  let ?c = "k_run toy_lz4 [KFrame page_cli markup_frame] demo_k" and ?i = "new_info page_cli 5 80 ''tcp'' ''<b>''"
  have "unmarshal_msg (marshal_msg demo_markup) = Some demo_markup"
    by (rule unmarshal_marshal) (simp add: demo_markup_def control_ok_def zero_msg_def int64_def)
  then have "?c = handleNewConn page_cli 5 80 ''<b>'' demo_k"
    by (simp add: k_frame_def markup_frame_def handleControl_def) (simp add: demo_markup_def)
  then have c: "GetConnections ?c = [?i]"
    by (auto simp: handleNewConn_def page_cli_def GetConnections_def demo_k_def Let_def dest!: protos_sendControl split: prod.split go.split)
  let ?g = "demo_gui\<lparr>gu_app := (gu_app demo_gui)\<lparr>ap_relay := Some ?c\<rparr>\<rparr>" and ?p = "demo_page\<lparr>pg_token := ''t''\<rparr>"
  have a: "ap_relay (gu_app ?g) = Some ?c" "pg_token ?p = ap_guiToken (gu_app ?g)" "k_connInfos demo_k = []"
    by (simp_all add: demo_k_def)
  have e: "tagless (ge_clock page_env t)" for t by (simp add: page_env_def)
  from page_connections [OF a(1,3) e a(2) c refl, of None] show ?thesis
    by (intro exI [of _ "[?i]"]) (auto simp: new_info_def conn_row_def cell_def txt_tok_def)
qed

text \<open>
  Claim C24 (page_logs): an update of a logged-in page shows one line per log entry that reads as
  the entry's module, level and message, whatever markup the message contains.
\<close>

theorem page_logs:
  assumes "\<forall>l \<in> set (GetRecentLogs (ap_logs (gu_app g))). tagless (le_Module l) \<and> tagless (le_Level l)"
    and "pg_token p = ap_guiToken (gu_app g)"
    and "p' = updateLogs_answer (fetched_of (fst (gui_serve e (updateLogs ck p) g))) p"
  shows "html_lex (pg_html p' ''logsWindow'') = concat (map log_row (GetRecentLogs (ap_logs (gu_app g))))"
proof -
  have "fst (gui_serve e (updateLogs ck p) g) = Ret (HttpJson (JArr (map log_json (GetRecentLogs (ap_logs (gu_app g))))))"
    using served(2) [OF assms(2)] by (simp add: handleLogs_def)
  then show ?thesis unfolding assms(3) using lex_logs [OF assms(1)] by (simp add: updateLogs_answer_def usable_json elems_def)
qed

theorem page_logs_witness:
  "\<exists>p'. html_lex (pg_html p' ''logsWindow'') = [Tag (level_tag (Some (JStr ''WARN''))), Tag dim_tag, Txt ''[relay]'', Tag ''/span'',
      Txt '' WARN a<b & <script>'', Tag ''/div'']
    \<and> p' = updateLogs_answer (fetched_of (fst (gui_serve page_env (updateLogs None (demo_page\<lparr>pg_token := ''t''\<rparr>))
        (demo_gui\<lparr>gu_app := (gu_app demo_gui)\<lparr>ap_logs := log_Warn ''relay'' ''a<b & <script>'' logs_init\<rparr>\<rparr>))))
        (demo_page\<lparr>pg_token := ''t''\<rparr>)"
proof -
  let ?l = "log_Warn ''relay'' ''a<b & <script>'' logs_init"
  let ?g = "demo_gui\<lparr>gu_app := (gu_app demo_gui)\<lparr>ap_logs := ?l\<rparr>\<rparr>" and ?p = "demo_page\<lparr>pg_token := ''t''\<rparr>"
  have l: "GetRecentLogs (ap_logs (gu_app ?g)) = [log_entry ''relay'' ''WARN'' ''a<b & <script>'']"
    by (simp add: GetRecentLogs_def log_Warn_def addLog_def logs_init_def maxLogs_def)
  then have "\<forall>l \<in> set (GetRecentLogs (ap_logs (gu_app ?g))). tagless (le_Module l) \<and> tagless (le_Level l)"
    by (simp add: log_entry_def)
  from page_logs [OF this _ refl, of ?p page_env None] show ?thesis
    unfolding l by (simp add: log_row_def) (simp add: log_entry_def)
qed

end
