(* ===== verification/Forward.thy ===== *)
theory Forward
  imports Prelude Stun "HOL-Library.Sublist"
begin

text \<open>
  The direct forwarders (\<open>forward/forward.go\<close>) and the keepalive of a full-cone mapping
  (\<open>keepalive/keepalive.go\<close>). A TCP connection is two copies in either direction, each a
  goroutine; their steps interleave. A UDP datagram is one exchange.
\<close>

section \<open>TCP\<close>

text \<open>What a read of the source gives, in order, and how many bytes the destination still takes.\<close>

datatype src = Chunk bytes | SrcClosed | SrcFailed

record direction =
  dr_in :: "src list"
  dr_out :: bytes
  dr_room :: "nat option"
  dr_done :: bool

text \<open>
  One round of \<open>io.Copy\<close>; a source with nothing to read yet blocks it. A failed or short write
  ends it like the end of the source, and the goroutine then closes the write side.
\<close>

definition copy_step :: "direction \<Rightarrow> direction option" where
  "copy_step d =
     (if dr_done d then None
      else (case dr_in d of
              [] \<Rightarrow> None
            | Chunk b # rest \<Rightarrow>
                (case dr_room d of
                   None \<Rightarrow> Some (d\<lparr>dr_in := rest, dr_out := dr_out d @ b\<rparr>)
                 | Some k \<Rightarrow>
                     if length b \<le> k then Some (d\<lparr>dr_in := rest, dr_out := dr_out d @ b, dr_room := Some (k - length b)\<rparr>)
                     else Some (d\<lparr>dr_in := rest, dr_out := dr_out d @ take k b, dr_room := Some 0, dr_done := True\<rparr>))
            | _ # rest \<Rightarrow> Some (d\<lparr>dr_in := rest, dr_done := True\<rparr>)))"

text \<open>A forwarded connection: to the target, back to the client, and whether both were closed.\<close>

record tcp_forward =
  tf_up :: direction
  tf_down :: direction
  tf_closed :: bool

datatype forward_event = CopyUp | CopyDown | WaitDone

fun forward_exec :: "forward_event \<Rightarrow> tcp_forward \<Rightarrow> tcp_forward option" where
  "forward_exec CopyUp f = map_option (\<lambda>d. f\<lparr>tf_up := d\<rparr>) (copy_step (tf_up f))"
| "forward_exec CopyDown f = map_option (\<lambda>d. f\<lparr>tf_down := d\<rparr>) (copy_step (tf_down f))"
| "forward_exec WaitDone f =
     (if dr_done (tf_up f) \<and> dr_done (tf_down f) \<and> \<not> tf_closed f then Some (f\<lparr>tf_closed := True\<rparr>) else None)"

fun forward_run :: "forward_event list \<Rightarrow> tcp_forward \<Rightarrow> tcp_forward option" where
  "forward_run [] f = Some f"
| "forward_run (ev # evs) f = Option.bind (forward_exec ev f) (forward_run evs)"

text \<open>A new connection, None when the target cannot be reached: then the client is closed at once.\<close>

definition handleTCPConn :: "bool \<Rightarrow> src list \<Rightarrow> nat option \<Rightarrow> src list \<Rightarrow> nat option \<Rightarrow> tcp_forward option" where
  "handleTCPConn reached fromClient targetRoom fromTarget clientRoom =
     (if \<not> reached then None
      else Some \<lparr>tf_up = \<lparr>dr_in = fromClient, dr_out = [], dr_room = targetRoom, dr_done = False\<rparr>,
                 tf_down = \<lparr>dr_in = fromTarget, dr_out = [], dr_room = clientRoom, dr_done = False\<rparr>, tf_closed = False\<rparr>)"

text \<open>The accept loop: what it gets from \<open>Accept\<close>, and the connections it starts.\<close>

definition ForwardTCP :: "bool \<Rightarrow> 'c option list \<Rightarrow> 'c list option" where
  "ForwardTCP listens accepts = (if listens then Some (List.map_filter (\<lambda>c. c) accepts) else None)"

section \<open>UDP\<close>

record udp_exchange =
  ux_dial :: bool
  ux_write :: bool
  ux_deadline :: bool
  ux_reply :: "bytes option"
  ux_back :: bool

text \<open>What the target gets and what the client gets for one datagram.\<close>

definition forward_datagram :: "udp_exchange \<Rightarrow> bytes \<Rightarrow> bytes option \<times> bytes option" where
  "forward_datagram x data =
     (if \<not> ux_dial x \<or> \<not> ux_write x then (None, None)
      else (Some data,
        if \<not> ux_deadline x then None
        else (case ux_reply x of None \<Rightarrow> None | Some r \<Rightarrow> if ux_back x then Some r else None)))"

text \<open>
  The read loop: the addresses resolve and the port can be listened on, or it ends with an
  error; each datagram read starts an exchange, a failed read starts nothing.
\<close>

definition ForwardUDP :: "bool \<Rightarrow> bool \<Rightarrow> bool \<Rightarrow> (bytes \<times> 'c) option list \<Rightarrow> (bytes \<times> 'c) list option" where
  "ForwardUDP listenResolves targetResolves listens reads =
     (if \<not> listenResolves \<or> \<not> targetResolves \<or> \<not> listens then None
      else Some (List.map_filter (map_option (\<lambda>(data, c). (take 65535 data, c))) reads))"

section \<open>Keepalive\<close>

text \<open>One tick: the new last address and the change that is logged, if any.\<close>

definition keepalive_tick :: "(stun_addr \<Rightarrow> string) \<Rightarrow> (stun_err, stun_addr) go \<Rightarrow> string
    \<Rightarrow> (unit, string \<times> (string \<times> string) option) go" where
  "keepalive_tick addr_text r lastAddr =
     (case r of
        Panic \<Rightarrow> Panic
      | Err _ \<Rightarrow> Ret (lastAddr, None)
      | Ret addr \<Rightarrow>
          (let currentAddr = addr_text addr
           in Ret (currentAddr, if lastAddr \<noteq> [] \<and> currentAddr \<noteq> lastAddr then Some (lastAddr, currentAddr) else None)))"

text \<open>The loop, until the stop channel is closed: the changes it logs.\<close>

datatype keepalive_event =
    KaStop
  | KaTick "(stun_err, stun_addr) go"

fun Keepalive :: "(stun_addr \<Rightarrow> string) \<Rightarrow> keepalive_event list \<Rightarrow> string \<Rightarrow> (unit, (string \<times> string) list) go" where
  "Keepalive addr_text [] lastAddr = Ret []"
| "Keepalive addr_text (KaStop # evs) lastAddr = Ret []"
| "Keepalive addr_text (KaTick r # evs) lastAddr =
     (case keepalive_tick addr_text r lastAddr of
        Panic \<Rightarrow> Panic
      | Err e \<Rightarrow> Err e
      | Ret (currentAddr, change) \<Rightarrow>
          (case Keepalive addr_text evs currentAddr of
             Ret changes \<Rightarrow> Ret (case change of None \<Rightarrow> changes | Some c \<Rightarrow> c # changes)
           | Err e \<Rightarrow> Err e
           | Panic \<Rightarrow> Panic))"

text \<open>The answers of a list of exchanges, as texts.\<close>

fun answered :: "(stun_addr \<Rightarrow> string) \<Rightarrow> (stun_err, stun_addr) go list \<Rightarrow> string list" where
  "answered addr_text [] = []"
| "answered addr_text (Ret a # rs) = addr_text a # answered addr_text rs"
| "answered addr_text (_ # rs) = answered addr_text rs"

text \<open>It logs exactly the changes between successive answers; failed exchanges do not count.\<close>

lemma keepalive_changes:
  assumes "\<And>a. addr_text a \<noteq> []" and "Panic \<notin> set rs"
  shows "Keepalive addr_text (map KaTick rs) lastAddr
    = Ret (let l = (if lastAddr = [] then [] else [lastAddr]) @ answered addr_text rs
           in filter (\<lambda>(a, b). a \<noteq> b) (zip l (tl l)))"
  using assms(2)
proof (induction rs arbitrary: lastAddr)
  case (Cons r rs)
  then have IH: "Keepalive addr_text (map KaTick rs) l = Ret (let m = (if l = [] then [] else [l]) @ answered addr_text rs
      in filter (\<lambda>(a, b). a \<noteq> b) (zip m (tl m)))" for l by simp
  show ?case using Cons.prems assms(1)
    by (cases r) (auto simp: keepalive_tick_def IH Let_def)
qed simp

section \<open>Copies\<close>

fun src_bytes :: "src list \<Rightarrow> bytes" where
  "src_bytes (Chunk b # s) = b @ src_bytes s"
| "src_bytes _ = []"

text \<open>
  What was and what will be delivered; a copy without a limit that is over has delivered all.
\<close>

definition copy_ok :: "bytes \<Rightarrow> direction \<Rightarrow> bool" where
  "copy_ok full d \<longleftrightarrow> prefix (dr_out d) full
     \<and> (\<not> dr_done d \<longrightarrow> dr_out d @ src_bytes (dr_in d) = full)
     \<and> (dr_room d = None \<longrightarrow> dr_done d \<longrightarrow> dr_out d = full)"

lemma copy_step_ok:
  assumes "copy_step d = Some d'" and "copy_ok full d"
  shows "copy_ok full d' \<and> length (dr_in d) = Suc (length (dr_in d')) \<and> (dr_room d' = None) = (dr_room d = None)"
proof (cases "dr_in d")
  case (Cons s rest)
  have nd: "\<not> dr_done d" using assms(1) by (auto simp: copy_step_def split: if_splits)
  then have tot: "dr_out d @ src_bytes (s # rest) = full" using assms(2) Cons by (simp add: copy_ok_def)
  show ?thesis
  proof (cases s)
    case (Chunk b)
    have "prefix (dr_out d @ take k b) full" for k
      using tot Chunk by (auto intro!: prefixI [of _ _ "drop k b @ src_bytes rest"])
    then show ?thesis using assms(1) Cons nd Chunk tot
      by (auto simp: copy_step_def copy_ok_def split: option.splits if_splits)
  qed (use assms(1) Cons nd tot in \<open>auto simp: copy_step_def copy_ok_def\<close>)
qed (use assms(1) in \<open>auto simp: copy_step_def split: if_splits\<close>)

definition ends :: "direction \<Rightarrow> bool" where
  "ends d \<longleftrightarrow> dr_done d \<or> SrcClosed \<in> set (dr_in d)"

lemma copy_step_ends: "copy_step d = Some d' \<Longrightarrow> ends d \<Longrightarrow> ends d'"
  by (auto simp: copy_step_def ends_def split: if_splits list.splits src.splits option.splits)

lemma ends_progress: "ends d \<Longrightarrow> dr_done d \<or> copy_step d \<noteq> None"
  by (auto simp: copy_step_def ends_def split: list.splits src.splits option.splits)

text \<open>The state of a connection with the steps it has left: one for every read and the last.\<close>

definition forward_ok :: "bytes \<Rightarrow> bytes \<Rightarrow> bool \<Rightarrow> bool \<Rightarrow> nat \<Rightarrow> tcp_forward \<Rightarrow> bool" where
  "forward_ok u d nu nd n f \<longleftrightarrow> copy_ok u (tf_up f) \<and> copy_ok d (tf_down f)
     \<and> (dr_room (tf_up f) = None) = nu \<and> (dr_room (tf_down f) = None) = nd
     \<and> length (dr_in (tf_up f)) + length (dr_in (tf_down f)) + (if tf_closed f then 0 else 1) = n
     \<and> (tf_closed f \<longrightarrow> dr_done (tf_up f) \<and> dr_done (tf_down f))"

lemma forward_exec_ok:
  assumes "forward_ok u d nu nd n f" and "forward_exec ev f = Some f'"
  shows "forward_ok u d nu nd (n - 1) f' \<and> n > 0 \<and> (ends (tf_up f) \<longrightarrow> ends (tf_up f')) \<and> (ends (tf_down f) \<longrightarrow> ends (tf_down f'))"
proof (cases ev)
  case CopyUp
  with assms(2) obtain x where x: "copy_step (tf_up f) = Some x" "f' = f\<lparr>tf_up := x\<rparr>" by auto
  then have "\<not> dr_done (tf_up f)" by (simp add: copy_step_def split: if_splits)
  then show ?thesis using assms(1) x copy_step_ok [OF x(1), of u] copy_step_ends [OF x(1)] by (auto simp: forward_ok_def)
next
  case CopyDown
  with assms(2) obtain x where x: "copy_step (tf_down f) = Some x" "f' = f\<lparr>tf_down := x\<rparr>" by auto
  then have "\<not> dr_done (tf_down f)" by (simp add: copy_step_def split: if_splits)
  then show ?thesis using assms(1) x copy_step_ok [OF x(1), of d] copy_step_ends [OF x(1)] by (auto simp: forward_ok_def)
next
  case WaitDone
  then show ?thesis using assms by (auto simp: forward_ok_def split: if_splits)
qed

lemma forward_run_ok:
  assumes "forward_ok u d nu nd n f" and "forward_run evs f = Some f'"
  shows "forward_ok u d nu nd (n - length evs) f' \<and> length evs \<le> n
    \<and> (ends (tf_up f) \<longrightarrow> ends (tf_up f')) \<and> (ends (tf_down f) \<longrightarrow> ends (tf_down f'))"
  using assms
proof (induction evs arbitrary: n f)
  case (Cons ev evs)
  then obtain g where g: "forward_exec ev f = Some g" "forward_run evs g = Some f'"
    by (auto simp: bind_eq_Some_conv)
  note s = forward_exec_ok [OF Cons.prems(1) g(1)]
  from Cons.IH [OF _ g(2), of "n - 1"] s show ?case by auto
qed simp



end
